(* ===== verification/Prelude.thy ===== *)
theory Prelude
  imports Main "HOL-Library.Word" "HOL-Library.Monad_Syntax" "HOL-Library.Signed_Division"
begin

text \<open>
  What every component of the kernel model shares: the machine types, the way a routine that
  does not come back is represented, the loop combinator with its proof rules, the byte and word
  accessors used for structures that live inside disk blocks, and the fact collections.

  A kernel routine is a function from its arguments and the kernel state to an \<open>option\<close>. \<open>None\<close>
  says that the call does not return to its caller: the kernel panicked, the calling process was
  killed, a null pointer was dereferenced, or the process sleeps and is never woken. Everything
  the C code returns, error codes included, is a \<open>Some\<close> value.
\<close>

unbundle bit_operations_syntax

section \<open>Machine types and calls that do not return\<close>

type_synonym u8 = "8 word"
type_synonym u16 = "16 word"
type_synonym u32 = "32 word"

text \<open>\<open>panic\<close> prints its message and loops for ever (kernel/panic.c).\<close>

definition panic :: "string \<Rightarrow> 'a option" where
  "panic msg = None"

text \<open>A dereference of the null pointer that the code does not guard against.\<close>

definition null_deref :: "'a option" where
  "null_deref = None"

text \<open>The arguments of a loop ran out before the loop ended.\<close>

definition loops :: "'a option" where
  "loops = None"

named_theorems halts \<open>calls that do not return\<close>

declare panic_def [halts] null_deref_def [halts] loops_def [halts]

named_theorems frame \<open>which parts of the state an operation leaves alone\<close>

section \<open>Bounded loops\<close>

text \<open>The body of a C \<open>for\<close> loop, run once for each value of its control variable.\<close>

fun for_each :: "'i list \<Rightarrow> ('i \<Rightarrow> 's \<Rightarrow> 's option) \<Rightarrow> 's \<Rightarrow> 's option" where
  "for_each [] f s = Some s"
| "for_each (i # is) f s = (case f i s of None \<Rightarrow> None | Some t \<Rightarrow> for_each is f t)"

lemma for_each_append:
  "for_each (xs @ ys) f s = (case for_each xs f s of None \<Rightarrow> None | Some t \<Rightarrow> for_each ys f t)"
  by (induction xs arbitrary: s) (auto split: option.splits)

lemma for_each_inv:
  assumes "for_each is f s = Some t" "I s"
    and "\<And>i u v. i \<in> set is \<Longrightarrow> I u \<Longrightarrow> f i u = Some v \<Longrightarrow> I v"
  shows "I t"
  using assms
proof (induction "is" arbitrary: s)
  case (Cons i xs)
  from Cons.prems(1) obtain u where u: "f i s = Some u" "for_each xs f u = Some t"
    by (auto split: option.splits)
  have "I u" using Cons.prems(2,3) u(1) by auto
  then show ?case using Cons.IH [OF u(2)] Cons.prems(3) by auto
qed simp

lemma for_each_total:
  assumes "I s"
    and "\<And>i u. i \<in> set is \<Longrightarrow> I u \<Longrightarrow> \<exists>v. f i u = Some v \<and> I v"
  shows "\<exists>t. for_each is f s = Some t \<and> I t"
  using assms
proof (induction "is" arbitrary: s)
  case (Cons i xs)
  then obtain u where "f i s = Some u" "I u" by fastforce
  with Cons show ?case by fastforce
qed simp

lemma for_each_pure [simp]: "for_each is (\<lambda>i s. Some (g i s)) s = Some (fold g is s)"
  by (induction "is" arbitrary: s) auto

section \<open>Options\<close>

lemma bind_SomeE:
  assumes "m \<bind> f = Some y"
  obtains x where "m = Some x" "f x = Some y"
  using assms by (cases m) auto

lemma bind_Some_iff: "(m \<bind> f = Some y) \<longleftrightarrow> (\<exists>x. m = Some x \<and> f x = Some y)"
  by (cases m) auto

lemma find_Some_first:
  assumes "find P [a..<b] = Some i"
  shows "a \<le> i" "i < b" "P i" "\<And>j. a \<le> j \<Longrightarrow> j < i \<Longrightarrow> \<not> P j"
proof -
  from assms obtain k where k: "k < length [a..<b]" "P ([a..<b] ! k)" "i = [a..<b] ! k"
      "\<forall>j<k. \<not> P ([a..<b] ! j)"
    by (auto simp: find_Some_iff)
  then have i: "i = a + k" by simp
  with k show "a \<le> i" "i < b" "P i" by auto
  fix j assume "a \<le> j" "j < i"
  then have "j - a < k" using i by auto
  with k \<open>a \<le> j\<close> show "\<not> P j" by force
qed

lemma find_None_upt: "find P [a..<b] = None \<longleftrightarrow> (\<forall>i. a \<le> i \<longrightarrow> i < b \<longrightarrow> \<not> P i)"
  by (auto simp: find_None_iff)

section \<open>Bytes and shorts in memory blocks\<close>

text \<open>
  A block of memory is a function from byte offsets to bytes; the i386 is little-endian. \<open>rd16\<close>
  and \<open>wr16\<close> are the accesses through an \<open>unsigned short *\<close>, at a byte offset.
\<close>

definition rd16 :: "(nat \<Rightarrow> u8) \<Rightarrow> nat \<Rightarrow> u16" where
  "rd16 d off = (ucast (d off) :: u16) OR push_bit 8 (ucast (d (off + 1)))"

definition wr16 :: "(nat \<Rightarrow> u8) \<Rightarrow> nat \<Rightarrow> u16 \<Rightarrow> (nat \<Rightarrow> u8)" where
  "wr16 d off v = d(off := ucast v, off + 1 := ucast (drop_bit 8 v))"

definition rd32 :: "(nat \<Rightarrow> u8) \<Rightarrow> nat \<Rightarrow> u32" where
  "rd32 d off = (ucast (rd16 d off) :: u32) OR push_bit 16 (ucast (rd16 d (off + 2)))"

definition wr32 :: "(nat \<Rightarrow> u8) \<Rightarrow> nat \<Rightarrow> u32 \<Rightarrow> (nat \<Rightarrow> u8)" where
  "wr32 d off v = wr16 (wr16 d off (ucast v)) (off + 2) (ucast (drop_bit 16 v))"

lemma rd16_wr16_same [simp]: "rd16 (wr16 d off v) off = v"
  by (rule bit_word_eqI) (auto simp: rd16_def wr16_def bit_simps)

lemma rd16_wr16_other [simp]:
  "off' + 1 < off \<or> off + 1 < off' \<Longrightarrow> rd16 (wr16 d off v) off' = rd16 d off'"
  by (auto simp: rd16_def wr16_def)

lemma wr16_other: "k \<noteq> off \<Longrightarrow> k \<noteq> off + 1 \<Longrightarrow> wr16 d off v k = d k"
  by (simp add: wr16_def)

lemma rd32_wr32_same [simp]: "rd32 (wr32 d off v) off = v"
  by (rule bit_word_eqI) (auto simp: rd32_def wr32_def bit_simps)

lemma rd32_wr32_other [simp]:
  "off' + 3 < off \<or> off + 3 < off' \<Longrightarrow> rd32 (wr32 d off v) off' = rd32 d off'"
  by (auto simp: rd32_def wr32_def)

lemma rd16_wr32_other [simp]:
  "off' + 1 < off \<or> off + 3 < off' \<Longrightarrow> rd16 (wr32 d off v) off' = rd16 d off'"
  by (auto simp: wr32_def)

lemma rd32_wr16_other [simp]:
  "off' + 3 < off \<or> off + 1 < off' \<Longrightarrow> rd32 (wr16 d off v) off' = rd32 d off'"
  by (auto simp: rd32_def)

section \<open>Words\<close>

lemma word_le_and_left: "(a :: 'a::len word) AND b \<le> a"
  by (simp add: word_and_le2)

lemma word_pos_dec:
  assumes "(w :: 'a::len word) \<noteq> 0"
  shows "unat (w - 1) = unat w - 1"
  using assms by (simp add: unat_minus_one)

lemma unat_add_le:
  assumes "unat (a :: u32) + unat b < 2 ^ 32"
  shows "unat (a + b) = unat a + unat b"
  using assms by (simp add: unat_word_ariths)

lemma unat_mult_le:
  assumes "unat (a :: u32) * unat b < 2 ^ 32"
  shows "unat (a * b) = unat a * unat b"
  using assms by (simp add: unat_word_ariths)

lemma unat_sub_le: "unat b \<le> unat (a :: u32) \<Longrightarrow> unat (a - b) = unat a - unat b"
  by (simp add: unat_sub_if')

lemma unat_drop_bit_div: "unat (drop_bit n (w :: 'a::len word)) = unat w div 2 ^ n"
  by (subst unat_drop_bit_eq) (rule drop_bit_eq_div)

section \<open>Searching lists\<close>

lemma find_append: "find P (xs @ ys) = (case find P xs of None \<Rightarrow> find P ys | Some x \<Rightarrow> Some x)"
  by (induction xs) auto

lemma find_map_option: "find P (map f xs) = map_option f (find (P \<circ> f) xs)"
  by (induction xs) auto

lemma find_shift:
  "find P [a..<a + n] = map_option ((+) a) (find (\<lambda>i. P (a + i)) [0..<n])"
proof -
  have "[a..<a + n] = map ((+) a) [0..<n]" by (rule nth_equalityI) auto
  then show ?thesis by (simp add: find_map_option comp_def)
qed

lemma takeWhile_eq_iff:
  "(\<forall>y\<in>set ys. P y) \<Longrightarrow>
   takeWhile P xs = ys \<longleftrightarrow>
   length ys \<le> length xs \<and> take (length ys) xs = ys \<and> (length ys < length xs \<longrightarrow> \<not> P (xs ! length ys))"
proof (induction ys arbitrary: xs)
  case Nil
  then show ?case by (cases xs) auto
next
  case (Cons y ys)
  then show ?case by (cases xs) auto
qed

end
