(* ===== verification/Kernel_State.thy ===== *)
theory Kernel_State
  imports Prelude
begin

text \<open>
  The data of the kernel: the structures of include/linux/sched.h, include/linux/fs.h,
  include/signal.h and kernel/blk_drv/blk.h as records, and the kernel's global variables as the
  fields of one record.

  Conventions. A C array is a function from indices; a pointer into a fixed table is the index,
  \<open>None\<close> the null pointer; an \<open>unsigned char/short/long\<close> field is a word of 8, 16 or 32 bits, a
  flag that only ever holds 0 or 1 is a \<open>bool\<close>, a signed \<open>int\<close> or \<open>long\<close> is an \<open>int\<close>. The data
  block of a buffer head is kept in the head (\<open>b_data\<close>), since \<open>buffer_init\<close> ties each head to one
  block for ever. Other physical memory is seen through two typed views, \<open>hw32\<close> for the longs of
  the page directory and the page tables and \<open>hw8\<close> for bytes.

  The record \<open>tables\<close> holds what all processes share. The record \<open>kernel\<close> adds what belongs to the
  running process: its task slot, the memory it reaches through the fs segment, and \<open>wakes\<close>. Each
  time the process sleeps, other processes and interrupts run and may leave anything in the shared
  tables; \<open>wakes\<close> lists the tables as they will be found at the successive wake-ups. A theorem that
  does not restrict \<open>wakes\<close> therefore holds under every interleaving.
\<close>

section \<open>Constants\<close>

abbreviation "NR_OPEN \<equiv> (20::nat)"
abbreviation "NR_INODE \<equiv> (32::nat)"
abbreviation "NR_FILE \<equiv> (64::nat)"
abbreviation "NR_SUPER \<equiv> (8::nat)"
abbreviation "NR_HASH \<equiv> (307::nat)"
abbreviation "NR_TASKS \<equiv> (64::nat)"
abbreviation "NR_REQUEST \<equiv> (32::nat)"
abbreviation "NR_BLK_DEV \<equiv> (7::nat)"
abbreviation "BLOCK_SIZE \<equiv> (1024::nat)"
abbreviation "NAME_LEN \<equiv> (14::nat)"
abbreviation "ROOT_INO \<equiv> (1::int)"
abbreviation "HZ \<equiv> (100::int)"

abbreviation "ERROR \<equiv> (99::int)"
abbreviation "EPERM \<equiv> (1::int)"
abbreviation "ENOENT \<equiv> (2::int)"
abbreviation "ESRCH \<equiv> (3::int)"
abbreviation "EINTR \<equiv> (4::int)"
abbreviation "EIO \<equiv> (5::int)"
abbreviation "EBADF \<equiv> (9::int)"
abbreviation "ECHILD \<equiv> (10::int)"
abbreviation "EAGAIN \<equiv> (11::int)"
abbreviation "ENOMEM \<equiv> (12::int)"
abbreviation "EACCES \<equiv> (13::int)"
abbreviation "ENOTBLK \<equiv> (15::int)"
abbreviation "EBUSY \<equiv> (16::int)"
abbreviation "EEXIST \<equiv> (17::int)"
abbreviation "EXDEV \<equiv> (18::int)"
abbreviation "ENODEV \<equiv> (19::int)"
abbreviation "ENOTDIR \<equiv> (20::int)"
abbreviation "EISDIR \<equiv> (21::int)"
abbreviation "EINVAL \<equiv> (22::int)"
abbreviation "EMFILE \<equiv> (24::int)"
abbreviation "ENOTTY \<equiv> (25::int)"
abbreviation "ENOSPC \<equiv> (28::int)"
abbreviation "ESPIPE \<equiv> (29::int)"
abbreviation "ENOSYS \<equiv> (38::int)"
abbreviation "ENOTEMPTY \<equiv> (39::int)"

abbreviation "TASK_RUNNING \<equiv> (0::int)"
abbreviation "TASK_INTERRUPTIBLE \<equiv> (1::int)"
abbreviation "TASK_UNINTERRUPTIBLE \<equiv> (2::int)"
abbreviation "TASK_ZOMBIE \<equiv> (3::int)"
abbreviation "TASK_STOPPED \<equiv> (4::int)"

abbreviation "SIGHUP \<equiv> (1::nat)"
abbreviation "SIGKILL \<equiv> (9::nat)"
abbreviation "SIGSEGV \<equiv> (11::nat)"
abbreviation "SIGPIPE \<equiv> (13::nat)"
abbreviation "SIGALRM \<equiv> (14::nat)"
abbreviation "SIGCHLD \<equiv> (17::nat)"
abbreviation "SIGSTOP \<equiv> (19::nat)"

text \<open>The flags of include/termios.h that the terminal driver looks at.\<close>

abbreviation "INLCR \<equiv> (64::u32)"
abbreviation "IGNCR \<equiv> (128::u32)"
abbreviation "ICRNL \<equiv> (256::u32)"
abbreviation "IUCLC \<equiv> (512::u32)"
abbreviation "OPOST \<equiv> (1::u32)"
abbreviation "OLCUC \<equiv> (2::u32)"
abbreviation "ONLCR \<equiv> (4::u32)"
abbreviation "OCRNL \<equiv> (8::u32)"
abbreviation "ONLRET \<equiv> (32::u32)"
abbreviation "B2400 \<equiv> (11::u32)"
abbreviation "CS8 \<equiv> (48::u32)"
abbreviation "CBAUD \<equiv> (15::u32)"
abbreviation "ISIG \<equiv> (1::u32)"
abbreviation "ICANON \<equiv> (2::u32)"
abbreviation "ECHO \<equiv> (8::u32)"
abbreviation "ECHOCTL \<equiv> (512::u32)"
abbreviation "ECHOKE \<equiv> (2048::u32)"

text \<open>\<open>MAJOR\<close> casts to unsigned and shifts; \<open>MINOR\<close> masks the low byte.\<close>

definition MAJOR :: "int \<Rightarrow> nat" where
  "MAJOR a = unat (drop_bit 8 (word_of_int a :: u32))"

definition MINOR :: "int \<Rightarrow> int" where
  "MINOR a = a AND 255"

definition IS_SEEKABLE :: "nat \<Rightarrow> bool" where
  "IS_SEEKABLE x \<longleftrightarrow> x \<ge> 1 \<and> x \<le> 3"

definition S_ISREG :: "u16 \<Rightarrow> bool" where "S_ISREG m \<longleftrightarrow> m AND 0xF000 = 0x8000"
definition S_ISDIR :: "u16 \<Rightarrow> bool" where "S_ISDIR m \<longleftrightarrow> m AND 0xF000 = 0x4000"
definition S_ISCHR :: "u16 \<Rightarrow> bool" where "S_ISCHR m \<longleftrightarrow> m AND 0xF000 = 0x2000"
definition S_ISBLK :: "u16 \<Rightarrow> bool" where "S_ISBLK m \<longleftrightarrow> m AND 0xF000 = 0x6000"

section \<open>Structures\<close>

record sigaction =
  sa_handler :: u32
  sa_mask :: u32
  sa_flags :: u32
  sa_restorer :: u32

record tss_struct =
  back_link :: u32
  esp0 :: u32
  ss0 :: u32
  tss_eip :: u32
  tss_eflags :: u32
  tss_eax :: u32
  tss_ecx :: u32
  tss_edx :: u32
  tss_ebx :: u32
  tss_esp :: u32
  tss_ebp :: u32
  tss_esi :: u32
  tss_edi :: u32
  tss_es :: u32
  tss_cs :: u32
  tss_ss :: u32
  tss_ds :: u32
  tss_fs :: u32
  tss_gs :: u32
  tss_ldt :: u32
  trace_bitmap :: u32

text \<open>
  \<open>ldt_base\<close> and \<open>ldt_limit\<close> are what \<open>get_base\<close>, \<open>set_base\<close> and \<open>get_limit\<close> read and write in
  \<open>ldt[1]\<close> and \<open>ldt[2]\<close>; \<open>t_page\<close> is the address of the page the structure itself lives in.
\<close>

record task_struct =
  state :: int
  counter :: int
  priority :: int
  signal :: u32
  sigactions :: "nat \<Rightarrow> sigaction"
  blocked :: u32
  exit_code :: int
  start_code :: u32
  end_code :: u32
  end_data :: u32
  brk :: u32
  start_stack :: u32
  pid :: int
  father :: int
  pgrp :: int
  session :: int
  leader :: bool
  uid :: u16
  euid :: u16
  suid :: u16
  gid :: u16
  egid :: u16
  sgid :: u16
  alarm :: int
  utime :: int
  stime :: int
  cutime :: int
  cstime :: int
  start_time :: int
  used_math :: bool
  tty :: int
  umask :: u16
  pwd :: "nat option"
  root :: "nat option"
  executable :: "nat option"
  close_on_exec :: u32
  filp :: "nat \<Rightarrow> nat option"
  ldt_base :: "nat \<Rightarrow> u32"
  ldt_limit :: "nat \<Rightarrow> u32"
  tss :: tss_struct
  t_page :: u32

record buffer_head =
  b_data :: "nat \<Rightarrow> u8"
  b_blocknr :: u32
  b_dev :: u16
  b_uptodate :: bool
  b_dirt :: bool
  b_count :: u8
  b_lock :: bool
  b_wait :: "nat option"
  b_prev :: "nat option"
  b_next :: "nat option"
  b_prev_free :: "nat option"
  b_next_free :: "nat option"

text \<open>The part of an inode that is on disk is \<open>d_inode\<close>; \<open>m_inode\<close> extends it as the C
  structure does, whose first 32 bytes are a \<open>d_inode\<close>.\<close>

record d_inode =
  i_mode :: u16
  i_uid :: u16
  i_size :: u32
  i_mtime :: u32
  i_gid :: u8
  i_nlinks :: u8
  i_zone :: "nat \<Rightarrow> u16"

record m_inode = d_inode +
  i_wait :: "nat option"
  i_atime :: u32
  i_ctime :: u32
  i_dev :: u16
  i_num :: u16
  i_count :: u16
  i_lock :: bool
  i_dirt :: bool
  i_pipe :: bool
  i_mount :: bool
  i_seek :: bool
  i_update :: bool

record file_struct =
  f_mode :: u16
  f_flags :: u16
  f_count :: u16
  f_inode :: "nat option"
  f_pos :: int

record d_super_block =
  s_ninodes :: u16
  s_nzones :: u16
  s_imap_blocks :: u16
  s_zmap_blocks :: u16
  s_firstdatazone :: u16
  s_log_zone_size :: u16
  s_max_size :: u32
  s_magic :: u16

record super_block = d_super_block +
  s_imap :: "nat \<Rightarrow> nat option"
  s_zmap :: "nat \<Rightarrow> nat option"
  s_dev :: u16
  s_isup :: "nat option"
  s_imount :: "nat option"
  s_time :: u32
  s_wait :: "nat option"
  s_lock :: bool
  s_rd_only :: bool
  s_dirt :: bool

text \<open>
  A request's \<open>buffer\<close> points into the data area of a buffer head: it is that head's index and, in \<open>r_off\<close>, the
  position in the area, which only the hard disk driver moves.
\<close>

record request =
  r_dev :: int
  r_cmd :: int
  r_errors :: int
  r_sector :: u32
  r_nr_sectors :: u32
  r_buffer :: "nat option"
  r_off :: nat
  r_waiting :: "nat option"
  r_bh :: "nat option"
  r_next :: "nat option"

text \<open>
  The request functions that a block device can have installed: the RAM disk's, which carries the
  request out at once, or that of a controller, which starts the hardware and leaves the request
  queued until the controller interrupts.
\<close>

datatype request_routine = do_rd_request_fn | controller_fn

text \<open>A timer's function pointer is a number, 0 the null pointer.\<close>

record timer_entry =
  t_jiffies :: int
  t_fn :: nat
  t_next :: "nat option"

record floppy_timers =
  wait_motor :: "nat \<Rightarrow> nat option"
  mon_timer :: "nat \<Rightarrow> int"
  moff_timer :: "nat \<Rightarrow> int"
  current_DOR :: u8
  selected :: bool

text \<open>
  The terminals. \<open>c_pad\<close> stands for the two bytes that the compiler adds at the end of \<open>struct termios\<close>
  and that the ioctl calls copy with the rest. The buffer of a queue is indexed by its head and tail,
  which stay below \<open>TTY_BUF_SIZE\<close>. The function pointer \<open>tty->write\<close> has two possible values.
\<close>

record termios =
  c_iflag :: u32
  c_oflag :: u32
  c_cflag :: u32
  c_lflag :: u32
  c_line :: u8
  c_cc :: "nat \<Rightarrow> u8"
  c_pad :: "nat \<Rightarrow> u8"

record tty_queue =
  q_data :: u32
  q_head :: u32
  q_tail :: u32
  q_proc_list :: "nat option"
  q_buf :: "nat \<Rightarrow> u8"

datatype tty_driver = con_write_fn | rs_write_fn

record tty_struct =
  t_termios :: termios
  t_pgrp :: int
  t_stopped :: bool
  t_write :: tty_driver
  read_q :: tty_queue
  write_q :: tty_queue
  secondary :: tty_queue

text \<open>The variables of kernel/chr_drv/console.c. The screen itself is in physical memory.\<close>

record console_vars =
  video_type :: u8
  video_num_columns :: u32
  video_size_row :: u32
  video_num_lines :: u32
  video_page :: u8
  video_mem_start :: u32
  video_mem_end :: u32
  video_port_reg :: u16
  video_port_val :: u16
  video_erase_char :: u16
  con_origin :: u32
  con_scr_end :: u32
  con_pos :: u32
  con_x :: u32
  con_y :: u32
  con_top :: u32
  con_bottom :: u32
  con_state :: nat
  con_npar :: nat
  con_par :: "nat \<Rightarrow> u32"
  con_ques :: bool
  con_attr :: u8
  con_saved_x :: u32
  con_saved_y :: u32

section \<open>The kernel's variables\<close>

text \<open>An entry of the interrupt descriptor table: the type of the gate, the privilege it asks for and its handler.\<close>

record gate =
  g_type :: nat
  g_dpl :: nat
  g_addr :: string

record tables =
  mem_map :: "nat \<Rightarrow> u8"
  HIGH_MEMORY :: u32
  hw32 :: "u32 \<Rightarrow> u32"
  hw8 :: "u32 \<Rightarrow> u8"
  task :: "nat \<Rightarrow> task_struct option"
  jiffies :: int
  startup_time :: int
  last_pid :: u32
  last_task_used_math :: "nat option"
  timer_list :: "nat \<Rightarrow> timer_entry"
  next_timer :: "nat option"
  beepcount :: int
  floppy :: floppy_timers
  start_buffer :: u32
  bufs :: "nat \<Rightarrow> buffer_head"
  nr_buffers :: nat
  hash_table :: "nat \<Rightarrow> nat option"
  free_list :: "nat option"
  buffer_wait :: "nat option"
  inode_table :: "nat \<Rightarrow> m_inode"
  last_inode :: nat
  super_tab :: "nat \<Rightarrow> super_block"
  ROOT_DEV :: int
  file_table :: "nat \<Rightarrow> file_struct"
  requests :: "nat \<Rightarrow> request"
  request_fn :: "nat \<Rightarrow> request_routine option"
  current_request :: "nat \<Rightarrow> nat option"
  wait_for_request :: "nat option"
  rd_start :: u32
  rd_length :: int
  wait_on_floppy_select :: "nat option"
  tty_table :: "nat \<Rightarrow> tty_struct"
  cr_flag :: bool
  console :: console_vars

record kernel = tables +
  current :: nat
  user :: "u32 \<Rightarrow> u8"
  wakes :: "tables list"
  inputs :: "nat \<Rightarrow> u8"
  outputs :: "(u16 \<times> u8) list"
  idt :: "nat \<Rightarrow> gate option"

section \<open>Access to the structures\<close>

definition upd_buf :: "nat \<Rightarrow> (buffer_head \<Rightarrow> buffer_head) \<Rightarrow> kernel \<Rightarrow> kernel" where
  "upd_buf i f s = s\<lparr>bufs := (bufs s)(i := f (bufs s i))\<rparr>"

definition upd_ino :: "nat \<Rightarrow> (m_inode \<Rightarrow> m_inode) \<Rightarrow> kernel \<Rightarrow> kernel" where
  "upd_ino i f s = s\<lparr>inode_table := (inode_table s)(i := f (inode_table s i))\<rparr>"

definition upd_sb :: "nat \<Rightarrow> (super_block \<Rightarrow> super_block) \<Rightarrow> kernel \<Rightarrow> kernel" where
  "upd_sb i f s = s\<lparr>super_tab := (super_tab s)(i := f (super_tab s i))\<rparr>"

definition upd_file :: "nat \<Rightarrow> (file_struct \<Rightarrow> file_struct) \<Rightarrow> kernel \<Rightarrow> kernel" where
  "upd_file i f s = s\<lparr>file_table := (file_table s)(i := f (file_table s i))\<rparr>"

definition upd_req :: "nat \<Rightarrow> (request \<Rightarrow> request) \<Rightarrow> kernel \<Rightarrow> kernel" where
  "upd_req i f s = s\<lparr>requests := (requests s)(i := f (requests s i))\<rparr>"

definition upd_tty :: "nat \<Rightarrow> (tty_struct \<Rightarrow> tty_struct) \<Rightarrow> kernel \<Rightarrow> kernel" where
  "upd_tty i f s = s\<lparr>tty_table := (tty_table s)(i := f (tty_table s i))\<rparr>"

definition upd_con :: "(console_vars \<Rightarrow> console_vars) \<Rightarrow> kernel \<Rightarrow> kernel" where
  "upd_con f s = s\<lparr>console := f (console s)\<rparr>"

definition upd_task :: "nat \<Rightarrow> (task_struct \<Rightarrow> task_struct) \<Rightarrow> kernel \<Rightarrow> kernel" where
  "upd_task i f s = s\<lparr>task := (task s)(i := map_option f (task s i))\<rparr>"

text \<open>The structure \<open>current\<close> points to; the running process always has one.\<close>

definition cur :: "kernel \<Rightarrow> task_struct" where
  "cur s = the (task s (current s))"

definition upd_cur :: "(task_struct \<Rightarrow> task_struct) \<Rightarrow> kernel \<Rightarrow> kernel" where
  "upd_cur f s = upd_task (current s) f s"

definition suser :: "kernel \<Rightarrow> bool" where
  "suser s \<longleftrightarrow> euid (cur s) = 0"

text \<open>\<open>CURRENT_TIME\<close>; the time fields it is stored in have 32 bits.\<close>

definition CURRENT_TIME :: "kernel \<Rightarrow> int" where
  "CURRENT_TIME s = startup_time s + jiffies s sdiv HZ"

definition time32 :: "kernel \<Rightarrow> u32" where
  "time32 s = word_of_int (CURRENT_TIME s)"

section \<open>The user's memory\<close>

definition get_fs_byte :: "u32 \<Rightarrow> kernel \<Rightarrow> u8" where
  "get_fs_byte a s = user s a"

definition put_fs_byte :: "u8 \<Rightarrow> u32 \<Rightarrow> kernel \<Rightarrow> kernel" where
  "put_fs_byte v a s = s\<lparr>user := (user s)(a := v)\<rparr>"

definition get_fs_long :: "u32 \<Rightarrow> kernel \<Rightarrow> u32" where
  "get_fs_long a s = rd32 (\<lambda>k. user s (a + of_nat k)) 0"

definition put_fs_long :: "u32 \<Rightarrow> u32 \<Rightarrow> kernel \<Rightarrow> kernel" where
  "put_fs_long v a s =
     s\<lparr>user := (user s)(a := ucast v, a + 1 := ucast (drop_bit 8 v),
                a + 2 := ucast (drop_bit 16 v), a + 3 := ucast (drop_bit 24 v))\<rparr>"

section \<open>Wait queues\<close>

text \<open>
  The kernel's wait queues are variables of type \<open>struct task_struct *\<close>; \<open>sleep_on\<close> and \<open>wake_up\<close>
  get their addresses. \<open>waitq\<close> names each variable that is used so.
\<close>

datatype waitq = Wbuf nat | Wino nat | Wsup nat | Wreq nat | Wbuffer | Wrequest | Wmotor nat | Wselect
  | Wtty_write nat | Wtty_secondary nat

fun wq_get :: "waitq \<Rightarrow> kernel \<Rightarrow> nat option" where
  "wq_get (Wbuf i) s = b_wait (bufs s i)"
| "wq_get (Wino i) s = i_wait (inode_table s i)"
| "wq_get (Wsup i) s = s_wait (super_tab s i)"
| "wq_get (Wreq i) s = r_waiting (requests s i)"
| "wq_get Wbuffer s = buffer_wait s"
| "wq_get Wrequest s = wait_for_request s"
| "wq_get (Wmotor i) s = wait_motor (floppy s) i"
| "wq_get Wselect s = wait_on_floppy_select s"
| "wq_get (Wtty_write i) s = q_proc_list (write_q (tty_table s i))"
| "wq_get (Wtty_secondary i) s = q_proc_list (secondary (tty_table s i))"

fun wq_set :: "waitq \<Rightarrow> nat option \<Rightarrow> kernel \<Rightarrow> kernel" where
  "wq_set (Wbuf i) t s = upd_buf i (\<lambda>b. b\<lparr>b_wait := t\<rparr>) s"
| "wq_set (Wino i) t s = upd_ino i (\<lambda>b. b\<lparr>i_wait := t\<rparr>) s"
| "wq_set (Wsup i) t s = upd_sb i (\<lambda>b. b\<lparr>s_wait := t\<rparr>) s"
| "wq_set (Wreq i) t s = upd_req i (\<lambda>b. b\<lparr>r_waiting := t\<rparr>) s"
| "wq_set Wbuffer t s = s\<lparr>buffer_wait := t\<rparr>"
| "wq_set Wrequest t s = s\<lparr>wait_for_request := t\<rparr>"
| "wq_set (Wmotor i) t s = s\<lparr>floppy := (floppy s)\<lparr>wait_motor := (wait_motor (floppy s))(i := t)\<rparr>\<rparr>"
| "wq_set Wselect t s = s\<lparr>wait_on_floppy_select := t\<rparr>"
| "wq_set (Wtty_write i) t s = upd_tty i (\<lambda>b. b\<lparr>write_q := (write_q b)\<lparr>q_proc_list := t\<rparr>\<rparr>) s"
| "wq_set (Wtty_secondary i) t s = upd_tty i (\<lambda>b. b\<lparr>secondary := (secondary b)\<lparr>q_proc_list := t\<rparr>\<rparr>) s"

section \<open>I/O ports\<close>

text \<open>
  The devices are outside the program. A read from a port, whichever it is, delivers the next of the
  bytes \<open>inputs\<close>; \<open>outputs\<close> is the list of the bytes written to ports, the last one last.
\<close>

definition inb :: "u16 \<Rightarrow> kernel \<Rightarrow> u8 \<times> kernel" where
  "inb port s = (inputs s 0, s\<lparr>inputs := (\<lambda>n. inputs s (Suc n))\<rparr>)"

definition outb :: "u8 \<Rightarrow> u16 \<Rightarrow> kernel \<Rightarrow> kernel" where
  "outb v port s = s\<lparr>outputs := outputs s @ [(port, v)]\<rparr>"

text \<open>
  The interrupt descriptor table. \<open>None\<close> is the gate that boot/head.s puts into every entry, which ignores the interrupt and
  needs privilege 0.
\<close>

definition set_gate :: "nat \<Rightarrow> nat \<Rightarrow> nat \<Rightarrow> string \<Rightarrow> kernel \<Rightarrow> kernel" where
  "set_gate n type dpl addr s = s\<lparr>idt := (idt s)(n := Some \<lparr>g_type = type, g_dpl = dpl, g_addr = addr\<rparr>)\<rparr>"

definition set_intr_gate :: "nat \<Rightarrow> string \<Rightarrow> kernel \<Rightarrow> kernel" where
  "set_intr_gate n addr s = set_gate n 14 0 addr s"

definition set_trap_gate :: "nat \<Rightarrow> string \<Rightarrow> kernel \<Rightarrow> kernel" where
  "set_trap_gate n addr s = set_gate n 15 0 addr s"

definition set_system_gate :: "nat \<Rightarrow> string \<Rightarrow> kernel \<Rightarrow> kernel" where
  "set_system_gate n addr s = set_gate n 15 3 addr s"

section \<open>The state at boot\<close>

text \<open>\<open>INIT_TASK\<close>, and the zero-filled structures of the kernel's data segment.\<close>

definition zero_sigaction :: sigaction where
  "zero_sigaction = \<lparr>sa_handler = 0, sa_mask = 0, sa_flags = 0, sa_restorer = 0\<rparr>"

definition zero_tss :: tss_struct where
  "zero_tss =
     \<lparr>back_link = 0, esp0 = 0, ss0 = 0, tss_eip = 0, tss_eflags = 0, tss_eax = 0, tss_ecx = 0,
      tss_edx = 0, tss_ebx = 0, tss_esp = 0, tss_ebp = 0, tss_esi = 0, tss_edi = 0, tss_es = 0,
      tss_cs = 0, tss_ss = 0, tss_ds = 0, tss_fs = 0, tss_gs = 0, tss_ldt = 0, trace_bitmap = 0\<rparr>"

definition init_task :: task_struct where
  "init_task =
     \<lparr>state = 0, counter = 15, priority = 15, signal = 0, sigactions = (\<lambda>_. zero_sigaction),
      blocked = 0, exit_code = 0, start_code = 0, end_code = 0, end_data = 0, brk = 0,
      start_stack = 0, pid = 0, father = -1, pgrp = 0, session = 0, leader = False,
      uid = 0, euid = 0, suid = 0, gid = 0, egid = 0, sgid = 0, alarm = 0, utime = 0, stime = 0,
      cutime = 0, cstime = 0, start_time = 0, used_math = False, tty = -1, umask = 0x12,
      pwd = None, root = None, executable = None, close_on_exec = 0, filp = (\<lambda>_. None),
      ldt_base = (\<lambda>_. 0), ldt_limit = (\<lambda>i. if i = 0 then 0 else 0xa0000),
      tss = zero_tss\<lparr>ss0 := 0x10, tss_es := 0x17, tss_cs := 0x17, tss_ss := 0x17, tss_ds := 0x17,
                     tss_fs := 0x17, tss_gs := 0x17, tss_ldt := 0x28, trace_bitmap := 0x80000000\<rparr>,
      t_page = 0\<rparr>"

definition zero_buf :: buffer_head where
  "zero_buf =
     \<lparr>b_data = (\<lambda>_. 0), b_blocknr = 0, b_dev = 0, b_uptodate = False, b_dirt = False, b_count = 0,
      b_lock = False, b_wait = None, b_prev = None, b_next = None, b_prev_free = None,
      b_next_free = None\<rparr>"

text \<open>What \<open>memset(inode,0,sizeof(*inode))\<close> leaves.\<close>

definition zero_inode :: m_inode where
  "zero_inode =
     \<lparr>i_mode = 0, i_uid = 0, i_size = 0, i_mtime = 0, i_gid = 0, i_nlinks = 0, i_zone = (\<lambda>_. 0),
      i_wait = None, i_atime = 0, i_ctime = 0, i_dev = 0, i_num = 0, i_count = 0, i_lock = False,
      i_dirt = False, i_pipe = False, i_mount = False, i_seek = False, i_update = False\<rparr>"

definition zero_super :: super_block where
  "zero_super =
     \<lparr>s_ninodes = 0, s_nzones = 0, s_imap_blocks = 0, s_zmap_blocks = 0, s_firstdatazone = 0,
      s_log_zone_size = 0, s_max_size = 0, s_magic = 0, s_imap = (\<lambda>_. None), s_zmap = (\<lambda>_. None),
      s_dev = 0, s_isup = None, s_imount = None, s_time = 0, s_wait = None, s_lock = False,
      s_rd_only = False, s_dirt = False\<rparr>"

definition zero_file :: file_struct where
  "zero_file = \<lparr>f_mode = 0, f_flags = 0, f_count = 0, f_inode = None, f_pos = 0\<rparr>"

definition free_request :: request where
  "free_request = \<lparr>r_dev = -1, r_cmd = 0, r_errors = 0, r_sector = 0, r_nr_sectors = 0,
     r_buffer = None, r_off = 0, r_waiting = None, r_bh = None, r_next = None\<rparr>"

text \<open>\<open>tty_table\<close>, with the flags of the console and the two serial lines.\<close>

definition INIT_C_CC :: "nat \<Rightarrow> u8" where
  "INIT_C_CC i =
     (let cs = [3, 28, 127, 21, 4, 0, 1, 0, 17, 19, 26, 0, 18, 15, 23, 22, 0]
      in if i < length cs then cs ! i else 0)"

definition init_queue :: "u32 \<Rightarrow> tty_queue" where
  "init_queue d = \<lparr>q_data = d, q_head = 0, q_tail = 0, q_proc_list = None, q_buf = (\<lambda>_. 0)\<rparr>"

definition init_tty :: "nat \<Rightarrow> tty_struct" where
  "init_tty i =
     (let port = (if i = 1 then 0x3f8 else if i = 2 then 0x2f8 else 0) in
      \<lparr>t_termios =
         \<lparr>c_iflag = (if i = 0 then ICRNL else 0), c_oflag = (if i = 0 then OPOST OR ONLCR else 0),
          c_cflag = (if i = 0 then 0 else B2400 OR CS8),
          c_lflag = (if i = 0 then ISIG OR ICANON OR ECHO OR ECHOCTL OR ECHOKE else 0),
          c_line = 0, c_cc = INIT_C_CC, c_pad = (\<lambda>_. 0)\<rparr>,
       t_pgrp = 0, t_stopped = False, t_write = (if i = 0 then con_write_fn else rs_write_fn),
       read_q = init_queue port, write_q = init_queue port, secondary = init_queue 0\<rparr>)"

definition zero_console :: console_vars where
  "zero_console =
     \<lparr>video_type = 0, video_num_columns = 0, video_size_row = 0, video_num_lines = 0, video_page = 0,
      video_mem_start = 0, video_mem_end = 0, video_port_reg = 0, video_port_val = 0,
      video_erase_char = 0, con_origin = 0, con_scr_end = 0, con_pos = 0, con_x = 0, con_y = 0,
      con_top = 0, con_bottom = 0, con_state = 0, con_npar = 0, con_par = (\<lambda>_. 0),
      con_ques = False, con_attr = 0x07, con_saved_x = 0, con_saved_y = 0\<rparr>"

definition boot_kernel :: kernel where
  "boot_kernel =
     \<lparr>mem_map = (\<lambda>_. 0), HIGH_MEMORY = 0, hw32 = (\<lambda>_. 0), hw8 = (\<lambda>_. 0),
      task = (\<lambda>i. if i = 0 then Some init_task else None), jiffies = 0, startup_time = 0,
      last_pid = 0, last_task_used_math = None,
      timer_list = (\<lambda>_. \<lparr>t_jiffies = 0, t_fn = 0, t_next = None\<rparr>), next_timer = None,
      beepcount = 0,
      floppy = \<lparr>wait_motor = (\<lambda>_. None), mon_timer = (\<lambda>_. 0), moff_timer = (\<lambda>_. 0),
                current_DOR = 0x0c, selected = False\<rparr>,
      start_buffer = 0, bufs = (\<lambda>_. zero_buf), nr_buffers = 0, hash_table = (\<lambda>_. None),
      free_list = None, buffer_wait = None, inode_table = (\<lambda>_. zero_inode), last_inode = 0,
      super_tab = (\<lambda>_. zero_super), ROOT_DEV = 0, file_table = (\<lambda>_. zero_file),
      requests = (\<lambda>_. free_request), request_fn = (\<lambda>_. None), current_request = (\<lambda>_. None),
      wait_for_request = None, rd_start = 0, rd_length = 0,
      wait_on_floppy_select = None,
      tty_table = init_tty, cr_flag = False, console = zero_console, current = 0, user = (\<lambda>_. 0),
      wakes = [], inputs = (\<lambda>_. 0), outputs = [], idt = (\<lambda>_. None)\<rparr>"

lemmas zero_defs = zero_sigaction_def zero_tss_def zero_buf_def zero_inode_def zero_super_def
  zero_file_def free_request_def

lemma boot_fields [simp]:
  "mem_map boot_kernel = (\<lambda>_. 0)"
  "HIGH_MEMORY boot_kernel = 0"
  "hw32 boot_kernel = (\<lambda>_. 0)"
  "hw8 boot_kernel = (\<lambda>_. 0)"
  "task boot_kernel = (\<lambda>i. if i = 0 then Some init_task else None)"
  "jiffies boot_kernel = 0"
  "startup_time boot_kernel = 0"
  "last_pid boot_kernel = 0"
  "last_task_used_math boot_kernel = None"
  "next_timer boot_kernel = None"
  "beepcount boot_kernel = 0"
  "start_buffer boot_kernel = 0"
  "bufs boot_kernel = (\<lambda>_. zero_buf)"
  "nr_buffers boot_kernel = 0"
  "hash_table boot_kernel = (\<lambda>_. None)"
  "free_list boot_kernel = None"
  "buffer_wait boot_kernel = None"
  "inode_table boot_kernel = (\<lambda>_. zero_inode)"
  "last_inode boot_kernel = 0"
  "super_tab boot_kernel = (\<lambda>_. zero_super)"
  "ROOT_DEV boot_kernel = 0"
  "file_table boot_kernel = (\<lambda>_. zero_file)"
  "requests boot_kernel = (\<lambda>_. free_request)"
  "request_fn boot_kernel = (\<lambda>_. None)"
  "current_request boot_kernel = (\<lambda>_. None)"
  "wait_for_request boot_kernel = None"
  "rd_start boot_kernel = 0"
  "rd_length boot_kernel = 0"
  "wait_on_floppy_select boot_kernel = None"
  "tty_table boot_kernel = init_tty"
  "cr_flag boot_kernel = False"
  "console boot_kernel = zero_console"
  "current boot_kernel = 0"
  "user boot_kernel = (\<lambda>_. 0)"
  "wakes boot_kernel = []"
  "inputs boot_kernel = (\<lambda>_. 0)"
  "outputs boot_kernel = []"
  "idt boot_kernel = (\<lambda>_. None)"
  by (simp_all add: boot_kernel_def)

lemma boot_cur [simp]: "cur boot_kernel = init_task"
  by (simp add: cur_def boot_kernel_def)

section \<open>Reading a state after an update\<close>

lemma upd_buf_simps [simp]:
  "mem_map (upd_buf i f s) = mem_map s" "HIGH_MEMORY (upd_buf i f s) = HIGH_MEMORY s"
  "hw32 (upd_buf i f s) = hw32 s" "hw8 (upd_buf i f s) = hw8 s" "task (upd_buf i f s) = task s"
  "jiffies (upd_buf i f s) = jiffies s" "startup_time (upd_buf i f s) = startup_time s"
  "last_pid (upd_buf i f s) = last_pid s"
  "last_task_used_math (upd_buf i f s) = last_task_used_math s"
  "timer_list (upd_buf i f s) = timer_list s" "next_timer (upd_buf i f s) = next_timer s"
  "beepcount (upd_buf i f s) = beepcount s" "floppy (upd_buf i f s) = floppy s"
  "start_buffer (upd_buf i f s) = start_buffer s"
  "bufs (upd_buf i f s) = (bufs s)(i := f (bufs s i))" "nr_buffers (upd_buf i f s) = nr_buffers s"
  "hash_table (upd_buf i f s) = hash_table s" "free_list (upd_buf i f s) = free_list s"
  "buffer_wait (upd_buf i f s) = buffer_wait s" "inode_table (upd_buf i f s) = inode_table s"
  "last_inode (upd_buf i f s) = last_inode s" "super_tab (upd_buf i f s) = super_tab s"
  "ROOT_DEV (upd_buf i f s) = ROOT_DEV s" "file_table (upd_buf i f s) = file_table s"
  "requests (upd_buf i f s) = requests s" "request_fn (upd_buf i f s) = request_fn s"
  "current_request (upd_buf i f s) = current_request s"
  "wait_for_request (upd_buf i f s) = wait_for_request s" "rd_start (upd_buf i f s) = rd_start s"
  "rd_length (upd_buf i f s) = rd_length s"
  "wait_on_floppy_select (upd_buf i f s) = wait_on_floppy_select s"
  "tty_table (upd_buf i f s) = tty_table s" "cr_flag (upd_buf i f s) = cr_flag s"
  "console (upd_buf i f s) = console s" "current (upd_buf i f s) = current s"
  "user (upd_buf i f s) = user s" "wakes (upd_buf i f s) = wakes s"
  "inputs (upd_buf i f s) = inputs s" "outputs (upd_buf i f s) = outputs s" "idt (upd_buf i f s) = idt s"
  "cur (upd_buf i f s) = cur s"
  by (simp_all add: upd_buf_def cur_def)

lemma upd_ino_simps [simp]:
  "mem_map (upd_ino i f s) = mem_map s" "HIGH_MEMORY (upd_ino i f s) = HIGH_MEMORY s"
  "hw32 (upd_ino i f s) = hw32 s" "hw8 (upd_ino i f s) = hw8 s" "task (upd_ino i f s) = task s"
  "jiffies (upd_ino i f s) = jiffies s" "startup_time (upd_ino i f s) = startup_time s"
  "last_pid (upd_ino i f s) = last_pid s"
  "last_task_used_math (upd_ino i f s) = last_task_used_math s"
  "timer_list (upd_ino i f s) = timer_list s" "next_timer (upd_ino i f s) = next_timer s"
  "beepcount (upd_ino i f s) = beepcount s" "floppy (upd_ino i f s) = floppy s"
  "start_buffer (upd_ino i f s) = start_buffer s" "bufs (upd_ino i f s) = bufs s"
  "nr_buffers (upd_ino i f s) = nr_buffers s" "hash_table (upd_ino i f s) = hash_table s"
  "free_list (upd_ino i f s) = free_list s" "buffer_wait (upd_ino i f s) = buffer_wait s"
  "inode_table (upd_ino i f s) = (inode_table s)(i := f (inode_table s i))"
  "last_inode (upd_ino i f s) = last_inode s" "super_tab (upd_ino i f s) = super_tab s"
  "ROOT_DEV (upd_ino i f s) = ROOT_DEV s" "file_table (upd_ino i f s) = file_table s"
  "requests (upd_ino i f s) = requests s" "request_fn (upd_ino i f s) = request_fn s"
  "current_request (upd_ino i f s) = current_request s"
  "wait_for_request (upd_ino i f s) = wait_for_request s" "rd_start (upd_ino i f s) = rd_start s"
  "rd_length (upd_ino i f s) = rd_length s"
  "wait_on_floppy_select (upd_ino i f s) = wait_on_floppy_select s"
  "tty_table (upd_ino i f s) = tty_table s" "cr_flag (upd_ino i f s) = cr_flag s"
  "console (upd_ino i f s) = console s" "current (upd_ino i f s) = current s"
  "user (upd_ino i f s) = user s" "wakes (upd_ino i f s) = wakes s"
  "inputs (upd_ino i f s) = inputs s" "outputs (upd_ino i f s) = outputs s" "idt (upd_ino i f s) = idt s"
  "cur (upd_ino i f s) = cur s"
  by (simp_all add: upd_ino_def cur_def)

lemma upd_sb_simps [simp]:
  "mem_map (upd_sb i f s) = mem_map s" "HIGH_MEMORY (upd_sb i f s) = HIGH_MEMORY s"
  "hw32 (upd_sb i f s) = hw32 s" "hw8 (upd_sb i f s) = hw8 s" "task (upd_sb i f s) = task s"
  "jiffies (upd_sb i f s) = jiffies s" "startup_time (upd_sb i f s) = startup_time s"
  "last_pid (upd_sb i f s) = last_pid s"
  "last_task_used_math (upd_sb i f s) = last_task_used_math s"
  "timer_list (upd_sb i f s) = timer_list s" "next_timer (upd_sb i f s) = next_timer s"
  "beepcount (upd_sb i f s) = beepcount s" "floppy (upd_sb i f s) = floppy s"
  "start_buffer (upd_sb i f s) = start_buffer s" "bufs (upd_sb i f s) = bufs s"
  "nr_buffers (upd_sb i f s) = nr_buffers s" "hash_table (upd_sb i f s) = hash_table s"
  "free_list (upd_sb i f s) = free_list s" "buffer_wait (upd_sb i f s) = buffer_wait s"
  "inode_table (upd_sb i f s) = inode_table s" "last_inode (upd_sb i f s) = last_inode s"
  "super_tab (upd_sb i f s) = (super_tab s)(i := f (super_tab s i))"
  "ROOT_DEV (upd_sb i f s) = ROOT_DEV s" "file_table (upd_sb i f s) = file_table s"
  "requests (upd_sb i f s) = requests s" "request_fn (upd_sb i f s) = request_fn s"
  "current_request (upd_sb i f s) = current_request s"
  "wait_for_request (upd_sb i f s) = wait_for_request s" "rd_start (upd_sb i f s) = rd_start s"
  "rd_length (upd_sb i f s) = rd_length s"
  "wait_on_floppy_select (upd_sb i f s) = wait_on_floppy_select s"
  "tty_table (upd_sb i f s) = tty_table s" "cr_flag (upd_sb i f s) = cr_flag s"
  "console (upd_sb i f s) = console s" "current (upd_sb i f s) = current s"
  "user (upd_sb i f s) = user s" "wakes (upd_sb i f s) = wakes s" "inputs (upd_sb i f s) = inputs s"
  "outputs (upd_sb i f s) = outputs s" "idt (upd_sb i f s) = idt s" "cur (upd_sb i f s) = cur s"
  by (simp_all add: upd_sb_def cur_def)

lemma upd_file_simps [simp]:
  "mem_map (upd_file i f s) = mem_map s" "HIGH_MEMORY (upd_file i f s) = HIGH_MEMORY s"
  "hw32 (upd_file i f s) = hw32 s" "hw8 (upd_file i f s) = hw8 s" "task (upd_file i f s) = task s"
  "jiffies (upd_file i f s) = jiffies s" "startup_time (upd_file i f s) = startup_time s"
  "last_pid (upd_file i f s) = last_pid s"
  "last_task_used_math (upd_file i f s) = last_task_used_math s"
  "timer_list (upd_file i f s) = timer_list s" "next_timer (upd_file i f s) = next_timer s"
  "beepcount (upd_file i f s) = beepcount s" "floppy (upd_file i f s) = floppy s"
  "start_buffer (upd_file i f s) = start_buffer s" "bufs (upd_file i f s) = bufs s"
  "nr_buffers (upd_file i f s) = nr_buffers s" "hash_table (upd_file i f s) = hash_table s"
  "free_list (upd_file i f s) = free_list s" "buffer_wait (upd_file i f s) = buffer_wait s"
  "inode_table (upd_file i f s) = inode_table s" "last_inode (upd_file i f s) = last_inode s"
  "super_tab (upd_file i f s) = super_tab s" "ROOT_DEV (upd_file i f s) = ROOT_DEV s"
  "file_table (upd_file i f s) = (file_table s)(i := f (file_table s i))"
  "requests (upd_file i f s) = requests s" "request_fn (upd_file i f s) = request_fn s"
  "current_request (upd_file i f s) = current_request s"
  "wait_for_request (upd_file i f s) = wait_for_request s" "rd_start (upd_file i f s) = rd_start s"
  "rd_length (upd_file i f s) = rd_length s"
  "wait_on_floppy_select (upd_file i f s) = wait_on_floppy_select s"
  "tty_table (upd_file i f s) = tty_table s" "cr_flag (upd_file i f s) = cr_flag s"
  "console (upd_file i f s) = console s" "current (upd_file i f s) = current s"
  "user (upd_file i f s) = user s" "wakes (upd_file i f s) = wakes s"
  "inputs (upd_file i f s) = inputs s" "outputs (upd_file i f s) = outputs s" "idt (upd_file i f s) = idt s"
  "cur (upd_file i f s) = cur s"
  by (simp_all add: upd_file_def cur_def)

lemma upd_req_simps [simp]:
  "mem_map (upd_req i f s) = mem_map s" "HIGH_MEMORY (upd_req i f s) = HIGH_MEMORY s"
  "hw32 (upd_req i f s) = hw32 s" "hw8 (upd_req i f s) = hw8 s" "task (upd_req i f s) = task s"
  "jiffies (upd_req i f s) = jiffies s" "startup_time (upd_req i f s) = startup_time s"
  "last_pid (upd_req i f s) = last_pid s"
  "last_task_used_math (upd_req i f s) = last_task_used_math s"
  "timer_list (upd_req i f s) = timer_list s" "next_timer (upd_req i f s) = next_timer s"
  "beepcount (upd_req i f s) = beepcount s" "floppy (upd_req i f s) = floppy s"
  "start_buffer (upd_req i f s) = start_buffer s" "bufs (upd_req i f s) = bufs s"
  "nr_buffers (upd_req i f s) = nr_buffers s" "hash_table (upd_req i f s) = hash_table s"
  "free_list (upd_req i f s) = free_list s" "buffer_wait (upd_req i f s) = buffer_wait s"
  "inode_table (upd_req i f s) = inode_table s" "last_inode (upd_req i f s) = last_inode s"
  "super_tab (upd_req i f s) = super_tab s" "ROOT_DEV (upd_req i f s) = ROOT_DEV s"
  "file_table (upd_req i f s) = file_table s"
  "requests (upd_req i f s) = (requests s)(i := f (requests s i))"
  "request_fn (upd_req i f s) = request_fn s" "current_request (upd_req i f s) = current_request s"
  "wait_for_request (upd_req i f s) = wait_for_request s" "rd_start (upd_req i f s) = rd_start s"
  "rd_length (upd_req i f s) = rd_length s"
  "wait_on_floppy_select (upd_req i f s) = wait_on_floppy_select s"
  "tty_table (upd_req i f s) = tty_table s" "cr_flag (upd_req i f s) = cr_flag s"
  "console (upd_req i f s) = console s" "current (upd_req i f s) = current s"
  "user (upd_req i f s) = user s" "wakes (upd_req i f s) = wakes s"
  "inputs (upd_req i f s) = inputs s" "outputs (upd_req i f s) = outputs s" "idt (upd_req i f s) = idt s"
  "cur (upd_req i f s) = cur s"
  by (simp_all add: upd_req_def cur_def)

lemma upd_tty_simps [simp]:
  "mem_map (upd_tty i f s) = mem_map s" "HIGH_MEMORY (upd_tty i f s) = HIGH_MEMORY s"
  "hw32 (upd_tty i f s) = hw32 s" "hw8 (upd_tty i f s) = hw8 s" "task (upd_tty i f s) = task s"
  "jiffies (upd_tty i f s) = jiffies s" "startup_time (upd_tty i f s) = startup_time s"
  "last_pid (upd_tty i f s) = last_pid s"
  "last_task_used_math (upd_tty i f s) = last_task_used_math s"
  "timer_list (upd_tty i f s) = timer_list s" "next_timer (upd_tty i f s) = next_timer s"
  "beepcount (upd_tty i f s) = beepcount s" "floppy (upd_tty i f s) = floppy s"
  "start_buffer (upd_tty i f s) = start_buffer s" "bufs (upd_tty i f s) = bufs s"
  "nr_buffers (upd_tty i f s) = nr_buffers s" "hash_table (upd_tty i f s) = hash_table s"
  "free_list (upd_tty i f s) = free_list s" "buffer_wait (upd_tty i f s) = buffer_wait s"
  "inode_table (upd_tty i f s) = inode_table s" "last_inode (upd_tty i f s) = last_inode s"
  "super_tab (upd_tty i f s) = super_tab s" "ROOT_DEV (upd_tty i f s) = ROOT_DEV s"
  "file_table (upd_tty i f s) = file_table s" "requests (upd_tty i f s) = requests s"
  "request_fn (upd_tty i f s) = request_fn s" "current_request (upd_tty i f s) = current_request s"
  "wait_for_request (upd_tty i f s) = wait_for_request s" "rd_start (upd_tty i f s) = rd_start s"
  "rd_length (upd_tty i f s) = rd_length s"
  "wait_on_floppy_select (upd_tty i f s) = wait_on_floppy_select s"
  "tty_table (upd_tty i f s) = (tty_table s)(i := f (tty_table s i))"
  "cr_flag (upd_tty i f s) = cr_flag s" "console (upd_tty i f s) = console s"
  "current (upd_tty i f s) = current s" "user (upd_tty i f s) = user s"
  "wakes (upd_tty i f s) = wakes s" "inputs (upd_tty i f s) = inputs s"
  "outputs (upd_tty i f s) = outputs s" "idt (upd_tty i f s) = idt s" "cur (upd_tty i f s) = cur s"
  by (simp_all add: upd_tty_def cur_def)

lemma upd_con_simps [simp]:
  "mem_map (upd_con f s) = mem_map s" "HIGH_MEMORY (upd_con f s) = HIGH_MEMORY s"
  "hw32 (upd_con f s) = hw32 s" "hw8 (upd_con f s) = hw8 s" "task (upd_con f s) = task s"
  "jiffies (upd_con f s) = jiffies s" "startup_time (upd_con f s) = startup_time s"
  "last_pid (upd_con f s) = last_pid s" "last_task_used_math (upd_con f s) = last_task_used_math s"
  "timer_list (upd_con f s) = timer_list s" "next_timer (upd_con f s) = next_timer s"
  "beepcount (upd_con f s) = beepcount s" "floppy (upd_con f s) = floppy s"
  "start_buffer (upd_con f s) = start_buffer s" "bufs (upd_con f s) = bufs s"
  "nr_buffers (upd_con f s) = nr_buffers s" "hash_table (upd_con f s) = hash_table s"
  "free_list (upd_con f s) = free_list s" "buffer_wait (upd_con f s) = buffer_wait s"
  "inode_table (upd_con f s) = inode_table s" "last_inode (upd_con f s) = last_inode s"
  "super_tab (upd_con f s) = super_tab s" "ROOT_DEV (upd_con f s) = ROOT_DEV s"
  "file_table (upd_con f s) = file_table s" "requests (upd_con f s) = requests s"
  "request_fn (upd_con f s) = request_fn s" "current_request (upd_con f s) = current_request s"
  "wait_for_request (upd_con f s) = wait_for_request s" "rd_start (upd_con f s) = rd_start s"
  "rd_length (upd_con f s) = rd_length s"
  "wait_on_floppy_select (upd_con f s) = wait_on_floppy_select s"
  "tty_table (upd_con f s) = tty_table s" "cr_flag (upd_con f s) = cr_flag s"
  "console (upd_con f s) = f (console s)" "current (upd_con f s) = current s"
  "user (upd_con f s) = user s" "wakes (upd_con f s) = wakes s" "inputs (upd_con f s) = inputs s"
  "outputs (upd_con f s) = outputs s" "idt (upd_con f s) = idt s" "cur (upd_con f s) = cur s"
  by (simp_all add: upd_con_def cur_def)

lemma outb_simps [simp]:
  "mem_map (outb v port s) = mem_map s" "HIGH_MEMORY (outb v port s) = HIGH_MEMORY s"
  "hw32 (outb v port s) = hw32 s" "hw8 (outb v port s) = hw8 s" "task (outb v port s) = task s"
  "jiffies (outb v port s) = jiffies s" "startup_time (outb v port s) = startup_time s"
  "last_pid (outb v port s) = last_pid s"
  "last_task_used_math (outb v port s) = last_task_used_math s"
  "timer_list (outb v port s) = timer_list s" "next_timer (outb v port s) = next_timer s"
  "beepcount (outb v port s) = beepcount s" "floppy (outb v port s) = floppy s"
  "start_buffer (outb v port s) = start_buffer s" "bufs (outb v port s) = bufs s"
  "nr_buffers (outb v port s) = nr_buffers s" "hash_table (outb v port s) = hash_table s"
  "free_list (outb v port s) = free_list s" "buffer_wait (outb v port s) = buffer_wait s"
  "inode_table (outb v port s) = inode_table s" "last_inode (outb v port s) = last_inode s"
  "super_tab (outb v port s) = super_tab s" "ROOT_DEV (outb v port s) = ROOT_DEV s"
  "file_table (outb v port s) = file_table s" "requests (outb v port s) = requests s"
  "request_fn (outb v port s) = request_fn s" "current_request (outb v port s) = current_request s"
  "wait_for_request (outb v port s) = wait_for_request s" "rd_start (outb v port s) = rd_start s"
  "rd_length (outb v port s) = rd_length s"
  "wait_on_floppy_select (outb v port s) = wait_on_floppy_select s"
  "tty_table (outb v port s) = tty_table s" "cr_flag (outb v port s) = cr_flag s"
  "console (outb v port s) = console s" "current (outb v port s) = current s"
  "user (outb v port s) = user s" "wakes (outb v port s) = wakes s"
  "inputs (outb v port s) = inputs s" "outputs (outb v port s) = outputs s @ [(port, v)]" "idt (outb v port s) = idt s"
  "cur (outb v port s) = cur s"
  by (simp_all add: outb_def cur_def)

lemma upd_task_simps [simp]:
  "mem_map (upd_task i f s) = mem_map s" "HIGH_MEMORY (upd_task i f s) = HIGH_MEMORY s"
  "hw32 (upd_task i f s) = hw32 s" "hw8 (upd_task i f s) = hw8 s"
  "task (upd_task i f s) = (task s)(i := map_option f (task s i))"
  "jiffies (upd_task i f s) = jiffies s" "startup_time (upd_task i f s) = startup_time s"
  "last_pid (upd_task i f s) = last_pid s"
  "last_task_used_math (upd_task i f s) = last_task_used_math s"
  "timer_list (upd_task i f s) = timer_list s" "next_timer (upd_task i f s) = next_timer s"
  "beepcount (upd_task i f s) = beepcount s" "floppy (upd_task i f s) = floppy s"
  "start_buffer (upd_task i f s) = start_buffer s" "bufs (upd_task i f s) = bufs s"
  "nr_buffers (upd_task i f s) = nr_buffers s" "hash_table (upd_task i f s) = hash_table s"
  "free_list (upd_task i f s) = free_list s" "buffer_wait (upd_task i f s) = buffer_wait s"
  "inode_table (upd_task i f s) = inode_table s" "last_inode (upd_task i f s) = last_inode s"
  "super_tab (upd_task i f s) = super_tab s" "ROOT_DEV (upd_task i f s) = ROOT_DEV s"
  "file_table (upd_task i f s) = file_table s" "requests (upd_task i f s) = requests s"
  "request_fn (upd_task i f s) = request_fn s"
  "current_request (upd_task i f s) = current_request s"
  "wait_for_request (upd_task i f s) = wait_for_request s" "rd_start (upd_task i f s) = rd_start s"
  "rd_length (upd_task i f s) = rd_length s"
  "wait_on_floppy_select (upd_task i f s) = wait_on_floppy_select s"
  "tty_table (upd_task i f s) = tty_table s" "cr_flag (upd_task i f s) = cr_flag s"
  "console (upd_task i f s) = console s" "current (upd_task i f s) = current s"
  "user (upd_task i f s) = user s" "wakes (upd_task i f s) = wakes s"
  "inputs (upd_task i f s) = inputs s" "outputs (upd_task i f s) = outputs s" "idt (upd_task i f s) = idt s"
  by (simp_all add: upd_task_def)

lemma upd_cur_simps [simp]:
  "mem_map (upd_cur f s) = mem_map s" "HIGH_MEMORY (upd_cur f s) = HIGH_MEMORY s"
  "hw32 (upd_cur f s) = hw32 s" "hw8 (upd_cur f s) = hw8 s" "jiffies (upd_cur f s) = jiffies s"
  "startup_time (upd_cur f s) = startup_time s" "last_pid (upd_cur f s) = last_pid s"
  "last_task_used_math (upd_cur f s) = last_task_used_math s"
  "timer_list (upd_cur f s) = timer_list s" "next_timer (upd_cur f s) = next_timer s"
  "beepcount (upd_cur f s) = beepcount s" "floppy (upd_cur f s) = floppy s"
  "start_buffer (upd_cur f s) = start_buffer s" "bufs (upd_cur f s) = bufs s"
  "nr_buffers (upd_cur f s) = nr_buffers s" "hash_table (upd_cur f s) = hash_table s"
  "free_list (upd_cur f s) = free_list s" "buffer_wait (upd_cur f s) = buffer_wait s"
  "inode_table (upd_cur f s) = inode_table s" "last_inode (upd_cur f s) = last_inode s"
  "super_tab (upd_cur f s) = super_tab s" "ROOT_DEV (upd_cur f s) = ROOT_DEV s"
  "file_table (upd_cur f s) = file_table s" "requests (upd_cur f s) = requests s"
  "request_fn (upd_cur f s) = request_fn s" "current_request (upd_cur f s) = current_request s"
  "wait_for_request (upd_cur f s) = wait_for_request s" "rd_start (upd_cur f s) = rd_start s"
  "rd_length (upd_cur f s) = rd_length s"
  "wait_on_floppy_select (upd_cur f s) = wait_on_floppy_select s"
  "tty_table (upd_cur f s) = tty_table s" "cr_flag (upd_cur f s) = cr_flag s"
  "console (upd_cur f s) = console s" "current (upd_cur f s) = current s"
  "user (upd_cur f s) = user s" "wakes (upd_cur f s) = wakes s" "inputs (upd_cur f s) = inputs s"
  "outputs (upd_cur f s) = outputs s" "idt (upd_cur f s) = idt s"
  by (simp_all add: upd_cur_def)

end
