(* ===== verification/Sched.thy ===== *)
theory Sched
  imports Kernel_State
begin

text \<open>
  kernel/sched.c: the scheduler, sleeping and waking, the kernel timers with the clock interrupt
  handler, the floppy motor timers and the small system calls of that file.

  \<open>schedule\<close> chooses the next task and switches to it. Seen from the calling process, the switch
  returns when some other process switches back; what the others did in between is the next entry
  of \<open>wakes\<close> (\<open>resume\<close>), and with no entry left the process never runs again. Interrupt masking
  (\<open>cli\<close>, \<open>sti\<close>), port output and the task switch by the processor have no further effect here.
  A timer's function is not run but reported: the handlers are device driver code.
\<close>

section \<open>The scheduler\<close>

definition S_bit :: "nat \<Rightarrow> u32" where
  "S_bit nr = push_bit (nr - 1) 1"

definition BLOCKABLE :: u32 where
  "BLOCKABLE = NOT (S_bit SIGKILL OR S_bit SIGSTOP)"

definition deliver_alarm :: "int \<Rightarrow> task_struct \<Rightarrow> task_struct" where
  "deliver_alarm now p =
     (if alarm p \<noteq> 0 \<and> alarm p < now then p\<lparr>signal := signal p OR S_bit SIGALRM, alarm := 0\<rparr> else p)"

definition wake_if_signalled :: "task_struct \<Rightarrow> task_struct" where
  "wake_if_signalled p =
     (if signal p AND NOT (BLOCKABLE AND blocked p) \<noteq> 0 \<and> state p = TASK_INTERRUPTIBLE
      then p\<lparr>state := TASK_RUNNING\<rparr> else p)"

definition check_signals :: "kernel \<Rightarrow> kernel" where
  "check_signals s =
     s\<lparr>task := (\<lambda>i. if 1 \<le> i \<and> i < NR_TASKS
                     then map_option (wake_if_signalled \<circ> deliver_alarm (jiffies s)) (task s i)
                     else task s i)\<rparr>"

text \<open>The inner loop, from the last slot down to slot 1: the largest counter seen and its slot.\<close>

fun best_task :: "(nat \<Rightarrow> task_struct option) \<Rightarrow> nat list \<Rightarrow> int \<times> nat \<Rightarrow> int \<times> nat" where
  "best_task ts [] (c, nxt) = (c, nxt)"
| "best_task ts (i # is) (c, nxt) =
     (case ts i of
        None \<Rightarrow> best_task ts is (c, nxt)
      | Some p \<Rightarrow> if state p = TASK_RUNNING \<and> counter p > c then best_task ts is (counter p, i)
                  else best_task ts is (c, nxt))"

definition recharge :: "kernel \<Rightarrow> kernel" where
  "recharge s =
     s\<lparr>task := (\<lambda>i. if 1 \<le> i \<and> i < NR_TASKS
                     then map_option (\<lambda>p. p\<lparr>counter := drop_bit 1 (counter p) + priority p\<rparr>) (task s i)
                     else task s i)\<rparr>"

partial_function (option) schedule_loop :: "kernel \<Rightarrow> (nat \<times> kernel) option" where
  "schedule_loop s =
     (let (c, nxt) = best_task (task s) (rev [1..<NR_TASKS]) (-1, 0)
      in if c \<noteq> 0 then Some (nxt, s) else schedule_loop (recharge s))"

definition resume :: "kernel \<Rightarrow> kernel option" where
  "resume s =
     (case wakes s of
        [] \<Rightarrow> None
      | t # ts \<Rightarrow> Some (tables.extend t (kernel.fields (current s) (user s) ts (inputs s) (outputs s) (idt s))))"

definition schedule :: "kernel \<Rightarrow> kernel option" where
  "schedule s =
     do { (nxt, s) \<leftarrow> schedule_loop (check_signals s);
          if nxt = current s then Some s else resume s }"

definition sys_pause :: "kernel \<Rightarrow> (int \<times> kernel) option" where
  "sys_pause s =
     do { s \<leftarrow> schedule (upd_cur (\<lambda>p. p\<lparr>state := TASK_INTERRUPTIBLE\<rparr>) s); Some (0, s) }"

section \<open>Sleeping and waking\<close>

definition set_running :: "nat option \<Rightarrow> kernel \<Rightarrow> kernel" where
  "set_running p s = (case p of None \<Rightarrow> s | Some i \<Rightarrow> upd_task i (\<lambda>t. t\<lparr>state := TASK_RUNNING\<rparr>) s)"

definition sleep_on :: "waitq \<Rightarrow> kernel \<Rightarrow> kernel option" where
  "sleep_on p s =
     (if current s = 0 then panic ''task[0] trying to sleep''
      else do {
        let tmp = wq_get p s;
        let s = wq_set p (Some (current s)) s;
        s \<leftarrow> schedule (upd_cur (\<lambda>t. t\<lparr>state := TASK_UNINTERRUPTIBLE\<rparr>) s);
        Some (set_running tmp s) })"

partial_function (option) isleep_loop :: "waitq \<Rightarrow> kernel \<Rightarrow> kernel option" where
  "isleep_loop p s =
     (case schedule (upd_cur (\<lambda>t. t\<lparr>state := TASK_INTERRUPTIBLE\<rparr>) s) of
        None \<Rightarrow> None
      | Some s \<Rightarrow>
          if wq_get p s \<noteq> None \<and> wq_get p s \<noteq> Some (current s)
          then isleep_loop p (set_running (wq_get p s) s)
          else Some (wq_set p None s))"

definition interruptible_sleep_on :: "waitq \<Rightarrow> kernel \<Rightarrow> kernel option" where
  "interruptible_sleep_on p s =
     (if current s = 0 then panic ''task[0] trying to sleep''
      else do {
        let tmp = wq_get p s;
        s \<leftarrow> isleep_loop p (wq_set p (Some (current s)) s);
        Some (set_running tmp s) })"

definition wake_up :: "waitq \<Rightarrow> kernel \<Rightarrow> kernel" where
  "wake_up p s =
     (case wq_get p s of
        None \<Rightarrow> s
      | Some i \<Rightarrow> wq_set p None (set_running (Some i) s))"

section \<open>The coprocessor and the start of the scheduler\<close>

text \<open>
  \<open>fpu\<close> is the state of the coprocessor and \<open>i387\<close> what each task has saved of it; both have any type \<open>'f\<close>, and \<open>initial\<close>
  is the state that \<open>fninit\<close> gives.
\<close>

definition math_state_restore :: "'f \<Rightarrow> 'f \<Rightarrow> (nat \<Rightarrow> 'f) \<Rightarrow> kernel \<Rightarrow> 'f \<times> (nat \<Rightarrow> 'f) \<times> kernel" where
  "math_state_restore initial fpu i387 s =
     (if last_task_used_math s = Some (current s) then (fpu, i387, s)
      else
        let i387 = (case last_task_used_math s of None \<Rightarrow> i387 | Some t \<Rightarrow> i387(t := fpu));
            s = s\<lparr>last_task_used_math := Some (current s)\<rparr>
        in if used_math (cur s) then (i387 (current s), i387, s)
           else (initial, i387, upd_cur (\<lambda>p. p\<lparr>used_math := True\<rparr>) s))"

text \<open>The segment descriptors and the task register that \<open>sched_init\<close> also sets are not part of the state.\<close>

definition sched_init :: "kernel \<Rightarrow> kernel" where
  "sched_init s =
     (let s = s\<lparr>task := (\<lambda>i. if 1 \<le> i \<and> i < NR_TASKS then None else task s i)\<rparr>;
          s = outb 0x36 0x43 s;
          s = outb (of_nat (1193180 div 100)) 0x40 s;
          s = outb (of_nat (1193180 div 100 div 256)) 0x40 s;
          (v, s) = inb 0x21 (set_intr_gate 0x20 ''timer_interrupt'' s)
      in set_system_gate 0x80 ''system_call'' (outb (v AND NOT 0x01) 0x21 s))"

section \<open>The floppy motor timers\<close>

definition ticks_to_floppy_on :: "nat \<Rightarrow> kernel \<Rightarrow> (int \<times> kernel) option" where
  "ticks_to_floppy_on nr s =
     (if nr > 3 then panic ''floppy_on: nr>3''
      else
        let f = (floppy s)\<lparr>moff_timer := (moff_timer (floppy s))(nr := 10000)\<rparr>;
            msk = push_bit nr 0x10 OR current_DOR f;
            msk = (if \<not> selected f then (msk AND 0xfc) OR of_nat nr else msk);
            f = (if msk \<noteq> current_DOR f
                 then
                   let f' = (if (msk XOR current_DOR f) AND 0xf0 \<noteq> 0
                             then f\<lparr>mon_timer := (mon_timer f)(nr := HZ div 2)\<rparr>
                             else if mon_timer f nr < 2 then f\<lparr>mon_timer := (mon_timer f)(nr := 2)\<rparr>
                             else f)
                   in f'\<lparr>current_DOR := msk\<rparr>
                 else f);
            s = (if msk \<noteq> current_DOR (floppy s) then outb msk 0x3f2 s else s)
        in Some (mon_timer f nr, s\<lparr>floppy := f\<rparr>))"

partial_function (option) floppy_on :: "nat \<Rightarrow> kernel \<Rightarrow> kernel option" where
  "floppy_on nr s =
     (case ticks_to_floppy_on nr s of
        None \<Rightarrow> None
      | Some (ticks, s) \<Rightarrow>
          if ticks \<noteq> 0
          then (case sleep_on (Wmotor nr) s of None \<Rightarrow> None | Some s \<Rightarrow> floppy_on nr s)
          else Some s)"

definition floppy_off :: "nat \<Rightarrow> kernel \<Rightarrow> kernel" where
  "floppy_off nr s = s\<lparr>floppy := (floppy s)\<lparr>moff_timer := (moff_timer (floppy s))(nr := 3 * HZ)\<rparr>\<rparr>"

definition floppy_timer_step :: "nat \<Rightarrow> kernel \<Rightarrow> kernel" where
  "floppy_timer_step i s =
     (let f = floppy s; msk = push_bit i 0x10 in
      if msk AND current_DOR f = 0 then s
      else if mon_timer f i \<noteq> 0
      then let s = s\<lparr>floppy := f\<lparr>mon_timer := (mon_timer f)(i := mon_timer f i - 1)\<rparr>\<rparr>
           in if mon_timer f i - 1 = 0 then wake_up (Wmotor i) s else s
      else if moff_timer f i = 0
      then outb (current_DOR f AND NOT msk) 0x3f2 (s\<lparr>floppy := f\<lparr>current_DOR := current_DOR f AND NOT msk\<rparr>\<rparr>)
      else s\<lparr>floppy := f\<lparr>moff_timer := (moff_timer f)(i := moff_timer f i - 1)\<rparr>\<rparr>)"

definition do_floppy_timer :: "kernel \<Rightarrow> kernel" where
  "do_floppy_timer s = fold floppy_timer_step [0..<4] s"

section \<open>Timers\<close>

abbreviation "TIME_REQUESTS \<equiv> (64 :: nat)"

definition upd_timer :: "nat \<Rightarrow> (timer_entry \<Rightarrow> timer_entry) \<Rightarrow> kernel \<Rightarrow> kernel" where
  "upd_timer i f s = s\<lparr>timer_list := (timer_list s)(i := f (timer_list s i))\<rparr>"

text \<open>
  The loop of \<open>add_timer\<close>: while the following entry expires sooner, subtract its time and swap
  the contents with it. The first argument bounds the steps; a list without a cycle has at most
  \<open>TIME_REQUESTS\<close> entries.
\<close>

fun sink_timer :: "nat \<Rightarrow> nat \<Rightarrow> kernel \<Rightarrow> kernel option" where
  "sink_timer 0 p s = loops"
| "sink_timer (Suc fuel) p s =
     (case t_next (timer_list s p) of
        None \<Rightarrow> Some s
      | Some q \<Rightarrow>
          let jp = t_jiffies (timer_list s p); jq = t_jiffies (timer_list s q);
              fp = t_fn (timer_list s p); fq = t_fn (timer_list s q)
          in if jq < jp
             then sink_timer fuel q
                    (upd_timer q (\<lambda>e. e\<lparr>t_fn := fp, t_jiffies := jp - jq\<rparr>)
                      (upd_timer p (\<lambda>e. e\<lparr>t_fn := fq, t_jiffies := jq\<rparr>) s))
             else Some s)"

text \<open>The result lists the functions called at once.\<close>

definition add_timer :: "int \<Rightarrow> nat \<Rightarrow> kernel \<Rightarrow> (nat list \<times> kernel) option" where
  "add_timer j fn s =
     (if fn = 0 then Some ([], s)
      else if j \<le> 0 then Some ([fn], s)
      else
        (case find (\<lambda>i. t_fn (timer_list s i) = 0) [0..<TIME_REQUESTS] of
           None \<Rightarrow> panic ''No more time requests free''
         | Some p \<Rightarrow>
             do { let s = upd_timer p (\<lambda>e. \<lparr>t_jiffies = j, t_fn = fn, t_next = next_timer s\<rparr>) s;
                  let s = s\<lparr>next_timer := Some p\<rparr>;
                  s \<leftarrow> sink_timer (Suc TIME_REQUESTS) p s;
                  Some ([], s) }))"

text \<open>The loop of \<open>do_timer\<close> that runs the expired timers.\<close>

fun run_timers :: "nat \<Rightarrow> kernel \<Rightarrow> (nat list \<times> kernel) option" where
  "run_timers 0 s = loops"
| "run_timers (Suc fuel) s =
     (case next_timer s of
        None \<Rightarrow> Some ([], s)
      | Some p \<Rightarrow>
          if t_jiffies (timer_list s p) \<le> 0
          then do { let fn = t_fn (timer_list s p);
                    let s = upd_timer p (\<lambda>e. e\<lparr>t_fn := 0\<rparr>) s;
                    (fns, s) \<leftarrow> run_timers fuel (s\<lparr>next_timer := t_next (timer_list s p)\<rparr>);
                    Some (fn # fns, s) }
          else Some ([], s))"

text \<open>\<open>sysbeepstop\<close> of kernel/chr_drv/console.c disables counter 2.\<close>

definition sysbeepstop :: "kernel \<Rightarrow> kernel" where
  "sysbeepstop s = (case inb 0x61 s of (v, s) \<Rightarrow> outb (v AND 0xFC) 0x61 s)"

definition do_timer :: "int \<Rightarrow> kernel \<Rightarrow> (nat list \<times> kernel) option" where
  "do_timer cpl s =
     do { let s = (if beepcount s \<noteq> 0
                   then let s = s\<lparr>beepcount := beepcount s - 1\<rparr> in if beepcount s = 0 then sysbeepstop s else s
                   else s);
          let s = (if cpl \<noteq> 0 then upd_cur (\<lambda>p. p\<lparr>utime := utime p + 1\<rparr>) s
                   else upd_cur (\<lambda>p. p\<lparr>stime := stime p + 1\<rparr>) s);
          (fns, s) \<leftarrow> (case next_timer s of
                        None \<Rightarrow> Some ([], s)
                      | Some p \<Rightarrow> run_timers (Suc TIME_REQUESTS)
                                   (upd_timer p (\<lambda>e. e\<lparr>t_jiffies := t_jiffies e - 1\<rparr>) s));
          let s = (if current_DOR (floppy s) AND 0xf0 \<noteq> 0 then do_floppy_timer s else s);
          let s = upd_cur (\<lambda>p. p\<lparr>counter := counter p - 1\<rparr>) s;
          if counter (cur s) > 0 then Some (fns, s)
          else
            let s = upd_cur (\<lambda>p. p\<lparr>counter := 0\<rparr>) s in
            if cpl = 0 then Some (fns, s)
            else do { s \<leftarrow> schedule s; Some (fns, s) } }"

section \<open>System calls\<close>

definition sys_alarm :: "int \<Rightarrow> kernel \<Rightarrow> int \<times> kernel" where
  "sys_alarm seconds s =
     (let old = alarm (cur s); old = (if old \<noteq> 0 then (old - jiffies s) sdiv HZ else old)
      in (old, upd_cur (\<lambda>p. p\<lparr>alarm := (if seconds > 0 then jiffies s + HZ * seconds else 0)\<rparr>) s))"

definition sys_getpid :: "kernel \<Rightarrow> int" where "sys_getpid s = pid (cur s)"
definition sys_getppid :: "kernel \<Rightarrow> int" where "sys_getppid s = father (cur s)"
definition sys_getuid :: "kernel \<Rightarrow> int" where "sys_getuid s = uint (uid (cur s))"
definition sys_geteuid :: "kernel \<Rightarrow> int" where "sys_geteuid s = uint (euid (cur s))"
definition sys_getgid :: "kernel \<Rightarrow> int" where "sys_getgid s = uint (gid (cur s))"
definition sys_getegid :: "kernel \<Rightarrow> int" where "sys_getegid s = uint (egid (cur s))"

definition sys_nice :: "int \<Rightarrow> kernel \<Rightarrow> int \<times> kernel" where
  "sys_nice increment s =
     (0, if priority (cur s) - increment > 0
         then upd_cur (\<lambda>p. p\<lparr>priority := priority p - increment\<rparr>) s else s)"

section \<open>Which task the scheduler picks\<close>

definition runnable :: "kernel \<Rightarrow> nat \<Rightarrow> bool" where
  "runnable s i \<longleftrightarrow> 1 \<le> i \<and> i < NR_TASKS \<and> (\<exists>p. task s i = Some p \<and> state p = TASK_RUNNING)"

definition counter_of :: "kernel \<Rightarrow> nat \<Rightarrow> int" where
  "counter_of s i = counter (the (task s i))"

lemma best_task_spec:
  assumes "best_task ts is (c0, n0) = (c, n)"
  shows "(\<forall>i\<in>set is. \<forall>p. ts i = Some p \<longrightarrow> state p = TASK_RUNNING \<longrightarrow> counter p \<le> c) \<and> c0 \<le> c \<and>
    ((c, n) = (c0, n0) \<or>
     (n \<in> set is \<and> (\<exists>p. ts n = Some p \<and> state p = TASK_RUNNING \<and> counter p = c) \<and> c0 < c))"
  using assms
proof (induction "is" arbitrary: c0 n0)
  case (Cons i xs)
  show ?case
  proof (cases "\<exists>p. ts i = Some p \<and> state p = TASK_RUNNING \<and> counter p > c0")
    case True
    then obtain p where p: "ts i = Some p" "state p = TASK_RUNNING" "counter p > c0" by blast
    with Cons.prems have "best_task ts xs (counter p, i) = (c, n)" by simp
    from Cons.IH [OF this] p show ?thesis by auto
  next
    case False
    then have "best_task ts xs (c0, n0) = (c, n)" using Cons.prems by (auto split: option.splits)
    from Cons.IH [OF this] False show ?thesis by fastforce
  qed
qed simp

definition pick_ok :: "kernel \<Rightarrow> nat \<Rightarrow> bool" where
  "pick_ok s n \<longleftrightarrow>
     (if \<exists>i. runnable s i then runnable s n \<and> 0 < counter_of s n \<and> (\<forall>i. runnable s i \<longrightarrow> counter_of s i \<le> counter_of s n)
      else n = 0)"

lemma best_task_pick:
  assumes b: "best_task (task s) (rev [1..<NR_TASKS]) (-1, 0) = (c, n)" and c: "c \<noteq> 0"
    and nonneg: "\<And>i. runnable s i \<Longrightarrow> 0 \<le> counter_of s i"
  shows "pick_ok s n"
proof -
  have set_eq: "set (rev [1..<NR_TASKS]) = {i. 1 \<le> i \<and> i < NR_TASKS}" by auto
  note spec = best_task_spec [OF b, unfolded set_eq]
  show ?thesis
  proof (cases "\<exists>i. runnable s i")
    case True
    then obtain i where i: "runnable s i" by blast
    then have "0 \<le> c" using spec nonneg [OF i] by (fastforce simp: runnable_def counter_of_def)
    then have n: "runnable s n" "counter_of s n = c" using spec c by (auto simp: runnable_def counter_of_def)
    moreover have "counter_of s j \<le> c" if "runnable s j" for j
      using that spec by (auto simp: runnable_def counter_of_def)
    ultimately show ?thesis using True \<open>0 \<le> c\<close> c by (auto simp: pick_ok_def)
  next
    case False
    then show ?thesis using spec by (auto simp: pick_ok_def runnable_def)
  qed
qed

lemma best_task_zero:
  assumes b: "best_task (task s) (rev [1..<NR_TASKS]) (-1, 0) = (0, n)"
  shows "\<exists>i. runnable s i"
  using best_task_spec [OF b] by (auto simp: runnable_def)

lemma runnable_recharge [simp]: "runnable (recharge s) i = runnable s i"
  by (auto simp: runnable_def recharge_def)

lemma counter_recharge:
  "runnable s i \<Longrightarrow> counter_of (recharge s) i = counter_of s i div 2 + priority (the (task s i))"
  by (auto simp: runnable_def recharge_def counter_of_def drop_bit_eq_div)

definition sched_ok :: "kernel \<Rightarrow> bool" where
  "sched_ok s \<longleftrightarrow> (\<forall>i p. 1 \<le> i \<longrightarrow> i < NR_TASKS \<longrightarrow> task s i = Some p \<longrightarrow> 0 \<le> counter p \<and> 0 < priority p)"

lemma sched_okD: "sched_ok s \<Longrightarrow> runnable s i \<Longrightarrow> 0 \<le> counter_of s i \<and> 0 < priority (the (task s i))"
  by (auto simp: sched_ok_def runnable_def counter_of_def)

text \<open>
  C4: the scheduler comes to a decision. When no time slice is negative and every priority is
  positive, \<open>schedule\<close>'s loop ends after handing out new time slices at most once, and it picks a
  runnable task whose remaining time slice is positive and maximal, or task 0 exactly when no task
  is runnable.
\<close>

theorem schedule_loop_picks_best:
  assumes "sched_ok s"
  shows "\<exists>n t. schedule_loop s = Some (n, t) \<and> pick_ok t n \<and> (t = s \<or> t = recharge s)"
proof -
  obtain c n where b: "best_task (task s) (rev [1..<NR_TASKS]) (-1, 0) = (c, n)" by fastforce
  show ?thesis
  proof (cases "c = 0")
    case False
    then have "schedule_loop s = Some (n, s)" using b by (subst schedule_loop.simps) simp
    then show ?thesis using best_task_pick [OF b False] sched_okD [OF assms] by blast
  next
    case True
    obtain i where i: "runnable s i" using best_task_zero b True by blast
    obtain d m where b2: "best_task (task (recharge s)) (rev [1..<NR_TASKS]) (-1, 0) = (d, m)" by fastforce
    have pos: "0 < counter_of (recharge s) j" if "runnable s j" for j
      using counter_recharge [OF that] sched_okD [OF assms that]
      by (simp add: add_nonneg_pos pos_imp_zdiv_nonneg_iff)
    have "i \<in> set (rev [1..<NR_TASKS])" using i by (auto simp: runnable_def)
    then have "0 < d"
      using best_task_spec [OF b2] pos [OF i] i runnable_recharge [of s i]
      by (fastforce simp: runnable_def counter_of_def)
    then have "schedule_loop (recharge s) = Some (m, recharge s)"
      using b2 by (subst schedule_loop.simps) simp
    moreover have "schedule_loop s = schedule_loop (recharge s)"
      using b True by (subst schedule_loop.simps) simp
    moreover have "pick_ok (recharge s) m"
      by (rule best_task_pick [OF b2]) (use \<open>0 < d\<close> pos in \<open>auto intro: less_imp_le\<close>)
    ultimately show ?thesis by metis
  qed
qed

text \<open>Two runnable tasks, with three and five ticks left.\<close>

definition two_tasks :: kernel where
  "two_tasks = boot_kernel\<lparr>task := (task boot_kernel)(1 := Some (init_task\<lparr>counter := 3\<rparr>), 2 := Some (init_task\<lparr>counter := 5\<rparr>))\<rparr>"

theorem schedule_loop_picks_best_witness: "\<exists>t. schedule_loop two_tasks = Some (2, t)"
proof -
  have task: "task two_tasks i = (if i = 1 then Some (init_task\<lparr>counter := 3\<rparr>) else if i = 2 then Some (init_task\<lparr>counter := 5\<rparr>)
      else task boot_kernel i)" for i
    by (simp add: two_tasks_def)
  have ok: "sched_ok two_tasks" by (auto simp: sched_ok_def task init_task_def split: if_splits)
  have r: "runnable two_tasks i \<longleftrightarrow> i = 1 \<or> i = 2" "runnable (recharge two_tasks) i \<longleftrightarrow> i = 1 \<or> i = 2" for i
    by (auto simp: runnable_def recharge_def task init_task_def split: if_splits)
  have c: "counter_of two_tasks 1 < counter_of two_tasks 2" "counter_of (recharge two_tasks) 1 < counter_of (recharge two_tasks) 2"
    by (simp_all add: counter_of_def recharge_def task init_task_def)
  obtain n t where n: "schedule_loop two_tasks = Some (n, t)" "pick_ok t n" "t = two_tasks \<or> t = recharge two_tasks"
    using schedule_loop_picks_best [OF ok] by blast
  have two: "runnable t 2" "counter_of t 1 < counter_of t 2" "runnable t n \<Longrightarrow> n = 1 \<or> n = 2"
    using n(3) r [of 2] r [of n] c by (elim disjE; simp)+
  have "runnable t n \<and> counter_of t 2 \<le> counter_of t n" using n(2) two(1) unfolding pick_ok_def by metis
  then have "n = 2" using two(2,3) by (metis linorder_not_less)
  then show ?thesis using n(1) by blast
qed

lemma check_counter [simp]:
  "counter (wake_if_signalled p) = counter p" "priority (wake_if_signalled p) = priority p"
  "counter (deliver_alarm j p) = counter p" "priority (deliver_alarm j p) = priority p"
  by (simp_all add: wake_if_signalled_def deliver_alarm_def)

text \<open>
  no process can make the scheduler loop for ever with \<open>nice\<close>: \<open>sys_nice\<close>, whatever its argument,
  keeps every time slice non-negative and every priority positive, and so does the scheduler when it
  hands out new slices.
\<close>

lemma nice_keeps_sched_ok:
  assumes "sched_ok s"
  shows "sched_ok (snd (sys_nice increment s)) \<and> sched_ok (recharge s) \<and> sched_ok (check_signals s)"
proof (intro conjI)
  show "sched_ok (snd (sys_nice increment s))"
    using assms by (auto simp: sched_ok_def sys_nice_def upd_cur_def cur_def)
  show "sched_ok (recharge s)"
    using assms
    by (auto simp: sched_ok_def recharge_def drop_bit_eq_div add_nonneg_nonneg less_imp_le)
  show "sched_ok (check_signals s)"
    using assms by (auto simp: sched_ok_def check_signals_def)
qed

lemma nice_keeps_sched_ok_witness: "sched_ok (snd (sys_nice 100 boot_kernel))"
proof -
  have "sched_ok boot_kernel" by (simp add: sched_ok_def)
  then show ?thesis using nice_keeps_sched_ok by blast
qed

section \<open>Sleeping consumes one wake-up\<close>

lemma recharge_frame [simp]:
  "current (recharge s) = current s" "wakes (recharge s) = wakes s" "user (recharge s) = user s"
  by (simp_all add: recharge_def)

lemma schedule_loop_frame:
  assumes "schedule_loop s = Some r"
  shows "current (snd r) = current s \<and> wakes (snd r) = wakes s \<and> user (snd r) = user s"
  using assms
proof (induction rule: schedule_loop.raw_induct [rotated 1, consumes 1, case_names step])
  case (step f s r)
  show ?case
    using step(2) step(1) [of "recharge s" r] by (auto split: prod.splits if_splits)
qed

lemma wq_set_simps [simp]:
  "current (wq_set p v s) = current s" "wakes (wq_set p v s) = wakes s" "user (wq_set p v s) = user s"
  "task (wq_set p v s) = task s"
  by (cases p; simp)+

lemma set_running_simps [simp]:
  "current (set_running p s) = current s" "wakes (set_running p s) = wakes s"
  "user (set_running p s) = user s" "bufs (set_running p s) = bufs s"
  "inode_table (set_running p s) = inode_table s" "super_tab (set_running p s) = super_tab s"
  "file_table (set_running p s) = file_table s" "requests (set_running p s) = requests s"
  "hash_table (set_running p s) = hash_table s" "free_list (set_running p s) = free_list s"
  "nr_buffers (set_running p s) = nr_buffers s" "mem_map (set_running p s) = mem_map s"
  "hw8 (set_running p s) = hw8 s" "hw32 (set_running p s) = hw32 s"
  by (simp_all add: set_running_def split: option.splits)

lemma resume_SomeD:
  "resume s = Some t \<Longrightarrow> current t = current s \<and> user t = user s \<and> (\<exists>x. wakes s = x # wakes t)"
  by (auto simp: resume_def tables.defs kernel.defs split: list.splits)

lemma schedule_wakes:
  assumes "schedule s = Some t"
  shows "current t = current s \<and> user t = user s \<and> (wakes t = wakes s \<or> (\<exists>x. wakes s = x # wakes t))"
proof -
  obtain n u where u: "schedule_loop (check_signals s) = Some (n, u)"
    and t: "(if n = current u then Some u else resume u) = Some t"
    using assms by (auto simp: schedule_def bind_Some_iff)
  have "current u = current s" "wakes u = wakes s" "user u = user s"
    using schedule_loop_frame [OF u] by (simp_all add: check_signals_def)
  then show ?thesis using t resume_SomeD [of u t] by (auto split: if_splits)
qed

lemma sleep_on_wakes:
  assumes "sleep_on p s = Some t"
  shows "current t = current s \<and> user t = user s \<and> (wakes t = wakes s \<or> (\<exists>x. wakes s = x # wakes t))"
proof -
  obtain u where u: "schedule (upd_cur (\<lambda>t. t\<lparr>state := TASK_UNINTERRUPTIBLE\<rparr>) (wq_set p (Some (current s)) s)) = Some u"
    and t: "t = set_running (wq_get p s) u"
    using assms by (auto simp: sleep_on_def halts bind_Some_iff split: if_splits)
  show ?thesis using schedule_wakes [OF u] t by simp
qed

section \<open>What survives a sleep\<close>

text \<open>
  \<open>obs\<close> is the part of the state that a routine is to leave alone, \<open>seen\<close> the same part of the tables
  found at a wake-up. \<open>keeps obs seen s t\<close>: on the way from \<open>s\<close> to \<open>t\<close> the process changed nothing of that
  part itself; it is as it was, or as the last of the wake-ups in between found it.
\<close>

definition keeps :: "(kernel \<Rightarrow> 'x) \<Rightarrow> (tables \<Rightarrow> 'x) \<Rightarrow> kernel \<Rightarrow> kernel \<Rightarrow> bool" where
  "keeps obs seen s t \<longleftrightarrow>
     (\<exists>pre. wakes s = pre @ wakes t \<and> obs t = (if pre = [] then obs s else seen (last pre)))"

lemma keeps_same: "obs t = obs s \<Longrightarrow> wakes t = wakes s \<Longrightarrow> keeps obs seen s t"
  by (auto simp: keeps_def)

lemma keeps_refl [simp, intro]: "keeps obs seen s s"
  by (simp add: keeps_same)

lemma keeps_trans [trans]:
  assumes "keeps obs seen s t" "keeps obs seen t u"
  shows "keeps obs seen s u"
proof -
  obtain p q where p: "wakes s = p @ wakes t" "obs t = (if p = [] then obs s else seen (last p))"
    and q: "wakes t = q @ wakes u" "obs u = (if q = [] then obs t else seen (last q))"
    using assms by (auto simp: keeps_def)
  then show ?thesis unfolding keeps_def by (intro exI [of _ "p @ q"]) auto
qed

lemma keeps_inv:
  assumes "keeps obs seen s t" "P (obs s)" "\<forall>x\<in>set (wakes s). P (seen x)"
  shows "P (obs t)" "\<forall>x\<in>set (wakes t). P (seen x)"
  using assms by (auto simp: keeps_def split: if_splits)

lemma keeps_for_each:
  assumes "for_each xs f s = Some t" "\<And>i u v. i \<in> set xs \<Longrightarrow> f i u = Some v \<Longrightarrow> keeps obs seen u v"
  shows "keeps obs seen s t"
  using for_each_inv [OF assms(1), of "keeps obs seen s"] assms(2) keeps_trans by blast

text \<open>
  The contract of a part of the state that the scheduler and the wait queues do not belong to:
  sleeping and waking keep it.
\<close>

locale observation =
  fixes obs :: "kernel \<Rightarrow> 'x" and seen :: "tables \<Rightarrow> 'x"
  assumes obs_task: "obs (s\<lparr>task := ts\<rparr>) = obs s"
    and obs_wait: "obs (wq_set p v s) = obs s"
    and obs_resume: "obs (tables.extend t (kernel.fields c u w inp out g)) = seen t"
begin

abbreviation "kept \<equiv> keeps obs seen"

lemma obs_upd_task: "obs (upd_task i f s) = obs s"
  by (simp add: upd_task_def obs_task)

lemma obs_set_running: "obs (set_running p s) = obs s"
  by (simp add: set_running_def obs_upd_task split: option.split)

lemma schedule_loop_obs:
  assumes "schedule_loop s = Some r"
  shows "obs (snd r) = obs s"
  using assms
proof (induction rule: schedule_loop.raw_induct [rotated 1, consumes 1, case_names step])
  case (step f s r)
  have "obs (recharge s) = obs s" by (simp add: recharge_def obs_task)
  then show ?case using step(2) step(1) [of "recharge s" r] by (auto split: prod.splits if_splits)
qed

lemma schedule_kept:
  assumes "schedule s = Some t"
  shows "kept s t"
proof -
  obtain n u where u: "schedule_loop (check_signals s) = Some (n, u)"
    and t: "(if n = current u then Some u else resume u) = Some t"
    using assms by (auto simp: schedule_def bind_Some_iff)
  have su: "obs u = obs s" "wakes u = wakes s"
    using schedule_loop_obs [OF u] schedule_loop_frame [OF u] by (simp_all add: check_signals_def obs_task)
  show ?thesis
  proof (cases "n = current u")
    case True
    then show ?thesis using t su by (simp add: keeps_same)
  next
    case False
    then obtain x where "wakes u = x # wakes t" "t = tables.extend x (kernel.fields (current u) (user u) (wakes t) (inputs u) (outputs u) (idt u))"
      using t by (auto simp: resume_def kernel.defs tables.defs split: list.splits)
    then show ?thesis using su obs_resume unfolding keeps_def by (intro exI [of _ "[x]"]) (metis append_Cons append_Nil last.simps not_Cons_self2)
  qed
qed

lemma sleep_on_kept:
  assumes "sleep_on p s = Some t"
  shows "kept s t"
proof -
  let ?s = "upd_cur (\<lambda>t. t\<lparr>state := TASK_UNINTERRUPTIBLE\<rparr>) (wq_set p (Some (current s)) s)"
  obtain u where u: "schedule ?s = Some u" and t: "t = set_running (wq_get p s) u"
    using assms by (auto simp: sleep_on_def halts bind_Some_iff split: if_splits)
  have "kept s ?s" by (rule keeps_same) (simp_all add: upd_cur_def obs_upd_task obs_wait)
  also have "kept ?s u" by (rule schedule_kept [OF u])
  also have "kept u t" by (rule keeps_same) (simp_all add: t obs_set_running)
  finally show ?thesis .
qed

lemma isleep_loop_kept:
  assumes "isleep_loop p s = Some t"
  shows "kept s t"
  using assms
proof (induction rule: isleep_loop.raw_induct [rotated 1, consumes 1, case_names step])
  case (step f p s t)
  let ?s = "upd_cur (\<lambda>t. t\<lparr>state := TASK_INTERRUPTIBLE\<rparr>) s"
  obtain u where u: "schedule ?s = Some u" using step(2) by (auto split: option.splits)
  have "kept s ?s" by (rule keeps_same) (simp_all add: upd_cur_def obs_upd_task)
  also have "kept ?s u" by (rule schedule_kept [OF u])
  finally have su: "kept s u" .
  have r: "kept u (set_running q u)" and w: "kept u (wq_set p None u)" for q
    by (rule keeps_same; simp add: obs_set_running obs_wait)+
  show ?case
    using step(2) u step(1) [of p "set_running (wq_get p u) u" t] keeps_trans [OF su] r w
    by (auto split: if_splits dest: keeps_trans [OF r])
qed

lemma interruptible_sleep_on_kept:
  assumes "interruptible_sleep_on p s = Some t"
  shows "kept s t"
proof -
  obtain u where u: "isleep_loop p (wq_set p (Some (current s)) s) = Some u" and t: "t = set_running (wq_get p s) u"
    using assms by (auto simp: interruptible_sleep_on_def halts bind_Some_iff split: if_splits)
  have "kept s (wq_set p (Some (current s)) s)" by (rule keeps_same) (simp_all add: obs_wait)
  also have "kept \<dots> u" by (rule isleep_loop_kept [OF u])
  also have "kept u t" by (rule keeps_same) (simp_all add: t obs_set_running)
  finally show ?thesis .
qed

lemma wake_up_kept: "kept s (wake_up p s)"
  by (rule keeps_same) (simp_all add: wake_up_def obs_wait obs_set_running split: option.split)

lemma obs_wake_up: "obs (wake_up p s) = obs s"
  by (simp add: wake_up_def obs_wait obs_set_running split: option.split)

end

text \<open>The open-file table is such a part: no sleep of this process changes it by itself.\<close>

interpretation files: observation file_table file_table
proof
  show "file_table (wq_set p v s) = file_table s" for p v s by (cases p) simp_all
qed (simp_all add: tables.defs kernel.defs)

section \<open>The timer list\<close>

text \<open>
  The linked list as the list of its slots, after the fashion of path predicates for pointer
  structures, and the contents of a list of slots.
\<close>

fun tpath :: "(nat \<Rightarrow> timer_entry) \<Rightarrow> nat option \<Rightarrow> nat list \<Rightarrow> bool" where
  "tpath h p [] \<longleftrightarrow> p = None"
| "tpath h p (a # as) \<longleftrightarrow> p = Some a \<and> tpath h (t_next (h a)) as"

definition tvals :: "(nat \<Rightarrow> timer_entry) \<Rightarrow> nat list \<Rightarrow> (int \<times> nat) list" where
  "tvals h ps = map (\<lambda>a. (t_jiffies (h a), t_fn (h a))) ps"

definition timers_wf :: "kernel \<Rightarrow> nat list \<Rightarrow> bool" where
  "timers_wf s ps \<longleftrightarrow>
     tpath (timer_list s) (next_timer s) ps \<and> distinct ps \<and> set ps \<subseteq> {..<TIME_REQUESTS} \<and>
     (\<forall>i<TIME_REQUESTS. t_fn (timer_list s i) \<noteq> 0 \<longleftrightarrow> i \<in> set ps)"

text \<open>What \<open>add_timer\<close> does to the list of delays.\<close>

fun insert_timer :: "int \<times> nat \<Rightarrow> (int \<times> nat) list \<Rightarrow> (int \<times> nat) list" where
  "insert_timer (j, f) [] = [(j, f)]"
| "insert_timer (j, f) ((d, g) # r) =
     (if d < j then (d, g) # insert_timer (j - d, f) r else (j, f) # (d, g) # r)"

lemma tpath_cong:
  "(\<And>a. a \<in> set ps \<Longrightarrow> t_next (h' a) = t_next (h a)) \<Longrightarrow> tpath h' p ps = tpath h p ps"
  by (induction ps arbitrary: p) auto

lemma tvals_cong:
  "(\<And>a. a \<in> set ps \<Longrightarrow> h' a = h a) \<Longrightarrow> tvals h' ps = tvals h ps"
  by (simp add: tvals_def)

lemma upd_timer_simps [simp]:
  "timer_list (upd_timer i f s) = (timer_list s)(i := f (timer_list s i))"
  "next_timer (upd_timer i f s) = next_timer s"
  by (simp_all add: upd_timer_def)

lemma sink_timer_correct:
  assumes "tpath (timer_list s) (Some p) (p # ps)" "distinct (p # ps)" "length ps < fuel"
  shows "\<exists>t. sink_timer fuel p s = Some t \<and> next_timer t = next_timer s \<and>
     (\<forall>a. t_next (timer_list t a) = t_next (timer_list s a)) \<and>
     (\<forall>a. a \<notin> set (p # ps) \<longrightarrow> timer_list t a = timer_list s a) \<and>
     tvals (timer_list t) (p # ps) =
       insert_timer (t_jiffies (timer_list s p), t_fn (timer_list s p)) (tvals (timer_list s) ps)"
  using assms
proof (induction ps arbitrary: fuel p s)
  case Nil
  then obtain n where "fuel = Suc n" by (cases fuel) auto
  with Nil show ?case by (simp add: tvals_def)
next
  case (Cons q qs)
  then obtain n where fuel: "fuel = Suc n" by (cases fuel) auto
  have nx: "t_next (timer_list s p) = Some q" using Cons.prems(1) by simp
  show ?case
  proof (cases "t_jiffies (timer_list s q) < t_jiffies (timer_list s p)")
    case False
    then show ?thesis using nx by (simp add: fuel Let_def tvals_def)
  next
    case True
    let ?u = "upd_timer q (\<lambda>e. e\<lparr>t_fn := t_fn (timer_list s p), t_jiffies := t_jiffies (timer_list s p) - t_jiffies (timer_list s q)\<rparr>)
      (upd_timer p (\<lambda>e. e\<lparr>t_fn := t_fn (timer_list s q), t_jiffies := t_jiffies (timer_list s q)\<rparr>) s)"
    have pq: "p \<noteq> q" "p \<notin> set qs" "q \<notin> set qs" "distinct qs" using Cons.prems(2) by auto
    have step: "sink_timer fuel p s = sink_timer n q ?u"
      using nx True by (simp add: fuel Let_def)
    have path: "tpath (timer_list ?u) (Some q) (q # qs)"
    proof -
      have "tpath (timer_list s) (t_next (timer_list s q)) qs" using Cons.prems(1) by simp
      then show ?thesis using pq tpath_cong [of qs "timer_list ?u" "timer_list s"] by simp
    qed
    have dist: "distinct (q # qs)" and len: "length qs < n" using Cons.prems(2,3) fuel by auto
    obtain t where t: "sink_timer n q ?u = Some t" "next_timer t = next_timer ?u"
        "\<forall>a. t_next (timer_list t a) = t_next (timer_list ?u a)"
        "\<forall>a. a \<notin> set (q # qs) \<longrightarrow> timer_list t a = timer_list ?u a"
        "tvals (timer_list t) (q # qs) =
          insert_timer (t_jiffies (timer_list ?u q), t_fn (timer_list ?u q)) (tvals (timer_list ?u) qs)"
      using Cons.IH [OF path, of n] dist len by blast
    have rest: "tvals (timer_list ?u) qs = tvals (timer_list s) qs"
      using pq by (intro tvals_cong) auto
    have tp: "timer_list t p = timer_list ?u p" using t(4) pq by simp
    have "tvals (timer_list t) (p # q # qs) =
        (t_jiffies (timer_list t p), t_fn (timer_list t p)) # tvals (timer_list t) (q # qs)"
      by (simp add: tvals_def)
    also have "\<dots> = (t_jiffies (timer_list s q), t_fn (timer_list s q)) #
        insert_timer (t_jiffies (timer_list s p) - t_jiffies (timer_list s q), t_fn (timer_list s p)) (tvals (timer_list s) qs)"
      unfolding t(5) rest tp using pq by simp
    also have "\<dots> = insert_timer (t_jiffies (timer_list s p), t_fn (timer_list s p)) (tvals (timer_list s) (q # qs))"
      using True by (simp add: tvals_def)
    finally have vals: "tvals (timer_list t) (p # q # qs) =
        insert_timer (t_jiffies (timer_list s p), t_fn (timer_list s p)) (tvals (timer_list s) (q # qs))" .
    have nx: "\<forall>a. t_next (timer_list t a) = t_next (timer_list s a)" using t(3) by simp
    have out: "\<forall>a. a \<notin> set (p # q # qs) \<longrightarrow> timer_list t a = timer_list s a" using t(4) by simp
    show ?thesis using step t(1,2) nx out vals by simp
  qed
qed

lemma length_timers: "timers_wf s ps \<Longrightarrow> length ps \<le> TIME_REQUESTS"
  using card_mono [of "{..<TIME_REQUESTS}" "set ps"] by (auto simp: timers_wf_def distinct_card)

lemma add_timer_insert:
  assumes wf: "timers_wf s ps" and j: "0 < j" and fn: "fn \<noteq> 0" and room: "length ps < TIME_REQUESTS"
  shows "\<exists>t qs. add_timer j fn s = Some ([], t) \<and> timers_wf t qs \<and>
     tvals (timer_list t) qs = insert_timer (j, fn) (tvals (timer_list s) ps)"
proof -
  have "\<exists>i. i < TIME_REQUESTS \<and> t_fn (timer_list s i) = 0"
  proof (rule ccontr)
    assume "\<not> ?thesis"
    then have "{..<TIME_REQUESTS} \<subseteq> set ps" using wf by (auto simp: timers_wf_def)
    then have "TIME_REQUESTS \<le> card (set ps)" using card_mono [of "set ps" "{..<TIME_REQUESTS}"] by simp
    then show False using room wf by (simp add: timers_wf_def distinct_card)
  qed
  then obtain p where f: "find (\<lambda>i. t_fn (timer_list s i) = 0) [0..<TIME_REQUESTS] = Some p"
    by (cases "find (\<lambda>i. t_fn (timer_list s i) = 0) [0..<TIME_REQUESTS]") (auto simp: find_None_upt)
  have p: "p < TIME_REQUESTS" "t_fn (timer_list s p) = 0"
    using find_Some_first [OF f] by auto
  then have new: "p \<notin> set ps" using wf by (auto simp: timers_wf_def)
  let ?u = "upd_timer p (\<lambda>e. \<lparr>t_jiffies = j, t_fn = fn, t_next = next_timer s\<rparr>) s\<lparr>next_timer := Some p\<rparr>"
  have "tpath (timer_list ?u) (next_timer s) ps \<longleftrightarrow> tpath (timer_list s) (next_timer s) ps"
    using new by (intro tpath_cong) auto
  then have path: "tpath (timer_list ?u) (Some p) (p # ps)"
    using wf by (simp add: timers_wf_def)
  obtain t where t: "sink_timer (Suc TIME_REQUESTS) p ?u = Some t" "next_timer t = Some p"
      "\<forall>a. t_next (timer_list t a) = t_next (timer_list ?u a)"
      "\<forall>a. a \<notin> set (p # ps) \<longrightarrow> timer_list t a = timer_list ?u a"
      "tvals (timer_list t) (p # ps) = insert_timer (j, fn) (tvals (timer_list ?u) ps)"
    using sink_timer_correct [OF path, of "Suc TIME_REQUESTS"] wf new room by (auto simp: timers_wf_def)
  have vals: "tvals (timer_list t) (p # ps) = insert_timer (j, fn) (tvals (timer_list s) ps)"
  proof -
    have "tvals (timer_list ?u) ps = tvals (timer_list s) ps" using new by (intro tvals_cong) auto
    then show ?thesis using t(5) by (simp only:)
  qed
  have nz: "\<forall>x\<in>set (insert_timer (j, fn) vs). snd x \<noteq> 0" if "\<forall>x\<in>set vs. snd x \<noteq> 0" for vs
    using that fn by (induction "(j, fn)" vs arbitrary: j rule: insert_timer.induct) auto
  have "\<forall>x\<in>set (tvals (timer_list s) ps). snd x \<noteq> 0"
    using wf by (auto simp: tvals_def timers_wf_def)
  from nz [OF this] have fns: "t_fn (timer_list t a) \<noteq> 0" if "a \<in> set (p # ps)" for a
    using that unfolding vals [symmetric] by (auto simp: tvals_def)
  have "tpath (timer_list t) (Some p) (p # ps) \<longleftrightarrow> tpath (timer_list ?u) (Some p) (p # ps)"
    using t(3) by (intro tpath_cong) blast
  then have "tpath (timer_list t) (Some p) (p # ps)" using path by blast
  then have "timers_wf t (p # ps)"
    using wf new p t(2,4) fns by (auto simp: timers_wf_def)
  moreover have "add_timer j fn s = Some ([], t)"
    using j fn f t(1) by (simp add: add_timer_def)
  ultimately show ?thesis using vals by blast
qed

text \<open>The ticks after which each entry of the list fires, counted from now.\<close>

fun fires :: "int \<Rightarrow> (int \<times> nat) list \<Rightarrow> (int \<times> nat) list" where
  "fires now [] = []"
| "fires now ((d, f) # r) = (now + d, f) # fires (now + d) r"

lemma fires_shift: "fires (a + b) r = map (\<lambda>(x, f). (a + x, f)) (fires b r)"
  by (induction r arbitrary: b) (auto simp: add.assoc)

lemma insert_timer_fires: "(now + j, f) \<in> set (fires now (insert_timer (j, f) r))"
proof (induction r arbitrary: now j)
  case (Cons x r)
  obtain d g where x: "x = (d, g)" by (cases x)
  show ?case using Cons.IH [of "now + d" "j - d"] by (simp add: x)
qed simp

text \<open>
  C16: \<open>add_timer\<close> carries out exactly the abstract insertion \<open>insert_timer\<close> on the list of delays and
  keeps the list well formed whenever one of the 64 entries is free; the pointer swapping loop ends
  within its bound, and the new function is due after exactly \<open>j\<close> ticks.
\<close>

theorem add_timer_refines:
  assumes wf: "timers_wf s ps" and j: "0 < j" and fn: "fn \<noteq> 0" and room: "length ps < TIME_REQUESTS"
  shows "\<exists>t qs. add_timer j fn s = Some ([], t) \<and> timers_wf t qs \<and>
     tvals (timer_list t) qs = insert_timer (j, fn) (tvals (timer_list s) ps) \<and>
     (j, fn) \<in> set (fires 0 (tvals (timer_list t) qs))"
  using add_timer_insert [OF assms] insert_timer_fires [of 0 j fn "tvals (timer_list s) ps"] by force

text \<open>A state with one timer pending, due after ten ticks.\<close>

definition one_timer :: kernel where
  "one_timer = boot_kernel\<lparr>next_timer := Some 0,
     timer_list := (timer_list boot_kernel)(0 := \<lparr>t_jiffies = 10, t_fn = 3, t_next = None\<rparr>)\<rparr>"

lemma one_timer_facts:
  "timers_wf one_timer [0]" "tvals (timer_list one_timer) [0] = [(10, 3)]"
  by (auto simp: timers_wf_def tvals_def one_timer_def boot_kernel_def)

theorem add_timer_refines_witness:
  "\<exists>t qs. add_timer 14 7 one_timer = Some ([], t) \<and> timers_wf t qs \<and> tvals (timer_list t) qs = [(10, 3), (4, 7)]"
  using add_timer_refines [OF one_timer_facts(1), of 14 7] by (auto simp: one_timer_facts(2))

text \<open>
  C17: a timer added to the list delays every timer behind it. The new timer fires after \<open>j\<close> ticks as
  requested, but a pending timer that was due later, after \<open>j\<close> or more ticks, has its delay added on
  top of the new one instead of being counted from now.
\<close>

theorem add_timer_delays_later_timers:
  assumes "timers_wf s ps" "tvals (timer_list s) ps = (d, g) # r" "0 < j" "j \<le> d" "fn \<noteq> 0"
    "length ps < TIME_REQUESTS"
  shows "\<exists>t qs. add_timer j fn s = Some ([], t) \<and> timers_wf t qs \<and>
     fires 0 (tvals (timer_list t) qs) =
       (j, fn) # map (\<lambda>(x, f). (j + x, f)) (fires 0 (tvals (timer_list s) ps))"
proof -
  obtain t qs where t: "add_timer j fn s = Some ([], t)" "timers_wf t qs"
      "tvals (timer_list t) qs = insert_timer (j, fn) ((d, g) # r)"
    using add_timer_insert [OF assms(1,3,5,6)] assms(2) by metis
  have "fires 0 (tvals (timer_list t) qs) = (j, fn) # fires (j + 0) ((d, g) # r)"
    using t(3) assms(4) by simp
  also have "\<dots> = (j, fn) # map (\<lambda>(x, f). (j + x, f)) (fires 0 ((d, g) # r))"
    by (simp only: fires_shift)
  finally show ?thesis using t(1,2) assms(2) by metis
qed

theorem add_timer_delays_later_timers_witness:
  "\<exists>t qs. add_timer 4 7 one_timer = Some ([], t) \<and> fires 0 (tvals (timer_list t) qs) = [(4, 7), (14, 3)]"
  using add_timer_delays_later_timers [OF one_timer_facts, of 4 7] by (auto simp: one_timer_facts(2))

end
