(* ===== verification/Block.thy ===== *)
theory Block
  imports Sched
begin

text \<open>
  kernel/blk_drv/ll_rw_blk.c and the parts of kernel/blk_drv/blk.h and kernel/blk_drv/ramdisk.c that
  serve it: locking a buffer, allocating a request, the elevator queue of a device, and the RAM
  disk's request routine, which carries the queued requests out at once. The request routines of
  the floppy and the hard disk only start the controller: the request stays at the head of the
  queue until the controller's interrupt, which happens while somebody sleeps.
\<close>

section \<open>Definitions\<close>

abbreviation "READ \<equiv> (0 :: int)"
abbreviation "WRITE \<equiv> (1 :: int)"
abbreviation "READA \<equiv> (2 :: int)"
abbreviation "WRITEA \<equiv> (3 :: int)"

partial_function (option) lock_buffer :: "nat \<Rightarrow> kernel \<Rightarrow> kernel option" where
  "lock_buffer bh s =
     (if b_lock (bufs s bh)
      then (case sleep_on (Wbuf bh) s of None \<Rightarrow> None | Some s \<Rightarrow> lock_buffer bh s)
      else Some (upd_buf bh (\<lambda>b. b\<lparr>b_lock := True\<rparr>) s))"

definition unlock_buffer :: "nat \<Rightarrow> kernel \<Rightarrow> kernel" where
  "unlock_buffer bh s = wake_up (Wbuf bh) (upd_buf bh (\<lambda>b. b\<lparr>b_lock := False\<rparr>) s)"

definition IN_ORDER :: "request \<Rightarrow> request \<Rightarrow> bool" where
  "IN_ORDER s1 s2 \<longleftrightarrow>
     r_cmd s1 < r_cmd s2 \<or> r_cmd s1 = r_cmd s2 \<and>
     (r_dev s1 < r_dev s2 \<or> r_dev s1 = r_dev s2 \<and> r_sector s1 < r_sector s2)"

definition set_current_request :: "nat \<Rightarrow> nat option \<Rightarrow> kernel \<Rightarrow> kernel" where
  "set_current_request major r s = s\<lparr>current_request := (current_request s)(major := r)\<rparr>"

text \<open>\<open>end_request\<close> takes the request \<open>r\<close> at the head of the queue of a device off it.\<close>

definition end_request :: "nat \<Rightarrow> bool \<Rightarrow> nat \<Rightarrow> kernel \<Rightarrow> kernel" where
  "end_request major uptodate r s =
     (let s = (case r_bh (requests s r) of
                 None \<Rightarrow> s
               | Some bh \<Rightarrow> unlock_buffer bh (upd_buf bh (\<lambda>b. b\<lparr>b_uptodate := uptodate\<rparr>) s));
          s = wake_up (Wreq r) s;
          s = wake_up Wrequest s;
          s = upd_req r (\<lambda>q. q\<lparr>r_dev := -1\<rparr>) s
      in set_current_request major (r_next (requests s r)) s)"

text \<open>The two directions of \<open>memcpy\<close> between a buffer's block and physical memory.\<close>

definition buf_to_mem :: "u32 \<Rightarrow> nat \<Rightarrow> nat \<Rightarrow> kernel \<Rightarrow> kernel" where
  "buf_to_mem addr bh len s =
     s\<lparr>hw8 := (\<lambda>a. if unat (a - addr) < len then b_data (bufs s bh) (unat (a - addr)) else hw8 s a)\<rparr>"

definition mem_to_buf :: "nat \<Rightarrow> u32 \<Rightarrow> nat \<Rightarrow> kernel \<Rightarrow> kernel" where
  "mem_to_buf bh addr len s =
     upd_buf bh (\<lambda>b. b\<lparr>b_data := (\<lambda>k. if k < len then hw8 s (addr + of_nat k) else b_data b k)\<rparr>) s"

partial_function (option) do_rd_request :: "kernel \<Rightarrow> kernel option" where
  "do_rd_request s =
     (case current_request s 1 of
        None \<Rightarrow> Some s
      | Some r \<Rightarrow>
          if MAJOR (r_dev (requests s r)) \<noteq> 1 then panic ''ramdisk: request list destroyed''
          else if (case r_bh (requests s r) of None \<Rightarrow> False | Some bh \<Rightarrow> \<not> b_lock (bufs s bh))
          then panic ''ramdisk: block not locked''
          else
            let addr = rd_start s + push_bit 9 (r_sector (requests s r));
                len = push_bit 9 (r_nr_sectors (requests s r))
            in if MINOR (r_dev (requests s r)) \<noteq> 1 \<or> addr + len > rd_start s + word_of_int (rd_length s)
               then do_rd_request (end_request 1 False r s)
               else if r_cmd (requests s r) = WRITE
               then (case r_buffer (requests s r) of
                       None \<Rightarrow> null_deref
                     | Some bh \<Rightarrow> do_rd_request (end_request 1 True r (buf_to_mem addr bh (unat len) s)))
               else if r_cmd (requests s r) = READ
               then (case r_buffer (requests s r) of
                       None \<Rightarrow> null_deref
                     | Some bh \<Rightarrow> do_rd_request (end_request 1 True r (mem_to_buf bh addr (unat len) s)))
               else panic ''unknown ramdisk-command'')"

definition call_request_fn :: "nat \<Rightarrow> kernel \<Rightarrow> kernel option" where
  "call_request_fn major s =
     (case request_fn s major of
        None \<Rightarrow> null_deref
      | Some do_rd_request_fn \<Rightarrow> do_rd_request s
      | Some controller_fn \<Rightarrow> Some s)"

text \<open>The queue entry after which a request is inserted.\<close>

partial_function (option) elevator :: "nat \<Rightarrow> nat \<Rightarrow> kernel \<Rightarrow> nat option" where
  "elevator req tmp s =
     (case r_next (requests s tmp) of
        None \<Rightarrow> Some tmp
      | Some nxt \<Rightarrow>
          if (IN_ORDER (requests s tmp) (requests s req) \<or> \<not> IN_ORDER (requests s tmp) (requests s nxt)) \<and>
             IN_ORDER (requests s req) (requests s nxt)
          then Some tmp else elevator req nxt s)"

definition add_request :: "nat \<Rightarrow> nat \<Rightarrow> kernel \<Rightarrow> kernel option" where
  "add_request major req s =
     (let s = upd_req req (\<lambda>q. q\<lparr>r_next := None\<rparr>) s;
          s = (case r_bh (requests s req) of
                 None \<Rightarrow> s | Some bh \<Rightarrow> upd_buf bh (\<lambda>b. b\<lparr>b_dirt := False\<rparr>) s)
      in case current_request s major of
           None \<Rightarrow> call_request_fn major (set_current_request major (Some req) s)
         | Some h \<Rightarrow>
             do { tmp \<leftarrow> elevator req h s;
                  let s = upd_req req (\<lambda>q. q\<lparr>r_next := r_next (requests s tmp)\<rparr>) s;
                  Some (upd_req tmp (\<lambda>q. q\<lparr>r_next := Some req\<rparr>) s) })"

text \<open>A free request, searched downwards; reads may use every slot, writes the first two thirds.\<close>

definition free_slot :: "int \<Rightarrow> kernel \<Rightarrow> nat option" where
  "free_slot rw s =
     find (\<lambda>i. r_dev (requests s i) < 0) (rev [0..<(if rw = READ then NR_REQUEST else NR_REQUEST * 2 div 3)])"

partial_function (option) get_request :: "bool \<Rightarrow> int \<Rightarrow> kernel \<Rightarrow> (nat option \<times> kernel) option" where
  "get_request rw_ahead rw s =
     (case free_slot rw s of
        Some i \<Rightarrow> Some (Some i, s)
      | None \<Rightarrow>
          if rw_ahead then Some (None, s)
          else (case sleep_on Wrequest s of None \<Rightarrow> None | Some s \<Rightarrow> get_request rw_ahead rw s))"

definition fill_request :: "nat \<Rightarrow> int \<Rightarrow> nat \<Rightarrow> kernel \<Rightarrow> kernel" where
  "fill_request req rw bh s =
     upd_req req (\<lambda>_. \<lparr>r_dev = uint (b_dev (bufs s bh)), r_cmd = rw, r_errors = 0,
       r_sector = push_bit 1 (b_blocknr (bufs s bh)), r_nr_sectors = 2, r_buffer = Some bh, r_off = 0,
       r_waiting = None, r_bh = Some bh, r_next = None\<rparr>) s"

definition make_request :: "nat \<Rightarrow> int \<Rightarrow> nat \<Rightarrow> kernel \<Rightarrow> kernel option" where
  "make_request major rw bh s =
     (let rw_ahead = (rw = READA \<or> rw = WRITEA) in
      if rw_ahead \<and> b_lock (bufs s bh) then Some s
      else
        let rw = (if rw_ahead then (if rw = READA then READ else WRITE) else rw) in
        if rw \<noteq> READ \<and> rw \<noteq> WRITE then panic ''Bad block dev command, must be R/W/RA/WA''
        else do {
          s \<leftarrow> lock_buffer bh s;
          if rw = WRITE \<and> \<not> b_dirt (bufs s bh) \<or> rw = READ \<and> b_uptodate (bufs s bh)
          then Some (unlock_buffer bh s)
          else do {
            (req, s) \<leftarrow> get_request rw_ahead rw s;
            (case req of
               None \<Rightarrow> Some (unlock_buffer bh s)
             | Some req \<Rightarrow> add_request major req (fill_request req rw bh s)) } })"

definition ll_rw_block :: "int \<Rightarrow> nat \<Rightarrow> kernel \<Rightarrow> kernel option" where
  "ll_rw_block rw bh s =
     (let major = MAJOR (uint (b_dev (bufs s bh))) in
      if major \<ge> NR_BLK_DEV \<or> request_fn s major = None then Some s
      else make_request major rw bh s)"

definition blk_dev_init :: "kernel \<Rightarrow> kernel" where
  "blk_dev_init s = fold (\<lambda>i. upd_req i (\<lambda>q. q\<lparr>r_dev := -1, r_next := None\<rparr>)) [0..<NR_REQUEST] s"

definition rd_init :: "u32 \<Rightarrow> int \<Rightarrow> kernel \<Rightarrow> int \<times> kernel" where
  "rd_init mem_start len s =
     (len, s\<lparr>request_fn := (request_fn s)(1 := Some do_rd_request_fn), rd_start := mem_start, rd_length := len,
            hw8 := (\<lambda>a. if int (unat (a - mem_start)) < len then 0 else hw8 s a)\<rparr>)"

section \<open>The RAM disk\<close>

lemma wake_up_simps [simp]:
  "current (wake_up p s) = current s" "wakes (wake_up p s) = wakes s" "user (wake_up p s) = user s"
  "hw8 (wake_up p s) = hw8 s" "rd_start (wake_up p s) = rd_start s" "rd_length (wake_up p s) = rd_length s"
  "request_fn (wake_up p s) = request_fn s" "current_request (wake_up p s) = current_request s"
  "b_data (bufs (wake_up p s) i) = b_data (bufs s i)" "b_dev (bufs (wake_up p s) i) = b_dev (bufs s i)"
  "b_blocknr (bufs (wake_up p s) i) = b_blocknr (bufs s i)" "b_lock (bufs (wake_up p s) i) = b_lock (bufs s i)"
  "b_dirt (bufs (wake_up p s) i) = b_dirt (bufs s i)" "b_count (bufs (wake_up p s) i) = b_count (bufs s i)"
  "b_uptodate (bufs (wake_up p s) i) = b_uptodate (bufs s i)" "r_dev (requests (wake_up p s) r) = r_dev (requests s r)"
  "r_next (requests (wake_up p s) r) = r_next (requests s r)"
  by (cases p; simp add: wake_up_def set_running_def split: option.split)+

lemma unlock_buffer_simps [simp]:
  "current (unlock_buffer b s) = current s" "wakes (unlock_buffer b s) = wakes s"
  "user (unlock_buffer b s) = user s" "hw8 (unlock_buffer b s) = hw8 s"
  "rd_start (unlock_buffer b s) = rd_start s" "rd_length (unlock_buffer b s) = rd_length s"
  "request_fn (unlock_buffer b s) = request_fn s" "current_request (unlock_buffer b s) = current_request s"
  "b_data (bufs (unlock_buffer b s) i) = b_data (bufs s i)" "b_dev (bufs (unlock_buffer b s) i) = b_dev (bufs s i)"
  "b_blocknr (bufs (unlock_buffer b s) i) = b_blocknr (bufs s i)"
  "b_lock (bufs (unlock_buffer b s) i) \<longleftrightarrow> i \<noteq> b \<and> b_lock (bufs s i)"
  "b_dirt (bufs (unlock_buffer b s) i) = b_dirt (bufs s i)"
  "b_uptodate (bufs (unlock_buffer b s) i) = b_uptodate (bufs s i)"
  "b_count (bufs (unlock_buffer b s) i) = b_count (bufs s i)"
  "r_dev (requests (unlock_buffer b s) r) = r_dev (requests s r)"
  "r_next (requests (unlock_buffer b s) r) = r_next (requests s r)"
  by (simp_all add: unlock_buffer_def)

lemma set_current_request_simps [simp]:
  "current_request (set_current_request m r s) = (current_request s)(m := r)"
  "requests (set_current_request m r s) = requests s" "bufs (set_current_request m r s) = bufs s"
  "hw8 (set_current_request m r s) = hw8 s" "rd_start (set_current_request m r s) = rd_start s"
  "rd_length (set_current_request m r s) = rd_length s" "request_fn (set_current_request m r s) = request_fn s"
  by (simp_all add: set_current_request_def)

text \<open>A buffer as the device sees it.\<close>

definition same_buffer :: "kernel \<Rightarrow> kernel \<Rightarrow> nat \<Rightarrow> bool" where
  "same_buffer s t i \<longleftrightarrow>
     b_data (bufs t i) = b_data (bufs s i) \<and> b_dev (bufs t i) = b_dev (bufs s i) \<and>
     b_blocknr (bufs t i) = b_blocknr (bufs s i) \<and> b_lock (bufs t i) = b_lock (bufs s i) \<and>
     b_dirt (bufs t i) = b_dirt (bufs s i) \<and> b_uptodate (bufs t i) = b_uptodate (bufs s i)"

definition rd_ready :: "kernel \<Rightarrow> bool" where
  "rd_ready s \<longleftrightarrow>
     request_fn s 1 = Some do_rd_request_fn \<and> current_request s 1 = None \<and>
     (\<exists>i<NR_REQUEST * 2 div 3. r_dev (requests s i) < 0)"

definition rd_addr :: "kernel \<Rightarrow> u32 \<Rightarrow> u32" where
  "rd_addr s nr = rd_start s + push_bit 9 (push_bit 1 nr)"

definition on_rd :: "kernel \<Rightarrow> nat \<Rightarrow> bool" where
  "on_rd s bh \<longleftrightarrow>
     b_dev (bufs s bh) = 0x101 \<and> \<not> b_lock (bufs s bh) \<and>
     rd_addr s (b_blocknr (bufs s bh)) + 1024 \<le> rd_start s + word_of_int (rd_length s)"

lemma do_rd_request_end: "current_request s 1 = None \<Longrightarrow> do_rd_request s = Some s"
  by (subst do_rd_request.simps) simp

lemma MAJOR_rd [simp]: "MAJOR 257 = 1" and MINOR_rd [simp]: "MINOR 257 = 1"
  by (simp_all add: MAJOR_def MINOR_def)

lemma end_request_simps:
  assumes "r_bh (requests s r) = Some bh"
  shows "request_fn (end_request m u r s) = request_fn s"
    "current_request (end_request m u r s) = (current_request s)(m := r_next (requests s r))"
    "rd_start (end_request m u r s) = rd_start s" "rd_length (end_request m u r s) = rd_length s"
    "hw8 (end_request m u r s) = hw8 s"
    "r_dev (requests (end_request m u r s) j) = (if j = r then -1 else r_dev (requests s j))"
    "b_data (bufs (end_request m u r s) i) = b_data (bufs s i)"
    "b_dev (bufs (end_request m u r s) i) = b_dev (bufs s i)"
    "b_blocknr (bufs (end_request m u r s) i) = b_blocknr (bufs s i)"
    "b_dirt (bufs (end_request m u r s) i) = b_dirt (bufs s i)"
    "b_lock (bufs (end_request m u r s) i) \<longleftrightarrow> i \<noteq> bh \<and> b_lock (bufs s i)"
    "b_uptodate (bufs (end_request m u r s) i) = (if i = bh then u else b_uptodate (bufs s i))"
  using assms by (simp_all add: end_request_def Let_def)

lemma do_rd_request_one:
  assumes "current_request s 1 = Some r" "r_dev (requests s r) = 257" "r_bh (requests s r) = Some bh"
    "r_buffer (requests s r) = Some bh" "b_lock (bufs s bh)" "r_next (requests s r) = None"
    "r_nr_sectors (requests s r) = 2" "r_cmd (requests s r) = rw" "rw = READ \<or> rw = WRITE"
    "rd_start s + push_bit 9 (r_sector (requests s r)) + 1024 \<le> rd_start s + word_of_int (rd_length s)"
  shows "do_rd_request s = Some (end_request 1 True r
    (if rw = WRITE then buf_to_mem (rd_start s + push_bit 9 (r_sector (requests s r))) bh 1024 s
     else mem_to_buf bh (rd_start s + push_bit 9 (r_sector (requests s r))) 1024 s))" (is "_ = Some ?t")
proof -
  have len: "push_bit 9 (2 :: u32) = 1024" by simp
  have "do_rd_request s = do_rd_request ?t"
    using assms(9,10) assms(1-8)
    by (subst do_rd_request.simps) (auto simp: Let_def len not_less)
  moreover have "current_request ?t 1 = None"
    using assms(3,6) by (simp add: end_request_def Let_def buf_to_mem_def mem_to_buf_def)
  ultimately show ?thesis using do_rd_request_end by simp
qed

lemma find_rev_upt:
  assumes "i < n" "P i"
  shows "\<exists>j<n. find P (rev [0..<n]) = Some j \<and> P j"
proof (cases "find P (rev [0..<n])")
  case None
  then show ?thesis using assms by (auto simp: find_None_iff)
next
  case (Some j)
  then have "j < n" "P j" by (auto simp: find_Some_iff rev_nth)
  with Some show ?thesis by blast
qed

lemma rd_transfer:
  assumes ready: "rd_ready s" and on: "on_rd s bh" and rw: "rw = READ \<or> rw = WRITE"
    and todo: "if rw = WRITE then b_dirt (bufs s bh) else \<not> b_uptodate (bufs s bh)"
  shows "\<exists>t. ll_rw_block rw bh s = Some t \<and> rd_ready t \<and> rd_start t = rd_start s \<and> rd_length t = rd_length s \<and>
    (\<forall>i. i \<noteq> bh \<longrightarrow> same_buffer s t i) \<and>
    b_dev (bufs t bh) = 0x101 \<and> b_blocknr (bufs t bh) = b_blocknr (bufs s bh) \<and>
    b_uptodate (bufs t bh) \<and> \<not> b_dirt (bufs t bh) \<and> \<not> b_lock (bufs t bh) \<and>
    (if rw = WRITE
     then b_data (bufs t bh) = b_data (bufs s bh) \<and>
       hw8 t = (\<lambda>a. if unat (a - rd_addr s (b_blocknr (bufs s bh))) < 1024
                    then b_data (bufs s bh) (unat (a - rd_addr s (b_blocknr (bufs s bh)))) else hw8 s a)
     else hw8 t = hw8 s \<and>
       b_data (bufs t bh) = (\<lambda>k. if k < 1024 then hw8 s (rd_addr s (b_blocknr (bufs s bh)) + of_nat k)
                                 else b_data (bufs s bh) k))"
proof -
  let ?s1 = "upd_buf bh (\<lambda>b. b\<lparr>b_lock := True\<rparr>) s"
  have dev: "b_dev (bufs s bh) = 0x101" and ul: "\<not> b_lock (bufs s bh)" using on by (auto simp: on_rd_def)
  have lock: "lock_buffer bh s = Some ?s1" using ul by (subst lock_buffer.simps) simp
  obtain k where k: "k < NR_REQUEST * 2 div 3" "r_dev (requests s k) < 0" using ready by (auto simp: rd_ready_def)
  have "\<exists>i. free_slot rw ?s1 = Some i \<and> r_dev (requests s i) < 0"
    unfolding free_slot_def
    using k find_rev_upt [of k "if rw = READ then NR_REQUEST else NR_REQUEST * 2 div 3" "\<lambda>i. r_dev (requests ?s1 i) < 0"]
    by (force split: if_splits)
  then obtain i where i: "free_slot rw ?s1 = Some i" "r_dev (requests s i) < 0" by blast
  have req: "get_request False rw ?s1 = Some (Some i, ?s1)"
    by (subst get_request.simps) (simp add: i)
  let ?s3 = "upd_req i (\<lambda>q. q\<lparr>r_next := None\<rparr>) (fill_request i rw bh ?s1)"
  let ?s5 = "set_current_request 1 (Some i) (upd_buf bh (\<lambda>b. b\<lparr>b_dirt := False\<rparr>) ?s3)"
  let ?addr = "rd_addr s (b_blocknr (bufs s bh))"
  define v where "v = (if rw = WRITE then buf_to_mem ?addr bh 1024 ?s5 else mem_to_buf bh ?addr 1024 ?s5)"
  let ?t = "end_request 1 True i v"
  have "request_fn s 1 = Some do_rd_request_fn" "current_request s 1 = None"
    using ready by (auto simp: rd_ready_def)
  then have "ll_rw_block rw bh s = do_rd_request ?s5"
    using rw todo lock req dev
    by (auto simp: ll_rw_block_def make_request_def add_request_def fill_request_def call_request_fn_def Let_def)
  also have "\<dots> = Some ?t"
    using do_rd_request_one [of ?s5 i bh rw] on rw dev
    by (simp add: v_def fill_request_def rd_addr_def on_rd_def)
  finally have run: "ll_rw_block rw bh s = Some ?t" .
  have v: "request_fn v = request_fn s" "rd_start v = rd_start s" "rd_length v = rd_length s"
      "current_request v 1 = Some i" "r_bh (requests v i) = Some bh" "r_next (requests v i) = None"
      "\<And>j. j \<noteq> i \<Longrightarrow> r_dev (requests v j) = r_dev (requests s j)"
      "\<And>j. j \<noteq> bh \<Longrightarrow> same_buffer s v j" "b_dev (bufs v bh) = 0x101"
      "b_blocknr (bufs v bh) = b_blocknr (bufs s bh)" "\<not> b_dirt (bufs v bh)"
    using dev by (simp_all add: v_def buf_to_mem_def mem_to_buf_def fill_request_def same_buffer_def)
  have data: "if rw = WRITE
     then b_data (bufs v bh) = b_data (bufs s bh) \<and>
       hw8 v = (\<lambda>a. if unat (a - ?addr) < 1024 then b_data (bufs s bh) (unat (a - ?addr)) else hw8 s a)
     else hw8 v = hw8 s \<and>
       b_data (bufs v bh) = (\<lambda>k. if k < 1024 then hw8 s (?addr + of_nat k) else b_data (bufs s bh) k)"
    by (simp add: v_def buf_to_mem_def mem_to_buf_def fill_request_def cong: if_cong)
  note t = end_request_simps [OF v(5), of 1 True]
  have "rd_ready ?t" unfolding rd_ready_def t v(1,6) using ready k v(7) by (auto simp: rd_ready_def intro!: exI [of _ k])
  moreover have "rd_start ?t = rd_start s" "rd_length ?t = rd_length s"
    by (simp_all only: t v(2,3))
  moreover have "\<forall>j. j \<noteq> bh \<longrightarrow> same_buffer s ?t j"
    using v(8) unfolding same_buffer_def t by simp
  moreover have "b_dev (bufs ?t bh) = 0x101" "b_blocknr (bufs ?t bh) = b_blocknr (bufs s bh)"
      "b_uptodate (bufs ?t bh)" "\<not> b_dirt (bufs ?t bh)" "\<not> b_lock (bufs ?t bh)"
    using v(9-11) unfolding t by simp_all
  moreover note data [folded t(5,7)]
  ultimately show ?thesis using run by blast
qed

text \<open>
  C5: the RAM disk stores what is written. A block written by \<open>ll_rw_block\<close> from one buffer and then
  read by \<open>ll_rw_block\<close> into another buffer of the same block arrives byte for byte; neither call
  sleeps, and both buffers end up valid, clean and unlocked.
\<close>

theorem ramdisk_round_trip:
  assumes "rd_ready s" "on_rd s a" "on_rd s b" "a \<noteq> b" "b_blocknr (bufs s b) = b_blocknr (bufs s a)"
    "b_dirt (bufs s a)" "\<not> b_uptodate (bufs s b)"
  shows "\<exists>t u. ll_rw_block WRITE a s = Some t \<and> ll_rw_block READ b t = Some u \<and>
    (\<forall>k<1024. b_data (bufs u b) k = b_data (bufs s a) k) \<and>
    (\<forall>i\<in>{a, b}. b_uptodate (bufs u i) \<and> \<not> b_dirt (bufs u i) \<and> \<not> b_lock (bufs u i))"
proof -
  let ?addr = "rd_addr s (b_blocknr (bufs s a))"
  obtain t where t: "ll_rw_block WRITE a s = Some t" "rd_ready t" "rd_start t = rd_start s" "rd_length t = rd_length s"
      "\<forall>i. i \<noteq> a \<longrightarrow> same_buffer s t i" "b_uptodate (bufs t a)" "\<not> b_dirt (bufs t a)" "\<not> b_lock (bufs t a)"
      "hw8 t = (\<lambda>x. if unat (x - ?addr) < 1024 then b_data (bufs s a) (unat (x - ?addr)) else hw8 s x)"
    using rd_transfer [OF assms(1,2), of WRITE] assms(6) by auto
  have tb: "same_buffer s t b" using t(5) assms(4) by simp
  then have "on_rd t b" "\<not> b_uptodate (bufs t b)" "b_blocknr (bufs t b) = b_blocknr (bufs s a)"
    using assms(3,5,7) t(3,4) by (simp_all add: on_rd_def same_buffer_def rd_addr_def)
  moreover from this have "rd_addr t (b_blocknr (bufs t b)) = ?addr" using t(3) by (simp add: rd_addr_def)
  ultimately obtain u where u: "ll_rw_block READ b t = Some u" "\<forall>i. i \<noteq> b \<longrightarrow> same_buffer t u i"
      "b_uptodate (bufs u b)" "\<not> b_dirt (bufs u b)" "\<not> b_lock (bufs u b)"
      "b_data (bufs u b) = (\<lambda>k. if k < 1024 then hw8 t (?addr + of_nat k) else b_data (bufs t b) k)"
    using rd_transfer [OF t(2), of b READ] by (auto cong: if_cong)
  have "b_data (bufs u b) k = b_data (bufs s a) k" if "k < 1024" for k
  proof -
    have "unat (of_nat k :: u32) = k" using that by (simp add: unsigned_of_nat take_bit_nat_eq_self)
    then show ?thesis using that u(6) t(9) by simp
  qed
  moreover have "same_buffer t u a" using u(2) assms(4) by simp
  ultimately show ?thesis using t(1,6-8) u(1,3-5) by (auto simp: same_buffer_def)
qed

text \<open>A RAM disk of 16 KB, a modified buffer for its block 3 and an empty buffer for the same block.\<close>

definition rd_example :: kernel where
  "rd_example = boot_kernel\<lparr>request_fn := (\<lambda>_. None)(1 := Some do_rd_request_fn), rd_start := 0x400000,
     rd_length := 0x4000,
     bufs := (\<lambda>i. zero_buf\<lparr>b_dev := 0x101, b_blocknr := 3, b_dirt := i = 0,
                  b_data := (if i = 0 then (\<lambda>k. of_nat k) else (\<lambda>_. 0))\<rparr>)\<rparr>"

theorem ramdisk_round_trip_witness:
  "\<exists>t u. ll_rw_block WRITE 0 rd_example = Some t \<and> ll_rw_block READ 1 t = Some u \<and> b_data (bufs u 1) 77 = 77"
proof -
  have "rd_ready rd_example" by (auto simp: rd_ready_def rd_example_def free_request_def intro: exI [of _ 0])
  moreover have "on_rd rd_example 0" "on_rd rd_example 1"
    by (simp_all add: on_rd_def rd_example_def rd_addr_def zero_buf_def)
  moreover have "b_blocknr (bufs rd_example 1) = b_blocknr (bufs rd_example 0)" "b_dirt (bufs rd_example 0)"
      "\<not> b_uptodate (bufs rd_example 1)"
    by (simp_all add: rd_example_def zero_buf_def)
  ultimately obtain t u where "ll_rw_block WRITE 0 rd_example = Some t" "ll_rw_block READ 1 t = Some u"
      "\<forall>k<1024. b_data (bufs u 1) k = b_data (bufs rd_example 0) k"
    using ramdisk_round_trip [of rd_example 0 1] by auto
  then show ?thesis by (intro exI conjI) (assumption | simp add: rd_example_def)+
qed

section \<open>The elevator\<close>

type_synonym key = "int \<times> int \<times> u32"

definition key_of :: "request \<Rightarrow> key" where
  "key_of r = (r_cmd r, r_dev r, r_sector r)"

fun key_less :: "key \<Rightarrow> key \<Rightarrow> bool" where
  "key_less (c, d, x) (c', d', x') \<longleftrightarrow> c < c' \<or> c = c' \<and> (d < d' \<or> d = d' \<and> x < x')"

lemma IN_ORDER_key: "IN_ORDER a b \<longleftrightarrow> key_less (key_of a) (key_of b)"
  by (simp add: IN_ORDER_def key_of_def)

lemma key_less_trans: "key_less a b \<Longrightarrow> key_less b c \<Longrightarrow> key_less a c"
  by (cases a; cases b; cases c) auto

lemma key_less_total: "\<not> key_less a b \<Longrightarrow> a \<noteq> b \<Longrightarrow> key_less b a"
  by (cases a; cases b) auto

lemma key_less_irrefl: "\<not> key_less a a"
  by (cases a) auto

lemma key_less_asym: "key_less a b \<Longrightarrow> \<not> key_less b a"
  using key_less_trans key_less_irrefl by blast

text \<open>The walk of \<open>add_request\<close> on lists of keys.\<close>

fun elevate :: "key \<Rightarrow> key list \<Rightarrow> key list" where
  "elevate q [] = [q]"
| "elevate q [x] = [x, q]"
| "elevate q (x # y # r) =
     (if (key_less x q \<or> \<not> key_less x y) \<and> key_less q y then x # q # y # r else x # elevate q (y # r))"

text \<open>
  The order in which the arm should serve: a sweep is a list of rising keys, and a request joins a sweep
  behind the smaller keys and before the larger ones.
\<close>

definition join_sweep :: "key \<Rightarrow> key list \<Rightarrow> key list" where
  "join_sweep q xs = takeWhile (\<lambda>x. key_less x q) xs @ q # dropWhile (\<lambda>x. key_less x q) xs"

lemma join_sweep_simps [simp]:
  "join_sweep q [] = [q]" "join_sweep q (x # xs) = (if key_less x q then x # join_sweep q xs else q # x # xs)"
  by (simp_all add: join_sweep_def)

lemma join_sweep_set [simp]: "set (join_sweep q xs) = insert q (set xs)"
  by (induction xs) auto

lemma join_sweep_sorted:
  "sorted_wrt key_less xs \<Longrightarrow> q \<notin> set xs \<Longrightarrow> sorted_wrt key_less (join_sweep q xs)"
  by (induction xs) (auto dest: key_less_total intro: key_less_trans)

lemma elevate_ahead:
  assumes "sorted_wrt key_less (x # A)" "key_less x q" "q \<notin> set A" "B = [] \<or> key_less q (last (x # A))"
  shows "elevate q (x # A @ B) = x # join_sweep q A @ B"
  using assms
proof (induction A arbitrary: x)
  case Nil
  then have "B = []" using key_less_asym [of x q] by simp
  then show ?case by simp
next
  case (Cons y A)
  show ?case
  proof (cases "key_less q y")
    case True
    then have "\<not> key_less y q" using key_less_trans key_less_irrefl by blast
    then show ?thesis using True Cons.prems(2) by simp
  next
    case False
    then have yq: "key_less y q" using key_less_total [of q y] Cons.prems(3) by auto
    have "elevate q (y # A @ B) = y # join_sweep q A @ B"
      by (rule Cons.IH [OF _ yq]) (use Cons.prems in auto)
    then show ?thesis using False yq by simp
  qed
qed

lemma elevate_next:
  assumes "\<not> key_less x b" "sorted_wrt key_less (b # B)" "q \<notin> set (b # B)"
  shows "elevate q (x # b # B) = x # join_sweep q (b # B)"
proof (cases "key_less q b")
  case True
  then have "\<not> key_less b q" using key_less_trans key_less_irrefl by blast
  then show ?thesis using True assms(1) by simp
next
  case False
  then have "key_less b q" using key_less_total [of q b] assms(3) by auto
  then show ?thesis using elevate_ahead [of b B q "[]"] False assms(2,3) by simp
qed

lemma elevate_behind:
  assumes "sorted_wrt key_less (x # A)" "sorted_wrt key_less B" "B \<noteq> [] \<longrightarrow> \<not> key_less (last (x # A)) (hd B)"
    "q \<notin> set B" "key_less q x \<or> B \<noteq> [] \<and> key_less (last (x # A)) q"
  shows "elevate q (x # A @ B) = (x # A) @ join_sweep q B"
  using assms
proof (induction A arbitrary: x)
  case Nil
  then show ?case using elevate_next [of x "hd B" "tl B" q] key_less_trans key_less_irrefl by (cases B) auto
next
  case (Cons y A)
  have xy: "key_less x y" using Cons.prems(1) by simp
  have yq: "key_less q y \<or> B \<noteq> [] \<and> key_less (last (y # A)) q" using Cons.prems(5) key_less_trans [OF _ xy, of q] by (metis last_ConsR list.distinct(1))
  have "elevate q (y # A @ B) = (y # A) @ join_sweep q B"
    by (rule Cons.IH [OF _ Cons.prems(2) _ Cons.prems(4) yq]) (use Cons.prems in auto)
  moreover have "\<not> (key_less x q \<and> key_less q y)"
  proof
    assume between: "key_less x q \<and> key_less q y"
    then have "key_less (last (y # A)) q" using Cons.prems(5) key_less_asym [of x q] by simp
    moreover have "key_less y (last (y # A)) \<or> last (y # A) = y" using Cons.prems(1) by auto
    ultimately show False using between key_less_trans key_less_asym by metis
  qed
  ultimately show ?case using xy by auto
qed

lemma elevate_sweeps:
  assumes "A \<noteq> []" "sorted_wrt key_less A" "sorted_wrt key_less B" "B \<noteq> [] \<longrightarrow> \<not> key_less (last A) (hd B)" "q \<notin> set (A @ B)"
  shows "elevate q (A @ B) =
    (if key_less (hd A) q \<and> (B = [] \<or> key_less q (last A)) then join_sweep q A @ B else A @ join_sweep q B)"
proof -
  obtain x A' where A: "A = x # A'" using assms(1) by (cases A) auto
  show ?thesis
  proof (cases "key_less x q \<and> (B = [] \<or> key_less q (last A))")
    case True
    then show ?thesis using elevate_ahead [of x A' q B] assms A by simp
  next
    case False
    have "q \<noteq> x" "q \<noteq> last A" using assms(5) A last_in_set [of A] by auto
    then have "key_less q x \<or> B \<noteq> [] \<and> key_less (last A) q" using False key_less_total by blast
    then show ?thesis using elevate_behind [of x A' B q] assms A False by auto
  qed
qed

fun rpath :: "(nat \<Rightarrow> request) \<Rightarrow> nat option \<Rightarrow> nat list \<Rightarrow> bool" where
  "rpath h p [] \<longleftrightarrow> p = None"
| "rpath h p (a # as) \<longleftrightarrow> p = Some a \<and> rpath h (r_next (h a)) as"

lemma rpath_cong:
  "(\<And>a. a \<in> set ps \<Longrightarrow> r_next (h' a) = r_next (h a)) \<Longrightarrow> rpath h' p ps = rpath h p ps"
  by (induction ps arbitrary: p) auto

lemma rpath_insert:
  assumes "rpath h p (pre @ y # post)" "distinct (pre @ y # post)" "q \<notin> set (pre @ y # post)"
    and "r_next (h' q) = r_next (h y)" "r_next (h' y) = Some q"
    and "\<And>a. a \<noteq> q \<Longrightarrow> a \<noteq> y \<Longrightarrow> r_next (h' a) = r_next (h a)"
  shows "rpath h' p (pre @ y # q # post)"
  using assms
proof (induction pre arbitrary: p)
  case Nil
  have "rpath h' (r_next (h y)) post = rpath h (r_next (h y)) post"
  proof (rule rpath_cong)
    fix a assume "a \<in> set post"
    then have "a \<noteq> q" "a \<noteq> y" using Nil.prems(2,3) by auto
    then show "r_next (h' a) = r_next (h a)" by (rule Nil.prems(6))
  qed
  then show ?case using Nil by simp
qed auto

lemma elevator_spec:
  assumes "rpath (requests s) (Some x) (x # ps)" "k = key_of (requests s req)"
  shows "\<exists>pre y post. x # ps = pre @ y # post \<and> elevator req x s = Some y \<and>
    elevate k (map (key_of \<circ> requests s) (x # ps)) =
      map (key_of \<circ> requests s) (pre @ [y]) @ k # map (key_of \<circ> requests s) post"
  using assms(1)
proof (induction ps arbitrary: x)
  case Nil
  then have "elevator req x s = Some x" by (subst elevator.simps) simp
  then show ?case by (intro exI [of _ "[]"] exI [of _ x]) simp
next
  case (Cons z ps)
  have nx: "r_next (requests s x) = Some z" and path: "rpath (requests s) (Some z) (z # ps)"
    using Cons.prems by auto
  let ?c = "(IN_ORDER (requests s x) (requests s req) \<or> \<not> IN_ORDER (requests s x) (requests s z)) \<and>
    IN_ORDER (requests s req) (requests s z)"
  show ?case
  proof (cases ?c)
    case True
    then have "elevator req x s = Some x" using nx by (subst elevator.simps) simp
    then show ?thesis using True assms(2)
      by - (rule exI [of _ "[]"], rule exI [of _ x], rule exI [of _ "z # ps"], auto simp: IN_ORDER_key)
  next
    case False
    then have e: "elevator req x s = elevator req z s" using nx by (subst elevator.simps) auto
    obtain pre y post where y: "z # ps = pre @ y # post" "elevator req z s = Some y"
        "elevate k (map (key_of \<circ> requests s) (z # ps)) =
          map (key_of \<circ> requests s) (pre @ [y]) @ k # map (key_of \<circ> requests s) post"
      using Cons.IH [OF path] by blast
    have "elevate k (map (key_of \<circ> requests s) (x # z # ps)) =
        key_of (requests s x) # elevate k (map (key_of \<circ> requests s) (z # ps))"
      using False assms(2) by (auto simp: IN_ORDER_key)
    then have "elevate k (map (key_of \<circ> requests s) (x # z # ps)) =
        map (key_of \<circ> requests s) ((x # pre) @ [y]) @ k # map (key_of \<circ> requests s) post"
      unfolding y(3) by simp
    moreover have "x # z # ps = (x # pre) @ y # post" using y(1) by simp
    ultimately show ?thesis using e y(2) by metis
  qed
qed

text \<open>
  C9: adding a request to a busy device is the insertion of the elevator algorithm. The queue is what is
  left of the current sweep, \<open>A\<close>, beginning with the request in service, and the next sweep \<open>B\<close>, both in
  the order of command, device and sector. A request that lies ahead of the one in service joins the
  current sweep at its place in the order, unless a next sweep is already waiting and the request lies
  behind the last one of the current sweep; every other request joins the next sweep at its place. The
  requests already queued keep their order. No queued request has the key of the new one.
\<close>

theorem add_request_elevator:
  assumes path: "rpath (requests s) (current_request s major) (h # rs)" and dist: "distinct (req # h # rs)"
    and queue: "map (key_of \<circ> requests s) (h # rs) = A @ B" and ne: "A \<noteq> []"
    and sweeps: "sorted_wrt key_less A" "sorted_wrt key_less B" "B \<noteq> [] \<longrightarrow> \<not> key_less (last A) (hd B)"
    and q: "key_of (requests s req) = q" "q \<notin> set (A @ B)"
  shows "\<exists>t pre post. add_request major req s = Some t \<and> rs = pre @ post \<and>
    rpath (requests t) (current_request t major) (h # pre @ req # post) \<and>
    (\<forall>i. key_of (requests t i) = key_of (requests s i)) \<and>
    map (key_of \<circ> requests t) (h # pre @ req # post) =
      (if key_less (hd A) q \<and> (B = [] \<or> key_less q (last A)) then join_sweep q A @ B else A @ join_sweep q B)"
proof -
  let ?s1 = "upd_req req (\<lambda>q. q\<lparr>r_next := None\<rparr>) s"
  define u where "u = (case r_bh (requests ?s1 req) of
      None \<Rightarrow> ?s1 | Some bh \<Rightarrow> upd_buf bh (\<lambda>b. b\<lparr>b_dirt := False\<rparr>) ?s1)"
  have u: "requests u = (requests s)(req := requests s req\<lparr>r_next := None\<rparr>)" "current_request u = current_request s"
    by (simp_all add: u_def split: option.split)
  have ku: "key_of (requests u i) = key_of (requests s i)" for i by (simp add: u key_of_def)
  have "rpath (requests u) (Some h) (h # rs) = rpath (requests s) (Some h) (h # rs)"
    using dist by (intro rpath_cong) (auto simp: u)
  then have pu: "rpath (requests u) (Some h) (h # rs)" using path by simp
  obtain pre y post where y: "h # rs = pre @ y # post" "elevator req h u = Some y"
      "elevate (key_of (requests u req)) (map (key_of \<circ> requests u) (h # rs)) =
        map (key_of \<circ> requests u) (pre @ [y]) @ key_of (requests u req) # map (key_of \<circ> requests u) post"
    using elevator_spec [OF pu refl, of req] by blast
  define t where "t = upd_req y (\<lambda>q. q\<lparr>r_next := Some req\<rparr>) (upd_req req (\<lambda>q. q\<lparr>r_next := r_next (requests u y)\<rparr>) u)"
  have cr: "current_request u major = Some h" "current_request t = current_request u"
    using path u by (simp_all add: t_def)
  have run: "add_request major req s = Some t"
    using y(2) cr u_def by (simp add: add_request_def Let_def t_def)
  have kt: "key_of (requests t i) = key_of (requests s i)" for i by (simp add: t_def u key_of_def)
  have fresh: "req \<notin> set (pre @ y # post)" "distinct (pre @ y # post)"
    unfolding y(1) [symmetric] using dist by auto
  have pt: "rpath (requests t) (Some h) (pre @ y # req # post)"
    by (rule rpath_insert [OF pu [unfolded y(1)] fresh(2,1)]) (use fresh in \<open>auto simp: t_def\<close>)
  have keys: "map (key_of \<circ> requests t) (pre @ y # req # post) =
      (if key_less (hd A) q \<and> (B = [] \<or> key_less q (last A)) then join_sweep q A @ B else A @ join_sweep q B)"
    using y(3) elevate_sweeps [OF ne sweeps q(2)] unfolding queue [symmetric] by (simp add: kt ku comp_def q(1))
  show ?thesis
  proof (cases pre)
    case Nil
    then show ?thesis using run y(1) pt kt keys cr
      by - (rule exI [of _ t], rule exI [of _ "[]"], rule exI [of _ post], simp)
  next
    case (Cons a pre')
    then show ?thesis using run y(1) pt kt keys cr
      by - (rule exI [of _ t], rule exI [of _ "pre' @ [y]"], rule exI [of _ post], simp)
  qed
qed

text \<open>A device busy with sector 40, two more reads queued; a read of sector 60 is added.\<close>

definition queue_example :: kernel where
  "queue_example = boot_kernel\<lparr>current_request := (\<lambda>_. None)(3 := Some 0),
     requests := (\<lambda>_. free_request)(0 := free_request\<lparr>r_dev := 0x301, r_sector := 40, r_next := Some 1\<rparr>,
       1 := free_request\<lparr>r_dev := 0x301, r_sector := 80, r_next := Some 2\<rparr>,
       2 := free_request\<lparr>r_dev := 0x301, r_sector := 10\<rparr>,
       3 := free_request\<lparr>r_dev := 0x301, r_sector := 60\<rparr>)\<rparr>"

theorem add_request_elevator_witness:
  "\<exists>t. add_request 3 3 queue_example = Some t \<and> rpath (requests t) (current_request t 3) [0, 3, 1, 2]"
proof -
  let ?k = "\<lambda>n. (0, 0x301, n) :: key"
  have "\<exists>t pre post. add_request 3 3 queue_example = Some t \<and> [1, 2] = pre @ post \<and>
      rpath (requests t) (current_request t 3) (0 # pre @ 3 # post) \<and>
      (\<forall>i. key_of (requests t i) = key_of (requests queue_example i)) \<and>
      map (key_of \<circ> requests t) (0 # pre @ 3 # post) =
        (if key_less (hd [?k 40, ?k 80]) (?k 60) \<and> ([?k 10] = [] \<or> key_less (?k 60) (last [?k 40, ?k 80]))
         then join_sweep (?k 60) [?k 40, ?k 80] @ [?k 10] else [?k 40, ?k 80] @ join_sweep (?k 60) [?k 10])"
    by (rule add_request_elevator) (simp_all add: queue_example_def free_request_def key_of_def)
  then obtain t pre post where r: "add_request 3 3 queue_example = Some t" "[1, 2] = pre @ post"
      "rpath (requests t) (current_request t 3) (0 # pre @ 3 # post)"
      "map (key_of \<circ> requests queue_example) (0 # pre @ 3 # post) = [?k 40, ?k 60, ?k 80, ?k 10]"
    by (auto simp: comp_def)
  have "pre = []"
    using r(2,4) by (cases pre) (auto simp: queue_example_def free_request_def key_of_def)
  then show ?thesis using r by auto
qed

section \<open>Requests kept for reads\<close>

text \<open>
  A write request never takes one of the last third of the request slots, whatever happens while
  the writer sleeps: the slot \<open>get_request\<close> hands out is free, below 21 for a write and below 32 for a
  read, and only a read-ahead comes back without one.
\<close>

lemma get_request_slots:
  assumes "get_request ahead rw s = Some (r, t)"
  shows "(r = None \<longrightarrow> ahead) \<and>
    (\<forall>i. r = Some i \<longrightarrow> r_dev (requests t i) < 0 \<and> i < NR_REQUEST \<and> (rw \<noteq> READ \<longrightarrow> i < NR_REQUEST * 2 div 3))"
proof -
  have slot: "r_dev (requests s i) < 0 \<and> i < NR_REQUEST \<and> (rw \<noteq> READ \<longrightarrow> i < NR_REQUEST * 2 div 3)"
    if "free_slot rw s = Some i" for rw s i
    using that by (auto simp: free_slot_def find_Some_iff rev_nth split: if_splits)
  have "(fst rt = None \<longrightarrow> ahead) \<and> (\<forall>i. fst rt = Some i \<longrightarrow>
      r_dev (requests (snd rt) i) < 0 \<and> i < NR_REQUEST \<and> (rw \<noteq> READ \<longrightarrow> i < NR_REQUEST * 2 div 3))"
    if "get_request ahead rw s = Some rt" for rt
    using that
  proof (induction rule: get_request.raw_induct [rotated 1, consumes 1, case_names step])
    case (step f ahead rw s rt)
    show ?case
    proof (cases "free_slot rw s")
      case None
      show ?thesis
      proof (cases ahead)
        case True
        then have "rt = (None, s)" using step(2) None by simp
        then show ?thesis using True by simp
      next
        case False
        then obtain u where "f ahead rw u = Some rt" using step(2) None by (simp split: option.splits)
        then show ?thesis by (rule step(1))
      qed
    next
      case (Some i)
      then have "rt = (Some i, s)" using step(2) by simp
      then show ?thesis using slot [OF Some] by simp
    qed
  qed
  from this [OF assms] show ?thesis by simp
qed

lemma get_request_slots_witness: "get_request False WRITE boot_kernel = Some (Some 20, boot_kernel) \<and> (20 :: nat) < 21"
proof -
  have "[0..<Suc 20] = [0..<20] @ [20]" by (rule upt_Suc_append) simp
  then have "rev [0..<21] = 20 # rev [0..<20]" by (simp del: upt_Suc)
  then have f: "free_slot WRITE boot_kernel = Some 20" by (simp add: free_slot_def free_request_def)
  have run: "get_request False WRITE boot_kernel = Some (Some 20, boot_kernel)"
    by (subst get_request.simps) (simp add: f)
  from get_request_slots [OF run] run show ?thesis by simp
qed

section \<open>What a transfer keeps\<close>

text \<open>A part of the state that is not about locks, contents, flags or requests survives block I/O.\<close>

locale io_observation = observation +
  assumes obs_lock: "obs (upd_buf b (\<lambda>x. x\<lparr>b_lock := l\<rparr>) s) = obs s"
    and obs_dirt: "obs (upd_buf b (\<lambda>x. x\<lparr>b_dirt := l\<rparr>) s) = obs s"
    and obs_uptodate: "obs (upd_buf b (\<lambda>x. x\<lparr>b_uptodate := l\<rparr>) s) = obs s"
    and obs_data: "obs (upd_buf b (\<lambda>x. x\<lparr>b_data := d x\<rparr>) s) = obs s"
    and obs_requests: "obs (s\<lparr>requests := r\<rparr>) = obs s"
    and obs_current: "obs (s\<lparr>current_request := c\<rparr>) = obs s"
    and obs_mem: "obs (s\<lparr>hw8 := m\<rparr>) = obs s"
begin

lemma obs_upd_req: "obs (upd_req i f s) = obs s"
  by (simp add: upd_req_def obs_requests)

lemmas obs_io = obs_lock obs_dirt obs_uptodate obs_data obs_requests obs_current obs_mem obs_upd_req obs_wake_up

lemma obs_unlock: "obs (unlock_buffer b s) = obs s"
  by (simp add: unlock_buffer_def obs_io)

lemma lock_buffer_kept:
  assumes "lock_buffer b s = Some t"
  shows "kept s t"
  using assms
proof (induction rule: lock_buffer.raw_induct [rotated 1, consumes 1, case_names step])
  case (step f b s t)
  show ?case
  proof (cases "b_lock (bufs s b)")
    case True
    then obtain u where "sleep_on (Wbuf b) s = Some u" "f b u = Some t" using step(2) by (auto split: option.splits)
    then show ?thesis using sleep_on_kept step(1) keeps_trans by blast
  next
    case False
    then have "t = upd_buf b (\<lambda>b. b\<lparr>b_lock := True\<rparr>) s" using step(2) by simp
    then show ?thesis by (simp add: keeps_same obs_lock)
  qed
qed

lemma end_request_kept: "obs (end_request m u r s) = obs s" "wakes (end_request m u r s) = wakes s"
  by (simp_all add: end_request_def Let_def set_current_request_def obs_io obs_unlock split: option.split)

lemma do_rd_request_kept:
  assumes "do_rd_request s = Some t"
  shows "kept s t"
  using assms
proof (induction rule: do_rd_request.raw_induct [rotated 1, consumes 1, case_names step])
  case (step f s t)
  show ?case
  proof (cases "current_request s 1")
    case None
    then show ?thesis using step(2) by simp
  next
    case (Some r)
    then obtain v u where v: "f (end_request 1 u r v) = Some t" "obs v = obs s" "wakes v = wakes s"
      using step(2)
      by (auto simp: halts Let_def buf_to_mem_def mem_to_buf_def obs_io split: if_splits option.splits)
    then have "kept s (end_request 1 u r v)" by (simp add: keeps_same end_request_kept)
    then show ?thesis using step(1) [OF v(1)] keeps_trans by blast
  qed
qed

lemma add_request_kept:
  assumes "add_request major req s = Some t"
  shows "kept s t"
proof -
  let ?s = "upd_req req (\<lambda>q. q\<lparr>r_next := None\<rparr>) s"
  define u where "u = (case r_bh (requests ?s req) of None \<Rightarrow> ?s | Some bh \<Rightarrow> upd_buf bh (\<lambda>b. b\<lparr>b_dirt := False\<rparr>) ?s)"
  have u: "kept s u" by (rule keeps_same) (simp_all add: u_def obs_io split: option.split)
  show ?thesis
  proof (cases "current_request u major")
    case None
    then have run: "call_request_fn major (set_current_request major (Some req) u) = Some t" (is "call_request_fn major ?v = _")
      using assms by (simp add: add_request_def u_def Let_def)
    have v: "kept u ?v" by (rule keeps_same) (simp_all add: set_current_request_def obs_io)
    have "kept ?v t"
      using run do_rd_request_kept
      by (auto simp: call_request_fn_def halts split: option.splits request_routine.splits)
    then show ?thesis using u v keeps_trans by blast
  next
    case (Some h)
    then have "obs t = obs u" "wakes t = wakes u"
      using assms [unfolded add_request_def Let_def, folded u_def] by (auto simp: bind_Some_iff obs_io)
    then show ?thesis using u by (simp add: keeps_def)
  qed
qed

lemma get_request_kept:
  assumes "get_request ahead rw s = Some r"
  shows "kept s (snd r)"
  using assms
proof (induction rule: get_request.raw_induct [rotated 1, consumes 1, case_names step])
  case (step f ahead rw s r)
  show ?case
  proof (cases "free_slot rw s = None \<and> \<not> ahead")
    case True
    then obtain u where "sleep_on Wrequest s = Some u" "f ahead rw u = Some r" using step(2) by (auto split: option.splits)
    then show ?thesis using sleep_on_kept step(1) keeps_trans by blast
  next
    case False
    then show ?thesis using step(2) by (auto split: option.splits)
  qed
qed

lemma make_request_kept:
  assumes "make_request major rw bh s = Some t"
  shows "kept s t"
proof -
  define ahead where "ahead = (rw = READA \<or> rw = WRITEA)"
  define rw' where "rw' = (if ahead then (if rw = READA then READ else WRITE) else rw)"
  note run = assms [unfolded make_request_def Let_def, folded ahead_def, folded rw'_def]
  show ?thesis
  proof (cases "ahead \<and> b_lock (bufs s bh)")
    case True
    then show ?thesis using run by simp
  next
    case False
    then obtain u where u: "lock_buffer bh s = Some u" and
      rest: "(if rw' = WRITE \<and> \<not> b_dirt (bufs u bh) \<or> rw' = READ \<and> b_uptodate (bufs u bh)
          then Some (unlock_buffer bh u)
          else get_request ahead rw' u \<bind> (\<lambda>(req, s). case req of None \<Rightarrow> Some (unlock_buffer bh s)
            | Some req \<Rightarrow> add_request major req (fill_request req rw' bh s))) = Some t" (is "(if ?done then _ else _) = _")
      using run by (auto simp: halts bind_Some_iff split: if_splits)
    have unl: "kept v (unlock_buffer bh v)" for v by (rule keeps_same) (simp_all add: obs_unlock)
    have "kept u t"
    proof (cases ?done)
      case True
      then show ?thesis using rest unl by auto
    next
      case False
      then obtain req v where v: "get_request ahead rw' u = Some (req, v)"
          "(case req of None \<Rightarrow> Some (unlock_buffer bh v)
            | Some req \<Rightarrow> add_request major req (fill_request req rw' bh v)) = Some t"
        using rest by (auto simp: bind_Some_iff)
      have fill: "kept v (fill_request r rw' bh v)" for r by (rule keeps_same) (simp_all add: fill_request_def obs_io)
      have "kept v t"
        using v(2) unl by (cases req) (auto intro: keeps_trans [OF fill add_request_kept])
      then show ?thesis using get_request_kept [OF v(1)] keeps_trans by fastforce
    qed
    then show ?thesis using lock_buffer_kept [OF u] keeps_trans by blast
  qed
qed

lemma ll_rw_block_kept: "ll_rw_block rw bh s = Some t \<Longrightarrow> kept s t"
  by (auto simp: ll_rw_block_def Let_def split: if_splits intro: make_request_kept)

end

interpretation files: io_observation file_table file_table
  by unfold_locales simp_all

end
