(* ===== verification/Buffer.thy ===== *)
theory Buffer
  imports Block
begin

text \<open>
  fs/buffer.c, with the routines of fs/inode.c and fs/super.c that it calls back: \<open>getblk\<close> may have
  to write out a dirty buffer, \<open>sync_dev\<close> then writes the inodes, and \<open>write_inode\<close> calls \<open>bread\<close> and
  so \<open>getblk\<close> again. The routines in between take the block-getting function as a parameter
  (\<open>bread_with\<close> and so on), and the knot is tied in \<open>getblk_from\<close>, the least solution of the
  recursion; its program points are the label \<open>repeat\<close> and the loop \<open>while (bh->b_dirt)\<close>.

  The free list is walked by pointers, as are the hash chains; a walk that never meets its end does
  not return. Device numbers and block numbers are C \<open>int\<close>s; the fields of a buffer head keep them
  in 16 and in 32 bits.
\<close>

section \<open>Waiting for a buffer and releasing it\<close>

partial_function (option) wait_on_buffer :: "nat \<Rightarrow> kernel \<Rightarrow> kernel option" where
  "wait_on_buffer bh s =
     (if b_lock (bufs s bh)
      then (case sleep_on (Wbuf bh) s of None \<Rightarrow> None | Some s \<Rightarrow> wait_on_buffer bh s)
      else Some s)"

definition brelse :: "nat option \<Rightarrow> kernel \<Rightarrow> kernel option" where
  "brelse buf s =
     (case buf of
        None \<Rightarrow> Some s
      | Some bh \<Rightarrow>
          do { s \<leftarrow> wait_on_buffer bh s;
               if b_count (bufs s bh) = 0 then panic ''Trying to free free buffer''
               else Some (wake_up Wbuffer (upd_buf bh (\<lambda>b. b\<lparr>b_count := b_count b - 1\<rparr>) s)) })"

section \<open>The super blocks\<close>

partial_function (option) wait_on_super :: "nat \<Rightarrow> kernel \<Rightarrow> kernel option" where
  "wait_on_super sb s =
     (if s_lock (super_tab s sb)
      then (case sleep_on (Wsup sb) s of None \<Rightarrow> None | Some s \<Rightarrow> wait_on_super sb s)
      else Some s)"

definition lock_super :: "nat \<Rightarrow> kernel \<Rightarrow> kernel option" where
  "lock_super sb s =
     do { s \<leftarrow> wait_on_super sb s; Some (upd_sb sb (\<lambda>b. b\<lparr>s_lock := True\<rparr>) s) }"

definition free_super :: "nat \<Rightarrow> kernel \<Rightarrow> kernel" where
  "free_super sb s = wake_up (Wsup sb) (upd_sb sb (\<lambda>b. b\<lparr>s_lock := False\<rparr>) s)"

text \<open>The search restarts when the super block changed hands while the process slept on it.\<close>

partial_function (option) find_super :: "int \<Rightarrow> kernel \<Rightarrow> (nat option \<times> kernel) option" where
  "find_super dev s =
     (case find (\<lambda>i. uint (s_dev (super_tab s i)) = dev) [0..<NR_SUPER] of
        None \<Rightarrow> Some (None, s)
      | Some i \<Rightarrow>
          (case wait_on_super i s of
             None \<Rightarrow> None
           | Some s \<Rightarrow>
               if uint (s_dev (super_tab s i)) = dev then Some (Some i, s) else find_super dev s))"

definition get_super :: "int \<Rightarrow> kernel \<Rightarrow> (nat option \<times> kernel) option" where
  "get_super dev s = (if dev = 0 then Some (None, s) else find_super dev s)"

abbreviation "I_MAP_SLOTS \<equiv> (8 :: nat)"
abbreviation "Z_MAP_SLOTS \<equiv> (8 :: nat)"

definition put_super :: "int \<Rightarrow> kernel \<Rightarrow> kernel option" where
  "put_super dev s =
     (if dev = ROOT_DEV s then Some s
      else do {
        (sb, s) \<leftarrow> get_super dev s;
        (case sb of
           None \<Rightarrow> Some s
         | Some sb \<Rightarrow>
             if s_imount (super_tab s sb) \<noteq> None then Some s
             else do {
               s \<leftarrow> lock_super sb s;
               let s = upd_sb sb (\<lambda>b. b\<lparr>s_dev := 0\<rparr>) s;
               s \<leftarrow> for_each [0..<I_MAP_SLOTS] (\<lambda>i s. brelse (s_imap (super_tab s sb) i) s) s;
               s \<leftarrow> for_each [0..<Z_MAP_SLOTS] (\<lambda>i s. brelse (s_zmap (super_tab s sb) i) s) s;
               Some (free_super sb s) }) })"

section \<open>Locking an inode\<close>

partial_function (option) wait_on_inode :: "nat \<Rightarrow> kernel \<Rightarrow> kernel option" where
  "wait_on_inode inode s =
     (if i_lock (inode_table s inode)
      then (case sleep_on (Wino inode) s of None \<Rightarrow> None | Some s \<Rightarrow> wait_on_inode inode s)
      else Some s)"

definition lock_inode :: "nat \<Rightarrow> kernel \<Rightarrow> kernel option" where
  "lock_inode inode s =
     do { s \<leftarrow> wait_on_inode inode s; Some (upd_ino inode (\<lambda>n. n\<lparr>i_lock := True\<rparr>) s) }"

definition unlock_inode :: "nat \<Rightarrow> kernel \<Rightarrow> kernel" where
  "unlock_inode inode s = wake_up (Wino inode) (upd_ino inode (\<lambda>n. n\<lparr>i_lock := False\<rparr>) s)"

definition invalidate_inode :: "int \<Rightarrow> nat \<Rightarrow> kernel \<Rightarrow> kernel option" where
  "invalidate_inode dev inode s =
     do { s \<leftarrow> wait_on_inode inode s;
          Some (if uint (i_dev (inode_table s inode)) = dev
                then upd_ino inode (\<lambda>n. n\<lparr>i_dev := 0, i_dirt := False\<rparr>) s else s) }"

definition invalidate_inodes :: "int \<Rightarrow> kernel \<Rightarrow> kernel option" where
  "invalidate_inodes dev s = for_each [0..<NR_INODE] (invalidate_inode dev) s"

section \<open>An inode on disk\<close>

text \<open>\<open>struct d_inode\<close>: 32 bytes at offset \<open>off\<close> of a block.\<close>

abbreviation "INODES_PER_BLOCK \<equiv> (32 :: nat)"

definition put_d_inode :: "(nat \<Rightarrow> u8) \<Rightarrow> nat \<Rightarrow> 'a d_inode_scheme \<Rightarrow> (nat \<Rightarrow> u8)" where
  "put_d_inode d off n =
     (let d = wr16 d off (i_mode n);
          d = wr16 d (off + 2) (i_uid n);
          d = wr32 d (off + 4) (i_size n);
          d = wr32 d (off + 8) (i_mtime n);
          d = d(off + 12 := i_gid n, off + 13 := i_nlinks n)
      in fold (\<lambda>k d. wr16 d (off + 14 + 2 * k) (i_zone n k)) [0..<9] d)"

definition get_d_inode :: "(nat \<Rightarrow> u8) \<Rightarrow> nat \<Rightarrow> 'a d_inode_scheme \<Rightarrow> 'a d_inode_scheme" where
  "get_d_inode d off n =
     n\<lparr>i_mode := rd16 d off, i_uid := rd16 d (off + 2), i_size := rd32 d (off + 4),
       i_mtime := rd32 d (off + 8), i_gid := d (off + 12), i_nlinks := d (off + 13),
       i_zone := (\<lambda>k. if k < 9 then rd16 d (off + 14 + 2 * k) else i_zone n k)\<rparr>"

text \<open>The block an inode lives in; \<open>i_num - 1\<close> is taken as an unsigned number.\<close>

definition inode_index :: "m_inode \<Rightarrow> nat" where
  "inode_index n = unat ((ucast (i_num n) :: u32) - 1)"

definition inode_block :: "super_block \<Rightarrow> m_inode \<Rightarrow> int" where
  "inode_block sb n =
     2 + uint (s_imap_blocks sb) + uint (s_zmap_blocks sb) + int (inode_index n div INODES_PER_BLOCK)"

section \<open>Reading and writing through a block-getting function\<close>

type_synonym getter = "int \<Rightarrow> int \<Rightarrow> kernel \<Rightarrow> (nat \<times> kernel) option"

definition bread_with :: "getter \<Rightarrow> int \<Rightarrow> int \<Rightarrow> kernel \<Rightarrow> (nat option \<times> kernel) option" where
  "bread_with gb dev block s =
     do { (bh, s) \<leftarrow> gb dev block s;
          if b_uptodate (bufs s bh) then Some (Some bh, s)
          else do {
            s \<leftarrow> ll_rw_block READ bh s;
            s \<leftarrow> wait_on_buffer bh s;
            if b_uptodate (bufs s bh) then Some (Some bh, s)
            else do { s \<leftarrow> brelse (Some bh) s; Some (None, s) } } }"

definition write_inode_with :: "getter \<Rightarrow> nat \<Rightarrow> kernel \<Rightarrow> kernel option" where
  "write_inode_with gb inode s =
     do { s \<leftarrow> lock_inode inode s;
          if \<not> i_dirt (inode_table s inode) \<or> i_dev (inode_table s inode) = 0
          then Some (unlock_inode inode s)
          else do {
            (sb, s) \<leftarrow> get_super (uint (i_dev (inode_table s inode))) s;
            (case sb of
               None \<Rightarrow> panic ''trying to write inode without device''
             | Some sb \<Rightarrow> do {
                 (bh, s) \<leftarrow> bread_with gb (uint (i_dev (inode_table s inode)))
                              (inode_block (super_tab s sb) (inode_table s inode)) s;
                 (case bh of
                    None \<Rightarrow> panic ''unable to read i-node block''
                  | Some bh \<Rightarrow> do {
                      let n = inode_table s inode;
                      let s = upd_buf bh (\<lambda>b. b\<lparr>b_data := put_d_inode (b_data b)
                                (32 * (inode_index n mod INODES_PER_BLOCK)) n, b_dirt := True\<rparr>) s;
                      let s = upd_ino inode (\<lambda>n. n\<lparr>i_dirt := False\<rparr>) s;
                      s \<leftarrow> brelse (Some bh) s;
                      Some (unlock_inode inode s) }) }) } }"

definition sync_inode_with :: "getter \<Rightarrow> nat \<Rightarrow> kernel \<Rightarrow> kernel option" where
  "sync_inode_with gb inode s =
     do { s \<leftarrow> wait_on_inode inode s;
          if i_dirt (inode_table s inode) \<and> \<not> i_pipe (inode_table s inode)
          then write_inode_with gb inode s else Some s }"

definition sync_inodes_with :: "getter \<Rightarrow> kernel \<Rightarrow> kernel option" where
  "sync_inodes_with gb s = for_each [0..<NR_INODE] (sync_inode_with gb) s"

definition sync_buffer :: "int \<Rightarrow> nat \<Rightarrow> kernel \<Rightarrow> kernel option" where
  "sync_buffer dev bh s =
     (if uint (b_dev (bufs s bh)) \<noteq> dev then Some s
      else do {
        s \<leftarrow> wait_on_buffer bh s;
        if uint (b_dev (bufs s bh)) = dev \<and> b_dirt (bufs s bh) then ll_rw_block WRITE bh s
        else Some s })"

definition sync_dev_with :: "getter \<Rightarrow> int \<Rightarrow> kernel \<Rightarrow> (int \<times> kernel) option" where
  "sync_dev_with gb dev s =
     do { s \<leftarrow> for_each [0..<nr_buffers s] (sync_buffer dev) s;
          s \<leftarrow> sync_inodes_with gb s;
          s \<leftarrow> for_each [0..<nr_buffers s] (sync_buffer dev) s;
          Some (0, s) }"

text \<open>These are monotone in the block-getting function, so that the recursion has a least solution.\<close>

lemma case_option_mono:
  assumes "mono_option (\<lambda>f. A f)" "\<And>x. mono_option (\<lambda>f. B x f)"
  shows "mono_option (\<lambda>f. case u of None \<Rightarrow> A f | Some x \<Rightarrow> B x f)"
  using assms by (cases u) simp_all

lemma for_each_mono [partial_function_mono]:
  assumes "\<And>i s. mono_option (\<lambda>f. g f i s)"
  shows "mono_option (\<lambda>f. for_each xs (g f) s)"
proof (induction xs arbitrary: s)
  case (Cons x xs)
  have "(\<lambda>f. for_each (x # xs) (g f) s) = (\<lambda>f. (g f x s) \<bind> (\<lambda>t. for_each xs (g f) t))"
    by (auto split: option.splits)
  then show ?case using assms Cons by (simp only:) (intro bind_mono)
qed (simp add: option.const_mono)

lemmas mono_rules = bind_mono case_option_mono if_mono option.const_mono

lemma bread_with_mono [partial_function_mono]:
  assumes "\<And>d b s. mono_option (\<lambda>f. g f d b s)"
  shows "mono_option (\<lambda>f. bread_with (g f) dev block s)"
  unfolding bread_with_def case_prod_beta by (intro mono_rules assms)

lemma write_inode_with_mono [partial_function_mono]:
  assumes "\<And>d b s. mono_option (\<lambda>f. g f d b s)"
  shows "mono_option (\<lambda>f. write_inode_with (g f) i s)"
  unfolding write_inode_with_def case_prod_beta Let_def by (intro mono_rules bread_with_mono assms)

lemma sync_inodes_with_mono [partial_function_mono]:
  assumes "\<And>d b s. mono_option (\<lambda>f. g f d b s)"
  shows "mono_option (\<lambda>f. sync_inodes_with (g f) s)"
  unfolding sync_inodes_with_def sync_inode_with_def
  by (intro for_each_mono mono_rules write_inode_with_mono assms)

lemma sync_dev_with_mono [partial_function_mono]:
  assumes "\<And>d b s. mono_option (\<lambda>f. g f d b s)"
  shows "mono_option (\<lambda>f. sync_dev_with (g f) dev s)"
  unfolding sync_dev_with_def by (intro mono_rules sync_inodes_with_mono assms)

section \<open>The hash table and the free list\<close>

definition hashfn :: "u32 \<Rightarrow> u32 \<Rightarrow> nat" where
  "hashfn dev block = unat (dev XOR block) mod NR_HASH"

definition bh_hash :: "buffer_head \<Rightarrow> nat" where
  "bh_hash b = hashfn (ucast (b_dev b)) (b_blocknr b)"

definition set_hash :: "nat \<Rightarrow> nat option \<Rightarrow> kernel \<Rightarrow> kernel" where
  "set_hash h p s = s\<lparr>hash_table := (hash_table s)(h := p)\<rparr>"

text \<open>A store through a pointer to a buffer head.\<close>

definition store_at :: "nat option \<Rightarrow> (buffer_head \<Rightarrow> buffer_head) \<Rightarrow> kernel \<Rightarrow> kernel" where
  "store_at p f s = (case p of None \<Rightarrow> s | Some i \<Rightarrow> upd_buf i f s)"

definition remove_from_hash :: "nat \<Rightarrow> kernel \<Rightarrow> kernel" where
  "remove_from_hash bh s =
     (let s = store_at (b_next (bufs s bh)) (\<lambda>b. b\<lparr>b_prev := b_prev (bufs s bh)\<rparr>) s;
          s = store_at (b_prev (bufs s bh)) (\<lambda>b. b\<lparr>b_next := b_next (bufs s bh)\<rparr>) s
      in if hash_table s (bh_hash (bufs s bh)) = Some bh
         then set_hash (bh_hash (bufs s bh)) (b_next (bufs s bh)) s else s)"

definition remove_from_free :: "nat \<Rightarrow> kernel \<Rightarrow> kernel option" where
  "remove_from_free bh s =
     (if b_prev_free (bufs s bh) = None \<or> b_next_free (bufs s bh) = None
      then panic ''Free block list corrupted''
      else
        let s = store_at (b_prev_free (bufs s bh)) (\<lambda>b. b\<lparr>b_next_free := b_next_free (bufs s bh)\<rparr>) s;
            s = store_at (b_next_free (bufs s bh)) (\<lambda>b. b\<lparr>b_prev_free := b_prev_free (bufs s bh)\<rparr>) s
        in Some (if free_list s = Some bh then s\<lparr>free_list := b_next_free (bufs s bh)\<rparr> else s))"

definition remove_from_queues :: "nat \<Rightarrow> kernel \<Rightarrow> kernel option" where
  "remove_from_queues bh s = remove_from_free bh (remove_from_hash bh s)"

definition insert_at_free_end :: "nat \<Rightarrow> kernel \<Rightarrow> kernel option" where
  "insert_at_free_end bh s =
     (case free_list s of
        None \<Rightarrow> null_deref
      | Some f \<Rightarrow>
          let s = upd_buf bh (\<lambda>b. b\<lparr>b_next_free := Some f\<rparr>) s;
              s = upd_buf bh (\<lambda>b. b\<lparr>b_prev_free := b_prev_free (bufs s f)\<rparr>) s
          in case b_prev_free (bufs s f) of
               None \<Rightarrow> null_deref
             | Some p \<Rightarrow>
                 let s = upd_buf p (\<lambda>b. b\<lparr>b_next_free := Some bh\<rparr>) s
                 in Some (upd_buf f (\<lambda>b. b\<lparr>b_prev_free := Some bh\<rparr>) s))"

text \<open>
  The last statement of \<open>insert_into_queues\<close> stores through \<open>bh->b_next\<close> even when the hash chain was
  empty. The store then goes to offset 20 of address 0, which is an entry of the page directory.
\<close>

definition insert_into_hash :: "nat \<Rightarrow> kernel \<Rightarrow> kernel" where
  "insert_into_hash bh s =
     (let s = upd_buf bh (\<lambda>b. b\<lparr>b_prev := None, b_next := None\<rparr>) s in
      if b_dev (bufs s bh) = 0 then s
      else
        let h = bh_hash (bufs s bh);
            s = upd_buf bh (\<lambda>b. b\<lparr>b_next := hash_table s h\<rparr>) s;
            s = set_hash h (Some bh) s
        in case b_next (bufs s bh) of
             None \<Rightarrow> s\<lparr>hw32 := (hw32 s)(20 := start_buffer s + 36 * of_nat bh)\<rparr>
           | Some n \<Rightarrow> upd_buf n (\<lambda>b. b\<lparr>b_prev := Some bh\<rparr>) s)"

definition insert_into_queues :: "nat \<Rightarrow> kernel \<Rightarrow> kernel option" where
  "insert_into_queues bh s =
     do { s \<leftarrow> insert_at_free_end bh s; Some (insert_into_hash bh s) }"

partial_function (option) find_chain :: "nat option \<Rightarrow> int \<Rightarrow> int \<Rightarrow> kernel \<Rightarrow> nat option option" where
  "find_chain tmp dev block s =
     (case tmp of
        None \<Rightarrow> Some None
      | Some i \<Rightarrow>
          if uint (b_dev (bufs s i)) = dev \<and> b_blocknr (bufs s i) = word_of_int block then Some (Some i)
          else find_chain (b_next (bufs s i)) dev block s)"

definition find_buffer :: "int \<Rightarrow> int \<Rightarrow> kernel \<Rightarrow> nat option option" where
  "find_buffer dev block s =
     find_chain (hash_table s (hashfn (word_of_int dev) (word_of_int block))) dev block s"

partial_function (option) get_hash_table :: "int \<Rightarrow> int \<Rightarrow> kernel \<Rightarrow> (nat option \<times> kernel) option" where
  "get_hash_table dev block s =
     (case find_buffer dev block s of
        None \<Rightarrow> None
      | Some None \<Rightarrow> Some (None, s)
      | Some (Some bh) \<Rightarrow>
          (case wait_on_buffer bh (upd_buf bh (\<lambda>b. b\<lparr>b_count := b_count b + 1\<rparr>) s) of
             None \<Rightarrow> None
           | Some s \<Rightarrow>
               if uint (b_dev (bufs s bh)) = dev \<and> b_blocknr (bufs s bh) = word_of_int block
               then Some (Some bh, s)
               else get_hash_table dev block (upd_buf bh (\<lambda>b. b\<lparr>b_count := b_count b - 1\<rparr>) s)))"

section \<open>Getting a buffer\<close>

definition BADNESS :: "buffer_head \<Rightarrow> nat" where
  "BADNESS b = (if b_dirt b then 2 else 0) + (if b_lock b then 1 else 0)"

text \<open>The walk over the free list, from \<open>tmp\<close>, with the best buffer found so far.\<close>

partial_function (option) pick_free :: "nat \<Rightarrow> nat option \<Rightarrow> kernel \<Rightarrow> nat option option" where
  "pick_free tmp bh s =
     (let better = b_count (bufs s tmp) = 0 \<and>
                   (case bh of None \<Rightarrow> True | Some b \<Rightarrow> BADNESS (bufs s tmp) < BADNESS (bufs s b));
          bh = (if better then Some tmp else bh)
      in if better \<and> BADNESS (bufs s tmp) = 0 then Some bh
         else if b_next_free (bufs s tmp) = free_list s then Some bh
         else (case b_next_free (bufs s tmp) of None \<Rightarrow> null_deref | Some nxt \<Rightarrow> pick_free nxt bh s))"

datatype getblk_point = Repeat | While_dirty nat

partial_function (option) getblk_from :: "getblk_point \<Rightarrow> int \<Rightarrow> int \<Rightarrow> kernel \<Rightarrow> (nat \<times> kernel) option" where
  "getblk_from pc dev block s =
     (case pc of
        Repeat \<Rightarrow>
          (case get_hash_table dev block s of
             None \<Rightarrow> None
           | Some (Some bh, s) \<Rightarrow> Some (bh, s)
           | Some (None, s) \<Rightarrow>
               (case free_list s of
                  None \<Rightarrow> null_deref
                | Some f \<Rightarrow>
                    (case pick_free f None s of
                       None \<Rightarrow> None
                     | Some None \<Rightarrow>
                         (case sleep_on Wbuffer s of None \<Rightarrow> None | Some s \<Rightarrow> getblk_from Repeat dev block s)
                     | Some (Some bh) \<Rightarrow>
                         (case wait_on_buffer bh s of
                            None \<Rightarrow> None
                          | Some s \<Rightarrow>
                              if b_count (bufs s bh) \<noteq> 0 then getblk_from Repeat dev block s
                              else getblk_from (While_dirty bh) dev block s))))
      | While_dirty bh \<Rightarrow>
          if b_dirt (bufs s bh)
          then Option.bind (sync_dev_with (\<lambda>d b s. getblk_from Repeat d b s) (uint (b_dev (bufs s bh))) s)
                 (\<lambda>r. Option.bind (wait_on_buffer bh (snd r))
                    (\<lambda>s. if b_count (bufs s bh) \<noteq> 0 then getblk_from Repeat dev block s
                         else getblk_from (While_dirty bh) dev block s))
          else
            (case find_buffer dev block s of
               None \<Rightarrow> None
             | Some (Some _) \<Rightarrow> getblk_from Repeat dev block s
             | Some None \<Rightarrow>
                 do { let s = upd_buf bh (\<lambda>b. b\<lparr>b_count := 1, b_dirt := False, b_uptodate := False\<rparr>) s;
                      s \<leftarrow> remove_from_queues bh s;
                      let s = upd_buf bh (\<lambda>b. b\<lparr>b_dev := word_of_int dev, b_blocknr := word_of_int block\<rparr>) s;
                      s \<leftarrow> insert_into_queues bh s;
                      Some (bh, s) }))"

definition getblk :: "int \<Rightarrow> int \<Rightarrow> kernel \<Rightarrow> (nat \<times> kernel) option" where
  "getblk dev block s = getblk_from Repeat dev block s"

definition bread :: "int \<Rightarrow> int \<Rightarrow> kernel \<Rightarrow> (nat option \<times> kernel) option" where
  "bread = bread_with getblk"

definition write_inode :: "nat \<Rightarrow> kernel \<Rightarrow> kernel option" where
  "write_inode = write_inode_with getblk"

definition sync_inodes :: "kernel \<Rightarrow> kernel option" where
  "sync_inodes = sync_inodes_with getblk"

definition sync_dev :: "int \<Rightarrow> kernel \<Rightarrow> (int \<times> kernel) option" where
  "sync_dev = sync_dev_with getblk"

definition sys_sync :: "kernel \<Rightarrow> (int \<times> kernel) option" where
  "sys_sync s =
     do { s \<leftarrow> sync_inodes s;
          s \<leftarrow> for_each [0..<nr_buffers s] (\<lambda>bh s. do {
                 s \<leftarrow> wait_on_buffer bh s;
                 if b_dirt (bufs s bh) then ll_rw_block WRITE bh s else Some s }) s;
          Some (0, s) }"

section \<open>Invalidation and disk changes\<close>

definition invalidate_buffer :: "int \<Rightarrow> nat \<Rightarrow> kernel \<Rightarrow> kernel option" where
  "invalidate_buffer dev bh s =
     (if uint (b_dev (bufs s bh)) \<noteq> dev then Some s
      else do {
        s \<leftarrow> wait_on_buffer bh s;
        Some (if uint (b_dev (bufs s bh)) = dev
              then upd_buf bh (\<lambda>b. b\<lparr>b_dirt := False, b_uptodate := False\<rparr>) s else s) })"

definition invalidate_buffers :: "int \<Rightarrow> kernel \<Rightarrow> kernel option" where
  "invalidate_buffers dev s = for_each [0..<nr_buffers s] (invalidate_buffer dev) s"

text \<open>
  \<open>floppy_change\<close> (kernel/blk_drv/floppy.c) turns the motor on, waits until the drive is the selected
  one and reads the disk-change line from a port of the controller.
\<close>

definition floppy_selected :: "nat \<Rightarrow> kernel \<Rightarrow> bool" where
  "floppy_selected nr s \<longleftrightarrow> unat (current_DOR (floppy s) AND 3) = nr"

partial_function (option) wait_select :: "nat \<Rightarrow> kernel \<Rightarrow> kernel option" where
  "wait_select nr s =
     (if \<not> floppy_selected nr s \<and> selected (floppy s)
      then (case interruptible_sleep_on Wselect s of None \<Rightarrow> None | Some s \<Rightarrow> wait_select nr s)
      else Some s)"

partial_function (option) floppy_change :: "nat \<Rightarrow> kernel \<Rightarrow> (int \<times> kernel) option" where
  "floppy_change nr s =
     (case floppy_on nr s of
        None \<Rightarrow> None
      | Some s \<Rightarrow>
          (case wait_select nr s of
             None \<Rightarrow> None
           | Some s \<Rightarrow>
               if \<not> floppy_selected nr s then floppy_change nr s
               else (case inb 0x3f7 s of (v, s) \<Rightarrow> Some (if v AND 0x80 \<noteq> 0 then 1 else 0, floppy_off nr s))))"

definition check_disk_change :: "int \<Rightarrow> kernel \<Rightarrow> kernel option" where
  "check_disk_change dev s =
     (if MAJOR dev \<noteq> 2 then Some s
      else do {
        (r, s) \<leftarrow> floppy_change (nat (dev AND 3)) s;
        if r = 0 then Some s
        else do {
          s \<leftarrow> for_each [0..<NR_SUPER] (\<lambda>i s.
                 if uint (s_dev (super_tab s i)) = dev then put_super (uint (s_dev (super_tab s i))) s
                 else Some s) s;
          s \<leftarrow> invalidate_inodes dev s;
          invalidate_buffers dev s } })"

section \<open>Reading several blocks\<close>

text \<open>\<open>bread_page\<close> starts the reads of up to four blocks and then copies them to a page.\<close>

definition page_request :: "int \<Rightarrow> int \<Rightarrow> kernel \<Rightarrow> (nat option \<times> kernel) option" where
  "page_request dev b s =
     (if b \<noteq> 0
      then do { (bh, s) \<leftarrow> getblk dev b s;
                s \<leftarrow> (if \<not> b_uptodate (bufs s bh) then ll_rw_block READ bh s else Some s);
                Some (Some bh, s) }
      else Some (None, s))"

fun page_requests :: "int \<Rightarrow> int list \<Rightarrow> kernel \<Rightarrow> (nat option list \<times> kernel) option" where
  "page_requests dev [] s = Some ([], s)"
| "page_requests dev (b # bs) s =
     do { (bh, s) \<leftarrow> page_request dev b s;
          (bhs, s) \<leftarrow> page_requests dev bs s;
          Some (bh # bhs, s) }"

fun page_copies :: "u32 \<Rightarrow> nat option list \<Rightarrow> kernel \<Rightarrow> kernel option" where
  "page_copies address [] s = Some s"
| "page_copies address (None # bhs) s = page_copies (address + 1024) bhs s"
| "page_copies address (Some bh # bhs) s =
     do { s \<leftarrow> wait_on_buffer bh s;
          let s = (if b_uptodate (bufs s bh) then buf_to_mem address bh BLOCK_SIZE s else s);
          s \<leftarrow> brelse (Some bh) s;
          page_copies (address + 1024) bhs s }"

definition bread_page :: "u32 \<Rightarrow> int \<Rightarrow> int list \<Rightarrow> kernel \<Rightarrow> kernel option" where
  "bread_page address dev b s =
     do { (bhs, s) \<leftarrow> page_requests dev b s; page_copies address bhs s }"

text \<open>\<open>breada\<close>; the list is its arguments up to the negative one. The read-ahead is requested for
  the first block's buffer \<open>bh\<close>, as the code has it.\<close>

fun read_ahead :: "int \<Rightarrow> nat \<Rightarrow> int list \<Rightarrow> kernel \<Rightarrow> kernel option" where
  "read_ahead dev bh [] s = Some s"
| "read_ahead dev bh (first # bs) s =
     do { (tmp, s) \<leftarrow> getblk dev first s;
          s \<leftarrow> (if \<not> b_uptodate (bufs s tmp) then ll_rw_block READA bh s else Some s);
          read_ahead dev bh bs (upd_buf tmp (\<lambda>b. b\<lparr>b_count := b_count b - 1\<rparr>) s) }"

definition breada :: "int \<Rightarrow> int \<Rightarrow> int list \<Rightarrow> kernel \<Rightarrow> (nat option \<times> kernel) option" where
  "breada dev first bs s =
     do { (bh, s) \<leftarrow> getblk dev first s;
          s \<leftarrow> (if \<not> b_uptodate (bufs s bh) then ll_rw_block READ bh s else Some s);
          s \<leftarrow> read_ahead dev bh (takeWhile (\<lambda>b. b \<ge> 0) bs) s;
          s \<leftarrow> wait_on_buffer bh s;
          if b_uptodate (bufs s bh) then Some (Some bh, s)
          else do { s \<leftarrow> brelse (Some bh) s; Some (None, s) } }"

section \<open>Setting up the cache\<close>

text \<open>
  The heads grow upwards from \<open>start_buffer\<close>, 36 bytes each, and the blocks downwards from \<open>b\<close>, with
  the hole from 640K to 1M left out. The result lists the address of the block of each head.
\<close>

partial_function (option) buffer_loop :: "u32 \<Rightarrow> nat \<Rightarrow> kernel \<Rightarrow> (u32 list \<times> nat \<times> kernel) option" where
  "buffer_loop b h s =
     (let b = b - 1024 in
      if b \<ge> start_buffer s + 36 * of_nat (h + 1)
      then
        let s = upd_buf h (\<lambda>x. x\<lparr>b_dev := 0, b_dirt := False, b_count := 0, b_lock := False, b_uptodate := False,
                  b_wait := None, b_next := None, b_prev := None,
                  b_prev_free := (if h = 0 then None else Some (h - 1)), b_next_free := Some (h + 1)\<rparr>) s;
            s = s\<lparr>nr_buffers := nr_buffers s + 1\<rparr>
        in Option.bind (buffer_loop (if b = 0x100000 then 0xA0000 else b) (h + 1) s)
             (\<lambda>r. Some (b # fst r, snd r))
      else Some ([], h, s))"

definition buffer_init :: "u32 \<Rightarrow> kernel \<Rightarrow> (u32 list \<times> kernel) option" where
  "buffer_init buffer_end s =
     do { (bs, h, s) \<leftarrow> buffer_loop (if buffer_end = 0x100000 then 640 * 1024 else buffer_end) 0 s;
          if h = 0 then null_deref
          else do {
            let s = s\<lparr>free_list := Some 0\<rparr>;
            let s = upd_buf 0 (\<lambda>x. x\<lparr>b_prev_free := Some (h - 1)\<rparr>) s;
            let s = upd_buf (h - 1) (\<lambda>x. x\<lparr>b_next_free := Some 0\<rparr>) s;
            Some (bs, s\<lparr>hash_table := (\<lambda>i. if i < NR_HASH then None else hash_table s i)\<rparr>) } }"

section \<open>The inode on disk\<close>

lemma put_d_inode_zones:
  "fold (\<lambda>k d. wr16 d (off + 14 + 2 * k) (z k)) [0..<n] d x =
     (if off + 14 \<le> x \<and> x < off + 14 + 2 * n
      then (if even (x - (off + 14)) then ucast (z ((x - (off + 14)) div 2))
            else ucast (drop_bit 8 (z ((x - (off + 14)) div 2))))
      else d x)"
proof (induction n)
  case 0
  show ?case by auto
next
  case (Suc n)
  show ?case
  proof (cases "x = off + 14 + 2 * n \<or> x = off + 14 + 2 * n + 1")
    case True
    then show ?thesis by (auto simp: wr16_def)
  next
    case False
    then have "(off + 14 \<le> x \<and> x < off + 14 + 2 * Suc n) = (off + 14 \<le> x \<and> x < off + 14 + 2 * n)" by auto
    then show ?thesis using Suc False by (simp add: wr16_def)
  qed
qed

lemma rd16_upd_other: "x \<noteq> off \<Longrightarrow> x \<noteq> off + 1 \<Longrightarrow> rd16 (d(x := v)) off = rd16 d off"
  by (simp add: rd16_def)

lemma rd32_upd_other:
  "x \<noteq> off \<Longrightarrow> x \<noteq> off + 1 \<Longrightarrow> x \<noteq> off + 2 \<Longrightarrow> x \<noteq> off + 3 \<Longrightarrow> rd32 (d(x := v)) off = rd32 d off"
  by (simp add: rd32_def rd16_upd_other)

lemma rd16_eqI: "d x = ucast v \<Longrightarrow> d (x + 1) = ucast (drop_bit 8 v) \<Longrightarrow> rd16 d x = v"
  by (rule bit_word_eqI) (auto simp: rd16_def bit_simps)

text \<open>
  C14: an inode survives the disk. Whatever was in the inode \<open>m\<close> in memory before, after \<open>read_inode\<close>'s
  copy of the bytes that \<open>write_inode\<close>'s copy put for \<open>n\<close> into the same slot of a block it has the mode,
  owner, size, time, group, link count and nine zones of \<open>n\<close> and everything else as before. The bytes
  of every other slot of the block are untouched.
\<close>

theorem d_inode_round_trip:
  "get_d_inode (put_d_inode d off n) off m =
     m\<lparr>i_mode := i_mode n, i_uid := i_uid n, i_size := i_size n, i_mtime := i_mtime n, i_gid := i_gid n,
       i_nlinks := i_nlinks n, i_zone := (\<lambda>k. if k < 9 then i_zone n k else i_zone m k)\<rparr> \<and>
   (\<forall>x. x < off \<or> off + 32 \<le> x \<longrightarrow> put_d_inode d off n x = d x)"
proof
  let ?d4 = "(wr32 (wr32 (wr16 (wr16 d off (i_mode n)) (off + 2) (i_uid n)) (off + 4) (i_size n)) (off + 8) (i_mtime n))
      (off + 12 := i_gid n, off + 13 := i_nlinks n)"
  let ?p = "put_d_inode d off n"
  have p: "?p = fold (\<lambda>k d. wr16 d (off + 14 + 2 * k) (i_zone n k)) [0..<9] ?d4"
    by (simp add: put_d_inode_def Let_def del: upt_Suc)
  have low: "?p x = ?d4 x" if "x < off + 14 \<or> off + 32 \<le> x" for x
    unfolding p put_d_inode_zones using that by auto
  have r16: "rd16 ?p x = rd16 ?d4 x" if "x + 1 < off + 14" for x
    using low that by (simp add: rd16_def)
  have r32: "rd32 ?p x = rd32 ?d4 x" if "x + 3 < off + 14" for x
    using r16 that by (simp add: rd32_def)
  have "rd16 ?p off = i_mode n" "rd16 ?p (off + 2) = i_uid n" "rd32 ?p (off + 4) = i_size n"
      "rd32 ?p (off + 8) = i_mtime n" "?p (off + 12) = i_gid n" "?p (off + 13) = i_nlinks n"
    using low [of "off + 12"] low [of "off + 13"] by (simp_all add: r16 r32 rd16_upd_other rd32_upd_other)
  moreover have "rd16 ?p (off + 14 + 2 * k) = i_zone n k" if "k < 9" for k
  proof (rule rd16_eqI)
    show "?p (off + 14 + 2 * k) = ucast (i_zone n k)"
      unfolding p put_d_inode_zones using that by simp
    show "?p (off + 14 + 2 * k + 1) = ucast (drop_bit 8 (i_zone n k))"
      unfolding p put_d_inode_zones using that by simp
  qed
  ultimately show "get_d_inode ?p off m =
     m\<lparr>i_mode := i_mode n, i_uid := i_uid n, i_size := i_size n, i_mtime := i_mtime n, i_gid := i_gid n,
       i_nlinks := i_nlinks n, i_zone := (\<lambda>k. if k < 9 then i_zone n k else i_zone m k)\<rparr>"
    by (simp add: get_d_inode_def cong: if_cong)
  show "\<forall>x. x < off \<or> off + 32 \<le> x \<longrightarrow> ?p x = d x"
    using low by (auto simp: wr16_def wr32_def)
qed

theorem d_inode_round_trip_witness:
  "i_size (get_d_inode (put_d_inode (\<lambda>_. 7) 64 (zero_inode\<lparr>i_size := 5000\<rparr>)) 64 zero_inode) = 5000 \<and>
   put_d_inode (\<lambda>_. 7) 64 (zero_inode\<lparr>i_size := 5000\<rparr>) 96 = 7"
  using d_inode_round_trip [of "\<lambda>_. 7" 64 "zero_inode\<lparr>i_size := 5000\<rparr>" zero_inode] by simp

section \<open>Waiting keeps what sleeping keeps\<close>

context observation begin

lemma wait_on_buffer_kept:
  assumes "wait_on_buffer b s = Some t"
  shows "kept s t \<and> \<not> b_lock (bufs t b)"
  using assms
proof (induction rule: wait_on_buffer.raw_induct [rotated 1, consumes 1, case_names step])
  case (step f b s t)
  then show ?case using sleep_on_kept keeps_trans by (fastforce split: if_splits option.splits)
qed

lemma brelse_kept:
  assumes "\<And>b f s. obs (upd_buf b (\<lambda>x. x\<lparr>b_count := f x\<rparr>) s) = obs s" and "brelse bh s = Some t"
  shows "kept s t"
proof (cases bh)
  case None
  then show ?thesis using assms(2) by (simp add: brelse_def)
next
  case (Some b)
  then obtain u where u: "wait_on_buffer b s = Some u"
      "t = wake_up Wbuffer (upd_buf b (\<lambda>b. b\<lparr>b_count := b_count b - 1\<rparr>) u)"
    using assms(2) by (auto simp: brelse_def bind_Some_iff halts split: if_splits)
  have "kept u t" by (rule keeps_same) (simp_all add: u(2) obs_wake_up assms(1))
  then show ?thesis using wait_on_buffer_kept [OF u(1)] keeps_trans by blast
qed

lemma wait_on_super_kept:
  assumes "wait_on_super b s = Some t"
  shows "kept s t"
  using assms
proof (induction rule: wait_on_super.raw_induct [rotated 1, consumes 1, case_names step])
  case (step f b s t)
  then show ?case using sleep_on_kept keeps_trans by (fastforce split: if_splits option.splits)
qed

lemma find_super_kept:
  assumes "find_super dev s = Some r"
  shows "kept s (snd r) \<and> (\<forall>i. fst r = Some i \<longrightarrow> i < NR_SUPER \<and> uint (s_dev (super_tab (snd r) i)) = dev)"
  using assms
proof (induction rule: find_super.raw_induct [rotated 1, consumes 1, case_names step])
  case (step f dev s r)
  show ?case
  proof (cases "find (\<lambda>i. uint (s_dev (super_tab s i)) = dev) [0..<NR_SUPER]")
    case None
    then show ?thesis using step(2) by auto
  next
    case (Some i)
    then obtain u where u: "wait_on_super i s = Some u"
        "(if uint (s_dev (super_tab u i)) = dev then Some (Some i, u) else f dev u) = Some r"
      using step(2) by (auto split: option.splits)
    note su = wait_on_super_kept [OF u(1)]
    have i: "i < NR_SUPER" using find_Some_first [OF Some] by simp
    show ?thesis
    proof (cases "uint (s_dev (super_tab u i)) = dev")
      case True
      then have "r = (Some i, u)" using u(2) by simp
      then show ?thesis using su i True by simp
    next
      case False
      then show ?thesis using u(2) su step(1) [of dev u r] keeps_trans by fastforce
    qed
  qed
qed

lemma get_super_kept:
  assumes "get_super dev s = Some (r, t)"
  shows "kept s t"
  using assms find_super_kept [of dev s "(r, t)"] by (auto simp: get_super_def split: if_splits)

lemma wait_on_inode_kept:
  assumes "wait_on_inode b s = Some t"
  shows "kept s t \<and> \<not> i_lock (inode_table t b)"
  using assms
proof (induction rule: wait_on_inode.raw_induct [rotated 1, consumes 1, case_names step])
  case (step f b s t)
  then show ?case using sleep_on_kept keeps_trans by (fastforce split: if_splits option.splits)
qed

lemma get_hash_table_kept:
  assumes count: "\<And>b f s. obs (upd_buf b (\<lambda>x. x\<lparr>b_count := f x\<rparr>) s) = obs s"
    and "get_hash_table dev block s = Some r"
  shows "kept s (snd r) \<and> (\<forall>bh. fst r = Some bh \<longrightarrow> uint (b_dev (bufs (snd r) bh)) = dev \<and>
    b_blocknr (bufs (snd r) bh) = word_of_int block \<and> \<not> b_lock (bufs (snd r) bh))"
  using assms(2)
proof (induction rule: get_hash_table.raw_induct [rotated 1, consumes 1, case_names step])
  case (step f dev block s r)
  show ?case
  proof (cases "find_buffer dev block s")
    case None
    then show ?thesis using step(2) by simp
  next
    case (Some found)
    show ?thesis
    proof (cases found)
      case None
      then show ?thesis using step(2) Some by auto
    next
      case (Some bh)
      let ?s = "upd_buf bh (\<lambda>b. b\<lparr>b_count := b_count b + 1\<rparr>) s"
      obtain u where u: "wait_on_buffer bh ?s = Some u"
          "(if uint (b_dev (bufs u bh)) = dev \<and> b_blocknr (bufs u bh) = word_of_int block then Some (Some bh, u)
            else f dev block (upd_buf bh (\<lambda>b. b\<lparr>b_count := b_count b - 1\<rparr>) u)) = Some r"
        using step(2) Some \<open>find_buffer dev block s = Some found\<close> by (auto split: option.splits)
      have "kept s ?s" by (rule keeps_same) (simp_all add: count)
      then have su: "kept s u" "\<not> b_lock (bufs u bh)" using wait_on_buffer_kept [OF u(1)] keeps_trans by blast+
      let ?v = "upd_buf bh (\<lambda>b. b\<lparr>b_count := b_count b - 1\<rparr>) u"
      have "kept u ?v" by (rule keeps_same) (simp_all add: count)
      then have sv: "kept s ?v" using su(1) keeps_trans by blast
      show ?thesis
      proof (cases "uint (b_dev (bufs u bh)) = dev \<and> b_blocknr (bufs u bh) = word_of_int block")
        case True
        then show ?thesis using u(2) su by auto
      next
        case False
        then have "f dev block ?v = Some r" using u(2) by auto
        then show ?thesis using step(1) sv keeps_trans by blast
      qed
    qed
  qed
qed

end

end
