(* ===== verification/Buffer_Cache.thy ===== *)
theory Buffer_Cache
  imports Buffer
begin

text \<open>
  The invariant of the buffer cache: every hash chain is a well-linked list of exactly the buffers
  that belong to it, no two buffers hold the same block, and the free list is a ring of all buffers,
  doubly linked. \<open>getblk\<close> keeps it and returns the one
  buffer of the block asked for, whatever other processes do while it sleeps, as long as they keep
  the invariant too.
\<close>

section \<open>Doubly linked chains\<close>

fun dpath :: "(nat \<Rightarrow> buffer_head) \<Rightarrow> nat option \<Rightarrow> nat option \<Rightarrow> nat list \<Rightarrow> bool" where
  "dpath B prev p [] \<longleftrightarrow> p = None"
| "dpath B prev p (a # as) \<longleftrightarrow> p = Some a \<and> b_prev (B a) = prev \<and> dpath B (Some a) (b_next (B a)) as"

lemma dpath_cong:
  assumes "\<And>a. a \<in> set ps \<Longrightarrow> b_next (B' a) = b_next (B a) \<and> b_prev (B' a) = b_prev (B a)"
  shows "dpath B' prev p ps = dpath B prev p ps"
  using assms by (induction ps arbitrary: prev p) auto

lemma dpath_neighbours:
  assumes "dpath B prev p (xs @ a # ys)"
  shows "b_prev (B a) = (if xs = [] then prev else Some (last xs))"
    "b_next (B a) = (case ys of [] \<Rightarrow> None | y # _ \<Rightarrow> Some y)"
  using assms by (induction xs arbitrary: prev p) (auto split: list.splits)

lemma dpath_unlink:
  assumes "dpath B prev p (xs @ a # ys)" "distinct (xs @ a # ys)" "\<And>q. prev = Some q \<Longrightarrow> q \<notin> set (xs @ a # ys)"
    and nx: "\<And>i. i \<in> set (xs @ ys) \<Longrightarrow> b_next (B' i) = (if b_prev (B a) = Some i then b_next (B a) else b_next (B i))"
    and pv: "\<And>i. i \<in> set (xs @ ys) \<Longrightarrow> b_prev (B' i) = (if b_next (B a) = Some i then b_prev (B a) else b_prev (B i))"
  shows "dpath B' prev (if xs = [] then b_next (B a) else p) (xs @ ys)"
  using assms
proof (induction xs arbitrary: prev p)
  case Nil
  then have pa: "b_prev (B a) = prev" and path: "dpath B (Some a) (b_next (B a)) ys" by auto
  show ?case
  proof (cases ys)
    case Nil
    then show ?thesis using path by simp
  next
    case (Cons y zs)
    have y: "b_next (B a) = Some y" "dpath B (Some y) (b_next (B y)) zs" using path Cons by auto
    have ny: "prev \<noteq> Some y" "\<And>i. i \<in> set zs \<Longrightarrow> prev \<noteq> Some i" using Nil.prems(3) Cons by auto
    have "dpath B' (Some y) (b_next (B y)) zs = dpath B (Some y) (b_next (B y)) zs"
    proof (rule dpath_cong)
      fix i assume i: "i \<in> set zs"
      then have "i \<noteq> y" using Nil.prems(2) Cons by auto
      then show "b_next (B' i) = b_next (B i) \<and> b_prev (B' i) = b_prev (B i)"
        using Nil.prems(4) [of i] Nil.prems(5) [of i] i Cons pa y(1) ny(2) by auto
    qed
    moreover have "b_next (B' y) = b_next (B y)" "b_prev (B' y) = prev"
      using Nil.prems(4) [of y] Nil.prems(5) [of y] Cons pa y(1) ny(1) by auto
    ultimately show ?thesis using Cons y by simp
  qed
next
  case (Cons x xs)
  have px: "p = Some x" "b_prev (B x) = prev" and path: "dpath B (Some x) (b_next (B x)) (xs @ a # ys)"
    using Cons.prems(1) by auto
  have IH: "dpath B' (Some x) (if xs = [] then b_next (B a) else b_next (B x)) (xs @ ys)"
    using Cons.IH [OF path] Cons.prems(2,4,5) by auto
  have na: "b_next (B a) \<noteq> Some x"
    using dpath_neighbours(2) [OF Cons.prems(1)] Cons.prems(2) by (auto split: list.splits)
  have "b_prev (B a) = (if xs = [] then Some x else Some (last xs))"
    using dpath_neighbours(1) [OF path] .
  then have "b_next (B' x) = (if xs = [] then b_next (B a) else b_next (B x))"
    using Cons.prems(2) Cons.prems(4) [of x] by (auto split: if_splits dest: last_in_set)
  moreover have "b_prev (B' x) = prev" using Cons.prems(5) [of x] na px(2) by simp
  ultimately show ?case using IH px by simp
qed

section \<open>The ring of free buffers\<close>

text \<open>
  A stretch of a doubly linked list, and a ring: a stretch whose last element is linked to its first.
\<close>

fun stretch :: "(nat \<Rightarrow> nat option) \<Rightarrow> (nat \<Rightarrow> nat option) \<Rightarrow> nat list \<Rightarrow> bool" where
  "stretch nx pv (a # b # r) \<longleftrightarrow> nx a = Some b \<and> pv b = Some a \<and> stretch nx pv (b # r)"
| "stretch nx pv _ \<longleftrightarrow> True"

definition ring :: "(nat \<Rightarrow> nat option) \<Rightarrow> (nat \<Rightarrow> nat option) \<Rightarrow> nat list \<Rightarrow> bool" where
  "ring nx pv ps \<longleftrightarrow> stretch nx pv ps \<and> nx (last ps) = Some (hd ps) \<and> pv (hd ps) = Some (last ps)"

lemma stretch_cong:
  assumes "\<And>a. a \<in> set (butlast ps) \<Longrightarrow> nx' a = nx a" "\<And>a. a \<in> set (tl ps) \<Longrightarrow> pv' a = pv a"
  shows "stretch nx' pv' ps = stretch nx pv ps"
  using assms by (induction ps rule: induct_list012) auto

lemma stretch_append:
  "xs \<noteq> [] \<Longrightarrow> ys \<noteq> [] \<Longrightarrow>
   stretch nx pv (xs @ ys) \<longleftrightarrow>
   stretch nx pv xs \<and> nx (last xs) = Some (hd ys) \<and> pv (hd ys) = Some (last xs) \<and> stretch nx pv ys"
proof (induction xs rule: induct_list012)
  case (2 x)
  then show ?case by (cases ys) auto
qed auto

lemma ring_rotate: "ring nx pv (xs @ ys) \<Longrightarrow> ring nx pv (ys @ xs)"
  by (cases "xs = []"; cases "ys = []") (auto simp: ring_def stretch_append)

lemma distinct_ends:
  assumes "distinct ps" "ps \<noteq> []"
  shows "last ps \<notin> set (butlast ps)" "hd ps \<notin> set (tl ps)"
proof -
  show "last ps \<notin> set (butlast ps)" using assms by (cases ps rule: rev_cases) auto
  show "hd ps \<notin> set (tl ps)" using assms by (cases ps) auto
qed

text \<open>Taking an element out of a ring, and putting it in behind the last.\<close>

lemma ring_remove:
  assumes "ring nx pv (a # ps)" "distinct (a # ps)" "ps \<noteq> []" "pv a = Some p" "nx a = Some q"
  shows "p = last ps" "q = hd ps" "ring (nx(p := Some q)) (pv(q := Some p)) ps"
proof -
  have l: "nx a = Some (hd ps)" "pv a = Some (last ps)" "stretch nx pv ps"
    using assms(1,3) by (cases ps; auto simp: ring_def)+
  then show pq: "p = last ps" "q = hd ps" using assms(4,5) by auto
  have "p \<notin> set (butlast ps)" "q \<notin> set (tl ps)"
    using distinct_ends [of ps] assms(2,3) by (simp_all add: pq)
  then have "stretch (nx(p := Some q)) (pv(q := Some p)) ps = stretch nx pv ps" by (intro stretch_cong) auto
  then show "ring (nx(p := Some q)) (pv(q := Some p)) ps" using l(3) by (simp add: ring_def pq)
qed

lemma ring_insert:
  assumes "ring nx pv ps" "distinct ps" "ps \<noteq> []" "a \<notin> set ps" "f = hd ps" "pv f = Some z"
  shows "ring (nx(a := Some f, z := Some a)) (pv(a := Some z, f := Some a)) (ps @ [a])"
proof -
  have z: "z = last ps" using assms(1,5,6) by (simp add: ring_def)
  have out: "f \<noteq> a" "z \<noteq> a" "z \<notin> set (butlast ps)" "f \<notin> set (tl ps)" "a \<notin> set (butlast ps)" "a \<notin> set (tl ps)"
    using distinct_ends [OF assms(2,3)] assms(3,4,5) z by (auto dest: in_set_butlastD list.set_sel(2))
  then have "stretch (nx(a := Some f, z := Some a)) (pv(a := Some z, f := Some a)) ps = stretch nx pv ps"
    by (intro stretch_cong) auto
  then show ?thesis using assms(1,3,5) out z by (simp add: ring_def stretch_append)
qed

text \<open>What the two list operations do to the links.\<close>

abbreviation "next_free s \<equiv> (\<lambda>i. b_next_free (bufs s i))"
abbreviation "prev_free s \<equiv> (\<lambda>i. b_prev_free (bufs s i))"

lemma remove_from_hash_free:
  "b_next_free (bufs (remove_from_hash bh s) i) = b_next_free (bufs s i)"
  "b_prev_free (bufs (remove_from_hash bh s) i) = b_prev_free (bufs s i)"
  "free_list (remove_from_hash bh s) = free_list s"
  by (auto simp: remove_from_hash_def Let_def store_at_def fun_eq_iff set_hash_def split: option.split)

lemma remove_free_links:
  assumes "remove_from_queues bh s = Some u"
  obtains p q where "prev_free s bh = Some p" "next_free s bh = Some q" "next_free u = (next_free s)(p := Some q)"
    "prev_free u = (prev_free s)(q := Some p)" "free_list u = (if free_list s = Some bh then Some q else free_list s)"
proof -
  let ?s = "remove_from_hash bh s"
  note links = remove_from_hash_free
  obtain p q where pq: "b_prev_free (bufs s bh) = Some p" "b_next_free (bufs s bh) = Some q"
    using assms by (auto simp: remove_from_queues_def remove_from_free_def links halts split: if_splits)
  define a where "a = upd_buf p (\<lambda>b. b\<lparr>b_next_free := Some q\<rparr>) ?s"
  define c where "c = upd_buf q (\<lambda>b. b\<lparr>b_prev_free := Some p\<rparr>) a"
  have a: "b_next_free (bufs a bh) = Some q" "b_prev_free (bufs a bh) = Some p" and c: "b_next_free (bufs c bh) = Some q"
    using pq by (auto simp: a_def c_def links)
  have u: "u = (if free_list c = Some bh then c\<lparr>free_list := Some q\<rparr> else c)"
    using assms
    unfolding remove_from_queues_def remove_from_free_def Let_def links pq store_at_def option.case a_def [symmetric]
      a c_def [symmetric] c by simp
  have "next_free u = (next_free s)(p := Some q)" "prev_free u = (prev_free s)(q := Some p)"
    "free_list u = (if free_list s = Some bh then Some q else free_list s)"
    by (auto simp: u c_def a_def fun_eq_iff links)
  then show ?thesis using that pq by blast
qed

lemma insert_free_links:
  assumes "insert_at_free_end bh s = Some t"
  obtains f z where "free_list s = Some f" "prev_free s f = Some z" "next_free t = (next_free s)(bh := Some f, z := Some bh)"
    "prev_free t = (prev_free s)(bh := Some z, f := Some bh)" "free_list t = Some f"
proof -
  obtain f where f: "free_list s = Some f" using assms by (auto simp: insert_at_free_end_def halts split: option.splits)
  define u where "u = upd_buf bh (\<lambda>b. b\<lparr>b_next_free := Some f\<rparr>) s"
  define v where "v = upd_buf bh (\<lambda>b. b\<lparr>b_prev_free := b_prev_free (bufs u f)\<rparr>) u"
  have same: "b_prev_free (bufs u f) = b_prev_free (bufs s f)" "b_prev_free (bufs v f) = b_prev_free (bufs s f)"
    by (simp_all add: v_def u_def)
  note run = assms [unfolded insert_at_free_end_def f Let_def option.case, folded u_def, folded v_def, unfolded same]
  obtain z where z: "b_prev_free (bufs s f) = Some z"
    using run by (cases "b_prev_free (bufs s f)") (auto simp: halts)
  have vz: "v = upd_buf bh (\<lambda>b. b\<lparr>b_prev_free := Some z\<rparr>) u" unfolding v_def same z ..
  have "t = upd_buf f (\<lambda>b. b\<lparr>b_prev_free := Some bh\<rparr>) (upd_buf z (\<lambda>b. b\<lparr>b_next_free := Some bh\<rparr>)
      (upd_buf bh (\<lambda>b. b\<lparr>b_prev_free := Some z\<rparr>) (upd_buf bh (\<lambda>b. b\<lparr>b_next_free := Some f\<rparr>) s)))"
    using run unfolding z vz u_def by simp
  then show ?thesis using that [OF f z] f by (auto simp: fun_eq_iff)
qed

definition ring_ok :: "(nat \<Rightarrow> buffer_head) \<Rightarrow> nat option \<Rightarrow> nat \<Rightarrow> bool" where
  "ring_ok B f n \<longleftrightarrow>
     (\<exists>ps. ps \<noteq> [] \<and> f = Some (hd ps) \<and> ring (\<lambda>i. b_next_free (B i)) (\<lambda>i. b_prev_free (B i)) ps \<and> distinct ps \<and> set ps = {..<n})"

lemma replace_ring:
  assumes ok: "ring_ok (bufs s) (free_list s) n" and bh: "bh < n" and r: "remove_from_queues bh s = Some u"
    and v: "next_free v = next_free u" "prev_free v = prev_free u" "free_list v = free_list u"
    and i: "insert_at_free_end bh v = Some w"
  shows "ring_ok (bufs w) (free_list w) n"
proof -
  obtain ps where ps: "ps \<noteq> []" "free_list s = Some (hd ps)" "ring (next_free s) (prev_free s) ps" "distinct ps" "set ps = {..<n}"
    using ok by (auto simp: ring_ok_def)
  obtain xs ys where xy: "ps = xs @ bh # ys" using bh ps(5) by (metis lessThan_iff split_list)
  obtain p q where pq: "prev_free s bh = Some p" "next_free s bh = Some q" "next_free u = (next_free s)(p := Some q)"
    "prev_free u = (prev_free s)(q := Some p)" "free_list u = (if free_list s = Some bh then Some q else free_list s)"
    by (rule remove_free_links [OF r])
  obtain f z where fz: "free_list v = Some f" "prev_free v f = Some z" "next_free w = (next_free v)(bh := Some f, z := Some bh)"
    "prev_free w = (prev_free v)(bh := Some z, f := Some bh)" "free_list w = Some f"
    by (rule insert_free_links [OF i])
  have rot: "ring (next_free s) (prev_free s) (bh # ys @ xs)" using ring_rotate [of _ _ xs "bh # ys"] ps(3) xy by simp
  have "f = hd (xs @ ys @ [bh]) \<and> ring (next_free w) (prev_free w) (xs @ ys @ [bh])"
  proof (cases "xs @ ys = []")
    case True
    then have "p = bh" "q = bh" using rot pq(1,2) by (auto simp: ring_def)
    then have "f = bh" using fz(1) v(3) pq(5) ps(2) xy True by simp
    moreover have "z = bh"
      using fz(2) fun_cong [OF v(2), of bh] fun_cong [OF pq(4), of bh] \<open>f = bh\<close> \<open>p = bh\<close> \<open>q = bh\<close> by simp
    ultimately show ?thesis using True unfolding ring_def fz(3,4) by simp
  next
    case False
    have d: "distinct (bh # ys @ xs)" "distinct (xs @ ys)" "bh \<notin> set (xs @ ys)" using ps(4) xy by auto
    have "ys @ xs \<noteq> []" using False by auto
    note rem = ring_remove [OF rot d(1) this pq(1,2)]
    have rv: "ring (next_free v) (prev_free v) (xs @ ys)"
      using ring_rotate [OF rem(3)] unfolding v pq(3,4) .
    have f: "f = hd (xs @ ys)"
    proof (cases xs)
      case Nil
      then show ?thesis using fz(1) v(3) pq(5) ps(2) xy rem(2) by simp
    next
      case (Cons x xs')
      then have "x \<noteq> bh" using d(3) by auto
      then show ?thesis using fz(1) v(3) pq(5) ps(2) xy Cons by simp
    qed
    have "ring (next_free w) (prev_free w) ((xs @ ys) @ [bh])"
      unfolding fz(3,4) by (rule ring_insert [OF rv d(2) False d(3) f fz(2)])
    then show ?thesis using f False by (cases xs) auto
  qed
  then show ?thesis
    unfolding ring_ok_def using ps(4,5) xy fz(5) by (intro exI [of _ "xs @ ys @ [bh]"]) auto
qed

lemma stretch_in:
  assumes "stretch nx pv ps" "a \<in> set ps"
  shows "a = last ps \<or> (\<exists>b\<in>set ps. nx a = Some b)" "a = hd ps \<or> (\<exists>b\<in>set ps. pv a = Some b)"
  using assms by (induction ps rule: induct_list012) auto

lemma ring_links:
  assumes "ring_ok B f n"
  shows "\<exists>i<n. f = Some i" "i < n \<Longrightarrow> \<exists>j<n. b_next_free (B i) = Some j" "i < n \<Longrightarrow> \<exists>j<n. b_prev_free (B i) = Some j"
proof -
  obtain ps where ps: "ps \<noteq> []" "f = Some (hd ps)" "ring (\<lambda>i. b_next_free (B i)) (\<lambda>i. b_prev_free (B i)) ps" "set ps = {..<n}"
    using assms by (auto simp: ring_ok_def)
  have ends: "hd ps < n" "last ps < n" using ps(1,4) hd_in_set last_in_set by auto
  then show "\<exists>i<n. f = Some i" using ps(2) by simp
  note st = stretch_in [of _ _ ps, OF ps(3) [unfolded ring_def, THEN conjunct1], unfolded ps(4) lessThan_iff]
  show "i < n \<Longrightarrow> \<exists>j<n. b_next_free (B i) = Some j"
    using st(1) [of i] ps(3) ends by (auto simp: ring_def)
  show "i < n \<Longrightarrow> \<exists>j<n. b_prev_free (B i) = Some j"
    using st(2) [of i] ps(3) ends by (auto simp: ring_def)
qed

section \<open>The invariant\<close>

text \<open>The part of a buffer head that identifies and links it.\<close>

definition bare :: "buffer_head \<Rightarrow> buffer_head" where
  "bare b = b\<lparr>b_data := (\<lambda>_. 0), b_uptodate := False, b_dirt := False, b_count := 0, b_lock := False, b_wait := None\<rparr>"

lemma bare_simps [simp]:
  "b_dev (bare b) = b_dev b" "b_blocknr (bare b) = b_blocknr b" "b_prev (bare b) = b_prev b"
  "b_next (bare b) = b_next b" "b_prev_free (bare b) = b_prev_free b" "b_next_free (bare b) = b_next_free b"
  "bh_hash (bare b) = bh_hash b"
  by (simp_all add: bare_def bh_hash_def)

type_synonym cache = "(nat \<Rightarrow> buffer_head) \<times> (nat \<Rightarrow> nat option) \<times> nat option \<times> nat"

definition view :: "'a tables_scheme \<Rightarrow> cache" where
  "view s = (\<lambda>i. bare (bufs s i), hash_table s, free_list s, nr_buffers s)"

definition chain_ok :: "(nat \<Rightarrow> buffer_head) \<Rightarrow> (nat \<Rightarrow> nat option) \<Rightarrow> nat set \<Rightarrow> nat \<Rightarrow> bool" where
  "chain_ok B H N h \<longleftrightarrow>
     (\<exists>ps. dpath B None (H h) ps \<and> distinct ps \<and> set ps = {i \<in> N. b_dev (B i) \<noteq> 0 \<and> bh_hash (B i) = h})"

definition below :: "nat \<Rightarrow> nat option \<Rightarrow> bool" where
  "below n p \<longleftrightarrow> (\<forall>j. p = Some j \<longrightarrow> j < n)"

definition cache_wf :: "cache \<Rightarrow> bool" where
  "cache_wf c = (case c of (B, H, f, n) \<Rightarrow>
     (\<forall>h<NR_HASH. chain_ok B H {..<n} h) \<and>
     (\<forall>i<n. b_dev (B i) = 0 \<longrightarrow> b_prev (B i) = None \<and> b_next (B i) = None) \<and>
     (\<forall>i<n. \<forall>j<n. b_dev (B i) \<noteq> 0 \<longrightarrow> b_dev (B j) = b_dev (B i) \<longrightarrow> b_blocknr (B j) = b_blocknr (B i) \<longrightarrow> i = j) \<and>
     ring_ok B f n)"

definition cache_ok :: "nat \<Rightarrow> cache \<Rightarrow> bool" where
  "cache_ok n c \<longleftrightarrow> cache_wf c \<and> snd (snd (snd c)) = n"

text \<open>The invariant holds now, and the other processes keep it: it holds at each wake-up.\<close>

definition cache_inv :: "nat \<Rightarrow> kernel \<Rightarrow> bool" where
  "cache_inv n s \<longleftrightarrow> cache_ok n (view s) \<and> (\<forall>x\<in>set (wakes s). cache_ok n (view x))"

lemma view_nr [simp]: "snd (snd (snd (view s))) = nr_buffers s"
  by (simp add: view_def)

lemma cache_invD: "cache_inv n s \<Longrightarrow> cache_wf (view s) \<and> nr_buffers s = n"
  by (simp add: cache_inv_def cache_ok_def)

lemma view_upd [simp]:
  "view (upd_buf b (\<lambda>x. x\<lparr>b_lock := l x\<rparr>) s) = view s" "view (upd_buf b (\<lambda>x. x\<lparr>b_dirt := l x\<rparr>) s) = view s"
  "view (upd_buf b (\<lambda>x. x\<lparr>b_uptodate := l x\<rparr>) s) = view s" "view (upd_buf b (\<lambda>x. x\<lparr>b_data := d x\<rparr>) s) = view s"
  "view (upd_buf b (\<lambda>x. x\<lparr>b_count := c x\<rparr>) s) = view s" "view (upd_buf b (\<lambda>x. x\<lparr>b_wait := w x\<rparr>) s) = view s"
  "view (upd_buf b (\<lambda>x. x\<lparr>b_data := d x, b_dirt := l x\<rparr>) s) = view s"
  "view (upd_buf b (\<lambda>x. x\<lparr>b_count := c x, b_dirt := l x, b_uptodate := l' x\<rparr>) s) = view s"
  "view (upd_ino i g s) = view s" "view (upd_sb i k s) = view s"
  by (auto simp: view_def bare_def fun_eq_iff)

interpretation cache: io_observation view view
proof
  show "view (wq_set p v s) = view s" for p v and s :: kernel
    by (cases p) (auto simp: view_def bare_def fun_eq_iff)
qed (simp_all, simp_all add: view_def tables.defs kernel.defs)

lemma cache_kept: "cache.kept s t \<Longrightarrow> cache_inv n s \<Longrightarrow> cache_inv n t"
  unfolding cache_inv_def using keeps_inv [of view view s t "cache_ok n"] by blast

lemma cache_same: "view t = view s \<Longrightarrow> wakes t = wakes s \<Longrightarrow> cache_inv n s \<Longrightarrow> cache_inv n t"
  by (simp add: cache_inv_def)

section \<open>Everything but the replacement of a buffer keeps the invariant\<close>

definition getter_ok :: "nat \<Rightarrow> getter \<Rightarrow> bool" where
  "getter_ok n gb \<longleftrightarrow>
     (\<forall>dev block s bh t. 0 \<le> dev \<longrightarrow> dev < 65536 \<longrightarrow> cache_inv n s \<longrightarrow> gb dev block s = Some (bh, t) \<longrightarrow> cache_inv n t)"

lemma getter_okD:
  "getter_ok n gb \<Longrightarrow> 0 \<le> dev \<Longrightarrow> dev < 65536 \<Longrightarrow> cache_inv n s \<Longrightarrow> gb dev block s = Some (bh, t) \<Longrightarrow> cache_inv n t"
  unfolding getter_ok_def by blast

lemma brelse_inv: "brelse bh s = Some t \<Longrightarrow> cache_inv n s \<Longrightarrow> cache_inv n t"
  using cache.brelse_kept cache_kept by (metis view_upd(5))

lemma ll_rw_block_inv: "ll_rw_block rw bh s = Some t \<Longrightarrow> cache_inv n s \<Longrightarrow> cache_inv n t"
  using cache.ll_rw_block_kept cache_kept by blast

lemma wait_on_buffer_inv: "wait_on_buffer bh s = Some t \<Longrightarrow> cache_inv n s \<Longrightarrow> cache_inv n t"
  using cache.wait_on_buffer_kept cache_kept by blast

lemma wait_on_inode_inv: "wait_on_inode i s = Some t \<Longrightarrow> cache_inv n s \<Longrightarrow> cache_inv n t"
  using cache.wait_on_inode_kept cache_kept by blast

lemma lock_inode_inv:
  assumes "lock_inode i s = Some t" "cache_inv n s"
  shows "cache_inv n t"
proof -
  obtain u where u: "wait_on_inode i s = Some u" "t = upd_ino i (\<lambda>n. n\<lparr>i_lock := True\<rparr>) u"
    using assms(1) by (auto simp: lock_inode_def bind_Some_iff)
  then show ?thesis using wait_on_inode_inv [OF u(1) assms(2)] by (auto intro: cache_same)
qed

lemma unlock_inode_inv: "cache_inv n s \<Longrightarrow> cache_inv n (unlock_inode i s)"
  by (rule cache_same) (simp_all add: unlock_inode_def cache.obs_wake_up)

lemma bread_with_inv:
  assumes "getter_ok n gb" "0 \<le> dev" "dev < 65536" "cache_inv n s" "bread_with gb dev block s = Some (r, t)"
  shows "cache_inv n t"
proof -
  obtain bh u where u: "gb dev block s = Some (bh, u)" using assms(5) by (auto simp: bread_with_def bind_Some_iff)
  note iu = getter_okD [OF assms(1-4) u]
  show ?thesis
    using assms(5) u iu
    by (auto simp: bread_with_def bind_Some_iff split: if_splits dest!: ll_rw_block_inv wait_on_buffer_inv brelse_inv)
qed

lemma write_inode_with_inv:
  assumes gb: "getter_ok n gb" and "cache_inv n s" "write_inode_with gb i s = Some t"
  shows "cache_inv n t"
proof -
  obtain u where u: "lock_inode i s = Some u" using assms(3) by (auto simp: write_inode_with_def bind_Some_iff)
  note iu = lock_inode_inv [OF u assms(2)]
  show ?thesis
  proof (cases "\<not> i_dirt (inode_table u i) \<or> i_dev (inode_table u i) = 0")
    case True
    then show ?thesis using assms(3) u unlock_inode_inv [OF iu] by (auto simp: write_inode_with_def)
  next
    case False
    then obtain sb v where v: "get_super (uint (i_dev (inode_table u i))) u = Some (Some sb, v)"
      using assms(3) u by (auto simp: write_inode_with_def bind_Some_iff halts split: option.splits)
    have iv: "cache_inv n v" using cache_kept [OF cache.get_super_kept [OF v] iu] .
    obtain bh w where w: "bread_with gb (uint (i_dev (inode_table v i)))
          (inode_block (super_tab v sb) (inode_table v i)) v = Some (Some bh, w)"
      using assms(3) u v False by (auto simp: write_inode_with_def bind_Some_iff halts split: option.splits)
    have "uint (i_dev (inode_table v i)) < 65536" using uint_lt2p [of "i_dev (inode_table v i)"] by simp
    then have iw: "cache_inv n w" using bread_with_inv [OF gb _ _ iv w] by simp
    let ?n = "inode_table w i"
    let ?x = "upd_buf bh (\<lambda>b. b\<lparr>b_data := put_d_inode (b_data b) (32 * (inode_index ?n mod INODES_PER_BLOCK)) ?n,
        b_dirt := True\<rparr>) w"
    obtain y where y: "brelse (Some bh) (upd_ino i (\<lambda>n. n\<lparr>i_dirt := False\<rparr>) ?x) = Some y" "t = unlock_inode i y"
      using assms(3) u v w False by (auto simp: write_inode_with_def bind_Some_iff Let_def)
    have "cache_inv n (upd_ino i (\<lambda>n. n\<lparr>i_dirt := False\<rparr>) ?x)" by (rule cache_same [OF _ _ iw]) simp_all
    then show ?thesis using brelse_inv [OF y(1)] unlock_inode_inv y(2) by blast
  qed
qed

lemma for_each_cache_inv:
  assumes "for_each xs f s = Some t" "cache_inv n s" "\<And>i u v. f i u = Some v \<Longrightarrow> cache_inv n u \<Longrightarrow> cache_inv n v"
  shows "cache_inv n t"
  using for_each_inv [OF assms(1), of "cache_inv n"] assms(2,3) by blast

lemma sync_buffer_inv: "sync_buffer dev bh s = Some t \<Longrightarrow> cache_inv n s \<Longrightarrow> cache_inv n t"
  by (auto simp: sync_buffer_def bind_Some_iff split: if_splits dest!: wait_on_buffer_inv ll_rw_block_inv)

lemma sync_inode_with_inv:
  "getter_ok n gb \<Longrightarrow> sync_inode_with gb i s = Some t \<Longrightarrow> cache_inv n s \<Longrightarrow> cache_inv n t"
  by (auto simp: sync_inode_with_def bind_Some_iff split: if_splits dest!: wait_on_inode_inv intro: write_inode_with_inv)

lemma sync_dev_with_inv:
  assumes gb: "getter_ok n gb" and "cache_inv n s" "sync_dev_with gb dev s = Some (r, t)"
  shows "cache_inv n t"
proof -
  obtain u v where u: "for_each [0..<nr_buffers s] (sync_buffer dev) s = Some u" "sync_inodes_with gb u = Some v"
      "for_each [0..<nr_buffers v] (sync_buffer dev) v = Some t"
    using assms(3) by (auto simp: sync_dev_with_def bind_Some_iff)
  have "cache_inv n u" using for_each_cache_inv [OF u(1) assms(2)] sync_buffer_inv by blast
  then have "cache_inv n v"
    using for_each_cache_inv [OF u(2) [unfolded sync_inodes_with_def]] sync_inode_with_inv [OF gb] by blast
  then show ?thesis using for_each_cache_inv [OF u(3)] sync_buffer_inv by blast
qed

section \<open>Replacing a buffer\<close>

lemma dpath_bare [simp]: "dpath (\<lambda>i. bare (B i)) prev p ps = dpath B prev p ps"
  by (rule dpath_cong) simp

lemma view_wf_iff:
  "cache_wf (view s) \<longleftrightarrow>
     (\<forall>h<NR_HASH. chain_ok (bufs s) (hash_table s) {..<nr_buffers s} h) \<and>
     (\<forall>i<nr_buffers s. b_dev (bufs s i) = 0 \<longrightarrow> b_prev (bufs s i) = None \<and> b_next (bufs s i) = None) \<and>
     (\<forall>i<nr_buffers s. \<forall>j<nr_buffers s. b_dev (bufs s i) \<noteq> 0 \<longrightarrow> b_dev (bufs s j) = b_dev (bufs s i) \<longrightarrow>
        b_blocknr (bufs s j) = b_blocknr (bufs s i) \<longrightarrow> i = j) \<and>
     ring_ok (bufs s) (free_list s) (nr_buffers s)"
  by (simp add: cache_wf_def view_def chain_ok_def ring_ok_def)

lemma store_at_simps [simp]:
  "hash_table (store_at p f s) = hash_table s" "nr_buffers (store_at p f s) = nr_buffers s"
  "free_list (store_at p f s) = free_list s" "wakes (store_at p f s) = wakes s"
  "bufs (store_at p f s) = (\<lambda>i. if p = Some i then f (bufs s i) else bufs s i)"
  by (auto simp: store_at_def split: option.split)

lemma set_hash_simps [simp]:
  "hash_table (set_hash h p s) = (hash_table s)(h := p)" "nr_buffers (set_hash h p s) = nr_buffers s"
  "free_list (set_hash h p s) = free_list s" "wakes (set_hash h p s) = wakes s" "bufs (set_hash h p s) = bufs s"
  by (simp_all add: set_hash_def)

lemma remove_from_hash_fields:
  assumes "b_next (bufs s bh) \<noteq> Some bh" "b_prev (bufs s bh) \<noteq> Some bh"
  shows "b_next (bufs (remove_from_hash bh s) i) =
      (if b_prev (bufs s bh) = Some i then b_next (bufs s bh) else b_next (bufs s i))"
    "b_prev (bufs (remove_from_hash bh s) i) =
      (if b_next (bufs s bh) = Some i then b_prev (bufs s bh) else b_prev (bufs s i))"
    "hash_table (remove_from_hash bh s) = (if hash_table s (bh_hash (bufs s bh)) = Some bh
       then (hash_table s)(bh_hash (bufs s bh) := b_next (bufs s bh)) else hash_table s)"
  using assms by (simp_all add: remove_from_hash_def Let_def bh_hash_def)

lemma remove_from_hash_same [simp]:
  "b_dev (bufs (remove_from_hash bh s) i) = b_dev (bufs s i)"
  "b_blocknr (bufs (remove_from_hash bh s) i) = b_blocknr (bufs s i)"
  "b_lock (bufs (remove_from_hash bh s) i) = b_lock (bufs s i)"
  "b_next_free (bufs (remove_from_hash bh s) i) = b_next_free (bufs s i)"
  "b_prev_free (bufs (remove_from_hash bh s) i) = b_prev_free (bufs s i)"
  "nr_buffers (remove_from_hash bh s) = nr_buffers s" "wakes (remove_from_hash bh s) = wakes s"
  "free_list (remove_from_hash bh s) = free_list s"
  by (simp_all add: remove_from_hash_def Let_def)

lemma remove_from_free_same:
  assumes "remove_from_free bh s = Some t"
  shows "b_next (bufs t i) = b_next (bufs s i)" "b_prev (bufs t i) = b_prev (bufs s i)"
    "b_dev (bufs t i) = b_dev (bufs s i)" "b_blocknr (bufs t i) = b_blocknr (bufs s i)"
    "b_lock (bufs t i) = b_lock (bufs s i)" "hash_table t = hash_table s" "nr_buffers t = nr_buffers s"
    "wakes t = wakes s"
  using assms by (auto simp: remove_from_free_def Let_def halts split: if_splits)

lemma remove_fields:
  assumes "remove_from_queues bh s = Some t" "b_next (bufs s bh) \<noteq> Some bh" "b_prev (bufs s bh) \<noteq> Some bh"
  shows "b_next (bufs t i) = (if b_prev (bufs s bh) = Some i then b_next (bufs s bh) else b_next (bufs s i))"
    "b_prev (bufs t i) = (if b_next (bufs s bh) = Some i then b_prev (bufs s bh) else b_prev (bufs s i))"
    "b_dev (bufs t i) = b_dev (bufs s i)" "b_blocknr (bufs t i) = b_blocknr (bufs s i)"
    "b_lock (bufs t i) = b_lock (bufs s i)"
    "hash_table t = (if hash_table s (bh_hash (bufs s bh)) = Some bh
       then (hash_table s)(bh_hash (bufs s bh) := b_next (bufs s bh)) else hash_table s)"
    "nr_buffers t = nr_buffers s" "wakes t = wakes s"
  using remove_from_free_same [OF assms(1) [unfolded remove_from_queues_def]] remove_from_hash_fields [OF assms(2,3)]
  by simp_all

lemma remove_chains:
  assumes run: "remove_from_queues bh s = Some t" and wf: "cache_wf (view s)" and bh: "bh < nr_buffers s"
  shows "\<forall>h<NR_HASH. chain_ok (bufs t) (hash_table t) ({..<nr_buffers s} - {bh}) h"
    and "b_next (bufs s bh) \<noteq> Some bh" "b_prev (bufs s bh) \<noteq> Some bh"
    and "\<forall>i<nr_buffers s. i \<noteq> bh \<longrightarrow> b_dev (bufs s i) = 0 \<longrightarrow> b_prev (bufs t i) = None \<and> b_next (bufs t i) = None"
proof -
  let ?N = "{..<nr_buffers s}" and ?h0 = "bh_hash (bufs s bh)"
  have h0: "?h0 < NR_HASH" by (simp add: bh_hash_def hashfn_def)
  have chain: "chain_ok (bufs s) (hash_table s) ?N h" if "h < NR_HASH" for h using wf that by (simp add: view_wf_iff)
  obtain ps where ps: "dpath (bufs s) None (hash_table s ?h0) ps" "distinct ps"
      "set ps = {i \<in> ?N. b_dev (bufs s i) \<noteq> 0 \<and> bh_hash (bufs s i) = ?h0}"
    using chain [OF h0] by (auto simp: chain_ok_def)
  have nb: "(b_next (bufs s bh) = Some i \<or> b_prev (bufs s bh) = Some i) \<longrightarrow>
      i \<in> set ps \<and> i \<noteq> bh \<and> b_dev (bufs s bh) \<noteq> 0" for i
  proof (cases "b_dev (bufs s bh) = 0")
    case True
    then show ?thesis using wf bh by (simp add: view_wf_iff)
  next
    case False
    then have "bh \<in> set ps" using bh ps(3) by simp
    then obtain xs ys where xy: "ps = xs @ bh # ys" by (auto simp: in_set_conv_decomp)
    note d = dpath_neighbours [OF ps(1) [unfolded xy]]
    have "b_prev (bufs s bh) = Some i \<longrightarrow> i \<in> set xs" unfolding d by (cases xs) auto
    moreover have "b_next (bufs s bh) = Some i \<longrightarrow> i \<in> set ys" unfolding d by (cases ys) auto
    ultimately show ?thesis using xy ps(2) False by auto
  qed
  then show n1: "b_next (bufs s bh) \<noteq> Some bh" and n2: "b_prev (bufs s bh) \<noteq> Some bh" by auto
  note f = remove_fields [OF run n1 n2]
  have hash: "bh_hash (bufs t i) = bh_hash (bufs s i)" for i by (simp add: bh_hash_def f)
  show "\<forall>i<nr_buffers s. i \<noteq> bh \<longrightarrow> b_dev (bufs s i) = 0 \<longrightarrow> b_prev (bufs t i) = None \<and> b_next (bufs t i) = None"
  proof (intro allI impI)
    fix i assume i: "i < nr_buffers s" "i \<noteq> bh" "b_dev (bufs s i) = 0"
    then have "i \<notin> set ps" using ps(3) by simp
    then have "b_next (bufs s bh) \<noteq> Some i" "b_prev (bufs s bh) \<noteq> Some i" using nb by blast+
    moreover have "b_prev (bufs s i) = None" "b_next (bufs s i) = None" using wf i by (simp_all add: view_wf_iff)
    ultimately show "b_prev (bufs t i) = None \<and> b_next (bufs t i) = None" by (simp add: f)
  qed
  show "\<forall>h<NR_HASH. chain_ok (bufs t) (hash_table t) (?N - {bh}) h"
  proof (intro allI impI)
    fix h assume h: "h < NR_HASH"
    show "chain_ok (bufs t) (hash_table t) (?N - {bh}) h"
    proof (cases "h = ?h0 \<and> b_dev (bufs s bh) \<noteq> 0")
      case True
      then have "bh \<in> set ps" using bh ps(3) by simp
      then obtain xs ys where xy: "ps = xs @ bh # ys" by (auto simp: in_set_conv_decomp)
      have "dpath (bufs t) None (if xs = [] then b_next (bufs s bh) else hash_table s ?h0) (xs @ ys)"
        by (rule dpath_unlink [OF ps(1) [unfolded xy] ps(2) [unfolded xy]]) (simp_all add: f)
      moreover have "hash_table s ?h0 = Some bh \<longleftrightarrow> xs = []"
        using ps(1,2) xy by (cases xs) auto
      ultimately have "dpath (bufs t) None (hash_table t h) (xs @ ys)" using True by (auto simp: f(6) split: if_splits)
      moreover have "set (xs @ ys) = {i \<in> ?N - {bh}. b_dev (bufs t i) \<noteq> 0 \<and> bh_hash (bufs t i) = h}"
        using ps(2,3) xy True by (auto simp: f hash)
      ultimately show ?thesis unfolding chain_ok_def using ps(2) xy by (intro exI [of _ "xs @ ys"]) simp
    next
      case False
      obtain qs where qs: "dpath (bufs s) None (hash_table s h) qs" "distinct qs"
          "set qs = {i \<in> ?N. b_dev (bufs s i) \<noteq> 0 \<and> bh_hash (bufs s i) = h}"
        using chain [OF h] by (auto simp: chain_ok_def)
      have out: "bh \<notin> set qs" using False qs(3) by auto
      have "dpath (bufs t) None (hash_table s h) qs = dpath (bufs s) None (hash_table s h) qs"
        using nb ps(3) qs(3) False by (intro dpath_cong) (auto simp: f)
      moreover have "hash_table t h = hash_table s h"
      proof -
        have "hash_table s ?h0 \<noteq> Some bh" if "h = ?h0" using that qs(1) out by (cases qs) auto
        then show ?thesis by (auto simp: f(6))
      qed
      moreover have "set qs = {i \<in> ?N - {bh}. b_dev (bufs t i) \<noteq> 0 \<and> bh_hash (bufs t i) = h}"
        using qs(3) out by (auto simp: f hash)
      ultimately show ?thesis unfolding chain_ok_def using qs by (intro exI [of _ qs]) simp
    qed
  qed
qed

lemma upd_free_link:
  "b_dev (bufs (upd_buf i (\<lambda>b. b\<lparr>b_next_free := v\<rparr>) s) j) = b_dev (bufs s j)"
  "b_blocknr (bufs (upd_buf i (\<lambda>b. b\<lparr>b_next_free := v\<rparr>) s) j) = b_blocknr (bufs s j)"
  "b_lock (bufs (upd_buf i (\<lambda>b. b\<lparr>b_next_free := v\<rparr>) s) j) = b_lock (bufs s j)"
  "b_next (bufs (upd_buf i (\<lambda>b. b\<lparr>b_next_free := v\<rparr>) s) j) = b_next (bufs s j)"
  "b_prev (bufs (upd_buf i (\<lambda>b. b\<lparr>b_next_free := v\<rparr>) s) j) = b_prev (bufs s j)"
  "b_dev (bufs (upd_buf i (\<lambda>b. b\<lparr>b_prev_free := v\<rparr>) s) j) = b_dev (bufs s j)"
  "b_blocknr (bufs (upd_buf i (\<lambda>b. b\<lparr>b_prev_free := v\<rparr>) s) j) = b_blocknr (bufs s j)"
  "b_lock (bufs (upd_buf i (\<lambda>b. b\<lparr>b_prev_free := v\<rparr>) s) j) = b_lock (bufs s j)"
  "b_next (bufs (upd_buf i (\<lambda>b. b\<lparr>b_prev_free := v\<rparr>) s) j) = b_next (bufs s j)"
  "b_prev (bufs (upd_buf i (\<lambda>b. b\<lparr>b_prev_free := v\<rparr>) s) j) = b_prev (bufs s j)"
  by simp_all

lemma insert_at_free_end_same:
  assumes "insert_at_free_end bh s = Some t"
  shows "b_dev (bufs t i) = b_dev (bufs s i)" "b_blocknr (bufs t i) = b_blocknr (bufs s i)"
    "b_lock (bufs t i) = b_lock (bufs s i)" "b_next (bufs t i) = b_next (bufs s i)"
    "b_prev (bufs t i) = b_prev (bufs s i)" "bh_hash (bufs t i) = bh_hash (bufs s i)"
    "hash_table t = hash_table s" "nr_buffers t = nr_buffers s" "wakes t = wakes s" "free_list t = free_list s"
proof -
  obtain f p x where t: "t = upd_buf f (\<lambda>b. b\<lparr>b_prev_free := Some bh\<rparr>) (upd_buf p (\<lambda>b. b\<lparr>b_next_free := Some bh\<rparr>)
      (upd_buf bh (\<lambda>b. b\<lparr>b_prev_free := x\<rparr>) (upd_buf bh (\<lambda>b. b\<lparr>b_next_free := Some f\<rparr>) s)))"
    using assms unfolding insert_at_free_end_def Let_def halts by (auto split: option.splits)
  show "b_dev (bufs t i) = b_dev (bufs s i)" "b_blocknr (bufs t i) = b_blocknr (bufs s i)"
    "b_lock (bufs t i) = b_lock (bufs s i)" "b_next (bufs t i) = b_next (bufs s i)"
    "b_prev (bufs t i) = b_prev (bufs s i)" "bh_hash (bufs t i) = bh_hash (bufs s i)"
    unfolding t bh_hash_def by (simp_all only: upd_free_link)
  show "hash_table t = hash_table s" "nr_buffers t = nr_buffers s" "wakes t = wakes s" "free_list t = free_list s"
    unfolding t by simp_all
qed

lemma insert_into_hash_fields:
  "b_dev (bufs (insert_into_hash bh s) i) = b_dev (bufs s i)"
  "b_blocknr (bufs (insert_into_hash bh s) i) = b_blocknr (bufs s i)"
  "b_lock (bufs (insert_into_hash bh s) i) = b_lock (bufs s i)" "nr_buffers (insert_into_hash bh s) = nr_buffers s"
  "b_next_free (bufs (insert_into_hash bh s) i) = b_next_free (bufs s i)"
  "b_prev_free (bufs (insert_into_hash bh s) i) = b_prev_free (bufs s i)"
  "wakes (insert_into_hash bh s) = wakes s" "free_list (insert_into_hash bh s) = free_list s"
  "b_next (bufs (insert_into_hash bh s) i) =
     (if i = bh then (if b_dev (bufs s bh) = 0 then None else hash_table s (bh_hash (bufs s bh))) else b_next (bufs s i))"
  "hash_table (insert_into_hash bh s) =
     (if b_dev (bufs s bh) = 0 then hash_table s else (hash_table s)(bh_hash (bufs s bh) := Some bh))"
  by (simp_all add: insert_into_hash_def Let_def bh_hash_def split: option.split)

lemma insert_into_hash_prev:
  assumes "hash_table s (bh_hash (bufs s bh)) \<noteq> Some bh"
  shows "b_prev (bufs (insert_into_hash bh s) i) =
     (if i = bh then None
      else if b_dev (bufs s bh) \<noteq> 0 \<and> hash_table s (bh_hash (bufs s bh)) = Some i then Some bh else b_prev (bufs s i))"
  using assms by (auto simp add: insert_into_hash_def Let_def bh_hash_def split: option.split)

lemma chain_head:
  assumes "\<forall>h<NR_HASH. chain_ok B H N h" "H (bh_hash b) = Some i"
  shows "i \<in> N \<and> b_dev (B i) \<noteq> 0 \<and> bh_hash (B i) = bh_hash b"
proof -
  have "bh_hash b < NR_HASH" by (simp add: bh_hash_def hashfn_def)
  then obtain qs where "dpath B None (H (bh_hash b)) qs"
      "set qs = {i \<in> N. b_dev (B i) \<noteq> 0 \<and> bh_hash (B i) = bh_hash b}"
    using assms(1) by (auto simp: chain_ok_def)
  then show ?thesis using assms(2) by (cases qs) auto
qed

lemma insert_into_queues_chains:
  assumes run: "insert_into_queues bh s = Some t" and bh: "bh < nr_buffers s"
    and chains: "\<forall>h<NR_HASH. chain_ok (bufs s) (hash_table s) ({..<nr_buffers s} - {bh}) h"
    and h: "h < NR_HASH"
  shows "chain_ok (bufs t) (hash_table t) {..<nr_buffers t} h"
proof -
  obtain u where u: "insert_at_free_end bh s = Some u" and t: "t = insert_into_hash bh u"
    using run by (auto simp: insert_into_queues_def bind_Some_iff)
  note e = insert_at_free_end_same [OF u]
  let ?N = "{..<nr_buffers s}" and ?h0 = "bh_hash (bufs s bh)"
  obtain ps where ps: "dpath (bufs s) None (hash_table s h) ps" "distinct ps"
      "set ps = {i \<in> ?N - {bh}. b_dev (bufs s i) \<noteq> 0 \<and> bh_hash (bufs s i) = h}"
    using chains h by (auto simp: chain_ok_def)
  have out: "bh \<notin> set ps" using ps(3) by auto
  have head: "hash_table u (bh_hash (bufs u bh)) \<noteq> Some bh"
    using chain_head [OF chains, of "bufs s bh" bh] by (auto simp: e)
  note f = insert_into_hash_fields [of bh u] insert_into_hash_prev [OF head]
  have hash: "bh_hash (bufs t i) = bh_hash (bufs s i)" for i by (simp add: t bh_hash_def f e)
  have members: "{i \<in> {..<nr_buffers t}. b_dev (bufs t i) \<noteq> 0 \<and> bh_hash (bufs t i) = h} =
      {i \<in> ?N. b_dev (bufs s i) \<noteq> 0 \<and> bh_hash (bufs s i) = h}"
    by (simp add: hash) (simp add: t f e)
  show ?thesis
  proof (cases "b_dev (bufs s bh) \<noteq> 0 \<and> h = ?h0")
    case True
    have "dpath (bufs t) None (hash_table t h) (bh # ps)"
    proof (cases ps)
      case Nil
      then show ?thesis using True ps(1) by (simp add: t f e)
    next
      case (Cons y ys)
      have "dpath (bufs t) (Some y) (b_next (bufs s y)) ys = dpath (bufs s) (Some y) (b_next (bufs s y)) ys"
        using True out Cons ps(1,2) by (intro dpath_cong) (auto simp: t f e)
      then show ?thesis using True ps(1) Cons out by (simp add: t f e)
    qed
    moreover have "set (bh # ps) = {i \<in> ?N. b_dev (bufs s i) \<noteq> 0 \<and> bh_hash (bufs s i) = h}"
      using ps(3) True bh by auto
    ultimately show ?thesis unfolding chain_ok_def members using ps(2) out by (intro exI [of _ "bh # ps"]) simp
  next
    case False
    have nh: "hash_table t h = hash_table s h" using False by (auto simp: t f e)
    have "dpath (bufs t) None (hash_table s h) ps = dpath (bufs s) None (hash_table s h) ps"
    proof (rule dpath_cong)
      fix i assume i: "i \<in> set ps"
      have "hash_table s ?h0 \<noteq> Some i" if "b_dev (bufs s bh) \<noteq> 0"
        using chain_head [OF chains, of "bufs s bh" i] i ps(3) False that by auto
      then show "b_next (bufs t i) = b_next (bufs s i) \<and> b_prev (bufs t i) = b_prev (bufs s i)"
        using i out by (auto simp: t f e)
    qed
    moreover have "set ps = {i \<in> ?N. b_dev (bufs s i) \<noteq> 0 \<and> bh_hash (bufs s i) = h}"
      using ps(3) False by auto
    ultimately show ?thesis unfolding chain_ok_def members nh using ps(1,2) by (intro exI [of _ ps]) simp
  qed
qed

text \<open>A buffer head without its links: what linking and unlinking leave alone.\<close>

definition contents :: "buffer_head \<Rightarrow> buffer_head" where
  "contents b = b\<lparr>b_prev := None, b_next := None, b_prev_free := None, b_next_free := None\<rparr>"

lemma contents_upd [simp]:
  "contents (b\<lparr>b_prev := x\<rparr>) = contents b" "contents (b\<lparr>b_next := x\<rparr>) = contents b"
  "contents (b\<lparr>b_prev_free := x\<rparr>) = contents b" "contents (b\<lparr>b_next_free := x\<rparr>) = contents b"
  "contents (b\<lparr>b_dev := d, b_blocknr := k\<rparr>) = (contents b)\<lparr>b_dev := d, b_blocknr := k\<rparr>"
  by (simp_all add: contents_def)

lemma store_at_contents [simp]:
  assumes "\<And>b. contents (f b) = contents b"
  shows "contents (bufs (store_at p f s) i) = contents (bufs s i)"
  using assms by (simp add: store_at_def split: option.split)

lemma remove_contents:
  assumes "remove_from_queues bh s = Some t"
  shows "contents (bufs t i) = contents (bufs s i)"
proof -
  have "contents (bufs (remove_from_hash bh s) i) = contents (bufs s i)"
    by (simp add: remove_from_hash_def Let_def set_hash_def)
  moreover have "contents (bufs t i) = contents (bufs (remove_from_hash bh s) i)"
    using assms unfolding remove_from_queues_def remove_from_free_def halts Let_def
    by (auto split: if_splits)
  ultimately show ?thesis by simp
qed

lemma insert_contents:
  assumes "insert_into_queues bh s = Some t"
  shows "contents (bufs t i) = contents (bufs s i)"
proof -
  obtain u where u: "insert_at_free_end bh s = Some u" and t: "t = insert_into_hash bh u"
    using assms by (auto simp: insert_into_queues_def bind_Some_iff)
  have upd: "contents (bufs (upd_buf j g x) i) = contents (bufs x i)" if "\<And>b. contents (g b) = contents b" for j g x
    using that by simp
  have "contents (bufs t i) = contents (bufs u i)"
    unfolding t insert_into_hash_def Let_def set_hash_def by (auto split: option.split)
  moreover have "contents (bufs u i) = contents (bufs s i)"
    using u unfolding insert_at_free_end_def halts Let_def by (auto simp: upd split: option.splits)
  ultimately show ?thesis by simp
qed

lemma find_chain_Some:
  "find_chain (Some i) dev block s =
     (if uint (b_dev (bufs s i)) = dev \<and> b_blocknr (bufs s i) = word_of_int block then Some (Some i)
      else find_chain (b_next (bufs s i)) dev block s)"
  by (subst find_chain.simps) simp

lemma find_chain_cong:
  assumes "\<And>i. b_dev (bufs s' i) = b_dev (bufs s i)" "\<And>i. b_blocknr (bufs s' i) = b_blocknr (bufs s i)"
    "\<And>i. b_next (bufs s' i) = b_next (bufs s i)" "find_chain p dev block s = Some r"
  shows "find_chain p dev block s' = Some r"
proof -
  have "x = s \<longrightarrow> find_chain p dev block s' = Some r" if "find_chain p dev block x = Some r" for x
    using that
  proof (induction rule: find_chain.raw_induct [rotated 1, consumes 1, case_names step])
    case (step f p dev block x r)
    then show ?case
      by (subst find_chain.simps) (auto simp: assms(1-3) split: option.splits if_splits)
  qed
  then show ?thesis using assms(4) by blast
qed

lemma find_chain_None:
  assumes "dpath (bufs s) prev p ps" "find_chain p dev block s = Some None" "i \<in> set ps"
  shows "\<not> (uint (b_dev (bufs s i)) = dev \<and> b_blocknr (bufs s i) = word_of_int block)"
  using assms
proof (induction ps arbitrary: prev p)
  case (Cons a ps)
  have p: "p = Some a" "dpath (bufs s) (Some a) (b_next (bufs s a)) ps" using Cons.prems(1) by auto
  have na: "\<not> (uint (b_dev (bufs s a)) = dev \<and> b_blocknr (bufs s a) = word_of_int block)"
    and rest: "find_chain (b_next (bufs s a)) dev block s = Some None"
    using Cons.prems(2) p(1) by (simp_all add: find_chain_Some split: if_splits)
  show ?case using Cons.IH [OF p(2) rest] Cons.prems(3) na by auto
qed simp

lemma find_buffer_None:
  assumes wf: "cache_wf (view s)" and f: "find_buffer dev block s = Some None" and dev: "0 < dev" "dev < 65536"
    and i: "i < nr_buffers s"
  shows "\<not> (b_dev (bufs s i) = word_of_int dev \<and> b_blocknr (bufs s i) = word_of_int block)"
proof
  assume a: "b_dev (bufs s i) = word_of_int dev \<and> b_blocknr (bufs s i) = word_of_int block"
  have du: "uint (word_of_int dev :: u16) = dev" using dev by (simp add: uint_word_of_int)
  have "ucast (word_of_int dev :: u16) = (word_of_int dev :: u32)"
    using du by (simp add: ucast_eq)
  then have h: "bh_hash (bufs s i) = hashfn (word_of_int dev) (word_of_int block)"
    using a by (simp add: bh_hash_def)
  let ?h = "hashfn (word_of_int dev) (word_of_int block)"
  have "?h < NR_HASH" by (simp add: hashfn_def)
  then obtain ps where ps: "dpath (bufs s) None (hash_table s ?h) ps"
      "set ps = {i \<in> {..<nr_buffers s}. b_dev (bufs s i) \<noteq> 0 \<and> bh_hash (bufs s i) = ?h}"
    using wf by (auto simp: view_wf_iff chain_ok_def)
  have "b_dev (bufs s i) \<noteq> 0" using a du dev(1) by auto
  then have "i \<in> set ps" using ps(2) i h by simp
  from find_chain_None [OF ps(1) f [unfolded find_buffer_def] this] show False using a du by simp
qed

lemma replace_wf:
  assumes wf: "cache_wf (view s)" and bh: "bh < nr_buffers s" and dev: "0 \<le> dev" "dev < 65536"
    and f: "find_buffer dev block s = Some None"
    and r: "remove_from_queues bh s = Some u"
    and i: "insert_into_queues bh (upd_buf bh (\<lambda>b. b\<lparr>b_dev := word_of_int dev, b_blocknr := word_of_int block\<rparr>) u) = Some t"
      (is "insert_into_queues bh ?v = _")
  shows "cache_wf (view t)" "nr_buffers t = nr_buffers s" "wakes t = wakes s"
    "b_dev (bufs t bh) = word_of_int dev" "b_blocknr (bufs t bh) = word_of_int block"
    "b_lock (bufs t bh) = b_lock (bufs s bh)"
proof -
  note rc = remove_chains [OF r wf bh]
  note rf = remove_fields [OF r rc(2,3)]
  obtain w where w: "insert_at_free_end bh ?v = Some w" and t: "t = insert_into_hash bh w"
    using i by (auto simp: insert_into_queues_def bind_Some_iff)
  note e = insert_at_free_end_same [OF w]
  have vc: "\<forall>h<NR_HASH. chain_ok (bufs ?v) (hash_table ?v) ({..<nr_buffers ?v} - {bh}) h"
  proof (intro allI impI)
    fix h :: nat assume "h < NR_HASH"
    then obtain ps where ps: "dpath (bufs u) None (hash_table u h) ps" "distinct ps"
        "set ps = {i \<in> {..<nr_buffers s} - {bh}. b_dev (bufs u i) \<noteq> 0 \<and> bh_hash (bufs u i) = h}"
      using rc(1) by (auto simp: chain_ok_def)
    have "dpath (bufs ?v) None (hash_table u h) ps = dpath (bufs u) None (hash_table u h) ps"
      by (rule dpath_cong) simp
    then show "chain_ok (bufs ?v) (hash_table ?v) ({..<nr_buffers ?v} - {bh}) h"
      unfolding chain_ok_def using ps by (intro exI [of _ ps]) (auto simp: rf(7))
  qed
  have bv: "bh < nr_buffers ?v" using bh by (simp add: rf)
  show n: "nr_buffers t = nr_buffers s" "wakes t = wakes s" by (simp_all add: t insert_into_hash_fields e rf)
  show "b_dev (bufs t bh) = word_of_int dev" "b_blocknr (bufs t bh) = word_of_int block"
      "b_lock (bufs t bh) = b_lock (bufs s bh)"
    by (simp_all add: t insert_into_hash_fields e rf)
  have ids: "b_dev (bufs t i) = (if i = bh then word_of_int dev else b_dev (bufs s i))"
      "b_blocknr (bufs t i) = (if i = bh then word_of_int block else b_blocknr (bufs s i))" for i
    by (simp_all add: t insert_into_hash_fields e rf)
  have uniq: "i = j" if ij: "i < nr_buffers s" "j < nr_buffers s" "b_dev (bufs t i) \<noteq> 0"
      "b_dev (bufs t j) = b_dev (bufs t i)" "b_blocknr (bufs t j) = b_blocknr (bufs t i)" for i j
  proof (rule ccontr)
    assume ne: "i \<noteq> j"
    have "0 < dev" if "word_of_int dev \<noteq> (0 :: u16)" using that dev(1) by (cases "dev = 0") auto
    then have "\<not> (b_dev (bufs s k) = word_of_int dev \<and> b_blocknr (bufs s k) = word_of_int block)"
      if "word_of_int dev \<noteq> (0 :: u16)" "k < nr_buffers s" for k
      using find_buffer_None [OF wf f _ dev(2)] that by blast
    then have "i \<noteq> bh" "j \<noteq> bh" using ij ne by (auto simp: ids split: if_splits)
    then show False using ij ne wf by (simp add: view_wf_iff ids)
  qed
  have zero: "b_prev (bufs t i) = None \<and> b_next (bufs t i) = None" if z: "i < nr_buffers s" "b_dev (bufs t i) = 0" for i
  proof -
    have head: "hash_table w (bh_hash (bufs w bh)) = Some k \<Longrightarrow> k \<noteq> bh \<and> b_dev (bufs ?v k) \<noteq> 0" for k
      using chain_head [OF vc, of "bufs ?v bh" k] by (auto simp: e split: if_splits)
    have prev: "b_prev (bufs t i) = (if i = bh then None
      else if b_dev (bufs w bh) \<noteq> 0 \<and> hash_table w (bh_hash (bufs w bh)) = Some i then Some bh else b_prev (bufs w i))"
      unfolding t by (rule insert_into_hash_prev) (use head in blast)
    show ?thesis
    proof (cases "i = bh")
      case True
      then show ?thesis using z prev by (simp add: t insert_into_hash_fields)
    next
      case False
      then have dz: "b_dev (bufs s i) = 0" using z ids by simp
      then have "hash_table w (bh_hash (bufs w bh)) \<noteq> Some i" using head [of i] False by (auto simp: rf)
      then have "b_prev (bufs t i) = b_prev (bufs u i)" "b_next (bufs t i) = b_next (bufs u i)"
        using prev False by (simp_all add: t insert_into_hash_fields e)
      then show ?thesis using rc(4) z(1) False dz by simp
    qed
  qed
  have "ring_ok (bufs w) (free_list w) (nr_buffers s)"
  proof (rule replace_ring [OF _ bh r _ _ _ w])
    show "ring_ok (bufs s) (free_list s) (nr_buffers s)" using wf by (simp add: view_wf_iff)
  qed (simp_all add: fun_eq_iff)
  then have "ring_ok (bufs t) (free_list t) (nr_buffers s)"
    by (simp add: t ring_ok_def insert_into_hash_fields)
  then show "cache_wf (view t)"
    unfolding view_wf_iff n(1) using insert_into_queues_chains [OF i bv vc, unfolded n(1)] uniq zero by blast
qed

section \<open>Getting a block\<close>

lemma pick_free_below:
  assumes "pick_free tmp bh s = Some r" "ring_ok (bufs s) (free_list s) n" "tmp < n" "below n bh"
  shows "below n r"
  using assms
proof (induction rule: pick_free.raw_induct [rotated 1, consumes 1, case_names step])
  case (step f tmp bh s r)
  define better where "better \<longleftrightarrow> b_count (bufs s tmp) = 0 \<and>
      (case bh of None \<Rightarrow> True | Some b \<Rightarrow> BADNESS (bufs s tmp) < BADNESS (bufs s b))"
  define best where "best = (if better then Some tmp else bh)"
  have best: "below n best" using step(4,5) by (simp add: best_def below_def)
  note eq = step(2) [unfolded Let_def, folded better_def, folded best_def]
  show ?case
  proof (cases "r = best")
    case False
    then obtain nxt where nxt: "b_next_free (bufs s tmp) = Some nxt" "f nxt best s = Some r"
      using eq by (auto simp: halts split: if_splits option.splits)
    have "nxt < n" using ring_links(2) [OF step(3,4)] nxt(1) by simp
    then show ?thesis using step(1) [OF nxt(2) step(3)] best by blast
  qed (use best in simp)
qed

definition holds :: "int \<Rightarrow> int \<Rightarrow> kernel \<Rightarrow> nat \<Rightarrow> bool" where
  "holds dev block s i \<longleftrightarrow> b_dev (bufs s i) = word_of_int dev \<and> b_blocknr (bufs s i) = word_of_int block"

lemma find_chain_in:
  assumes "dpath (bufs s) prev p ps" "find_chain p dev block s = Some (Some i)"
  shows "i \<in> set ps \<and> holds dev block s i"
  using assms
proof (induction ps arbitrary: prev p)
  case Nil
  then show ?case by (subst (asm) find_chain.simps) simp
next
  case (Cons a ps)
  then show ?case by (auto simp: find_chain_Some holds_def split: if_splits)
qed

lemma get_hash_table_below:
  assumes "get_hash_table dev block s = Some r" "cache_inv n s"
  shows "cache_inv n (snd r) \<and> below n (fst r)"
  using assms
proof (induction rule: get_hash_table.raw_induct [rotated 1, consumes 1, case_names step])
  case (step f dev block s r)
  obtain found where fb: "find_buffer dev block s = Some found" using step(2) by (auto split: option.splits)
  show ?case
  proof (cases found)
    case None
    then show ?thesis using step(2,3) fb by (simp add: below_def) auto
  next
    case (Some bh)
    let ?s = "upd_buf bh (\<lambda>b. b\<lparr>b_count := b_count b + 1\<rparr>) s"
    obtain u where u: "wait_on_buffer bh ?s = Some u"
        "(if uint (b_dev (bufs u bh)) = dev \<and> b_blocknr (bufs u bh) = word_of_int block then Some (Some bh, u)
          else f dev block (upd_buf bh (\<lambda>b. b\<lparr>b_count := b_count b - 1\<rparr>) u)) = Some r"
      using step(2) fb Some by (auto split: option.splits)
    have "cache_inv n ?s" by (rule cache_same [OF _ _ step(3)]) simp_all
    then have iu: "cache_inv n u" using wait_on_buffer_inv [OF u(1)] by blast
    then have "cache_inv n (upd_buf bh (\<lambda>b. b\<lparr>b_count := b_count b - 1\<rparr>) u)" by (auto intro: cache_same)
    note again = step(1) [OF _ this]
    have "hashfn (word_of_int dev) (word_of_int block) < NR_HASH" by (simp add: hashfn_def)
    then obtain ps where "dpath (bufs s) None (hash_table s (hashfn (word_of_int dev) (word_of_int block))) ps"
        "set ps = {i \<in> {..<n}. b_dev (bufs s i) \<noteq> 0 \<and> bh_hash (bufs s i) = hashfn (word_of_int dev) (word_of_int block)}"
      using cache_invD [OF step(3)] unfolding view_wf_iff chain_ok_def by blast
    then have "bh < n" using find_chain_in fb Some unfolding find_buffer_def by blast
    then show ?thesis using u(2) iu again by (auto simp: below_def split: if_splits)
  qed
qed

text \<open>The end of \<open>getblk\<close>: a clean, unused buffer becomes the buffer of the block.\<close>

lemma take_buffer_inv:
  assumes dev: "0 \<le> dev" "dev < 65536" and inv: "cache_inv n s" and bh: "bh < n" "\<not> b_lock (bufs s bh)"
    and fb: "find_buffer dev block s = Some None"
    and u: "remove_from_queues bh (upd_buf bh (\<lambda>b. b\<lparr>b_count := 1, b_dirt := False, b_uptodate := False\<rparr>) s) = Some u"
    and t: "insert_into_queues bh (upd_buf bh (\<lambda>b. b\<lparr>b_dev := word_of_int dev, b_blocknr := word_of_int block\<rparr>) u) = Some t"
  shows "cache_inv n t \<and> b_dev (bufs t bh) = word_of_int dev \<and> b_blocknr (bufs t bh) = word_of_int block \<and> \<not> b_lock (bufs t bh)"
proof -
  let ?s = "upd_buf bh (\<lambda>b. b\<lparr>b_count := 1, b_dirt := False, b_uptodate := False\<rparr>) s"
  have fs: "find_buffer dev block ?s = Some None"
    using fb unfolding find_buffer_def by (auto intro!: find_chain_cong [of ?s s])
  have si: "cache_inv n ?s" by (rule cache_same [OF _ _ inv]) simp_all
  note rw = replace_wf [OF _ _ dev fs u t]
  have wf: "cache_wf (view ?s)" "bh < nr_buffers ?s" using cache_invD [OF si] bh(1) by auto
  have "cache_inv n t"
    using rw(1-3) [OF wf] si by (simp add: cache_inv_def cache_ok_def)
  then show ?thesis using rw(4-6) [OF wf] bh by simp
qed

lemma getblk_from_inv:
  assumes "getblk_from pc dev block s = Some r" "0 \<le> dev" "dev < 65536" "cache_inv n s"
    and "\<And>bh. pc = While_dirty bh \<Longrightarrow> bh < n \<and> \<not> b_lock (bufs s bh)"
  shows "cache_inv n (snd r) \<and> fst r < n \<and> b_dev (bufs (snd r) (fst r)) = word_of_int dev \<and>
    b_blocknr (bufs (snd r) (fst r)) = word_of_int block \<and> \<not> b_lock (bufs (snd r) (fst r))"
  using assms
proof (induction rule: getblk_from.raw_induct [rotated 1, consumes 1, case_names step])
  case (step f pc dev block s r)
  note IH = step(1) [OF _ step(3,4)]
  have again: ?case if "(if c then f Repeat dev block v else f (While_dirty bh) dev block v) = Some r"
      "cache_inv n v" "\<not> b_lock (bufs v bh)" "bh < n" for c v bh
  proof (cases c)
    case True
    then have "f Repeat dev block v = Some r" using that by simp
    from IH [OF this that(2)] show ?thesis by simp
  next
    case False
    then have "f (While_dirty bh) dev block v = Some r" using that by simp
    from IH [OF this that(2)] that(3,4) show ?thesis by simp
  qed
  show ?case
  proof (cases pc)
    case Repeat
    then obtain found u where u: "get_hash_table dev block s = Some (found, u)"
      using step(2) by (auto split: option.splits)
    note iu = get_hash_table_below [OF u step(5), unfolded fst_conv snd_conv]
    show ?thesis
    proof (cases found)
      case (Some bh)
      then have "r = (bh, u)" using step(2) Repeat u by simp
      then show ?thesis using cache.get_hash_table_kept [OF _ u] Some iu by (auto simp: below_def)
    next
      case None
      then obtain fl bo where fl: "free_list u = Some fl" "pick_free fl None u = Some bo"
        using step(2) Repeat u by (auto simp: halts split: option.splits)
      have lk: "ring_ok (bufs u) (free_list u) n" using cache_invD iu by (auto simp: view_wf_iff)
      then have "fl < n" using ring_links(1) [OF lk] fl(1) by simp
      then have bo: "below n bo" using pick_free_below [OF fl(2) lk] by (simp add: below_def)
      show ?thesis
      proof (cases bo)
        case None
        then obtain v where v: "sleep_on Wbuffer u = Some v" "f Repeat dev block v = Some r"
          using step(2) Repeat u \<open>found = None\<close> fl by (auto split: option.splits)
        have "cache_inv n v" using cache_kept [OF cache.sleep_on_kept [OF v(1)]] iu by blast
        then show ?thesis using IH [OF v(2)] by simp
      next
        case (Some bh)
        then obtain v where v: "wait_on_buffer bh u = Some v"
            "(if b_count (bufs v bh) \<noteq> 0 then f Repeat dev block v else f (While_dirty bh) dev block v) = Some r"
          using step(2) Repeat u \<open>found = None\<close> fl by (auto split: option.splits)
        have iv: "cache_inv n v" "\<not> b_lock (bufs v bh)"
          using wait_on_buffer_inv [OF v(1)] cache.wait_on_buffer_kept [OF v(1)] iu by blast+
        have "bh < n" using bo Some by (simp add: below_def)
        then show ?thesis using again [OF v(2)] iv by blast
      qed
    qed
  next
    case (While_dirty bh)
    have bh: "bh < n" "\<not> b_lock (bufs s bh)" using step(6) While_dirty by auto
    show ?thesis
    proof (cases "b_dirt (bufs s bh)")
      case True
      then obtain k u v where u: "sync_dev_with (\<lambda>d b s. f Repeat d b s) (uint (b_dev (bufs s bh))) s = Some (k, u)"
          and v: "wait_on_buffer bh u = Some v"
            "(if b_count (bufs v bh) \<noteq> 0 then f Repeat dev block v else f (While_dirty bh) dev block v) = Some r"
        using step(2) While_dirty by (auto simp: bind_Some_iff)
      have "getter_ok n (\<lambda>d b s. f Repeat d b s)"
        unfolding getter_ok_def using step(1) [of Repeat] by (metis getblk_point.distinct(1) snd_conv)
      then have "cache_inv n u" using sync_dev_with_inv [OF _ step(5) u] by blast
      then have iv: "cache_inv n v" "\<not> b_lock (bufs v bh)"
        using wait_on_buffer_inv [OF v(1)] cache.wait_on_buffer_kept [OF v(1)] by blast+
      then show ?thesis using again [OF v(2)] bh(1) by blast
    next
      case False
      obtain found where fb: "find_buffer dev block s = Some found"
        using step(2) While_dirty False by (auto split: option.splits)
      show ?thesis
      proof (cases found)
        case (Some b)
        then have "f Repeat dev block s = Some r" using step(2) While_dirty False fb by simp
        from IH [OF this step(5)] show ?thesis by simp
      next
        case None
        let ?s = "upd_buf bh (\<lambda>b. b\<lparr>b_count := 1, b_dirt := False, b_uptodate := False\<rparr>) s"
        obtain u t where u: "remove_from_queues bh ?s = Some u"
          and t: "insert_into_queues bh (upd_buf bh (\<lambda>b. b\<lparr>b_dev := word_of_int dev, b_blocknr := word_of_int block\<rparr>) u) = Some t"
          and r: "r = (bh, t)"
          using step(2) While_dirty False fb None by (auto simp: bind_Some_iff Let_def)
        show ?thesis using take_buffer_inv [OF step(3,4,5) bh fb [unfolded None] u t] r bh(1) by simp
      qed
    qed
  qed
qed

section \<open>Getting a block without a wait\<close>

lemma find_chain_find:
  "dpath (bufs s) prev p ps \<Longrightarrow>
   find_chain p dev block s = Some (find (\<lambda>i. uint (b_dev (bufs s i)) = dev \<and> b_blocknr (bufs s i) = word_of_int block) ps)"
proof (induction ps arbitrary: prev p)
  case Nil
  then show ?case by (subst find_chain.simps) simp
next
  case (Cons a ps)
  then show ?case by (auto simp: find_chain_Some)
qed

lemma find_in: "find P xs = Some x \<Longrightarrow> x \<in> set xs \<and> P x"
  by (induction xs) (auto split: if_splits)

lemma uint_dev: "0 < dev \<Longrightarrow> dev < 65536 \<Longrightarrow> uint (b_dev b) = dev \<longleftrightarrow> b_dev b = word_of_int dev"
  by (auto simp: uint_word_of_int)

lemma find_buffer_iff:
  assumes inv: "cache_inv n s" and dev: "0 < dev" "dev < 65536"
  shows "\<exists>r. find_buffer dev block s = Some r \<and> (\<forall>i. r = Some i \<longleftrightarrow> i < n \<and> holds dev block s i)"
proof -
  let ?h = "hashfn (word_of_int dev) (word_of_int block)"
  have wf: "cache_wf (view s)" "nr_buffers s = n" using cache_invD [OF inv] by auto
  have "?h < NR_HASH" by (simp add: hashfn_def)
  then obtain ps where ps: "dpath (bufs s) None (hash_table s ?h) ps"
      "set ps = {i \<in> {..<n}. b_dev (bufs s i) \<noteq> 0 \<and> bh_hash (bufs s i) = ?h}"
    using wf by (auto simp: view_wf_iff chain_ok_def)
  have du: "uint (word_of_int dev :: u16) = dev" using dev by (simp add: uint_word_of_int)
  have inp: "i \<in> set ps" if "i < n" "holds dev block s i" for i
  proof -
    have "ucast (word_of_int dev :: u16) = (word_of_int dev :: u32)" using du by (simp add: ucast_eq)
    then have "bh_hash (bufs s i) = ?h" using that(2) by (simp add: holds_def bh_hash_def)
    moreover have "b_dev (bufs s i) \<noteq> 0" using that(2) du dev(1) by (auto simp: holds_def)
    ultimately show ?thesis unfolding ps(2) using that(1) by simp
  qed
  have same: "(uint (b_dev (bufs s i)) = dev \<and> b_blocknr (bufs s i) = word_of_int block) = holds dev block s i" for i
    by (simp add: holds_def uint_dev [OF dev])
  have run: "find_buffer dev block s = Some (find (holds dev block s) ps)"
    unfolding find_buffer_def find_chain_find [OF ps(1)] same ..
  have uniq: "i = j" if "i < n" "j < n" "holds dev block s i" "holds dev block s j" for i j
  proof -
    have "word_of_int dev \<noteq> (0 :: u16)" using du dev(1) by auto
    then show ?thesis using wf that by (simp add: view_wf_iff holds_def)
  qed
  have "find (holds dev block s) ps = Some i \<longleftrightarrow> i < n \<and> holds dev block s i" for i
  proof
    assume "find (holds dev block s) ps = Some i"
    from find_in [OF this] show "i < n \<and> holds dev block s i" unfolding ps(2) by simp
  next
    assume i: "i < n \<and> holds dev block s i"
    then obtain j where j: "find (holds dev block s) ps = Some j"
      using inp by (cases "find (holds dev block s) ps") (auto simp: find_None_iff)
    from find_in [OF j] have "j < n" "holds dev block s j" unfolding ps(2) by simp_all
    then have "j = i" using uniq [of j i] i by blast
    then show "find (holds dev block s) ps = Some i" using j by simp
  qed
  then show ?thesis using run by blast
qed

lemma getblk_hit:
  assumes inv: "cache_inv n s" and dev: "0 < dev" "dev < 65536" and i: "i < n" "holds dev block s i" "\<not> b_lock (bufs s i)"
  shows "getblk dev block s = Some (i, upd_buf i (\<lambda>b. b\<lparr>b_count := b_count b + 1\<rparr>) s)" (is "_ = Some (i, ?t)")
proof -
  obtain r where r: "find_buffer dev block s = Some r" "\<forall>i. r = Some i \<longleftrightarrow> i < n \<and> holds dev block s i"
    using find_buffer_iff [OF inv dev] by blast
  have "find_buffer dev block s = Some (Some i)" using r(1) r(2) [rule_format, of i] i(1,2) by simp
  moreover have "wait_on_buffer i ?t = Some ?t" using i(3) by (subst wait_on_buffer.simps) simp
  moreover have "uint (b_dev (bufs ?t i)) = dev \<and> b_blocknr (bufs ?t i) = word_of_int block"
    using i(2) unfolding uint_dev [OF dev] by (simp add: holds_def)
  ultimately have "get_hash_table dev block s = Some (Some i, ?t)" by (subst get_hash_table.simps) simp
  then show ?thesis unfolding getblk_def by (subst getblk_from.simps) simp
qed

text \<open>A buffer that can be taken at once.\<close>

definition idle :: "kernel \<Rightarrow> nat \<Rightarrow> bool" where
  "idle s i \<longleftrightarrow> b_count (bufs s i) = 0 \<and> \<not> b_dirt (bufs s i) \<and> \<not> b_lock (bufs s i)"

lemma pick_free_idle:
  assumes "stretch (next_free s) (prev_free s) (a # r)" "free_list s \<notin> Some ` set r"
    "\<forall>b. best = Some b \<longrightarrow> BADNESS (bufs s b) \<noteq> 0" "\<exists>i\<in>set (a # r). idle s i"
  shows "\<exists>g\<in>set (a # r). pick_free a best s = Some (Some g) \<and> idle s g"
  using assms
proof (induction r arbitrary: a best)
  case Nil
  then have a: "idle s a" by simp
  then have "pick_free a best s = Some (Some a)"
    using Nil.prems(3) by (subst pick_free.simps) (auto simp: idle_def BADNESS_def Let_def split: option.splits)
  then show ?case using a by simp
next
  case (Cons b r)
  show ?case
  proof (cases "idle s a")
    case True
    then have "pick_free a best s = Some (Some a)"
      using Cons.prems(3) by (subst pick_free.simps) (auto simp: idle_def BADNESS_def Let_def split: option.splits)
    then show ?thesis using True by simp
  next
    case False
    define better where "better \<longleftrightarrow> b_count (bufs s a) = 0 \<and>
      (case best of None \<Rightarrow> True | Some c \<Rightarrow> BADNESS (bufs s a) < BADNESS (bufs s c))"
    have nb: "\<not> (better \<and> BADNESS (bufs s a) = 0)" using False by (auto simp: better_def idle_def BADNESS_def split: if_splits)
    have nx: "b_next_free (bufs s a) = Some b" "free_list s \<noteq> Some b" using Cons.prems(1,2) by auto
    have "pick_free a best s = pick_free b (if better then Some a else best) s"
      using nb nx by (subst pick_free.simps) (auto simp: better_def [symmetric] Let_def)
    moreover have "\<exists>g\<in>set (b # r). pick_free b (if better then Some a else best) s = Some (Some g) \<and> idle s g"
      by (rule Cons.IH) (use Cons.prems False nb in auto)
    ultimately show ?thesis by auto
  qed
qed

lemma queues_run:
  assumes "ring_ok (bufs s) (free_list s) n" "bh < n"
  obtains u t where "remove_from_queues bh s = Some u"
    "insert_into_queues bh (upd_buf bh (\<lambda>b. b\<lparr>b_dev := d, b_blocknr := k\<rparr>) u) = Some t"
proof -
  obtain p q where pq: "b_prev_free (bufs s bh) = Some p" "b_next_free (bufs s bh) = Some q" "p < n" "q < n"
    using ring_links(2,3) [OF assms(1,2)] by blast
  then obtain u where u: "remove_from_queues bh s = Some u"
    unfolding remove_from_queues_def remove_from_free_def remove_from_hash_free by (simp add: Let_def)
  obtain p' q' where l: "prev_free s bh = Some p'" "next_free s bh = Some q'" "prev_free u = (prev_free s)(q' := Some p')"
    "free_list u = (if free_list s = Some bh then Some q' else free_list s)"
    using remove_free_links [OF u] by metis
  obtain f where f: "free_list u = Some f" "f < n" using ring_links(1) [OF assms(1)] l pq by (auto split: if_splits)
  have "\<exists>z. b_prev_free (bufs u f) = Some z" using fun_cong [OF l(3), of f] ring_links(3) [OF assms(1) f(2)] by (auto split: if_splits)
  then obtain z where z: "b_prev_free (bufs u f) = Some z" by blast
  let ?v = "upd_buf bh (\<lambda>b. b\<lparr>b_dev := d, b_blocknr := k\<rparr>) u"
  have "\<exists>w. insert_at_free_end bh ?v = Some w"
    using f(1) z by (cases "f = bh") (auto simp: insert_at_free_end_def Let_def)
  then show ?thesis using that [OF u] by (auto simp: insert_into_queues_def)
qed

lemma getblk_miss:
  assumes inv: "cache_inv n s" and dev: "0 < dev" "dev < 65536"
    and miss: "\<forall>i<n. \<not> holds dev block s i" and some: "\<exists>i<n. idle s i"
  shows "\<exists>bh t. getblk dev block s = Some (bh, t) \<and> bh < n \<and> idle s bh \<and>
    contents (bufs t bh) = (contents (bufs s bh))\<lparr>b_dev := word_of_int dev, b_blocknr := word_of_int block,
      b_count := 1, b_uptodate := False\<rparr> \<and>
    (\<forall>i. i \<noteq> bh \<longrightarrow> contents (bufs t i) = contents (bufs s i))"
proof -
  obtain r where r: "find_buffer dev block s = Some r" "\<forall>i. r = Some i \<longleftrightarrow> i < n \<and> holds dev block s i"
    using find_buffer_iff [OF inv dev] by blast
  then have fb: "find_buffer dev block s = Some None" using miss by (cases r) auto
  have gh: "get_hash_table dev block s = Some (None, s)" by (subst get_hash_table.simps) (simp add: fb)
  have ok: "ring_ok (bufs s) (free_list s) n" using cache_invD [OF inv] by (auto simp: view_wf_iff)
  then obtain ps where ps: "ps \<noteq> []" "free_list s = Some (hd ps)" "stretch (next_free s) (prev_free s) ps" "distinct ps" "set ps = {..<n}"
    by (auto simp: ring_ok_def ring_def)
  obtain f qs where f: "ps = f # qs" using ps(1) by (cases ps) auto
  have "\<exists>g\<in>set (f # qs). pick_free f None s = Some (Some g) \<and> idle s g"
  proof (rule pick_free_idle)
    show "free_list s \<notin> Some ` set qs" using ps(2,4) f by auto
    show "\<exists>i\<in>set (f # qs). idle s i" unfolding f [symmetric] ps(5) using some by (simp add: Bex_def)
  qed (use ps(3) f in simp_all)
  then obtain bh where bh: "bh < n" "pick_free f None s = Some (Some bh)" "idle s bh" using ps(5) f by auto
  let ?s = "upd_buf bh (\<lambda>b. b\<lparr>b_count := 1, b_dirt := False, b_uptodate := False\<rparr>) s"
  have "ring_ok (bufs ?s) (free_list ?s) n"
  proof -
    have "next_free ?s = next_free s" "prev_free ?s = prev_free s" by (simp_all add: fun_eq_iff)
    then show ?thesis using ok by (simp add: ring_ok_def)
  qed
  from queues_run [OF this bh(1)] obtain u t where u: "remove_from_queues bh ?s = Some u"
    and t: "insert_into_queues bh (upd_buf bh (\<lambda>b. b\<lparr>b_dev := word_of_int dev, b_blocknr := word_of_int block\<rparr>) u) = Some t"
    by blast
  have "getblk_from (While_dirty bh) dev block s = Some (bh, t)"
    using bh(3) fb u t by (subst getblk_from.simps) (simp add: idle_def Let_def)
  moreover have "wait_on_buffer bh s = Some s" using bh(3) by (subst wait_on_buffer.simps) (simp add: idle_def)
  ultimately have run: "getblk dev block s = Some (bh, t)"
    unfolding getblk_def using gh ps(2) f bh(2,3) by (subst getblk_from.simps) (simp add: idle_def)
  have "contents (bufs t bh) = (contents (bufs ?s bh))\<lparr>b_dev := word_of_int dev, b_blocknr := word_of_int block\<rparr>"
    using insert_contents [OF t, of bh] remove_contents [OF u, of bh] by simp
  moreover have "contents (bufs ?s bh) = (contents (bufs s bh))\<lparr>b_count := 1, b_uptodate := False\<rparr>"
    using bh(3) by (simp add: contents_def idle_def)
  moreover have "\<forall>i. i \<noteq> bh \<longrightarrow> contents (bufs t i) = contents (bufs s i)"
    using insert_contents [OF t] remove_contents [OF u] by simp
  ultimately show ?thesis using run bh(1,3) by auto
qed

text \<open>
  C1: \<open>getblk\<close> returns the one buffer of the block asked for. Whatever the other processes do while it
  sleeps, as long as they keep the cache well formed, the buffer it returns carries the device and
  the block number asked for, is not locked, no other buffer of the cache holds that block, and the
  cache is well formed: every hash chain links exactly the buffers that belong to it, and the free list
  is a ring of all buffers. It always returns when it need not wait: a buffer that holds the block and is not
  locked is returned with one more user and nothing else changed; and if no buffer holds the block, one
  that is unused, clean and not locked is taken for it, with one user and its data marked as not valid,
  and of the other buffers at most the links change.
\<close>

theorem getblk_unique:
  assumes "cache_inv n s" "0 < dev" "dev < 65536"
  shows "(\<forall>bh t. getblk dev block s = Some (bh, t) \<longrightarrow>
      cache_inv n t \<and> bh < n \<and> holds dev block t bh \<and> \<not> b_lock (bufs t bh) \<and> (\<forall>i<n. holds dev block t i \<longrightarrow> i = bh)) \<and>
    (\<forall>i<n. holds dev block s i \<and> \<not> b_lock (bufs s i) \<longrightarrow>
      getblk dev block s = Some (i, upd_buf i (\<lambda>b. b\<lparr>b_count := b_count b + 1\<rparr>) s)) \<and>
    ((\<forall>i<n. \<not> holds dev block s i) \<and> (\<exists>i<n. idle s i) \<longrightarrow>
      (\<exists>bh t. getblk dev block s = Some (bh, t) \<and> bh < n \<and> idle s bh \<and>
        contents (bufs t bh) = (contents (bufs s bh))\<lparr>b_dev := word_of_int dev, b_blocknr := word_of_int block,
          b_count := 1, b_uptodate := False\<rparr> \<and>
        (\<forall>i. i \<noteq> bh \<longrightarrow> contents (bufs t i) = contents (bufs s i))))"
proof (intro conjI allI impI)
  fix bh t assume run: "getblk dev block s = Some (bh, t)"
  have r: "cache_inv n t \<and> bh < n \<and> b_dev (bufs t bh) = word_of_int dev \<and> b_blocknr (bufs t bh) = word_of_int block \<and>
      \<not> b_lock (bufs t bh)"
    using getblk_from_inv [OF run [unfolded getblk_def] _ assms(3,1)] assms(2) by simp
  then show "cache_inv n t" "bh < n" "holds dev block t bh" "\<not> b_lock (bufs t bh)" by (simp_all add: holds_def)
  have "uint (word_of_int dev :: u16) = dev" using assms(2,3) by (simp add: uint_word_of_int)
  then have "word_of_int dev \<noteq> (0 :: u16)" using assms(2) by auto
  then show "i = bh" if "i < n" "holds dev block t i" for i
    using r that cache_invD [of n t] by (auto simp: view_wf_iff holds_def)
qed (use getblk_hit [OF assms] getblk_miss [OF assms] in blast)+

text \<open>A cache of one unused buffer.\<close>

definition one_buffer :: kernel where
  "one_buffer = boot_kernel\<lparr>nr_buffers := 1, free_list := Some 0,
     bufs := (\<lambda>_. zero_buf\<lparr>b_prev_free := Some 0, b_next_free := Some 0\<rparr>)\<rparr>"

lemma one_buffer_fields:
  "nr_buffers one_buffer = 1" "free_list one_buffer = Some 0" "hash_table one_buffer = (\<lambda>_. None)"
  "bufs one_buffer = (\<lambda>_. zero_buf\<lparr>b_prev_free := Some 0, b_next_free := Some 0\<rparr>)" "wakes one_buffer = []"
  by (simp_all add: one_buffer_def)

theorem getblk_unique_witness:
  "\<exists>t. getblk 0x101 5 one_buffer = Some (0, t) \<and> b_count (bufs t 0) = 1 \<and> b_dev (bufs t 0) = 0x101 \<and> cache_inv 1 t"
proof -
  note f = one_buffer_fields zero_buf_def
  have "ring_ok (bufs one_buffer) (free_list one_buffer) 1"
    unfolding ring_ok_def by (intro exI [of _ "[0]"]) (auto simp: f ring_def)
  then have inv: "cache_inv 1 one_buffer"
    by (auto simp: cache_inv_def cache_ok_def view_wf_iff f chain_ok_def)
  have d: "(0 :: int) < 257" "(257 :: int) < 65536" by simp_all
  have free: "\<forall>i<1. \<not> holds 257 5 one_buffer i" "\<exists>i<1. idle one_buffer i" by (simp_all add: holds_def idle_def f)
  note all = getblk_unique [OF inv d, of 5]
  obtain bh t where t: "getblk 257 5 one_buffer = Some (bh, t)" "bh < 1"
      "contents (bufs t bh) = (contents (bufs one_buffer bh))\<lparr>b_dev := word_of_int 257, b_blocknr := word_of_int 5,
        b_count := 1, b_uptodate := False\<rparr>"
    using all [THEN conjunct2, THEN conjunct2, THEN mp, OF conjI [OF free]] by (elim exE conjE) (rule that, assumption+)
  have "cache_inv 1 t" "holds 257 5 t bh"
    using all [THEN conjunct1, THEN spec, THEN spec, THEN mp, OF t(1)] by blast+
  moreover have "b_count (bufs t bh) = 1" using arg_cong [OF t(3), of b_count] by (simp add: contents_def)
  moreover have "bh = 0" using t(2) by simp
  ultimately show ?thesis using t(1) by (auto simp: holds_def)
qed

end
