(* ===== verification/Memory.thy ===== *)
theory Memory
  imports Kernel_State
begin

text \<open>
  mm/memory.c: the page allocator over \<open>mem_map\<close>, the page tables reached from the page directory
  at physical address 0, copy-on-write and page sharing, and \<open>verify_area\<close> of kernel/fork.c. The
  TLB flush \<open>invalidate\<close> and the warnings printed by \<open>put_page\<close> have no effect on the model's state.
  The demand-loading fault handler \<open>do_no_page\<close> needs the file system and is in the theory
  \<open>Demand_Load\<close>.
\<close>

section \<open>Definitions\<close>

abbreviation "LOW_MEM \<equiv> (0x100000 :: u32)"
abbreviation "PAGING_PAGES \<equiv> (3840 :: nat)"
abbreviation "USED \<equiv> (100 :: u8)"

definition MAP_NR :: "u32 \<Rightarrow> nat" where
  "MAP_NR addr = unat (drop_bit 12 (addr - LOW_MEM))"

definition frame_of :: "u32 \<Rightarrow> u32" where
  "frame_of e = e AND 0xfffff000"

definition present :: "u32 \<Rightarrow> bool" where
  "present e \<longleftrightarrow> e AND 1 \<noteq> 0"

definition set_long :: "u32 \<Rightarrow> u32 \<Rightarrow> kernel \<Rightarrow> kernel" where
  "set_long a v s = s\<lparr>hw32 := (hw32 s)(a := v)\<rparr>"

text \<open>\<open>oom\<close> ends the process: \<open>do_exit\<close> does not return.\<close>

definition oom :: "'a option" where
  [halts]: "oom = None"

text \<open>\<open>repne scasb\<close> downwards over the first \<open>n\<close> bytes, looking for a zero.\<close>

fun scasb_down :: "(nat \<Rightarrow> u8) \<Rightarrow> nat \<Rightarrow> nat option" where
  "scasb_down m 0 = None"
| "scasb_down m (Suc n) = (if m n = 0 then Some n else scasb_down m n)"

definition clear_page :: "u32 \<Rightarrow> kernel \<Rightarrow> kernel" where
  "clear_page p s = s\<lparr>hw32 := (\<lambda>a. if frame_of a = p then 0 else hw32 s a),
                     hw8 := (\<lambda>a. if frame_of a = p then 0 else hw8 s a)\<rparr>"

text \<open>The address \<open>get_free_page\<close> computes for the byte it found in \<open>mem_map\<close>.\<close>

definition page_addr :: "nat \<Rightarrow> u32" where
  "page_addr i = push_bit 12 (of_nat i) + LOW_MEM"

definition get_free_page :: "kernel \<Rightarrow> u32 \<times> kernel" where
  "get_free_page s =
     (case scasb_down (mem_map s) PAGING_PAGES of
        None \<Rightarrow> (0, s)
      | Some i \<Rightarrow>
          let p = page_addr i
          in (p, clear_page p (s\<lparr>mem_map := (mem_map s)(i := 1)\<rparr>)))"

definition free_page :: "u32 \<Rightarrow> kernel \<Rightarrow> kernel option" where
  "free_page addr s =
     (if addr < LOW_MEM then Some s
      else if addr \<ge> HIGH_MEMORY s then panic ''trying to free nonexistent page''
      else
        let i = MAP_NR addr
        in if mem_map s i \<noteq> 0 then Some (s\<lparr>mem_map := (mem_map s)(i := mem_map s i - 1)\<rparr>)
           else panic ''trying to free free page'')"

definition free_pt_entry :: "u32 \<Rightarrow> nat \<Rightarrow> kernel \<Rightarrow> kernel option" where
  "free_pt_entry pg_table nr s =
     (let a = pg_table + 4 * of_nat nr; e = hw32 s a in
      do { s \<leftarrow> (if present e then free_page (frame_of e) s else Some s);
           Some (set_long a 0 s) })"

definition free_dir_entry :: "u32 \<Rightarrow> nat \<Rightarrow> kernel \<Rightarrow> kernel option" where
  "free_dir_entry dir k s =
     (let d = dir + 4 * of_nat k; e = hw32 s d in
      if \<not> present e then Some s
      else do { s \<leftarrow> for_each [0..<1024] (free_pt_entry (frame_of e)) s;
                s \<leftarrow> free_page (frame_of (hw32 s d)) s;
                Some (set_long d 0 s) })"

definition dir_slot :: "u32 \<Rightarrow> u32" where
  "dir_slot address = drop_bit 20 address AND 0xffc"

definition free_page_tables :: "u32 \<Rightarrow> u32 \<Rightarrow> kernel \<Rightarrow> (int \<times> kernel) option" where
  "free_page_tables from sz s =
     (if from AND 0x3fffff \<noteq> 0 then panic ''free_page_tables called with wrong alignment''
      else if from = 0 then panic ''Trying to free up swapper memory space''
      else do { s \<leftarrow> for_each [0..<unat (drop_bit 22 (sz + 0x3fffff))] (free_dir_entry (dir_slot from)) s;
                Some (0, s) })"

text \<open>One page-table entry is copied write-protected, and so is the original if the page is
  counted in \<open>mem_map\<close>.\<close>

definition copy_pt_entry :: "u32 \<Rightarrow> u32 \<Rightarrow> kernel \<Rightarrow> kernel" where
  "copy_pt_entry from_page_table to_page_table s =
     (let this_page = hw32 s from_page_table in
      if \<not> present this_page then s
      else
        let this_page = this_page AND NOT 2; s = set_long to_page_table this_page s
        in if this_page > LOW_MEM
           then let s = set_long from_page_table this_page s; i = MAP_NR this_page
                in s\<lparr>mem_map := (mem_map s)(i := mem_map s i + 1)\<rparr>
           else s)"

fun copy_pt :: "nat \<Rightarrow> u32 \<Rightarrow> u32 \<Rightarrow> kernel \<Rightarrow> kernel" where
  "copy_pt 0 f t s = s"
| "copy_pt (Suc nr) f t s = copy_pt nr (f + 4) (t + 4) (copy_pt_entry f t s)"

fun copy_dirs :: "nat \<Rightarrow> bool \<Rightarrow> u32 \<Rightarrow> u32 \<Rightarrow> kernel \<Rightarrow> (int \<times> kernel) option" where
  "copy_dirs 0 from_zero from_dir to_dir s = Some (0, s)"
| "copy_dirs (Suc n) from_zero from_dir to_dir s =
     (if present (hw32 s to_dir) then panic ''copy_page_tables: already exist''
      else if \<not> present (hw32 s from_dir) then copy_dirs n from_zero (from_dir + 4) (to_dir + 4) s
      else
        let from_page_table = frame_of (hw32 s from_dir); (to_page_table, s) = get_free_page s in
        if to_page_table = 0 then Some (-1, s)
        else
          let s = set_long to_dir (to_page_table OR 7) s;
              s = copy_pt (if from_zero then 0xA0 else 1024) from_page_table to_page_table s
          in copy_dirs n from_zero (from_dir + 4) (to_dir + 4) s)"

definition copy_page_tables :: "u32 \<Rightarrow> u32 \<Rightarrow> u32 \<Rightarrow> kernel \<Rightarrow> (int \<times> kernel) option" where
  "copy_page_tables from to sz s =
     (if from AND 0x3fffff \<noteq> 0 \<or> to AND 0x3fffff \<noteq> 0
      then panic ''copy_page_tables called with wrong alignment''
      else copy_dirs (unat (drop_bit 22 (sz + 0x3fffff))) (from = 0) (dir_slot from) (dir_slot to) s)"

definition table_index :: "u32 \<Rightarrow> u32" where
  "table_index address = drop_bit 10 address AND 0xffc"

definition put_page :: "u32 \<Rightarrow> u32 \<Rightarrow> kernel \<Rightarrow> u32 \<times> kernel" where
  "put_page page address s =
     (let d = dir_slot address in
      if present (hw32 s d)
      then (page, set_long (frame_of (hw32 s d) + 4 * (drop_bit 12 address AND 0x3ff)) (page OR 7) s)
      else
        let (tmp, s) = get_free_page s in
        if tmp = 0 then (0, s)
        else
          let s = set_long d (tmp OR 7) s
          in (page, set_long (tmp + 4 * (drop_bit 12 address AND 0x3ff)) (page OR 7) s))"

definition copy_page :: "u32 \<Rightarrow> u32 \<Rightarrow> kernel \<Rightarrow> kernel" where
  "copy_page from to s =
     s\<lparr>hw32 := (\<lambda>a. if frame_of a = to then hw32 s (from + (a - to)) else hw32 s a),
       hw8 := (\<lambda>a. if frame_of a = to then hw8 s (from + (a - to)) else hw8 s a)\<rparr>"

definition un_wp_page :: "u32 \<Rightarrow> kernel \<Rightarrow> kernel option" where
  "un_wp_page table_entry s =
     (let old_page = frame_of (hw32 s table_entry) in
      if old_page \<ge> LOW_MEM \<and> mem_map s (MAP_NR old_page) = 1
      then Some (set_long table_entry (hw32 s table_entry OR 2) s)
      else
        let (new_page, s) = get_free_page s in
        if new_page = 0 then oom
        else
          let s = (if old_page \<ge> LOW_MEM
                   then s\<lparr>mem_map := (mem_map s)(MAP_NR old_page := mem_map s (MAP_NR old_page) - 1)\<rparr>
                   else s);
              s = set_long table_entry (new_page OR 7) s
          in Some (copy_page old_page new_page s))"

definition do_wp_page :: "u32 \<Rightarrow> u32 \<Rightarrow> kernel \<Rightarrow> kernel option" where
  "do_wp_page error_code address s =
     un_wp_page (table_index address + frame_of (hw32 s (dir_slot address))) s"

definition write_verify :: "u32 \<Rightarrow> kernel \<Rightarrow> kernel option" where
  "write_verify address s =
     (let page = hw32 s (dir_slot address) in
      if \<not> present page then Some s
      else
        let page = frame_of page + table_index address in
        if 3 AND hw32 s page = 1 then un_wp_page page s else Some s)"

definition get_empty_page :: "u32 \<Rightarrow> kernel \<Rightarrow> kernel option" where
  "get_empty_page address s =
     (let (tmp, s) = get_free_page s in
      if tmp = 0 then oom
      else let (r, s) = put_page tmp address s in
        if r = 0 then do { s \<leftarrow> free_page tmp s; oom } else Some s)"

text \<open>\<open>verify_area\<close> (kernel/fork.c) un-shares every page of a user buffer before it is written.\<close>

definition verify_area :: "u32 \<Rightarrow> int \<Rightarrow> kernel \<Rightarrow> kernel option" where
  "verify_area addr sz s =
     (let sz = sz + uint (addr AND 0xfff);
          start = frame_of addr + ldt_base (cur s) 2
      in for_each [0..<nat ((sz + 4095) div 4096)] (\<lambda>k. write_verify (start + 4096 * of_nat k)) s)"

definition try_to_share :: "u32 \<Rightarrow> task_struct \<Rightarrow> kernel \<Rightarrow> (int \<times> kernel) option" where
  "try_to_share address p s =
     (let from_page = dir_slot address + dir_slot (start_code p);
          to_page = dir_slot address + dir_slot (start_code (cur s));
          from = hw32 s from_page
      in if \<not> present from then Some (0, s)
         else
           let from_page = frame_of from + table_index address; phys_addr = hw32 s from_page in
           if phys_addr AND 0x41 \<noteq> 1 then Some (0, s)
           else if frame_of phys_addr \<ge> HIGH_MEMORY s \<or> frame_of phys_addr < LOW_MEM then Some (0, s)
           else do {
             (to, s) \<leftarrow> (if present (hw32 s to_page) then Some (hw32 s to_page, s)
                        else let (t, s) = get_free_page s in
                          if t \<noteq> 0 then Some (t, set_long to_page (t OR 7) s) else oom);
             let to_page = frame_of to + table_index address;
             if present (hw32 s to_page) then panic ''try_to_share: to_page already exists''
             else
               let s = set_long from_page (hw32 s from_page AND NOT 2) s;
                   s = set_long to_page (hw32 s from_page) s;
                   i = MAP_NR (frame_of phys_addr)
               in Some (1, s\<lparr>mem_map := (mem_map s)(i := mem_map s i + 1)\<rparr>) })"

text \<open>The tasks are tried from the last slot down to slot 1.\<close>

fun share_with :: "nat list \<Rightarrow> u32 \<Rightarrow> kernel \<Rightarrow> (int \<times> kernel) option" where
  "share_with [] address s = Some (0, s)"
| "share_with (i # is) address s =
     (case task s i of
        None \<Rightarrow> share_with is address s
      | Some p \<Rightarrow>
          if current s = i \<or> executable p \<noteq> executable (cur s) then share_with is address s
          else do { (r, s) \<leftarrow> try_to_share address p s;
                    if r \<noteq> 0 then Some (1, s) else share_with is address s })"

definition share_page :: "u32 \<Rightarrow> kernel \<Rightarrow> (int \<times> kernel) option" where
  "share_page address s =
     (case executable (cur s) of
        None \<Rightarrow> Some (0, s)
      | Some x \<Rightarrow>
          if i_count (inode_table s x) < 2 then Some (0, s)
          else share_with (rev [1..<NR_TASKS]) address s)"

definition mem_init :: "u32 \<Rightarrow> u32 \<Rightarrow> kernel \<Rightarrow> kernel" where
  "mem_init start_mem end_mem s =
     (let s = s\<lparr>HIGH_MEMORY := end_mem, mem_map := (\<lambda>i. if i < PAGING_PAGES then USED else mem_map s i)\<rparr>;
          i = MAP_NR start_mem;
          n = sint (signed_drop_bit 12 (end_mem - start_mem))
      in s\<lparr>mem_map := fold (\<lambda>k m. m(i + k := 0)) [0..<nat n] (mem_map s)\<rparr>)"

text \<open>The figures \<open>calc_mem\<close> prints: the free pages, and the used entries of each page table.\<close>

definition calc_mem :: "kernel \<Rightarrow> nat \<times> (nat \<times> nat) list" where
  "calc_mem s =
     (length (filter (\<lambda>i. mem_map s i = 0) [0..<PAGING_PAGES]),
      [(i, length (filter (\<lambda>j. present (hw32 s (frame_of (hw32 s (4 * of_nat i)) + 4 * of_nat j))) [0..<1024])).
         i \<leftarrow> [2..<1024], present (hw32 s (4 * of_nat i))])"

section \<open>Page frames and page numbers\<close>

lemma frame_of_mask: "frame_of e = e AND NOT (mask 12)"
proof -
  have "(0xfffff000 :: u32) = NOT (mask 12)" by (simp add: mask_eq_exp_minus_1)
  then show ?thesis by (simp add: frame_of_def)
qed

lemma frame_of_shift: "frame_of e = push_bit 12 (drop_bit 12 e)"
  by (rule bit_word_eqI) (auto simp: frame_of_mask bit_simps)

lemma frame_of_unat: "unat (frame_of e) = unat e div 4096 * 4096"
proof -
  have "unat e div 4096 * 4096 < 2 ^ 32" using unsigned_less [of e, where ?'a = nat] by simp
  then show ?thesis
    unfolding frame_of_shift by (subst unsigned_push_bit_eq) (simp add: unat_drop_bit_div take_bit_eq_mod push_bit_eq_mult)
qed

lemma frame_of_idem [simp]: "frame_of (frame_of e) = frame_of e"
  by (rule bit_word_eqI) (auto simp: frame_of_mask bit_simps)

lemma present_bit: "present e \<longleftrightarrow> bit e 0"
  by (simp add: present_def and_one_eq bit_0 odd_iff_mod_2_eq_one)

lemma present_or_7 [simp]: "present (p OR 7)"
  by (simp add: present_bit bit_simps)

lemma frame_of_or_7 [simp]: "frame_of (p OR 7) = frame_of p"
proof -
  have 7: "(7 :: u32) = mask 3" by (simp add: mask_eq_exp_minus_1)
  show ?thesis unfolding 7
    by (rule bit_word_eqI) (auto simp: frame_of_mask bit_simps)
qed

lemma unat_page_addr: "i < PAGING_PAGES \<Longrightarrow> unat (page_addr i) = 4096 * i + 0x100000"
  by (simp add: page_addr_def push_bit_eq_mult unat_word_ariths unat_of_nat)

lemma page_addr_inj: "i < PAGING_PAGES \<Longrightarrow> j < PAGING_PAGES \<Longrightarrow> page_addr i = page_addr j \<Longrightarrow> i = j"
  by (metis unat_page_addr add_right_cancel mult_cancel1 zero_neq_numeral)

lemma page_addr_ge: "i < PAGING_PAGES \<Longrightarrow> LOW_MEM \<le> page_addr i"
  by (simp add: word_le_nat_alt unat_page_addr)

lemma page_addr_neq_0: "i < PAGING_PAGES \<Longrightarrow> page_addr i \<noteq> 0"
  using page_addr_ge [of i] by auto

lemma MAP_NR_page_addr [simp]: "i < PAGING_PAGES \<Longrightarrow> MAP_NR (page_addr i) = i"
  by (simp add: MAP_NR_def page_addr_def unat_drop_bit_eq push_bit_eq_mult unat_word_ariths
      unat_of_nat drop_bit_eq_div)

lemma frame_of_page_addr [simp]: "i < PAGING_PAGES \<Longrightarrow> frame_of (page_addr i) = page_addr i"
proof -
  assume i: "i < PAGING_PAGES"
  have "unat (push_bit 12 (drop_bit 12 (page_addr i))) = unat (page_addr i)"
    using i by (simp add: unat_page_addr push_bit_eq_mult unat_word_ariths unat_drop_bit_eq drop_bit_eq_div)
  then show ?thesis by (simp only: frame_of_shift word_unat_eq_iff)
qed

section \<open>The allocator\<close>

lemma scasb_down_SomeD:
  "scasb_down m n = Some i \<Longrightarrow> i < n \<and> m i = 0 \<and> (\<forall>j. i < j \<longrightarrow> j < n \<longrightarrow> m j \<noteq> 0)"
  by (induction n) (auto split: if_splits simp: less_Suc_eq)

lemma scasb_down_None_iff: "scasb_down m n = None \<longleftrightarrow> (\<forall>j<n. m j \<noteq> 0)"
  by (induction n) (auto simp: less_Suc_eq)

lemma get_free_page_cases:
  obtains (none) "get_free_page s = (0, s)" "\<And>j. j < PAGING_PAGES \<Longrightarrow> mem_map s j \<noteq> 0"
  | (page) i where "i < PAGING_PAGES" "mem_map s i = 0"
      "\<And>j. i < j \<Longrightarrow> j < PAGING_PAGES \<Longrightarrow> mem_map s j \<noteq> 0"
      "get_free_page s = (page_addr i, clear_page (page_addr i) (s\<lparr>mem_map := (mem_map s)(i := 1)\<rparr>))"
proof (cases "scasb_down (mem_map s) PAGING_PAGES")
  case None
  then show thesis
    by (intro none) (simp_all add: get_free_page_def scasb_down_None_iff [THEN iffD1, rule_format])
next
  case (Some i)
  then show thesis
    using scasb_down_SomeD [OF Some] by (intro page) (auto simp: get_free_page_def Let_def)
qed

lemma clear_page_frame [frame, simp]:
  "mem_map (clear_page p s) = mem_map s" "HIGH_MEMORY (clear_page p s) = HIGH_MEMORY s"
  "task (clear_page p s) = task s" "current (clear_page p s) = current s"
  by (simp_all add: clear_page_def)

text \<open>
  The interface the allocator offers to its clients (page tables, pipes, task structures, the
  kernel's \<open>malloc\<close>): reference counts per page, allocation of an unreferenced page, release of one
  reference.
\<close>

locale page_allocator =
  fixes alloc :: "'s \<Rightarrow> u32 \<times> 's"
    and release_page :: "u32 \<Rightarrow> 's \<Rightarrow> 's option"
    and refs :: "'s \<Rightarrow> u32 \<Rightarrow> nat"
    and wf :: "'s \<Rightarrow> bool"
  assumes alloc_none: "alloc s = (0, t) \<Longrightarrow> t = s"
    and alloc_fresh: "wf s \<Longrightarrow> alloc s = (p, t) \<Longrightarrow> p \<noteq> 0 \<Longrightarrow> refs s p = 0"
    and alloc_refs: "wf s \<Longrightarrow> alloc s = (p, t) \<Longrightarrow> p \<noteq> 0 \<Longrightarrow> refs t = (refs s)(p := 1)"
    and alloc_wf: "wf s \<Longrightarrow> alloc s = (p, t) \<Longrightarrow> wf t"
    and release_some: "wf s \<Longrightarrow> 0 < refs s p \<Longrightarrow> \<exists>t. release_page p s = Some t"
    and release_refs: "wf s \<Longrightarrow> 0 < refs s p \<Longrightarrow> release_page p s = Some t \<Longrightarrow>
        refs t = (refs s)(p := refs s p - 1)"
    and release_wf: "wf s \<Longrightarrow> release_page p s = Some t \<Longrightarrow> wf t"
begin

lemma alloc_release:
  assumes "wf s" "alloc s = (p, t)" "p \<noteq> 0"
  shows "\<exists>u. release_page p t = Some u \<and> refs u = refs s \<and> wf u"
proof -
  have wt: "wf t" and rt: "refs t = (refs s)(p := 1)" and z: "refs s p = 0"
    using assms by (blast intro: alloc_wf alloc_refs alloc_fresh)+
  then obtain u where u: "release_page p t = Some u" using release_some [OF wt, of p] by auto
  have "refs u = refs s" using release_refs [OF wt _ u] rt z by (auto simp: fun_eq_iff)
  with u release_wf [OF wt u] show ?thesis by blast
qed

lemma alloc_distinct:
  assumes "wf s" "alloc s = (p, t)" "p \<noteq> 0" "alloc t = (q, u)" "q \<noteq> 0"
  shows "q \<noteq> p"
proof
  assume "q = p"
  then have "refs t p = 0" using assms alloc_wf alloc_fresh by metis
  then show False using alloc_refs [OF assms(1-3)] by simp
qed

lemma alloc_not_live:
  assumes "wf s" "alloc s = (p, t)" "p \<noteq> 0" "0 < refs s q"
  shows "q \<noteq> p" and "refs t q = refs s q"
  using alloc_fresh [OF assms(1-3)] alloc_refs [OF assms(1-3)] assms(4) by auto

end

text \<open>Every page at or above \<open>HIGH_MEMORY\<close> is marked in use, as \<open>mem_init\<close> leaves it.\<close>

definition mm_wf :: "kernel \<Rightarrow> bool" where
  "mm_wf s \<longleftrightarrow> (\<forall>i<PAGING_PAGES. HIGH_MEMORY s \<le> page_addr i \<longrightarrow> mem_map s i \<noteq> 0)"

definition page_refs :: "kernel \<Rightarrow> u32 \<Rightarrow> nat" where
  "page_refs s p =
     (if LOW_MEM \<le> p \<and> p < HIGH_MEMORY s \<and> frame_of p = p \<and> MAP_NR p < PAGING_PAGES
      then unat (mem_map s (MAP_NR p)) else 0)"

lemma page_addr_of_nat: "page_addr i = of_nat (4096 * i + 0x100000)"
  by (simp add: page_addr_def push_bit_eq_mult)

lemma frame_of_dvd:
  assumes "frame_of p = p"
  obtains k where "unat p = 4096 * k"
proof -
  have lt: "unat p < 4294967296" using unsigned_less [of p, where ?'a = nat] by simp
  have "unat p = unat (push_bit 12 (drop_bit 12 p))" using assms by (simp add: frame_of_shift)
  also have "\<dots> = unat p div 4096 * 4096 mod 4294967296"
    by (simp add: push_bit_eq_mult unat_word_ariths unat_drop_bit_div mult.commute)
  also have "unat p div 4096 * 4096 \<le> unat p" by simp
  then have "unat p div 4096 * 4096 mod 4294967296 = unat p div 4096 * 4096" using lt by simp
  finally show thesis by (intro that [of "unat p div 4096"]) simp
qed

lemma page_addr_MAP_NR:
  assumes "LOW_MEM \<le> p" "frame_of p = p"
  shows "page_addr (MAP_NR p) = p"
proof -
  obtain k where k: "unat p = 4096 * k" using frame_of_dvd [OF assms(2)] .
  have "0x100000 \<le> unat p" using assms(1) by (simp add: word_le_nat_alt)
  then have "256 \<le> k" using k by simp
  moreover have "unat (p - LOW_MEM) = 4096 * k - 4096 * 256"
    using assms(1) k by (simp add: unat_sub)
  then have "MAP_NR p = k - 256"
    by (simp only: MAP_NR_def unat_drop_bit_div diff_mult_distrib2 [symmetric]) simp
  ultimately have "4096 * MAP_NR p + 0x100000 = unat p" using k by simp
  then have "page_addr (MAP_NR p) = of_nat (unat p)" by (simp only: page_addr_of_nat)
  then show ?thesis by simp
qed

lemma page_refs_page_addr:
  "i < PAGING_PAGES \<Longrightarrow> page_refs s (page_addr i) = (if page_addr i < HIGH_MEMORY s then unat (mem_map s i) else 0)"
  by (simp add: page_refs_def page_addr_ge)

lemma page_refs_upd:
  assumes "i < PAGING_PAGES" "page_addr i < HIGH_MEMORY s"
    and "mem_map t = (mem_map s)(i := c)" "HIGH_MEMORY t = HIGH_MEMORY s"
  shows "page_refs t = (page_refs s)(page_addr i := unat c)"
proof
  fix q
  show "page_refs t q = ((page_refs s)(page_addr i := unat c)) q"
  proof (cases "q = page_addr i")
    case True
    then show ?thesis using assms by (simp add: page_refs_page_addr)
  next
    case False
    then have "MAP_NR q \<noteq> i" if "LOW_MEM \<le> q" "frame_of q = q"
      using page_addr_MAP_NR [OF that] by auto
    then show ?thesis using assms False by (auto simp: page_refs_def)
  qed
qed

lemma get_free_page_HIGH:
  assumes "mm_wf s" "get_free_page s = (p, t)" "p \<noteq> 0"
  obtains i where "i < PAGING_PAGES" "p = page_addr i" "page_addr i < HIGH_MEMORY s" "mem_map s i = 0"
    "mem_map t = (mem_map s)(i := 1)" "HIGH_MEMORY t = HIGH_MEMORY s"
proof (cases rule: get_free_page_cases [of s])
  case none
  then show ?thesis using assms by simp
next
  case (page i)
  then have "page_addr i < HIGH_MEMORY s"
    using assms(1) by (auto simp: mm_wf_def not_le [symmetric])
  with page assms show ?thesis by (intro that [of i]) auto
qed

lemma free_page_refsD:
  assumes "0 < page_refs s p"
  shows "\<exists>t. free_page p s = Some t \<and> mem_map t = (mem_map s)(MAP_NR p := mem_map s (MAP_NR p) - 1)
    \<and> HIGH_MEMORY t = HIGH_MEMORY s"
  using assms by (auto simp: page_refs_def free_page_def Let_def not_le split: if_splits)

interpretation mm: page_allocator get_free_page free_page page_refs mm_wf
proof
  fix s t
  assume "get_free_page s = (0, t)"
  then show "t = s"
    by (cases rule: get_free_page_cases [of s]) (auto simp: page_addr_neq_0)
next
  fix s p t
  assume "mm_wf s" "get_free_page s = (p, t)" "p \<noteq> 0"
  then obtain i where i: "i < PAGING_PAGES" "p = page_addr i" "page_addr i < HIGH_MEMORY s"
      "mem_map s i = 0" "mem_map t = (mem_map s)(i := 1)" "HIGH_MEMORY t = HIGH_MEMORY s"
    by (rule get_free_page_HIGH)
  show "page_refs s p = 0" using i by (simp add: page_refs_page_addr)
  show "page_refs t = (page_refs s)(p := 1)"
    using page_refs_upd [OF i(1,3,5,6)] i(2) by simp
next
  fix s p t
  assume "mm_wf s" "get_free_page s = (p, t)"
  then show "mm_wf t"
    by (cases rule: get_free_page_cases [of s]) (auto simp: mm_wf_def split: if_splits)
next
  fix s p
  assume "mm_wf s" "0 < page_refs s p"
  then show "\<exists>t. free_page p s = Some t" using free_page_refsD by blast
next
  fix s p t
  assume wf: "mm_wf s" and pos: "0 < page_refs s p" and fr: "free_page p s = Some t"
  from pos have p: "LOW_MEM \<le> p" "p < HIGH_MEMORY s" "frame_of p = p" "MAP_NR p < PAGING_PAGES"
      "mem_map s (MAP_NR p) \<noteq> 0"
    by (auto simp: page_refs_def split: if_splits)
  have "mem_map t = (mem_map s)(MAP_NR p := mem_map s (MAP_NR p) - 1)" "HIGH_MEMORY t = HIGH_MEMORY s"
    using free_page_refsD [OF pos] fr by auto
  from page_refs_upd [OF p(4) _ this] page_addr_MAP_NR [OF p(1,3)] p
  show "page_refs t = (page_refs s)(p := page_refs s p - 1)"
    by (auto simp: fun_eq_iff page_refs_def word_pos_dec)
next
  fix s p t
  assume wf: "mm_wf s" and fr: "free_page p s = Some t"
  show "mm_wf t"
  proof (cases "p < LOW_MEM")
    case True
    then show ?thesis using wf fr by (simp add: free_page_def)
  next
    case False
    then have "p < HIGH_MEMORY s" "HIGH_MEMORY t = HIGH_MEMORY s"
      "mem_map t = (mem_map s)(MAP_NR p := mem_map s (MAP_NR p) - 1)"
      using fr by (auto simp: free_page_def Let_def halts split: if_splits)
    moreover have "page_addr i < HIGH_MEMORY s" if "i < PAGING_PAGES" "MAP_NR p = i" for i
    proof -
      have "page_addr i \<le> p"
        using that False
        by (simp add: word_le_nat_alt unat_page_addr MAP_NR_def unat_drop_bit_div
            unat_sub not_less)
      then show ?thesis using \<open>p < HIGH_MEMORY s\<close> by simp
    qed
    ultimately show ?thesis using wf by (auto simp: mm_wf_def not_le [symmetric])
  qed
qed

section \<open>Properties of the allocator\<close>

text \<open>
  C11: \<open>get_free_page\<close> either reports that no page is free and changes nothing, or returns the highest
  page whose \<open>mem_map\<close> byte is 0, sets exactly that byte to 1 and fills exactly that page with zeros.
\<close>

theorem get_free_page_correct:
  "case get_free_page s of (p, t) \<Rightarrow>
     (p = 0 \<and> t = s \<and> (\<forall>j<PAGING_PAGES. mem_map s j \<noteq> 0)) \<or>
     (\<exists>i<PAGING_PAGES. p = page_addr i \<and> p \<noteq> 0 \<and> mem_map s i = 0 \<and>
        (\<forall>j<PAGING_PAGES. mem_map s j = 0 \<longrightarrow> j \<le> i) \<and>
        mem_map t = (mem_map s)(i := 1) \<and>
        (\<forall>a. hw32 t a = (if frame_of a = p then 0 else hw32 s a)) \<and>
        (\<forall>a. hw8 t a = (if frame_of a = p then 0 else hw8 s a)))"
proof (cases rule: get_free_page_cases [of s])
  case (page i)
  then have "\<forall>j<PAGING_PAGES. mem_map s j = 0 \<longrightarrow> j \<le> i" by (meson not_le)
  with page show ?thesis
    by (auto simp: clear_page_def page_addr_neq_0 intro!: exI [of _ i])
qed simp

theorem get_free_page_correct_witness: "fst (get_free_page boot_kernel) = page_addr 3839"
proof -
  obtain i where "i < PAGING_PAGES" "fst (get_free_page boot_kernel) = page_addr i"
      "\<forall>j<PAGING_PAGES. j \<le> i"
    using get_free_page_correct [of boot_kernel] by (auto split: prod.splits dest: spec [where x = 0])
  moreover from this have "i = 3839" by (simp add: le_antisym)
  ultimately show ?thesis by simp
qed

lemma boot_mm_wf: "mm_wf (boot_kernel\<lparr>HIGH_MEMORY := 0x1000000\<rparr>)"
  unfolding mm_wf_def
proof (intro allI impI)
  fix i assume "i < PAGING_PAGES" "HIGH_MEMORY (boot_kernel\<lparr>HIGH_MEMORY := 0x1000000\<rparr>) \<le> page_addr i"
  then show "mem_map (boot_kernel\<lparr>HIGH_MEMORY := 0x1000000\<rparr>) i \<noteq> 0" by (simp add: word_le_nat_alt unat_page_addr)
qed

text \<open>
  A page obtained from \<open>get_free_page\<close> can be handed back with \<open>free_page\<close>, and then every page
  has the reference count it had before: allocation and release are inverse.
\<close>

lemma page_alloc_release:
  assumes "mm_wf s" "get_free_page s = (p, t)" "p \<noteq> 0"
  shows "\<exists>u. free_page p t = Some u \<and> page_refs u = page_refs s \<and> mm_wf u"
  using assms by (rule mm.alloc_release)

lemma scasb_down_numeral:
  "scasb_down m (numeral n) = (if m (pred_numeral n) = 0 then Some (pred_numeral n)
     else scasb_down m (pred_numeral n))"
  by (simp add: numeral_eq_Suc)

lemma page_alloc_release_witness:
  "\<exists>u. free_page (fst (get_free_page (boot_kernel\<lparr>HIGH_MEMORY := 0x1000000\<rparr>)))
         (snd (get_free_page (boot_kernel\<lparr>HIGH_MEMORY := 0x1000000\<rparr>))) = Some u \<and>
       page_refs u = page_refs (boot_kernel\<lparr>HIGH_MEMORY := 0x1000000\<rparr>)"
proof -
  let ?s = "boot_kernel\<lparr>HIGH_MEMORY := 0x1000000\<rparr>"
  have "fst (get_free_page ?s) \<noteq> 0"
    by (simp add: get_free_page_def scasb_down_numeral boot_kernel_def Let_def page_addr_neq_0)
  then show ?thesis
    using page_alloc_release [OF boot_mm_wf prod.collapse [symmetric]] by blast
qed

lemma unat_page_addr_le: "i \<le> PAGING_PAGES \<Longrightarrow> unat (page_addr i) = 4096 * i + 0x100000"
  by (simp add: page_addr_def push_bit_eq_mult unat_word_ariths unat_of_nat)

lemma mem_init_count:
  assumes "i \<le> j" "j \<le> PAGING_PAGES"
  shows "nat (sint (signed_drop_bit 12 (page_addr j - page_addr i))) = j - i"
proof -
  have "page_addr j - page_addr i = of_nat (4096 * (j - i))"
    using assms by (simp add: page_addr_of_nat of_nat_diff algebra_simps)
  moreover have "sint (of_nat (4096 * (j - i)) :: u32) = int (4096 * (j - i))"
    using assms by (subst signed_of_nat) (simp add: signed_take_bit_int_eq_self)
  ultimately show ?thesis
    using assms by (simp add: sint_signed_drop_bit_eq drop_bit_eq_div of_nat_diff)
qed

lemma fold_clear_range:
  "fold (\<lambda>k m. m(i + k := (0 :: u8))) [0..<n] m = (\<lambda>x. if i \<le> x \<and> x < i + n then 0 else m x)"
  by (induction n) (auto simp: fun_eq_iff)

text \<open>
  After \<open>mem_init\<close> on page-aligned bounds exactly the pages of main memory are free, every other
  page up to 16 MB (the buffer cache, and memory the machine does not have) is marked \<open>USED\<close>, and the
  allocator's well-formedness holds.
\<close>

lemma mem_init_pages:
  assumes "i \<le> j" "j \<le> PAGING_PAGES"
  shows "(\<forall>k<PAGING_PAGES. mem_map (mem_init (page_addr i) (page_addr j) s) k =
            (if i \<le> k \<and> k < j then 0 else USED)) \<and>
         mm_wf (mem_init (page_addr i) (page_addr j) s)"
proof -
  have MAP: "MAP_NR (page_addr i) = i"
  proof (cases "i = PAGING_PAGES")
    case True
    then show ?thesis by (simp add: MAP_NR_def page_addr_def unat_drop_bit_div push_bit_eq_mult)
  qed (use assms in simp)
  have eq: "mem_map (mem_init (page_addr i) (page_addr j) s) k =
      (if i \<le> k \<and> k < j then 0 else if k < PAGING_PAGES then USED else mem_map s k)" for k
    using assms by (auto simp: mem_init_def Let_def MAP mem_init_count fold_clear_range)
  moreover have "page_addr j \<le> page_addr k \<Longrightarrow> k < PAGING_PAGES \<Longrightarrow> \<not> k < j" for k
    using assms by (simp add: word_le_nat_alt unat_page_addr_le)
  moreover have "HIGH_MEMORY (mem_init (page_addr i) (page_addr j) s) = page_addr j"
    by (simp add: mem_init_def Let_def)
  ultimately show ?thesis by (auto simp: mm_wf_def)
qed

section \<open>Page tables\<close>

lemma flags_bits: "(f :: u32) < 4096 \<Longrightarrow> 12 \<le> n \<Longrightarrow> \<not> bit f n"
proof
  assume f: "f < 4096" and n: "12 \<le> n" and b: "bit f n"
  have "drop_bit 12 f = 0"
    using f by (simp add: word_unat_eq_iff unat_drop_bit_div word_less_nat_alt)
  moreover have "bit (drop_bit 12 f) (n - 12)" using b n by (simp add: bit_drop_bit_eq)
  ultimately show False by simp
qed

lemma frame_of_low_bits: "frame_of F = F \<Longrightarrow> n < 12 \<Longrightarrow> \<not> bit F n"
  by (metis frame_of_mask bit_and_iff bit_not_iff bit_mask_iff possible_bit_word)

lemma frame_of_add:
  assumes "frame_of F = F" "x < 4096"
  shows "frame_of (F + x) = F"
proof -
  have dis: "F AND x = 0"
    by (rule bit_word_eqI)
      (use assms frame_of_low_bits flags_bits in \<open>auto simp: bit_and_iff not_less [symmetric]\<close>)
  then have "F + x = F OR x" by (rule disjunctive_add_eq_or)
  moreover have "frame_of (F OR x) = frame_of F"
    by (rule bit_word_eqI) (use assms(2) flags_bits in \<open>auto simp: frame_of_mask bit_simps not_less\<close>)
  ultimately show ?thesis using assms(1) by simp
qed

lemma table_index_less: "table_index a < 4096"
  unfolding table_index_def
  by (rule le_less_trans [of _ "0xffc"]) (auto simp: word_and_le1)

lemma dir_slot_less: "dir_slot a < 4096"
  unfolding dir_slot_def
  by (rule le_less_trans [of _ "0xffc"]) (auto simp: word_and_le1)

lemma frame_of_dir_slot [simp]: "frame_of (dir_slot a) = 0"
  using frame_of_add [of 0 "dir_slot a"] dir_slot_less by (simp add: frame_of_def)

lemma table_index_alt: "4 * (drop_bit 12 a AND 0x3ff) = table_index a"
proof -
  have ffc: "(0xffc :: u32) = push_bit 2 (mask 10)" and x3ff: "(0x3ff :: u32) = mask 10"
    by (simp_all add: mask_eq_exp_minus_1 push_bit_eq_mult)
  have "4 * (drop_bit 12 a AND mask 10) = push_bit 2 (drop_bit 12 a AND mask 10)"
    by (simp add: push_bit_eq_mult mult.commute)
  also have "\<dots> = drop_bit 10 a AND push_bit 2 (mask 10)"
    by (rule bit_word_eqI)
      (auto simp only: bit_and_iff bit_push_bit_iff bit_mask_iff bit_drop_bit_eq comp_apply
        le_add_diff_inverse2 numeral_plus_numeral add.commute le_add_diff_inverse intro: back_subst [of "bit a"])
  finally show ?thesis by (simp only: table_index_def ffc x3ff)
qed

text \<open>The page-table entry the processor uses for a linear address.\<close>

definition pte :: "kernel \<Rightarrow> u32 \<Rightarrow> u32 option" where
  "pte s address =
     (let d = hw32 s (dir_slot address) in
      if present d then Some (hw32 s (frame_of d + table_index address)) else None)"

lemma put_page_pte:
  assumes ok: "put_page page address s = (r, t)" "r \<noteq> 0"
    and tables: "present (hw32 s (dir_slot address)) \<Longrightarrow> frame_of (hw32 s (dir_slot address)) \<noteq> 0"
  shows "r = page \<and> pte t address = Some (page OR 7) \<and>
         (\<forall>a. dir_slot a = dir_slot address \<longrightarrow> table_index a \<noteq> table_index address \<longrightarrow>
            pte t a = (case pte s a of Some e \<Rightarrow> Some e | None \<Rightarrow> Some 0))"
proof (cases "present (hw32 s (dir_slot address))")
  case True
  let ?F = "frame_of (hw32 s (dir_slot address))"
  have "frame_of (?F + table_index address) = ?F" by (simp add: frame_of_add table_index_less)
  then have neq: "?F + table_index address \<noteq> dir_slot address" using tables [OF True] by (metis frame_of_dir_slot)
  have t: "r = page" "t = set_long (?F + table_index address) (page OR 7) s"
    using ok True by (auto simp: put_page_def table_index_alt Let_def)
  show ?thesis using t neq True by (auto simp: pte_def set_long_def Let_def)
next
  case False
  then obtain p u where g: "get_free_page s = (p, u)" "p \<noteq> 0" and r: "r = page"
      "t = set_long (p + table_index address) (page OR 7) (set_long (dir_slot address) (p OR 7) u)"
    using ok by (auto simp: put_page_def table_index_alt Let_def split: prod.splits if_splits)
  obtain i where i: "i < PAGING_PAGES" "p = page_addr i" and hw: "\<And>a. frame_of a = p \<Longrightarrow> hw32 u a = 0"
    using g by (cases rule: get_free_page_cases [of s]) (auto simp: clear_page_def)
  have fp: "frame_of p = p" using i by simp
  have fr: "frame_of (p + table_index a) = p" for a
    using fp by (simp add: frame_of_add table_index_less)
  then have neq: "p + table_index a \<noteq> dir_slot address" for a using g(2) by (metis frame_of_dir_slot)
  show ?thesis
    using r neq neq [symmetric] False hw fr fp by (auto simp: pte_def set_long_def Let_def)
qed

text \<open>
  when \<open>put_page\<close> succeeds, the address is mapped to exactly the given page, present, writable and
  accessible to the user, and the entries of all other pages behind the same page table are as they
  were, or not present if the table is new.
\<close>

lemma put_page_maps:
  assumes ok: "put_page page address s = (r, t)" "r \<noteq> 0"
    and tables: "present (hw32 s (dir_slot address)) \<Longrightarrow> frame_of (hw32 s (dir_slot address)) \<noteq> 0"
  shows "r = page \<and> pte t address = Some (page OR 7) \<and>
         (\<forall>a. dir_slot a = dir_slot address \<longrightarrow> table_index a \<noteq> table_index address \<longrightarrow>
            pte t a = (case pte s a of Some e \<Rightarrow> Some e | None \<Rightarrow> Some 0))"
  by (rule put_page_pte [OF assms])

lemma put_page_maps_witness:
  "pte (snd (put_page 0x200000 0x4000000 boot_kernel)) 0x4000000 = Some 0x200007"
proof -
  have "fst (put_page 0x200000 0x4000000 boot_kernel) \<noteq> 0"
    by (simp add: put_page_def get_free_page_def scasb_down_numeral present_def Let_def page_addr_def
        push_bit_eq_mult)
  from put_page_maps [OF prod.collapse [symmetric] this] show ?thesis by (simp add: present_def)
qed

section \<open>Copy on write\<close>

lemma frame_of_or_flags: "f < 4096 \<Longrightarrow> frame_of (e OR f) = frame_of e"
  by (rule bit_word_eqI) (use flags_bits in \<open>auto simp: frame_of_mask bit_simps not_less\<close>)

lemma live_frame_neq:
  assumes "F < LOW_MEM \<or> mem_map s (MAP_NR F) \<noteq> 0" "i < PAGING_PAGES" "mem_map s i = 0"
  shows "F \<noteq> page_addr i"
  using assms page_addr_ge [OF assms(2)] by (auto simp: not_less [symmetric])

text \<open>
  C2: a write to a shared page goes to a private copy. After \<open>un_wp_page\<close> the table entry is writable
  and the page behind it holds, byte for byte, what the old page held; if the page was not shared it
  stays in place and no reference count changes, and if it was, the new page is one that was free and
  the old page loses exactly one reference.
\<close>

theorem un_wp_page_private_copy:
  assumes un: "un_wp_page te s = Some t"
    and old: "old = frame_of (hw32 s te)"
    and live_old: "old < LOW_MEM \<or> mem_map s (MAP_NR old) \<noteq> 0"
    and live_tab: "frame_of te < LOW_MEM \<or> mem_map s (MAP_NR (frame_of te)) \<noteq> 0"
    and new: "new = frame_of (hw32 t te)"
  shows "hw32 t te AND 2 = 2 \<and> (\<forall>x<4096. hw8 t (new + x) = hw8 s (old + x)) \<and>
    (if LOW_MEM \<le> old \<and> mem_map s (MAP_NR old) = 1 then new = old \<and> mem_map t = mem_map s
     else \<exists>i<PAGING_PAGES. new = page_addr i \<and> new \<noteq> old \<and> mem_map s i = 0 \<and>
       mem_map t = (if LOW_MEM \<le> old
         then (mem_map s)(i := 1, MAP_NR old := mem_map s (MAP_NR old) - 1)
         else (mem_map s)(i := 1)))"
proof (cases "LOW_MEM \<le> old \<and> mem_map s (MAP_NR old) = 1")
  case True
  then have t: "t = set_long te (hw32 s te OR 2) s"
    using un old by (auto simp: un_wp_page_def Let_def)
  then show ?thesis
    using True old new frame_of_or_flags [of 2 "hw32 s te"]
    by (auto simp: set_long_def intro: bit_word_eqI simp: bit_simps)
next
  case False
  obtain p u where g: "get_free_page s = (p, u)" "p \<noteq> 0"
    and t: "t = copy_page old p (set_long te (p OR 7) (if LOW_MEM \<le> old
         then u\<lparr>mem_map := (mem_map u)(MAP_NR old := mem_map u (MAP_NR old) - 1)\<rparr> else u))"
    using un False old by (auto simp: un_wp_page_def Let_def halts split: prod.splits if_splits)
  obtain i where i: "i < PAGING_PAGES" "mem_map s i = 0" "p = page_addr i"
    and u: "u = clear_page p (s\<lparr>mem_map := (mem_map s)(i := 1)\<rparr>)"
    using g by (cases rule: get_free_page_cases [of s]) auto
  have neq: "old \<noteq> p" "frame_of te \<noteq> p"
    using live_frame_neq [OF live_old i(1,2)] live_frame_neq [OF live_tab i(1,2)] i(3) by auto
  have fp: "frame_of p = p" using i by simp
  have te: "hw32 t te = p OR 7" using neq(2) by (simp add: t copy_page_def set_long_def)
  then have new_p: "new = p" using new fp by simp
  have "(p OR 7) AND 2 = (2 :: u32)" by (rule bit_word_eqI) (auto simp: bit_simps)
  moreover have "hw8 t (new + x) = hw8 s (old + x)" if "x < 4096" for x
    using that neq(1) old fp by (simp add: t new_p copy_page_def set_long_def u clear_page_def frame_of_add)
  moreover have "MAP_NR old \<noteq> i" if "LOW_MEM \<le> old"
    using page_addr_MAP_NR [OF that] old i(3) neq(1) by auto
  then have "mem_map t = (if LOW_MEM \<le> old
         then (mem_map s)(i := 1, MAP_NR old := mem_map s (MAP_NR old) - 1)
         else (mem_map s)(i := 1))"
    by (simp add: t copy_page_def set_long_def u)
  ultimately show ?thesis using False te new_p neq i by auto
qed

lemma get_free_page_top:
  assumes "mem_map s 3839 = 0"
  shows "get_free_page s = (page_addr 3839, clear_page (page_addr 3839) (s\<lparr>mem_map := (mem_map s)(3839 := 1)\<rparr>))"
  using assms by (simp add: get_free_page_def scasb_down_numeral Let_def)

theorem un_wp_page_private_copy_witness:
  "\<exists>t. un_wp_page 0x1000 (boot_kernel\<lparr>hw32 := (\<lambda>_. 0)(0x1000 := 0x200005), mem_map := (\<lambda>_. 0)(256 := 2)\<rparr>) = Some t \<and>
       hw32 t 0x1000 AND 2 = 2 \<and> mem_map t 256 = 1"
proof -
  let ?s = "boot_kernel\<lparr>hw32 := (\<lambda>_. 0)(0x1000 := 0x200005), mem_map := (\<lambda>_. 0)(256 := 2)\<rparr>"
  have f: "frame_of 0x200005 = 0x200000" "MAP_NR 0x200000 = 256" "frame_of 0x1000 = 0x1000"
    by (simp_all add: frame_of_def MAP_NR_def unat_drop_bit_div)
  obtain t where t: "un_wp_page 0x1000 ?s = Some t"
    by (simp add: un_wp_page_def get_free_page_top f page_addr_neq_0 Let_def)
  have old: "hw32 ?s 0x1000 = 0x200005" and m: "mem_map ?s 256 = 2" by simp_all
  note c = un_wp_page_private_copy [OF t refl _ _ refl, unfolded old f m]
  have live: "(0x200000 :: u32) < LOW_MEM \<or> (2 :: u8) \<noteq> 0"
    "(0x1000 :: u32) < LOW_MEM \<or> mem_map ?s (MAP_NR 0x1000) \<noteq> 0" by simp_all
  obtain i where i: "mem_map ?s i = 0" "mem_map t = (mem_map ?s)(i := 1, 256 := 2 - 1)"
    using conjunct2 [OF conjunct2 [OF c [OF live]]] by (auto split: if_splits)
  have "mem_map t 256 = 1" unfolding i(2) by simp
  with t conjunct1 [OF c [OF live]] show ?thesis by (intro exI [of _ t] conjI)
qed

section \<open>Sharing page tables at fork\<close>

text \<open>Whether \<open>copy_page_tables\<close> counts the page of an entry, and what it stores.\<close>

definition shared_entry :: "u32 \<Rightarrow> bool" where
  "shared_entry e \<longleftrightarrow> present e \<and> e AND NOT 2 > LOW_MEM"

lemma copy_pt_fold:
  "copy_pt n f t s = fold (\<lambda>k. copy_pt_entry (f + 4 * of_nat k) (t + 4 * of_nat k)) [0..<n] s"
proof (induction n arbitrary: f t s)
  case (Suc n)
  have eq: "[0..<Suc n] = 0 # map Suc [0..<n]" by (simp add: upt_conv_Cons map_Suc_upt del: upt_Suc)
  show ?case
    unfolding eq by (simp add: Suc.IH fold_map comp_def algebra_simps)
qed simp

lemma copy_pt_entry_effect:
  assumes "f \<noteq> t"
  shows "hw32 (copy_pt_entry f t s) =
      (if present (hw32 s f)
       then (hw32 s)(t := hw32 s f AND NOT 2, f := (if shared_entry (hw32 s f) then hw32 s f AND NOT 2 else hw32 s f))
       else hw32 s)"
    and "mem_map (copy_pt_entry f t s) =
      (if shared_entry (hw32 s f)
       then (mem_map s)(MAP_NR (hw32 s f AND NOT 2) := mem_map s (MAP_NR (hw32 s f AND NOT 2)) + 1)
       else mem_map s)"
  using assms by (auto simp: copy_pt_entry_def shared_entry_def set_long_def Let_def fun_eq_iff)

text \<open>
  C3: copying a page table write-protects it. For two disjoint tables, every present entry of the
  source appears in the copy with its write bit cleared; in the source the write bit is cleared as
  well for each page that \<open>mem_map\<close> counts, and left alone below 1 MB; and the count of each page
  grows by the number of entries that now share it.
\<close>

theorem copy_pt_shares:
  assumes f: "inj_on (\<lambda>k. f + 4 * of_nat k) {..<n}" and t: "inj_on (\<lambda>k. t + 4 * of_nat k) {..<n}"
    and disj: "\<And>j k. j < n \<Longrightarrow> k < n \<Longrightarrow> f + 4 * of_nat j \<noteq> t + 4 * of_nat k"
    and e: "\<And>k. e k = hw32 s (f + 4 * of_nat k)"
  shows "(\<forall>k<n. hw32 (copy_pt n f t s) (t + 4 * of_nat k) =
            (if present (e k) then e k AND NOT 2 else hw32 s (t + 4 * of_nat k))) \<and>
         (\<forall>k<n. hw32 (copy_pt n f t s) (f + 4 * of_nat k) = (if shared_entry (e k) then e k AND NOT 2 else e k)) \<and>
         (\<forall>i. mem_map (copy_pt n f t s) i = mem_map s i +
            of_nat (card {k. k < n \<and> shared_entry (e k) \<and> MAP_NR (e k AND NOT 2) = i}))"
proof -
  let ?step = "\<lambda>k. copy_pt_entry (f + 4 * of_nat k) (t + 4 * of_nat k)"
  define hit where "hit = (\<lambda>m i. {k. k < m \<and> shared_entry (e k) \<and> MAP_NR (e k AND NOT 2) = i})"
  have hit_Suc: "hit (Suc m) i = (if shared_entry (e m) \<and> MAP_NR (e m AND NOT 2) = i
      then insert m (hit m i) else hit m i)" and hit_fin: "finite (hit m i)" "m \<notin> hit m i" for m i
    by (auto simp: hit_def less_Suc_eq)
  have "m \<le> n \<Longrightarrow>
      (\<forall>k<n. hw32 (fold ?step [0..<m] s) (t + 4 * of_nat k) =
        (if k < m \<and> present (e k) then e k AND NOT 2 else hw32 s (t + 4 * of_nat k))) \<and>
      (\<forall>k<n. hw32 (fold ?step [0..<m] s) (f + 4 * of_nat k) =
        (if k < m \<and> shared_entry (e k) then e k AND NOT 2 else e k)) \<and>
      (\<forall>i. mem_map (fold ?step [0..<m] s) i = mem_map s i + of_nat (card (hit m i)))" for m
  proof (induction m)
    case (Suc m)
    let ?u = "fold ?step [0..<m] s"
    have IH: "\<And>k. k < n \<Longrightarrow> hw32 ?u (t + 4 * of_nat k) =
          (if k < m \<and> present (e k) then e k AND NOT 2 else hw32 s (t + 4 * of_nat k))"
        "\<And>k. k < n \<Longrightarrow> hw32 ?u (f + 4 * of_nat k) = (if k < m \<and> shared_entry (e k) then e k AND NOT 2 else e k)"
        "\<And>i. mem_map ?u i = mem_map s i + of_nat (card (hit m i))"
      using Suc by auto
    have mn: "m < n" using Suc.prems by simp
    have um: "hw32 ?u (f + 4 * of_nat m) = e m" using IH(2) [OF mn] by simp
    have ft: "f + 4 * of_nat m \<noteq> t + 4 * of_nat m" using disj mn by blast
    note eff = copy_pt_entry_effect [OF ft, of ?u, unfolded um]
    have ne: "t + 4 * of_nat k \<noteq> t + 4 * of_nat m" "f + 4 * of_nat k \<noteq> f + 4 * of_nat m"
      if "k < n" "k \<noteq> m" for k
      using that mn inj_on_contraD [OF t, of k m] inj_on_contraD [OF f, of k m] by (simp_all only: lessThan_iff) auto
    have A: "hw32 (?step m ?u) (t + 4 * of_nat k) =
        (if k < Suc m \<and> present (e k) then e k AND NOT 2 else hw32 s (t + 4 * of_nat k))" if "k < n" for k
      using eff(1) IH(1) [OF that] ne(1) [OF that] disj [OF mn that] ft that
      by (cases "k = m") (auto simp: less_Suc_eq)
    have B: "hw32 (?step m ?u) (f + 4 * of_nat k) =
        (if k < Suc m \<and> shared_entry (e k) then e k AND NOT 2 else e k)" if "k < n" for k
      using eff(1) IH(2) [OF that] ne(2) [OF that] disj [OF that mn] ft um
      by (cases "k = m") (auto simp: less_Suc_eq shared_entry_def)
    have C: "mem_map (?step m ?u) i = mem_map s i + of_nat (card (hit (Suc m) i))" for i
      by (simp add: eff(2) IH(3) hit_Suc hit_fin)
    show ?case using A B C by simp
  qed (auto simp: e hit_def)
  from this [of n] show ?thesis by (simp add: copy_pt_fold hit_def)
qed

theorem copy_pt_shares_witness:
  "hw32 (copy_pt 2 0x1000 0x2000 (boot_kernel\<lparr>hw32 := (\<lambda>_. 0)(0x1004 := 0x200007)\<rparr>)) 0x2004 = 0x200005 \<and>
   mem_map (copy_pt 2 0x1000 0x2000 (boot_kernel\<lparr>hw32 := (\<lambda>_. 0)(0x1004 := 0x200007)\<rparr>)) 256 = 1"
proof -
  let ?s = "boot_kernel\<lparr>hw32 := (\<lambda>_. 0)(0x1004 := 0x200007)\<rparr>"
  have set2: "{..<2::nat} = {0, 1}" by auto
  have lt2: "(k :: nat) < 2 \<longleftrightarrow> k = 0 \<or> k = 1" for k by auto
  have "{k. k < 2 \<and> shared_entry (hw32 ?s (0x1000 + 4 * of_nat k)) \<and>
      MAP_NR (hw32 ?s (0x1000 + 4 * of_nat k) AND NOT 2) = 256} = {1}"
    by (auto simp: lt2 shared_entry_def present_def MAP_NR_def unat_drop_bit_div)
  moreover have inj: "inj_on (\<lambda>k. b + 4 * of_nat k :: u32) {..<2}" for b
    by (simp add: set2)
  moreover have dis: "(0x1000 :: u32) + 4 * of_nat j \<noteq> 0x2000 + 4 * of_nat k" if "j < 2" "k < 2" for j k
    using that by (auto simp: lt2)
  note c = copy_pt_shares [OF inj inj dis refl, of ?s]
  have "hw32 (copy_pt 2 0x1000 0x2000 ?s) (0x2000 + 4 * of_nat 1) = 0x200005"
    using conjunct1 [OF c, rule_format, of 1] by (simp add: present_def)
  moreover have "mem_map (copy_pt 2 0x1000 0x2000 ?s) 256 =
      mem_map ?s 256 + of_nat (card {k. k < 2 \<and> shared_entry (hw32 ?s (0x1000 + 4 * of_nat k)) \<and>
      MAP_NR (hw32 ?s (0x1000 + 4 * of_nat k) AND NOT 2) = 256})"
    using conjunct2 [OF conjunct2 [OF c]] by blast
  ultimately show ?thesis by simp
qed

section \<open>What the memory routines leave alone\<close>

text \<open>Only the reference counts and the contents of physical memory differ.\<close>

definition mm_only :: "kernel \<Rightarrow> kernel \<Rightarrow> bool" where
  "mm_only s t \<longleftrightarrow> (\<exists>m w b. t = s\<lparr>mem_map := m, hw32 := w, hw8 := b\<rparr>)"

lemma mm_only_refl [simp, intro]: "mm_only s s"
  unfolding mm_only_def by (rule exI [of _ "mem_map s"], rule exI [of _ "hw32 s"], rule exI [of _ "hw8 s"]) simp

lemma mm_only_trans [trans]: "mm_only s t \<Longrightarrow> mm_only t u \<Longrightarrow> mm_only s u"
  unfolding mm_only_def by (elim exE) force

lemma mm_only_upd [simp, intro]:
  "mm_only s (set_long a v s)" "mm_only s (s\<lparr>mem_map := m\<rparr>)" "mm_only s (clear_page p s)"
  "mm_only s (copy_page f p s)"
proof -
  have "s\<lparr>hw32 := w\<rparr> = s\<lparr>mem_map := mem_map s, hw32 := w, hw8 := hw8 s\<rparr>" for w by simp
  then show "mm_only s (set_long a v s)" unfolding mm_only_def set_long_def by blast
  have "s\<lparr>mem_map := m\<rparr> = s\<lparr>mem_map := m, hw32 := hw32 s, hw8 := hw8 s\<rparr>" by simp
  then show "mm_only s (s\<lparr>mem_map := m\<rparr>)" unfolding mm_only_def by blast
  have "s\<lparr>hw32 := w, hw8 := b\<rparr> = s\<lparr>mem_map := mem_map s, hw32 := w, hw8 := b\<rparr>" for w b by simp
  then show "mm_only s (clear_page p s)" "mm_only s (copy_page f p s)"
    unfolding mm_only_def clear_page_def copy_page_def by blast+
qed

lemma mm_only_steps:
  assumes "mm_only s t"
  shows "mm_only s (set_long a v t)" "mm_only s (t\<lparr>mem_map := m\<rparr>)" "mm_only s (clear_page p t)"
    "mm_only s (copy_page f p t)"
  using assms mm_only_trans mm_only_upd by blast+

lemma mm_onlyD:
  assumes "mm_only s t"
  shows "task t = task s" "current t = current s" "user t = user s" "wakes t = wakes s"
    "file_table t = file_table s" "inode_table t = inode_table s" "bufs t = bufs s"
    "super_tab t = super_tab s" "last_pid t = last_pid s" "jiffies t = jiffies s"
    "last_task_used_math t = last_task_used_math s" "HIGH_MEMORY t = HIGH_MEMORY s" "cur t = cur s"
    "startup_time t = startup_time s"
  using assms by (auto simp: mm_only_def cur_def)

lemma get_free_page_mm: "get_free_page s = (p, t) \<Longrightarrow> mm_only s t"
  by (auto simp: get_free_page_def Let_def split: option.splits intro: mm_only_trans [OF mm_only_upd(2) mm_only_upd(3)])

lemma free_page_mm: "free_page a s = Some t \<Longrightarrow> mm_only s t"
  by (auto simp: free_page_def Let_def halts split: if_splits)

lemma free_pt_entry_mm: "free_pt_entry pt nr s = Some t \<Longrightarrow> mm_only s t"
  by (auto simp: free_pt_entry_def Let_def bind_Some_iff split: if_splits
      intro: mm_only_trans [OF free_page_mm mm_only_upd(1)])

lemma for_each_mm:
  assumes "for_each xs f s = Some t" "\<And>i u v. f i u = Some v \<Longrightarrow> mm_only u v"
  shows "mm_only s t"
  using for_each_inv [OF assms(1), of "mm_only s"] assms(2) mm_only_trans by blast

lemma free_dir_entry_mm: "free_dir_entry d k s = Some t \<Longrightarrow> mm_only s t"
  by (auto simp: free_dir_entry_def Let_def bind_Some_iff split: if_splits)
    (blast intro: mm_only_trans for_each_mm free_pt_entry_mm free_page_mm mm_only_upd)

lemma free_page_tables_mm: "free_page_tables f n s = Some (r, t) \<Longrightarrow> mm_only s t"
  by (auto simp: free_page_tables_def halts bind_Some_iff split: if_splits intro: for_each_mm free_dir_entry_mm)

lemma copy_pt_mm: "mm_only s (copy_pt n f t s)"
proof (induction n arbitrary: f t s)
  case (Suc n)
  have "mm_only s (copy_pt_entry f t s)"
    by (auto simp: copy_pt_entry_def Let_def intro!: mm_only_steps)
  then show ?case using Suc mm_only_trans by force
qed simp

lemma copy_dirs_mm: "copy_dirs n z f d s = Some (r, t) \<Longrightarrow> mm_only s t"
proof (induction n arbitrary: z f d s)
  case (Suc n)
  obtain p u where g: "get_free_page s = (p, u)" by (cases "get_free_page s")
  note u = get_free_page_mm [OF g]
  have step: "mm_only s (copy_pt k a b (set_long c v u))" for k a b c v
    using u mm_only_trans copy_pt_mm mm_only_upd(1) by blast
  from Suc.prems show ?case
    using u by (auto simp: halts g Let_def split: if_splits dest!: Suc.IH intro: mm_only_trans [OF step])
qed simp

lemma copy_page_tables_mm: "copy_page_tables f d n s = Some (r, t) \<Longrightarrow> mm_only s t"
  by (auto simp: copy_page_tables_def halts split: if_splits intro: copy_dirs_mm)

lemma un_wp_page_mm: "un_wp_page e s = Some t \<Longrightarrow> mm_only s t"
  by (auto simp: un_wp_page_def Let_def halts split: if_splits prod.splits dest!: get_free_page_mm
      intro!: mm_only_steps)

lemma write_verify_mm: "write_verify a s = Some t \<Longrightarrow> mm_only s t"
  by (auto simp: write_verify_def Let_def split: if_splits intro: un_wp_page_mm)

lemma verify_area_mm: "verify_area a n s = Some t \<Longrightarrow> mm_only s t"
  by (auto simp: verify_area_def Let_def intro: for_each_mm write_verify_mm)

text \<open>Nothing is mapped, so no page has to be un-shared.\<close>

lemma verify_unmapped:
  "hw32 s = (\<lambda>_. 0) \<Longrightarrow> verify_area a n s = Some s"
proof -
  assume h: "hw32 s = (\<lambda>_. 0)"
  then have "write_verify x s = Some s" for x by (simp add: write_verify_def present_def)
  then have "for_each ks (\<lambda>k. write_verify (start + 4096 * of_nat k)) s = Some s" for ks :: "nat list" and start
    by (induction ks) simp_all
  then show ?thesis by (simp add: verify_area_def Let_def)
qed

end
