(* ===== verification/Fork.thy ===== *)
theory Fork
  imports Memory Sched
begin

text \<open>
  kernel/fork.c: finding a slot and a process number for a new process, and building it as a copy
  of the running one. \<open>regs\<close> is the frame that the system-call entry leaves on the kernel stack,
  from which \<open>copy_process\<close> takes its arguments. Saving the coprocessor state and filling the
  descriptors of the global descriptor table have no counterpart in the state.
\<close>

section \<open>Definitions\<close>

record regs =
  ebp :: u32
  edi :: u32
  esi :: u32
  gs :: u32
  ebx :: u32
  ecx :: u32
  edx :: u32
  fs :: u32
  es :: u32
  ds :: u32
  eip :: u32
  cs :: u32
  eflags :: u32
  esp :: u32
  ss :: u32

abbreviation "PAGE_SIZE \<equiv> (4096 :: u32)"

definition copy_mem :: "nat \<Rightarrow> kernel \<Rightarrow> (int \<times> kernel) option" where
  "copy_mem nr s =
     (let code_limit = ldt_limit (cur s) 1; data_limit = ldt_limit (cur s) 2;
          old_code_base = ldt_base (cur s) 1; old_data_base = ldt_base (cur s) 2;
          new_base = of_nat nr * 0x4000000
      in if old_data_base \<noteq> old_code_base then panic ''We don't support separate I&D''
         else if data_limit < code_limit then panic ''Bad data_limit''
         else do {
           let s = upd_task nr (\<lambda>p. p\<lparr>start_code := new_base, ldt_base := (ldt_base p)(1 := new_base, 2 := new_base)\<rparr>) s;
           (r, s) \<leftarrow> copy_page_tables old_data_base new_base data_limit s;
           if r \<noteq> 0
           then do { (_, s) \<leftarrow> free_page_tables new_base data_limit s; Some (- ENOMEM, s) }
           else Some (0, s) })"

definition LDT_sel :: "nat \<Rightarrow> u32" where
  "LDT_sel nr = push_bit 4 (of_nat nr) + push_bit 3 5"

text \<open>The structure of the new process before its memory is copied, living in the page \<open>p\<close>.\<close>

definition child_of :: "task_struct \<Rightarrow> nat \<Rightarrow> u32 \<Rightarrow> int \<Rightarrow> int \<Rightarrow> regs \<Rightarrow> task_struct" where
  "child_of parent nr p newpid now r =
     parent\<lparr>state := TASK_UNINTERRUPTIBLE, pid := newpid, father := pid parent,
       counter := priority parent, signal := 0, alarm := 0, leader := False, utime := 0, stime := 0,
       cutime := 0, cstime := 0, start_time := now, t_page := p,
       tss := \<lparr>back_link = 0, esp0 = PAGE_SIZE + p, ss0 = 0x10, tss_eip = eip r, tss_eflags = eflags r,
               tss_eax = 0, tss_ecx = ecx r, tss_edx = edx r, tss_ebx = ebx r, tss_esp = esp r,
               tss_ebp = ebp r, tss_esi = esi r, tss_edi = edi r, tss_es = es r AND 0xffff,
               tss_cs = cs r AND 0xffff, tss_ss = ss r AND 0xffff, tss_ds = ds r AND 0xffff,
               tss_fs = fs r AND 0xffff, tss_gs = gs r AND 0xffff, tss_ldt = LDT_sel nr,
               trace_bitmap = 0x80000000\<rparr>\<rparr>"

definition share_file :: "(nat \<Rightarrow> nat option) \<Rightarrow> nat \<Rightarrow> kernel \<Rightarrow> kernel" where
  "share_file fp i s =
     (case fp i of None \<Rightarrow> s | Some f \<Rightarrow> upd_file f (\<lambda>f. f\<lparr>f_count := f_count f + 1\<rparr>) s)"

definition share_inode :: "nat option \<Rightarrow> kernel \<Rightarrow> kernel" where
  "share_inode i s = (case i of None \<Rightarrow> s | Some i \<Rightarrow> upd_ino i (\<lambda>n. n\<lparr>i_count := i_count n + 1\<rparr>) s)"

definition copy_process :: "nat \<Rightarrow> regs \<Rightarrow> kernel \<Rightarrow> (int \<times> kernel) option" where
  "copy_process nr r s =
     (let (p, s) = get_free_page s in
      if p = 0 then Some (- EAGAIN, s)
      else do {
        let s = s\<lparr>task := (task s)(nr := Some (child_of (cur s) nr p (sint (last_pid s)) (jiffies s) r))\<rparr>;
        (e, s) \<leftarrow> copy_mem nr s;
        if e \<noteq> 0
        then do { let s = s\<lparr>task := (task s)(nr := None)\<rparr>;
                  s \<leftarrow> free_page p s;
                  Some (- EAGAIN, s) }
        else
          let s = fold (share_file (filp (the (task s nr)))) [0..<NR_OPEN] s;
              s = share_inode (pwd (cur s)) s;
              s = share_inode (root (cur s)) s;
              s = share_inode (executable (cur s)) s;
              s = upd_task nr (\<lambda>p. p\<lparr>state := TASK_RUNNING\<rparr>) s
          in Some (sint (last_pid s), s) })"

definition next_pid :: "u32 \<Rightarrow> u32" where
  "next_pid l = (if sint (l + 1) < 0 then 1 else l + 1)"

definition pid_used :: "kernel \<Rightarrow> u32 \<Rightarrow> bool" where
  "pid_used s l \<longleftrightarrow> (\<exists>i\<in>set [0..<NR_TASKS]. case task s i of None \<Rightarrow> False | Some p \<Rightarrow> pid p = sint l)"

partial_function (option) fresh_pid :: "kernel \<Rightarrow> u32 \<Rightarrow> u32 option" where
  "fresh_pid s l = (let l = next_pid l in if pid_used s l then fresh_pid s l else Some l)"

definition find_empty_process :: "kernel \<Rightarrow> (int \<times> kernel) option" where
  "find_empty_process s =
     do { l \<leftarrow> fresh_pid s (last_pid s);
          let s = s\<lparr>last_pid := l\<rparr>;
          (case find (\<lambda>i. task s i = None) [1..<NR_TASKS] of
             Some i \<Rightarrow> Some (int i, s)
           | None \<Rightarrow> Some (- EAGAIN, s)) }"

section \<open>A fresh process number is always found\<close>

definition pids :: "kernel \<Rightarrow> int set" where
  "pids s = (\<lambda>i. pid (the (task s i))) ` {i. i < NR_TASKS \<and> task s i \<noteq> None}"

lemma pid_used_iff: "pid_used s l \<longleftrightarrow> sint l \<in> pids s"
  by (force simp: pid_used_def pids_def split: option.splits)

lemma card_pids: "finite (pids s)" "card (pids s) \<le> NR_TASKS"
proof -
  let ?I = "{i. i < NR_TASKS \<and> task s i \<noteq> None}"
  have fin: "finite ?I" by simp
  then show "finite (pids s)" unfolding pids_def by (rule finite_imageI)
  have "?I \<subseteq> {..<NR_TASKS}" by auto
  then have "card ?I \<le> NR_TASKS" using card_mono [OF finite_lessThan] by force
  then show "card (pids s) \<le> NR_TASKS"
    unfolding pids_def using card_image_le [OF fin, of "\<lambda>i. pid (the (task s i))"] by linarith
qed

text \<open>Process numbers as 31-bit integers: the successor wraps to 1.\<close>

lemma sint_next_pid:
  assumes "0 \<le> sint l"
  shows "sint (next_pid l) = (if sint l + 1 < 2147483648 then sint l + 1 else 1)"
proof (cases "sint l + 1 < 2147483648")
  case True
  then have "sint (l + 1) = sint l + 1"
    using assms by (simp add: sint_word_ariths signed_take_bit_int_eq_self)
  then show ?thesis using True assms by (simp add: next_pid_def)
next
  case False
  then have "sint l = 2147483647" using sint_lt [of l] by simp
  then have "l = 0x7fffffff" by (intro signed_word_eqI) simp
  then show ?thesis by (simp add: next_pid_def)
qed

lemma fresh_pid_step: "pid_used s (next_pid l) \<Longrightarrow> fresh_pid s l = fresh_pid s (next_pid l)"
  by (subst fresh_pid.simps) (simp add: Let_def)

lemma fresh_pid_stop: "\<not> pid_used s (next_pid l) \<Longrightarrow> fresh_pid s l = Some (next_pid l)"
  by (subst fresh_pid.simps) (simp add: Let_def)

text \<open>With enough room below the wrap, the search ends: the numbers in use cannot fill it.\<close>

lemma fresh_pid_room:
  assumes "0 \<le> sint l" "sint l + int n < 2147483648" "card (pids s \<inter> {sint l<..}) < n"
  shows "\<exists>r. fresh_pid s l = Some r \<and> 0 < sint r \<and> \<not> pid_used s r"
  using assms
proof (induction n arbitrary: l)
  case (Suc n)
  have nx: "sint (next_pid l) = sint l + 1" using sint_next_pid Suc.prems by simp
  show ?case
  proof (cases "pid_used s (next_pid l)")
    case False
    then show ?thesis using fresh_pid_stop nx Suc.prems(1) by force
  next
    case True
    then have mem: "sint l + 1 \<in> pids s" by (simp add: pid_used_iff nx)
    have "pids s \<inter> {sint l<..} = insert (sint l + 1) (pids s \<inter> {sint l + 1<..})" using mem by auto
    then have "card (pids s \<inter> {sint l<..}) = Suc (card (pids s \<inter> {sint l + 1<..}))"
      using card_pids(1) by simp
    then have "card (pids s \<inter> {sint (next_pid l)<..}) < n" using Suc.prems(3) nx by simp
    then show ?thesis
      using Suc.IH [of "next_pid l"] Suc.prems(1,2) nx fresh_pid_step [OF True] by simp
  qed
qed simp

lemma fresh_pid_total:
  assumes "0 \<le> sint l"
  shows "\<exists>r. fresh_pid s l = Some r \<and> 0 < sint r \<and> \<not> pid_used s r"
  using assms
proof (induction "nat (2147483648 - sint l)" arbitrary: l rule: less_induct)
  case less
  show ?case
  proof (cases "pid_used s (next_pid l)")
    case False
    then show ?thesis using fresh_pid_stop sint_next_pid [OF less.prems] less.prems by (force split: if_splits)
  next
    case used: True
    show ?thesis
    proof (cases "sint l + 1 < 2147483648")
      case True
      then have "sint (next_pid l) = sint l + 1" using sint_next_pid less.prems by simp
      then show ?thesis using less True fresh_pid_step [OF used] by simp
    next
      case False
      then have one: "sint (next_pid l) = 1" using sint_next_pid less.prems by simp
      have "card (pids s \<inter> {1<..}) \<le> NR_TASKS"
        using card_pids [of s] card_mono [of "pids s" "pids s \<inter> {1<..}"] by simp
      then show ?thesis using fresh_pid_room [of "next_pid l" 65 s] one fresh_pid_step [OF used] by simp
    qed
  qed
qed

text \<open>
  C10: \<open>find_empty_process\<close> always ends, whatever process numbers are in use: the new \<open>last_pid\<close> is
  positive and belongs to no existing process, and the result is the lowest free task slot from 1
  on, or \<open>-EAGAIN\<close> exactly when all of them are taken; nothing else changes.
\<close>

theorem find_empty_process_fresh:
  assumes "0 \<le> sint (last_pid s)"
  shows "\<exists>r l. find_empty_process s = Some (r, s\<lparr>last_pid := l\<rparr>) \<and> 0 < sint l \<and>
     (\<forall>i<NR_TASKS. \<forall>p. task s i = Some p \<longrightarrow> pid p \<noteq> sint l) \<and>
     (r = - EAGAIN \<and> (\<forall>i. 1 \<le> i \<longrightarrow> i < NR_TASKS \<longrightarrow> task s i \<noteq> None) \<or>
      (\<exists>i. r = int i \<and> 1 \<le> i \<and> i < NR_TASKS \<and> task s i = None \<and>
           (\<forall>j. 1 \<le> j \<longrightarrow> j < i \<longrightarrow> task s j \<noteq> None)))"
proof -
  obtain l where l: "fresh_pid s (last_pid s) = Some l" "0 < sint l" "\<not> pid_used s l"
    using fresh_pid_total [OF assms] by blast
  have unused: "\<forall>i<NR_TASKS. \<forall>p. task s i = Some p \<longrightarrow> pid p \<noteq> sint l"
    using l(3) by (force simp: pid_used_iff pids_def image_iff)
  show ?thesis
  proof (cases "find (\<lambda>i. task s i = None) [1..<NR_TASKS]")
    case None
    then have "\<forall>i. 1 \<le> i \<longrightarrow> i < NR_TASKS \<longrightarrow> task s i \<noteq> None" by (simp add: find_None_upt)
    moreover have "find_empty_process s = Some (- EAGAIN, s\<lparr>last_pid := l\<rparr>)"
      using l(1) None by (simp add: find_empty_process_def)
    ultimately show ?thesis using l(2) unused by blast
  next
    case (Some i)
    have "find_empty_process s = Some (int i, s\<lparr>last_pid := l\<rparr>)"
      using l(1) Some by (simp add: find_empty_process_def)
    then show ?thesis using l(2) unused find_Some_first [OF Some] by blast
  qed
qed

theorem find_empty_process_fresh_witness:
  "\<exists>r l. find_empty_process boot_kernel = Some (r, boot_kernel\<lparr>last_pid := l\<rparr>) \<and> 0 < sint l \<and> r = 1"
proof -
  have "0 \<le> sint (last_pid boot_kernel)" by simp
  from find_empty_process_fresh [OF this] obtain r l where
    r: "find_empty_process boot_kernel = Some (r, boot_kernel\<lparr>last_pid := l\<rparr>)" "0 < sint l"
    "r = - EAGAIN \<and> (\<forall>i. 1 \<le> i \<longrightarrow> i < NR_TASKS \<longrightarrow> task boot_kernel i \<noteq> None) \<or>
      (\<exists>i. r = int i \<and> 1 \<le> i \<and> i < NR_TASKS \<and> task boot_kernel i = None \<and>
           (\<forall>j. 1 \<le> j \<longrightarrow> j < i \<longrightarrow> task boot_kernel j \<noteq> None))"
    by blast
  have "task boot_kernel 1 = None" by simp
  then obtain i where i: "r = int i" "1 \<le> i" "\<forall>j. 1 \<le> j \<longrightarrow> j < i \<longrightarrow> task boot_kernel j \<noteq> None"
    using r(3) by force
  have "\<not> 1 < i" using i(3) \<open>task boot_kernel 1 = None\<close> by blast
  then have "r = 1" using i(1,2) by simp
  then show ?thesis using r(1,2) by blast
qed

section \<open>The new process\<close>

lemma share_file_simps [simp]:
  "task (share_file fp i s) = task s" "current (share_file fp i s) = current s"
  "inode_table (share_file fp i s) = inode_table s" "last_pid (share_file fp i s) = last_pid s"
  by (simp_all add: share_file_def split: option.splits)

lemma fold_share_file_simps [simp]:
  "task (fold (share_file fp) xs s) = task s" "current (fold (share_file fp) xs s) = current s"
  "inode_table (fold (share_file fp) xs s) = inode_table s" "last_pid (fold (share_file fp) xs s) = last_pid s"
  "cur (fold (share_file fp) xs s) = cur s"
  by (induction xs arbitrary: s) (simp_all add: cur_def)

lemma share_inode_simps [simp]:
  "task (share_inode i s) = task s" "current (share_inode i s) = current s" "cur (share_inode i s) = cur s"
  "file_table (share_inode i s) = file_table s" "last_pid (share_inode i s) = last_pid s"
  by (simp_all add: share_inode_def split: option.splits)

definition fds_of :: "(nat \<Rightarrow> nat option) \<Rightarrow> nat \<Rightarrow> nat \<Rightarrow> nat set" where
  "fds_of fp n f = {i. i < n \<and> fp i = Some f}"

lemma fds_of_Suc:
  "fds_of fp (Suc n) f = (if fp n = Some f then insert n (fds_of fp n f) else fds_of fp n f)"
  by (auto simp: fds_of_def less_Suc_eq)

lemma finite_fds_of [simp]: "finite (fds_of fp n f)" and fds_of_notin [simp]: "n \<notin> fds_of fp n f"
  by (simp_all add: fds_of_def)

lemma share_files_count:
  "f_count (file_table (fold (share_file fp) [0..<n] s) f) =
     f_count (file_table s f) + of_nat (card (fds_of fp n f))"
proof (induction n)
  case 0
  show ?case by (simp add: fds_of_def)
next
  case (Suc n)
  show ?case
  proof (cases "fp n")
    case None
    then show ?thesis using Suc by (simp add: share_file_def fds_of_Suc)
  next
    case (Some g)
    then show ?thesis using Suc by (auto simp: share_file_def fds_of_Suc)
  qed
qed

lemma copy_mem_SomeD:
  assumes "copy_mem nr s = Some (e, t)"
  shows "\<exists>base. task t = (task s)(nr := map_option
      (\<lambda>p. p\<lparr>start_code := base, ldt_base := (ldt_base p)(1 := base, 2 := base)\<rparr>) (task s nr)) \<and>
    base = of_nat nr * 0x4000000 \<and> current t = current s \<and> file_table t = file_table s \<and>
    inode_table t = inode_table s \<and> last_pid t = last_pid s"
proof -
  let ?b = "of_nat nr * 0x4000000 :: u32"
  let ?u = "upd_task nr (\<lambda>p. p\<lparr>start_code := ?b, ldt_base := (ldt_base p)(1 := ?b, 2 := ?b)\<rparr>) s"
  obtain k v where v: "copy_page_tables (ldt_base (cur s) 2) ?b (ldt_limit (cur s) 2) ?u = Some (k, v)"
    and t: "t = v \<or> (\<exists>k. free_page_tables ?b (ldt_limit (cur s) 2) v = Some (k, t))"
    using assms by (auto simp: copy_mem_def Let_def halts bind_Some_iff split: if_splits)
  have "mm_only ?u t" using t copy_page_tables_mm [OF v] free_page_tables_mm mm_only_trans by blast
  then show ?thesis using mm_onlyD [of ?u t] by (intro exI [of _ ?b]) simp
qed

text \<open>
  C6: \<open>fork\<close>'s child. When \<open>copy_process\<close> returns, either it failed with \<open>-EAGAIN\<close> and no task, file
  or inode is changed, or the slot holds a runnable copy of the caller with the process number that
  is returned, the caller as its father, no pending signals, zeroed times, its own 64 MB code and
  data area, the caller's descriptors, identity and directories, and 0 as the value \<open>fork\<close> returns in
  it; no other task is changed, and each file's count grew by the number of the descriptors that
  refer to it.
\<close>

theorem copy_process_child:
  assumes run: "copy_process nr r s = Some (res, t)" and nr: "nr \<noteq> current s" "task s nr = None"
    and q: "task s (current s) = Some q"
  shows "(res = - EAGAIN \<and> task t = task s \<and> file_table t = file_table s \<and> inode_table t = inode_table s) \<or>
    (res = sint (last_pid s) \<and> (\<forall>i. i \<noteq> nr \<longrightarrow> task t i = task s i) \<and>
     (\<exists>c. task t nr = Some c \<and> pid c = res \<and> father c = pid q \<and> state c = TASK_RUNNING \<and>
        signal c = 0 \<and> counter c = priority q \<and> utime c = 0 \<and> stime c = 0 \<and> tss_eax (tss c) = 0 \<and>
        tss_eip (tss c) = eip r \<and> ldt_base c 1 = of_nat nr * 0x4000000 \<and> ldt_base c 2 = ldt_base c 1 \<and>
        filp c = filp q \<and> uid c = uid q \<and> euid c = euid q \<and> gid c = gid q \<and> egid c = egid q \<and>
        pwd c = pwd q \<and> root c = root q \<and> pgrp c = pgrp q \<and> session c = session q) \<and>
     (\<forall>f. f_count (file_table t f) = f_count (file_table s f) + of_nat (card (fds_of (filp q) NR_OPEN f))))"
proof -
  obtain p u where g: "get_free_page s = (p, u)" by (cases "get_free_page s")
  note u = mm_onlyD [OF get_free_page_mm [OF g]]
  show ?thesis
  proof (cases "p = 0")
    case True
    then show ?thesis using run g u by (auto simp: copy_process_def)
  next
    case False
    let ?c = "child_of (cur u) nr p (sint (last_pid u)) (jiffies u) r"
    let ?v = "u\<lparr>task := (task u)(nr := Some ?c)\<rparr>"
    from run False g obtain e w where w: "copy_mem nr ?v = Some (e, w)"
      by (auto simp: copy_process_def bind_Some_iff)
    obtain base where b: "task w = (task ?v)(nr := Some (?c\<lparr>start_code := base,
          ldt_base := (ldt_base ?c)(1 := base, 2 := base)\<rparr>))" "base = of_nat nr * 0x4000000"
        "current w = current s" "file_table w = file_table s" "inode_table w = inode_table s"
        "last_pid w = last_pid s"
      using copy_mem_SomeD [OF w] u by auto
    have cu: "cur u = q" using u q by (simp add: cur_def)
    have cw: "cur w = q" using b(1,3) nr q u by (simp add: cur_def)
    show ?thesis
    proof (cases "e = 0")
      case False
      then obtain x where "free_page p (w\<lparr>task := (task w)(nr := None)\<rparr>) = Some t" "res = - EAGAIN"
        using run \<open>p \<noteq> 0\<close> g w by (auto simp: copy_process_def bind_Some_iff)
      then show ?thesis using mm_onlyD [OF free_page_mm] b u nr by (auto simp: fun_upd_idem)
    next
      case True
      let ?f = "fold (share_file (filp (the (task w nr)))) [0..<NR_OPEN] w"
      have t: "t = upd_task nr (\<lambda>p. p\<lparr>state := TASK_RUNNING\<rparr>)
          (share_inode (executable q) (share_inode (root q) (share_inode (pwd q) ?f)))"
        and res: "res = sint (last_pid w)"
        using run \<open>p \<noteq> 0\<close> g w True cw by (simp_all add: copy_process_def Let_def del: upt_Suc)
      have fp: "filp (the (task w nr)) = filp q" using b(1) cu by (simp add: child_of_def)
      have cnt: "f_count (file_table t f) = f_count (file_table s f) + of_nat (card (fds_of (filp q) NR_OPEN f))" for f
        unfolding t fp by (simp add: share_files_count b(4) del: upt_Suc upt_rec_numeral)
      have "task t = (task w)(nr := map_option (\<lambda>p. p\<lparr>state := TASK_RUNNING\<rparr>) (task w nr))"
        unfolding t by simp
      then show ?thesis using cnt res b(1,2,6) cu u by (simp add: child_of_def)
    qed
  qed
qed

text \<open>Process 0 forks with all of memory free and no page tables of its own to copy.\<close>

definition fork_state :: kernel where
  "fork_state = boot_kernel\<lparr>last_pid := 7\<rparr>"

definition zero_regs :: regs where
  "zero_regs = \<lparr>ebp = 0, edi = 0, esi = 0, gs = 0, ebx = 0, ecx = 0, edx = 0, fs = 0, es = 0, ds = 0,
     eip = 0, cs = 0, eflags = 0, esp = 0, ss = 0\<rparr>"

theorem copy_process_child_witness:
  "\<exists>t c. copy_process 1 zero_regs fork_state = Some (7, t) \<and> task t 1 = Some c \<and> pid c = 7 \<and>
     father c = 0 \<and> state c = TASK_RUNNING"
proof -
  have g: "get_free_page fork_state = (page_addr 3839, clear_page (page_addr 3839)
      (fork_state\<lparr>mem_map := (mem_map fork_state)(3839 := 1)\<rparr>))"
    by (rule get_free_page_top) (simp add: fork_state_def)
  have fs: "task fork_state 0 = Some init_task" "current fork_state = 0" "hw32 fork_state = (\<lambda>_. 0)"
      "last_pid fork_state = 7" "ldt_base init_task (Suc 0) = 0" "ldt_base init_task 2 = 0"
      "ldt_limit init_task (Suc 0) = 0xa0000" "ldt_limit init_task 2 = 0xa0000"
    by (simp_all add: fork_state_def init_task_def)
  let ?u = "snd (get_free_page fork_state)"
  let ?c = "child_of (cur ?u) 1 (page_addr 3839) (sint (last_pid ?u)) (jiffies ?u) zero_regs"
  let ?v = "?u\<lparr>task := (task ?u)(1 := Some ?c)\<rparr>"
  have hw: "hw32 (clear_page (page_addr 3839) (fork_state\<lparr>mem_map := m\<rparr>)) = (\<lambda>_. 0)" for m
    by (auto simp: clear_page_def fs fun_eq_iff)
  have "copy_dirs n z f d w = Some (0, w)" if "hw32 w = (\<lambda>_. 0)" for n z f d w
    using that by (induction n arbitrary: f d) (simp_all add: present_def)
  then have "copy_page_tables 0 0x4000000 0xa0000 w = Some (0, w)" if "hw32 w = (\<lambda>_. 0)" for w
    using that by (simp add: copy_page_tables_def present_def)
  then have "copy_mem 1 ?v = Some (0, upd_task 1 (\<lambda>p. p\<lparr>start_code := 0x4000000,
      ldt_base := (ldt_base p)(1 := 0x4000000, 2 := 0x4000000)\<rparr>) ?v)"
    using hw by (simp add: g copy_mem_def cur_def fs child_of_def Let_def)
  moreover have "last_pid ?v = 7" by (simp add: g clear_page_def fs)
  ultimately obtain t where t: "copy_process 1 zero_regs fork_state = Some (7, t)"
    by (simp add: copy_process_def g page_addr_def)
  show ?thesis using copy_process_child [OF t] t by (auto simp: fork_state_def init_task_def)
qed

end
