(* ===== verification/Sys.thy ===== *)
theory Sys
  imports Memory
begin

text \<open>
  kernel/sys.c: the calls that read and set the identity of a process, its times, its break, its
  process group and session. A null user pointer is the address 0.
\<close>

section \<open>Definitions\<close>

definition sys_ftime :: int where "sys_ftime = - ENOSYS"
definition sys_break :: int where "sys_break = - ENOSYS"
definition sys_ptrace :: int where "sys_ptrace = - ENOSYS"
definition sys_stty :: int where "sys_stty = - ENOSYS"
definition sys_gtty :: int where "sys_gtty = - ENOSYS"
definition sys_rename :: int where "sys_rename = - ENOSYS"
definition sys_prof :: int where "sys_prof = - ENOSYS"
definition sys_acct :: int where "sys_acct = - ENOSYS"
definition sys_phys :: int where "sys_phys = - ENOSYS"
definition sys_lock :: int where "sys_lock = - ENOSYS"
definition sys_mpx :: int where "sys_mpx = - ENOSYS"
definition sys_ulimit :: int where "sys_ulimit = - ENOSYS"

definition set_egid :: "int \<Rightarrow> kernel \<Rightarrow> int \<times> kernel" where
  "set_egid g s =
     (if g > 0
      then if uint (gid (cur s)) = g \<or> uint (egid (cur s)) = g \<or> uint (sgid (cur s)) = g \<or> suser s
           then (0, upd_cur (\<lambda>p. p\<lparr>egid := word_of_int g\<rparr>) s)
           else (- EPERM, s)
      else (0, s))"

definition sys_setregid :: "int \<Rightarrow> int \<Rightarrow> kernel \<Rightarrow> int \<times> kernel" where
  "sys_setregid rgid g s =
     (if rgid > 0
      then if uint (gid (cur s)) = rgid \<or> suser s
           then set_egid g (upd_cur (\<lambda>p. p\<lparr>gid := word_of_int rgid\<rparr>) s)
           else (- EPERM, s)
      else set_egid g s)"

definition sys_setgid :: "int \<Rightarrow> kernel \<Rightarrow> int \<times> kernel" where
  "sys_setgid g s = sys_setregid g g s"

definition sys_time :: "u32 \<Rightarrow> kernel \<Rightarrow> (int \<times> kernel) option" where
  "sys_time tloc s =
     (let i = CURRENT_TIME s in
      if tloc \<noteq> 0
      then do { s \<leftarrow> verify_area tloc 4 s; Some (i, put_fs_long (word_of_int i) tloc s) }
      else Some (i, s))"

definition set_euid :: "u16 \<Rightarrow> int \<Rightarrow> kernel \<Rightarrow> int \<times> kernel" where
  "set_euid old_ruid e s =
     (if e > 0
      then if uint old_ruid = e \<or> uint (euid (cur s)) = e \<or> suser s
           then (0, upd_cur (\<lambda>p. p\<lparr>euid := word_of_int e\<rparr>) s)
           else (- EPERM, upd_cur (\<lambda>p. p\<lparr>uid := old_ruid\<rparr>) s)
      else (0, s))"

definition sys_setreuid :: "int \<Rightarrow> int \<Rightarrow> kernel \<Rightarrow> int \<times> kernel" where
  "sys_setreuid ruid e s =
     (let old_ruid = uid (cur s) in
      if ruid > 0
      then if uint (euid (cur s)) = ruid \<or> uint old_ruid = ruid \<or> suser s
           then set_euid old_ruid e (upd_cur (\<lambda>p. p\<lparr>uid := word_of_int ruid\<rparr>) s)
           else (- EPERM, s)
      else set_euid old_ruid e s)"

definition sys_setuid :: "int \<Rightarrow> kernel \<Rightarrow> int \<times> kernel" where
  "sys_setuid u s = sys_setreuid u u s"

definition sys_stime :: "u32 \<Rightarrow> kernel \<Rightarrow> int \<times> kernel" where
  "sys_stime tptr s =
     (if \<not> suser s then (- EPERM, s)
      else (0, s\<lparr>startup_time := sint (get_fs_long tptr s - word_of_int (jiffies s sdiv HZ))\<rparr>))"

definition sys_times :: "u32 \<Rightarrow> kernel \<Rightarrow> (int \<times> kernel) option" where
  "sys_times tbuf s =
     (if tbuf \<noteq> 0
      then do {
        s \<leftarrow> verify_area tbuf 16 s;
        let s = put_fs_long (word_of_int (utime (cur s))) tbuf s;
        let s = put_fs_long (word_of_int (stime (cur s))) (tbuf + 4) s;
        let s = put_fs_long (word_of_int (cutime (cur s))) (tbuf + 8) s;
        let s = put_fs_long (word_of_int (cstime (cur s))) (tbuf + 12) s;
        Some (jiffies s, s) }
      else Some (jiffies s, s))"

definition sys_brk :: "u32 \<Rightarrow> kernel \<Rightarrow> int \<times> kernel" where
  "sys_brk end_data_seg s =
     (let s = (if end_data_seg \<ge> end_code (cur s) \<and> end_data_seg < start_stack (cur s) - 16384
               then upd_cur (\<lambda>p. p\<lparr>brk := end_data_seg\<rparr>) s else s)
      in (sint (brk (cur s)), s))"

definition sys_setpgid :: "int \<Rightarrow> int \<Rightarrow> kernel \<Rightarrow> int \<times> kernel" where
  "sys_setpgid pid0 pgid0 s =
     (let p = (if pid0 = 0 then pid (cur s) else pid0);
          g = (if pgid0 = 0 then pid (cur s) else pgid0)
      in case find (\<lambda>i. case task s i of None \<Rightarrow> False | Some q \<Rightarrow> pid q = p) [0..<NR_TASKS] of
           None \<Rightarrow> (- ESRCH, s)
         | Some i \<Rightarrow>
             if leader (the (task s i)) then (- EPERM, s)
             else if session (the (task s i)) \<noteq> session (cur s) then (- EPERM, s)
             else (0, upd_task i (\<lambda>q. q\<lparr>pgrp := g\<rparr>) s))"

definition sys_getpgrp :: "kernel \<Rightarrow> int" where
  "sys_getpgrp s = pgrp (cur s)"

definition sys_setsid :: "kernel \<Rightarrow> int \<times> kernel" where
  "sys_setsid s =
     (if leader (cur s) \<and> \<not> suser s then (- EPERM, s)
      else
        let s = upd_cur (\<lambda>p. p\<lparr>leader := True, pgrp := pid p, session := pid p, tty := -1\<rparr>) s
        in (pgrp (cur s), s))"

text \<open>The five nine-byte fields of \<open>thisname\<close>, each a string of eight characters and its NUL.\<close>

definition thisname :: "u8 list" where
  "thisname = concat (map (\<lambda>f. map of_char f @ [0])
     [''linux .0'', ''nodename'', ''release '', ''version '', ''machine ''])"

definition sys_uname :: "u32 \<Rightarrow> kernel \<Rightarrow> (int \<times> kernel) option" where
  "sys_uname name s =
     (if name = 0 then Some (- ERROR, s)
      else do {
        s \<leftarrow> verify_area name 45 s;
        Some (0, fold (\<lambda>i. put_fs_byte (thisname ! i) (of_nat i + name)) [0..<45] s) })"

definition sys_umask :: "int \<Rightarrow> kernel \<Rightarrow> int \<times> kernel" where
  "sys_umask m s = (uint (umask (cur s)), upd_cur (\<lambda>p. p\<lparr>umask := word_of_int (m AND 0x1ff)\<rparr>) s)"

section \<open>Who may become whom\<close>

lemma cur_upd_cur [simp]: "task s (current s) = Some q \<Longrightarrow> cur (upd_cur f s) = f (cur s)"
  by (simp add: cur_def upd_cur_def)

text \<open>The running process replaced by \<open>q\<close>; every update of the running process has this form.\<close>

definition set_cur :: "task_struct \<Rightarrow> kernel \<Rightarrow> kernel" where
  "set_cur q s = s\<lparr>task := (task s)(current s := Some q)\<rparr>"

lemma upd_cur_set_cur: "task s (current s) = Some q \<Longrightarrow> upd_cur f s = set_cur (f q) s"
  by (simp add: upd_cur_def upd_task_def set_cur_def)

lemma set_cur_simps [simp]:
  "task (set_cur q s) (current s) = Some q" "current (set_cur q s) = current s" "cur (set_cur q s) = q"
  "set_cur p (set_cur q s) = set_cur p s"
  by (simp_all add: set_cur_def cur_def)

lemma set_cur_same: "task s (current s) = Some q \<Longrightarrow> set_cur q s = s"
  by (simp add: set_cur_def fun_upd_idem)

text \<open>What \<open>setreuid\<close> does for an unprivileged process \<open>q\<close>.\<close>

lemma setreuid_eq:
  assumes q: "task s (current s) = Some q" and ns: "euid q \<noteq> 0"
  shows "sys_setreuid ruid e s =
    (if (ruid > 0 \<longrightarrow> ruid \<in> {uint (uid q), uint (euid q)}) \<and> (e > 0 \<longrightarrow> e \<in> {uint (uid q), uint (euid q)})
     then (0, set_cur (q\<lparr>uid := if ruid > 0 then word_of_int ruid else uid q,
                         euid := if e > 0 then word_of_int e else euid q\<rparr>) s)
     else (- EPERM, s))"
proof -
  have cu: "cur s = q" using q by (simp add: cur_def)
  have cu': "upd_cur f (set_cur p s) = set_cur (f p) s" for f p
    using upd_cur_set_cur [of "set_cur p s" p f] by simp
  show ?thesis
    using ns by (auto simp: sys_setreuid_def set_euid_def Let_def suser_def cu cu' upd_cur_set_cur [OF q] set_cur_same [OF q])
qed

text \<open>
  C13: an unprivileged process gains no identity from \<open>setreuid\<close>: the real and the effective user
  afterwards are each one of the two it had before, an error is \<open>-EPERM\<close> and changes nothing, and no
  field of any task but the two identities is touched. \<open>setuid\<close> is the same call.
\<close>

theorem setreuid_no_escalation:
  assumes q: "task s (current s) = Some q" and ns: "\<not> suser s"
    and run: "sys_setreuid ruid e s = (r, t)"
  shows "uid (cur t) \<in> {uid q, euid q} \<and> euid (cur t) \<in> {uid q, euid q} \<and>
    (r \<noteq> 0 \<longrightarrow> r = - EPERM \<and> t = s) \<and>
    (\<exists>u v. t = upd_cur (\<lambda>p. p\<lparr>uid := u, euid := v\<rparr>) s)"
proof -
  have cu: "cur s = q" using q by (simp add: cur_def)
  then have ns': "euid q \<noteq> 0" using ns by (simp add: suser_def)
  have ids: "\<exists>u v. set_cur (q\<lparr>uid := a, euid := b\<rparr>) s = upd_cur (\<lambda>p. p\<lparr>uid := u, euid := v\<rparr>) s" for a b
    by (simp add: upd_cur_set_cur [OF q]) blast
  have "\<exists>u v. s = upd_cur (\<lambda>p. p\<lparr>uid := u, euid := v\<rparr>) s"
    using ids [where a = "uid q" and b = "euid q"] set_cur_same [OF q] by simp
  moreover have "t = s \<or> (\<exists>a b. t = set_cur (q\<lparr>uid := a, euid := b\<rparr>) s)"
    using run unfolding setreuid_eq [OF q ns'] by (metis prod.inject)
  ultimately have "\<exists>u v. t = upd_cur (\<lambda>p. p\<lparr>uid := u, euid := v\<rparr>) s" using ids by metis
  moreover have "uid (cur t) \<in> {uid q, euid q}" "euid (cur t) \<in> {uid q, euid q}"
      "r \<noteq> 0 \<longrightarrow> r = - EPERM \<and> t = s"
    using run cu by (auto simp: setreuid_eq [OF q ns'] split: if_splits)
  ultimately show ?thesis by blast
qed

theorem setreuid_no_escalation_witness:
  "\<exists>s t. \<not> suser s \<and> sys_setreuid 7 0 s = (- EPERM, t) \<and> t = s"
proof -
  let ?q = "init_task\<lparr>uid := 5, euid := 6\<rparr>"
  let ?s = "boot_kernel\<lparr>task := (\<lambda>_. Some ?q)\<rparr>"
  have q: "task ?s (current ?s) = Some ?q" by simp
  have ns: "\<not> suser ?s" by (simp add: suser_def cur_def)
  obtain r t where run: "sys_setreuid 7 0 ?s = (r, t)" by (cases "sys_setreuid 7 0 ?s")
  have "r = - EPERM" using run by (simp add: sys_setreuid_def cur_def suser_def Let_def)
  moreover have "t = s" if "s = ?s" for s
    using setreuid_no_escalation [OF q ns run] \<open>r = - EPERM\<close> that by simp
  ultimately show ?thesis using run ns by (intro exI [of _ ?s] exI [of _ t]) simp
qed

end
