(* ===== verification/Inode.thy ===== *)
theory Inode
  imports Buffer Memory
begin

text \<open>
  fs/bitmap.c, fs/truncate.c and the rest of fs/inode.c: the allocation bitmaps, freeing the blocks
  of a file, the map from file blocks to disk blocks, and the table of inodes in memory. The bit
  instructions work on the data of a buffer; \<open>find_first_zero\<close> scans it in longs, as the assembler
  loop does.
\<close>

section \<open>Bitmaps\<close>

definition test_bit :: "(nat \<Rightarrow> u8) \<Rightarrow> nat \<Rightarrow> bool" where
  "test_bit d nr \<longleftrightarrow> bit (d (nr div 8)) (nr mod 8)"

definition set_bit_at :: "nat \<Rightarrow> (nat \<Rightarrow> u8) \<Rightarrow> (nat \<Rightarrow> u8)" where
  "set_bit_at nr d = d(nr div 8 := d (nr div 8) OR push_bit (nr mod 8) 1)"

definition clear_bit_at :: "nat \<Rightarrow> (nat \<Rightarrow> u8) \<Rightarrow> (nat \<Rightarrow> u8)" where
  "clear_bit_at nr d = d(nr div 8 := d (nr div 8) AND NOT (push_bit (nr mod 8) 1))"

text \<open>\<open>bsfl\<close>: the lowest bit set, for a word that is not 0.\<close>

definition bsf :: "u32 \<Rightarrow> nat" where
  "bsf w = (case find (bit w) [0..<32] of None \<Rightarrow> 0 | Some k \<Rightarrow> k)"

fun scan_longs :: "(nat \<Rightarrow> u8) \<Rightarrow> nat list \<Rightarrow> nat \<Rightarrow> nat" where
  "scan_longs d [] ecx = ecx"
| "scan_longs d (k # ks) ecx =
     (let eax = NOT (rd32 d (4 * k)) in if eax = 0 then scan_longs d ks (ecx + 32) else ecx + bsf eax)"

definition find_first_zero :: "(nat \<Rightarrow> u8) \<Rightarrow> nat" where
  "find_first_zero d = scan_longs d [0..<256] 0"

text \<open>The first map block with a clear bit, among the eight slots of a map: its slot, buffer and bit.\<close>

fun first_clear :: "nat list \<Rightarrow> (nat \<Rightarrow> nat option) \<Rightarrow> kernel \<Rightarrow> (nat \<times> nat \<times> nat) option" where
  "first_clear [] m s = None"
| "first_clear (i # is) m s =
     (case m i of
        None \<Rightarrow> first_clear is m s
      | Some bh \<Rightarrow>
          let j = find_first_zero (b_data (bufs s bh))
          in if j < 8192 then Some (i, bh, j) else first_clear is m s)"

definition free_block :: "int \<Rightarrow> int \<Rightarrow> kernel \<Rightarrow> kernel option" where
  "free_block dev block s =
     do { (sb, s) \<leftarrow> get_super dev s;
          (case sb of
             None \<Rightarrow> panic ''trying to free block on nonexistent device''
           | Some sb \<Rightarrow>
               if block < uint (s_firstdatazone (super_tab s sb)) \<or> block \<ge> uint (s_nzones (super_tab s sb))
               then panic ''trying to free block not in datazone''
               else do {
                 (bh, s) \<leftarrow> get_hash_table dev block s;
                 (r, s) \<leftarrow> (case bh of
                     None \<Rightarrow> Some (True, s)
                   | Some bh \<Rightarrow>
                       if b_count (bufs s bh) \<noteq> 1 then Some (False, s)
                       else do {
                         let s = upd_buf bh (\<lambda>b. b\<lparr>b_dirt := False, b_uptodate := False\<rparr>) s;
                         s \<leftarrow> brelse (Some bh) s;
                         Some (True, s) });
                 if \<not> r then Some s
                 else
                   let b = nat (block - (uint (s_firstdatazone (super_tab s sb)) - 1)) in
                   (case s_zmap (super_tab s sb) (b div 8192) of
                      None \<Rightarrow> null_deref
                    | Some z \<Rightarrow>
                        if \<not> test_bit (b_data (bufs s z)) (b mod 8192)
                        then panic ''free_block: bit already cleared''
                        else Some (upd_buf z (\<lambda>x. x\<lparr>b_data := clear_bit_at (b mod 8192) (b_data x), b_dirt := True\<rparr>) s)) }) }"

definition new_block :: "int \<Rightarrow> kernel \<Rightarrow> (int \<times> kernel) option" where
  "new_block dev s =
     do { (sb, s) \<leftarrow> get_super dev s;
          (case sb of
             None \<Rightarrow> panic ''trying to get new block from nonexistant device''
           | Some sb \<Rightarrow>
               (case first_clear [0..<8] (s_zmap (super_tab s sb)) s of
                  None \<Rightarrow> Some (0, s)
                | Some (i, bh, j) \<Rightarrow>
                    if test_bit (b_data (bufs s bh)) j then panic ''new_block: bit already set''
                    else do {
                      let s = upd_buf bh (\<lambda>b. b\<lparr>b_data := set_bit_at j (b_data b), b_dirt := True\<rparr>) s;
                      let blk = int j + int i * 8192 + uint (s_firstdatazone (super_tab s sb)) - 1;
                      if blk \<ge> uint (s_nzones (super_tab s sb)) then Some (0, s)
                      else do {
                        (bh, s) \<leftarrow> getblk dev blk s;
                        if b_count (bufs s bh) \<noteq> 1 then panic ''new block: count is != 1''
                        else do {
                          let s = upd_buf bh (\<lambda>b. b\<lparr>b_data := (\<lambda>k. if k < BLOCK_SIZE then 0 else b_data b k),
                                    b_uptodate := True, b_dirt := True\<rparr>) s;
                          s \<leftarrow> brelse (Some bh) s;
                          Some (blk, s) } } })) }"

definition free_inode :: "nat option \<Rightarrow> kernel \<Rightarrow> kernel option" where
  "free_inode inode s =
     (case inode of
        None \<Rightarrow> Some s
      | Some i \<Rightarrow>
          if i_dev (inode_table s i) = 0 then Some (upd_ino i (\<lambda>_. zero_inode) s)
          else if i_count (inode_table s i) > 1 then panic ''free_inode''
          else if i_nlinks (inode_table s i) \<noteq> 0 then panic ''trying to free inode with links''
          else do {
            (sb, s) \<leftarrow> get_super (uint (i_dev (inode_table s i))) s;
            (case sb of
               None \<Rightarrow> panic ''trying to free inode on nonexistent device''
             | Some sb \<Rightarrow>
                 if i_num (inode_table s i) < 1 \<or> i_num (inode_table s i) > s_ninodes (super_tab s sb)
                 then panic ''trying to free inode 0 or nonexistant inode''
                 else
                   (case s_imap (super_tab s sb) (unat (i_num (inode_table s i)) div 8192) of
                      None \<Rightarrow> panic ''nonexistent imap in superblock''
                    | Some bh \<Rightarrow>
                        let s = upd_buf bh (\<lambda>b. b\<lparr>b_data :=
                                  clear_bit_at (unat (i_num (inode_table s i)) mod 8192) (b_data b), b_dirt := True\<rparr>) s
                        in Some (upd_ino i (\<lambda>_. zero_inode) s))) })"

section \<open>Truncating a file\<close>

text \<open>The loops over an indirect block read each entry from the buffer when its turn comes.\<close>

definition free_ind :: "int \<Rightarrow> int \<Rightarrow> kernel \<Rightarrow> kernel option" where
  "free_ind dev block s =
     (if block = 0 then Some s
      else do {
        (bh, s) \<leftarrow> bread dev block s;
        s \<leftarrow> (case bh of
                None \<Rightarrow> Some s
              | Some bh \<Rightarrow> do {
                  s \<leftarrow> for_each [0..<512] (\<lambda>i s.
                         let p = rd16 (b_data (bufs s bh)) (2 * i)
                         in if p \<noteq> 0 then free_block dev (uint p) s else Some s) s;
                  brelse (Some bh) s });
        free_block dev block s })"

definition free_dind :: "int \<Rightarrow> int \<Rightarrow> kernel \<Rightarrow> kernel option" where
  "free_dind dev block s =
     (if block = 0 then Some s
      else do {
        (bh, s) \<leftarrow> bread dev block s;
        s \<leftarrow> (case bh of
                None \<Rightarrow> Some s
              | Some bh \<Rightarrow> do {
                  s \<leftarrow> for_each [0..<512] (\<lambda>i s.
                         let p = rd16 (b_data (bufs s bh)) (2 * i)
                         in if p \<noteq> 0 then free_ind dev (uint p) s else Some s) s;
                  brelse (Some bh) s });
        free_block dev block s })"

definition set_zone :: "nat \<Rightarrow> nat \<Rightarrow> u16 \<Rightarrow> kernel \<Rightarrow> kernel" where
  "set_zone inode k v s = upd_ino inode (\<lambda>n. n\<lparr>i_zone := (i_zone n)(k := v)\<rparr>) s"

definition truncate :: "nat \<Rightarrow> kernel \<Rightarrow> kernel option" where
  "truncate inode s =
     (if \<not> (S_ISREG (i_mode (inode_table s inode)) \<or> S_ISDIR (i_mode (inode_table s inode))) then Some s
      else do {
        s \<leftarrow> for_each [0..<7] (\<lambda>i s.
               if i_zone (inode_table s inode) i \<noteq> 0
               then do { s \<leftarrow> free_block (uint (i_dev (inode_table s inode))) (uint (i_zone (inode_table s inode) i)) s;
                         Some (set_zone inode i 0 s) }
               else Some s) s;
        s \<leftarrow> free_ind (uint (i_dev (inode_table s inode))) (uint (i_zone (inode_table s inode) 7)) s;
        s \<leftarrow> free_dind (uint (i_dev (inode_table s inode))) (uint (i_zone (inode_table s inode) 8)) s;
        Some (upd_ino inode (\<lambda>n. n\<lparr>i_zone := (i_zone n)(8 := 0, 7 := 0), i_size := 0, i_dirt := True,
                i_mtime := time32 s, i_ctime := time32 s\<rparr>) s) })"

section \<open>Mapping a block of a file\<close>

text \<open>
  A zone number kept in the inode: when it is missing and \<open>create\<close> is set, a new block is allocated
  and the inode marked dirty.
\<close>

definition inode_zone :: "nat \<Rightarrow> nat \<Rightarrow> bool \<Rightarrow> kernel \<Rightarrow> kernel option" where
  "inode_zone inode k create s =
     (if create \<and> i_zone (inode_table s inode) k = 0
      then do {
        (b, s) \<leftarrow> new_block (uint (i_dev (inode_table s inode))) s;
        let s = set_zone inode k (word_of_int b) s;
        Some (if i_zone (inode_table s inode) k \<noteq> 0
              then upd_ino inode (\<lambda>n. n\<lparr>i_ctime := time32 s, i_dirt := True\<rparr>) s else s) }
      else Some s)"

text \<open>The entry \<open>k\<close> of the indirect block \<open>blk\<close>, with the same treatment of a missing one.\<close>

definition indirect_zone :: "nat \<Rightarrow> int \<Rightarrow> nat \<Rightarrow> bool \<Rightarrow> kernel \<Rightarrow> (int \<times> kernel) option" where
  "indirect_zone inode blk k create s =
     do { (bh, s) \<leftarrow> bread (uint (i_dev (inode_table s inode))) blk s;
          (case bh of
             None \<Rightarrow> Some (0, s)
           | Some bh \<Rightarrow> do {
               let i = uint (rd16 (b_data (bufs s bh)) (2 * k));
               (i, s) \<leftarrow> (if create \<and> i = 0
                         then do {
                           (i, s) \<leftarrow> new_block (uint (i_dev (inode_table s inode))) s;
                           Some (i, if i \<noteq> 0
                                    then upd_buf bh (\<lambda>b. b\<lparr>b_data := wr16 (b_data b) (2 * k) (word_of_int i), b_dirt := True\<rparr>) s
                                    else s) }
                         else Some (i, s));
               s \<leftarrow> brelse (Some bh) s;
               Some (i, s) }) }"

definition bmap_block :: "nat \<Rightarrow> int \<Rightarrow> bool \<Rightarrow> kernel \<Rightarrow> (int \<times> kernel) option" where
  "bmap_block inode block create s =
     (if block < 0 then panic ''_bmap: block<0''
      else if block \<ge> 7 + 512 + 512 * 512 then panic ''_bmap: block>big''
      else if block < 7
      then do { s \<leftarrow> inode_zone inode (nat block) create s;
                Some (uint (i_zone (inode_table s inode) (nat block)), s) }
      else if block - 7 < 512
      then do { s \<leftarrow> inode_zone inode 7 create s;
                if i_zone (inode_table s inode) 7 = 0 then Some (0, s)
                else indirect_zone inode (uint (i_zone (inode_table s inode) 7)) (nat (block - 7)) create s }
      else do { let blk = nat (block - 7 - 512);
                s \<leftarrow> inode_zone inode 8 create s;
                if i_zone (inode_table s inode) 8 = 0 then Some (0, s)
                else do {
                  (i, s) \<leftarrow> indirect_zone inode (uint (i_zone (inode_table s inode) 8)) (blk div 512) create s;
                  if i = 0 then Some (0, s)
                  else indirect_zone inode i (blk mod 512) create s } })"

definition bmap :: "nat \<Rightarrow> int \<Rightarrow> kernel \<Rightarrow> (int \<times> kernel) option" where
  "bmap inode block s = bmap_block inode block False s"

definition create_block :: "nat \<Rightarrow> int \<Rightarrow> kernel \<Rightarrow> (int \<times> kernel) option" where
  "create_block inode block s = bmap_block inode block True s"

section \<open>Releasing an inode\<close>

partial_function (option) iput_repeat :: "nat \<Rightarrow> kernel \<Rightarrow> kernel option" where
  "iput_repeat inode s =
     (if i_count (inode_table s inode) > 1
      then Some (upd_ino inode (\<lambda>n. n\<lparr>i_count := i_count n - 1\<rparr>) s)
      else if i_nlinks (inode_table s inode) = 0
      then do { s \<leftarrow> truncate inode s; free_inode (Some inode) s }
      else if i_dirt (inode_table s inode)
      then (case write_inode inode s of
              None \<Rightarrow> None
            | Some s \<Rightarrow> (case wait_on_inode inode s of None \<Rightarrow> None | Some s \<Rightarrow> iput_repeat inode s))
      else Some (upd_ino inode (\<lambda>n. n\<lparr>i_count := i_count n - 1\<rparr>) s))"

definition iput :: "nat option \<Rightarrow> kernel \<Rightarrow> kernel option" where
  "iput inode s =
     (case inode of
        None \<Rightarrow> Some s
      | Some i \<Rightarrow> do {
          s \<leftarrow> wait_on_inode i s;
          if i_count (inode_table s i) = 0 then panic ''iput: trying to free free inode''
          else if i_pipe (inode_table s i)
          then do {
            let s = wake_up (Wino i) s;
            let s = upd_ino i (\<lambda>n. n\<lparr>i_count := i_count n - 1\<rparr>) s;
            if i_count (inode_table s i) \<noteq> 0 then Some s
            else do {
              s \<leftarrow> free_page (i_size (inode_table s i)) s;
              Some (upd_ino i (\<lambda>n. n\<lparr>i_count := 0, i_dirt := False, i_pipe := False\<rparr>) s) } }
          else if i_dev (inode_table s i) = 0
          then Some (upd_ino i (\<lambda>n. n\<lparr>i_count := i_count n - 1\<rparr>) s)
          else do {
            s \<leftarrow> (if S_ISBLK (i_mode (inode_table s i))
                  then do { (_, s) \<leftarrow> sync_dev (uint (i_zone (inode_table s i) 0)) s; wait_on_inode i s }
                  else Some s);
            iput_repeat i s } })"

section \<open>Finding an inode\<close>

text \<open>The inner \<open>for\<close> loop of \<open>get_empty_inode\<close>, from the inode after \<open>last_inode\<close> on.\<close>

fun scan_inodes :: "nat \<Rightarrow> nat option \<Rightarrow> kernel \<Rightarrow> nat option \<times> kernel" where
  "scan_inodes 0 inode s = (inode, s)"
| "scan_inodes (Suc i) inode s =
     (let l = (if last_inode s + 1 \<ge> NR_INODE then 0 else last_inode s + 1);
          s = s\<lparr>last_inode := l\<rparr>
      in if i_count (inode_table s l) = 0
         then if \<not> i_dirt (inode_table s l) \<and> \<not> i_lock (inode_table s l) then (Some l, s)
              else scan_inodes i (Some l) s
         else scan_inodes i inode s)"

partial_function (option) clean_inode :: "nat \<Rightarrow> kernel \<Rightarrow> kernel option" where
  "clean_inode inode s =
     (if i_dirt (inode_table s inode)
      then (case write_inode inode s of
              None \<Rightarrow> None
            | Some s \<Rightarrow> (case wait_on_inode inode s of None \<Rightarrow> None | Some s \<Rightarrow> clean_inode inode s))
      else Some s)"

partial_function (option) get_empty_inode :: "kernel \<Rightarrow> (nat \<times> kernel) option" where
  "get_empty_inode s =
     (case scan_inodes NR_INODE None s of
        (None, s) \<Rightarrow> panic ''No free inodes in mem''
      | (Some inode, s) \<Rightarrow>
          (case wait_on_inode inode s of
             None \<Rightarrow> None
           | Some s \<Rightarrow>
               (case clean_inode inode s of
                  None \<Rightarrow> None
                | Some s \<Rightarrow>
                    if i_count (inode_table s inode) \<noteq> 0 then get_empty_inode s
                    else Some (inode, upd_ino inode (\<lambda>_. zero_inode\<lparr>i_count := 1\<rparr>) s))))"

definition get_pipe_inode :: "kernel \<Rightarrow> (nat option \<times> kernel) option" where
  "get_pipe_inode s =
     do { (inode, s) \<leftarrow> get_empty_inode s;
          let (p, s) = get_free_page s;
          let s = upd_ino inode (\<lambda>n. n\<lparr>i_size := p\<rparr>) s;
          if p = 0 then Some (None, upd_ino inode (\<lambda>n. n\<lparr>i_count := 0\<rparr>) s)
          else Some (Some inode, upd_ino inode (\<lambda>n. n\<lparr>i_count := 2,
                       i_zone := (i_zone n)(0 := 0, 1 := 0), i_pipe := True\<rparr>) s) }"

definition read_inode :: "nat \<Rightarrow> kernel \<Rightarrow> kernel option" where
  "read_inode inode s =
     do { s \<leftarrow> lock_inode inode s;
          (sb, s) \<leftarrow> get_super (uint (i_dev (inode_table s inode))) s;
          (case sb of
             None \<Rightarrow> panic ''trying to read inode without dev''
           | Some sb \<Rightarrow> do {
               (bh, s) \<leftarrow> bread (uint (i_dev (inode_table s inode)))
                            (inode_block (super_tab s sb) (inode_table s inode)) s;
               (case bh of
                  None \<Rightarrow> panic ''unable to read i-node block''
                | Some bh \<Rightarrow> do {
                    let s = upd_ino inode (\<lambda>n. get_d_inode (b_data (bufs s bh))
                              (32 * (inode_index n mod INODES_PER_BLOCK)) n) s;
                    s \<leftarrow> brelse (Some bh) s;
                    Some (unlock_inode inode s) }) }) }"

text \<open>
  The search of \<open>iget\<close>, from entry \<open>inode\<close> of the table on. It starts again when the inode changed
  while the process slept, and when a mounted file system has to be entered.
\<close>

definition same_inode :: "int \<Rightarrow> int \<Rightarrow> nat \<Rightarrow> kernel \<Rightarrow> bool" where
  "same_inode dev nr inode s \<longleftrightarrow>
     uint (i_dev (inode_table s inode)) = dev \<and> uint (i_num (inode_table s inode)) = nr"

partial_function (option) iget_from :: "nat \<Rightarrow> int \<Rightarrow> int \<Rightarrow> nat \<Rightarrow> kernel \<Rightarrow> (nat \<times> kernel) option" where
  "iget_from inode dev nr spare s =
     (if inode \<ge> NR_INODE
      then do { let s = upd_ino spare (\<lambda>n. n\<lparr>i_dev := word_of_int dev, i_num := word_of_int nr\<rparr>) s;
                s \<leftarrow> read_inode spare s;
                Some (spare, s) }
      else if \<not> same_inode dev nr inode s then iget_from (inode + 1) dev nr spare s
      else
        (case wait_on_inode inode s of
           None \<Rightarrow> None
         | Some s \<Rightarrow>
             if \<not> same_inode dev nr inode s then iget_from 0 dev nr spare s
             else
               let s = upd_ino inode (\<lambda>n. n\<lparr>i_count := i_count n + 1\<rparr>) s in
               if i_mount (inode_table s inode)
               then (case find (\<lambda>i. s_imount (super_tab s i) = Some inode) [0..<NR_SUPER] of
                       None \<Rightarrow> do { s \<leftarrow> iput (Some spare) s; Some (inode, s) }
                     | Some i \<Rightarrow>
                         (case iput (Some inode) s of
                            None \<Rightarrow> None
                          | Some s \<Rightarrow> iget_from 0 (uint (s_dev (super_tab s i))) ROOT_INO spare s))
               else do { s \<leftarrow> iput (Some spare) s; Some (inode, s) }))"

definition iget :: "int \<Rightarrow> int \<Rightarrow> kernel \<Rightarrow> (nat \<times> kernel) option" where
  "iget dev nr s =
     (if dev = 0 then panic ''iget with dev==0''
      else do { (spare, s) \<leftarrow> get_empty_inode s; iget_from 0 dev nr spare s })"

definition new_inode :: "int \<Rightarrow> kernel \<Rightarrow> (nat option \<times> kernel) option" where
  "new_inode dev s =
     do { (inode, s) \<leftarrow> get_empty_inode s;
          (sb, s) \<leftarrow> get_super dev s;
          (case sb of
             None \<Rightarrow> panic ''new_inode with unknown device''
           | Some sb \<Rightarrow>
               (case first_clear [0..<8] (s_imap (super_tab s sb)) s of
                  None \<Rightarrow> do { s \<leftarrow> iput (Some inode) s; Some (None, s) }
                | Some (i, bh, j) \<Rightarrow>
                    if j + i * 8192 > unat (s_ninodes (super_tab s sb))
                    then do { s \<leftarrow> iput (Some inode) s; Some (None, s) }
                    else if test_bit (b_data (bufs s bh)) j then panic ''new_inode: bit already set''
                    else
                      let s = upd_buf bh (\<lambda>b. b\<lparr>b_data := set_bit_at j (b_data b), b_dirt := True\<rparr>) s
                      in Some (Some inode, upd_ino inode (\<lambda>n. n\<lparr>i_count := 1, i_nlinks := 1,
                           i_dev := word_of_int dev, i_uid := euid (cur s), i_gid := ucast (egid (cur s)),
                           i_dirt := True, i_num := of_nat (j + i * 8192), i_mtime := time32 s,
                           i_atime := time32 s, i_ctime := time32 s\<rparr>) s))) }"

section \<open>The search for a clear bit\<close>

lemma bit_rd32: "n < 32 \<Longrightarrow> bit (rd32 d x) n \<longleftrightarrow> bit (d (x + n div 8)) (n mod 8)"
proof -
  assume n: "n < 32"
  then consider "n < 8" | "8 \<le> n" "n < 16" | "16 \<le> n" "n < 24" | "24 \<le> n" by linarith
  then show ?thesis
  proof cases
    case 1
    then show ?thesis by (auto simp: rd32_def rd16_def bit_simps)
  next
    case 2
    then have "n div 8 = 1" "n mod 8 = n - 8" by presburger+
    with 2 show ?thesis by (auto simp: rd32_def rd16_def bit_simps dest: bit_imp_le_length)
  next
    case 3
    then have "n div 8 = 2" "n mod 8 = n - 16" by presburger+
    with 3 show ?thesis by (auto simp: rd32_def rd16_def bit_simps dest: bit_imp_le_length)
  next
    case 4
    with n have "n div 8 = 3" "n mod 8 = n - 24" by presburger+
    with 4 n show ?thesis by (auto simp: numeral_3_eq_3 rd32_def rd16_def bit_simps dest: bit_imp_le_length)
  qed
qed

lemma bit_clear_test:
  assumes "r < 32" shows "bit (NOT (rd32 d (4 * k))) r \<longleftrightarrow> \<not> test_bit d (32 * k + r)"
proof -
  have "(32 * k + r) div 8 = 4 * k + r div 8" "(32 * k + r) mod 8 = r mod 8" by presburger+
  then show ?thesis using assms by (simp add: bit_simps test_bit_def bit_rd32)
qed

lemma bsf_least:
  assumes "w \<noteq> 0"
  shows "find (bit w) [0..<32] = Some (bsf w)"
proof -
  obtain n where "bit w n" using assms by (auto simp: bit_eq_iff)
  then have "n \<in> set [0..<32]" by (auto dest: bit_imp_le_length)
  with \<open>bit w n\<close> have "find (bit w) [0..<32] \<noteq> None" by (auto simp: find_None_iff)
  then show ?thesis by (auto simp: bsf_def)
qed

text \<open>One long of the scan is thirty-two steps of the reference search.\<close>

lemma long_step:
  "find (\<lambda>n. \<not> test_bit d n) [32 * k..<32 * k + 32] =
   (let eax = NOT (rd32 d (4 * k)) in if eax = 0 then None else Some (32 * k + bsf eax))"
proof -
  have *: "find (\<lambda>i. \<not> test_bit d (32 * k + i)) [0..<32] = find (bit (NOT (rd32 d (4 * k)))) [0..<32]"
    by (rule find_cong [OF refl]) (use bit_clear_test in auto)
  show ?thesis
    by (simp add: find_shift * bsf_least Let_def del: upt_rec_numeral) (simp add: find_None_iff)
qed

lemma scan_longs_find:
  assumes "k \<le> n"
  shows "scan_longs d [k..<n] (32 * k) =
         (case find (\<lambda>b. \<not> test_bit d b) [32 * k..<32 * n] of None \<Rightarrow> 32 * n | Some b \<Rightarrow> b)"
  using assms
proof (induction "n - k" arbitrary: k)
  case (Suc m)
  then have k: "k < n" by simp
  have IH: "scan_longs d [Suc k..<n] (32 * k + 32) =
      (case find (\<lambda>b. \<not> test_bit d b) [32 * Suc k..<32 * n] of None \<Rightarrow> 32 * n | Some b \<Rightarrow> b)"
    using Suc.hyps(1) [of "Suc k"] Suc.hyps(2) k by (simp add: add.commute)
  have range: "[32 * k..<32 * n] = [32 * k..<32 * k + 32] @ [32 * Suc k..<32 * n]"
    using upt_add_eq_append [of "32 * k" "32 * k + 32" "32 * n - (32 * k + 32)"] k by (simp add: add.commute)
  show ?case
    unfolding upt_conv_Cons [OF k] scan_longs.simps range find_append long_step Let_def by (simp add: IH)
qed simp

lemma find_first_zero_find:
  "find_first_zero d = (case find (\<lambda>b. \<not> test_bit d b) [0..<8192] of None \<Rightarrow> 8192 | Some b \<Rightarrow> b)"
  using scan_longs_find [of 0 256 d] by (simp add: find_first_zero_def cong: option.case_cong del: upt_rec_numeral)

text \<open>A bitmap as one string of bits: bit \<open>n\<close> is in slot \<open>n div 8192\<close>.\<close>

definition map_bit_clear :: "(nat \<Rightarrow> nat option) \<Rightarrow> kernel \<Rightarrow> nat \<Rightarrow> bool" where
  "map_bit_clear m s n =
     (case m (n div 8192) of None \<Rightarrow> False | Some bh \<Rightarrow> \<not> test_bit (b_data (bufs s bh)) (n mod 8192))"

lemma map_step:
  "find (map_bit_clear m s) [8192 * i..<8192 * i + 8192] =
   (case m i of
      None \<Rightarrow> None
    | Some bh \<Rightarrow> let j = find_first_zero (b_data (bufs s bh)) in if j < 8192 then Some (8192 * i + j) else None)"
proof -
  have "find (\<lambda>j. map_bit_clear m s (8192 * i + j)) [0..<8192] =
      find (\<lambda>j. case m i of None \<Rightarrow> False | Some bh \<Rightarrow> \<not> test_bit (b_data (bufs s bh)) j) [0..<8192]"
    by (rule find_cong [OF refl]) (auto simp: map_bit_clear_def split: option.splits)
  moreover have "x < 8192" if "find P [0..<8192] = Some x" for P x
    using that by (auto simp: find_Some_iff)
  ultimately show ?thesis
    by (auto simp: find_shift find_first_zero_find find_None_iff Let_def split: option.splits)
qed

lemma first_clear_find:
  assumes "i \<le> n"
  shows "first_clear [i..<n] m s =
         map_option (\<lambda>k. (k div 8192, the (m (k div 8192)), k mod 8192)) (find (map_bit_clear m s) [8192 * i..<8192 * n])"
  using assms
proof (induction "n - i" arbitrary: i)
  case (Suc l)
  then have i: "i < n" by simp
  have IH: "first_clear [Suc i..<n] m s =
      map_option (\<lambda>k. (k div 8192, the (m (k div 8192)), k mod 8192)) (find (map_bit_clear m s) [8192 * Suc i..<8192 * n])"
    using Suc.hyps(1) [of "Suc i"] Suc.hyps(2) i by simp
  have range: "[8192 * i..<8192 * n] = [8192 * i..<8192 * i + 8192] @ [8192 * Suc i..<8192 * n]"
    using upt_add_eq_append [of "8192 * i" "8192 * i + 8192" "8192 * n - (8192 * i + 8192)"] i
    by (simp add: add.commute)
  show ?case
    unfolding upt_conv_Cons [OF i] first_clear.simps range find_append map_step Let_def
    by (simp add: IH split: option.split)
qed simp

text \<open>
  C12: the search that \<open>new_block\<close> and \<open>new_inode\<close> make in the eight slots of a bitmap, a long at a time
  with \<open>bsfl\<close>, finds the lowest clear bit of the whole map: it is the search for it bit by bit, where
  the bits of a slot without a buffer are not free.
\<close>

theorem first_clear_lowest:
  "first_clear [0..<8] m s =
   map_option (\<lambda>n. (n div 8192, the (m (n div 8192)), n mod 8192)) (find (map_bit_clear m s) [0..<65536])"
  using first_clear_find [of 0 8 m s] by (simp del: upt_rec_numeral)

end
