(* ===== verification/Namei.thy ===== *)
theory Namei
  imports Inode
begin

text \<open>
  fs/namei.c: permissions, directory search and modification, the walk along a path name, and the
  system calls that create and remove names. A path name is an address in the user's memory, read
  byte by byte as the code does. A directory entry is given by its buffer and its offset in the
  block: two bytes of inode number and fourteen of name.

  When a directory block cannot be read, \<open>find_entry\<close> and \<open>add_entry\<close> go on with \<open>bh\<close> null, and the
  next test compares \<open>de\<close>, which points behind the last block read, with \<open>BLOCK_SIZE + bh->b_data\<close>. This
  reads address 0, where the page directory starts, and its first entry is the address of a page
  table below every buffer. So the test holds, and the model takes it to hold.
\<close>

section \<open>Permissions\<close>

abbreviation "MAY_EXEC \<equiv> (1 :: int)"
abbreviation "MAY_WRITE \<equiv> (2 :: int)"
abbreviation "MAY_READ \<equiv> (4 :: int)"
abbreviation "O_ACCMODE \<equiv> (3 :: int)"
abbreviation "O_CREAT \<equiv> (0x40 :: int)"
abbreviation "O_EXCL \<equiv> (0x80 :: int)"
abbreviation "O_TRUNC \<equiv> (0x200 :: int)"
abbreviation "O_APPEND \<equiv> (0x400 :: int)"
abbreviation "O_NONBLOCK \<equiv> (0x800 :: int)"
abbreviation "S_ISVTX \<equiv> (0x200 :: u16)"
abbreviation "I_REGULAR \<equiv> (0x8000 :: int)"
abbreviation "I_DIRECTORY \<equiv> (0x4000 :: int)"

text \<open>The characters of \<open>"\004\002\006\377"\<close>; the last is -1 as a signed \<open>char\<close>.\<close>

definition ACC_MODE :: "int \<Rightarrow> int" where
  "ACC_MODE x = [4, 2, 6, -1] ! nat (x AND O_ACCMODE)"

definition permission :: "nat \<Rightarrow> int \<Rightarrow> kernel \<Rightarrow> bool" where
  "permission inode msk s =
     (let n = inode_table s inode; mode = uint (i_mode n) in
      if i_dev n \<noteq> 0 \<and> i_nlinks n = 0 then False
      else
        let mode = (if euid (cur s) = i_uid n then drop_bit 6 mode
                    else if uint (egid (cur s)) = uint (i_gid n) then drop_bit 3 mode else mode)
        in mode AND msk AND 7 = msk \<or> suser s)"

section \<open>Directory entries\<close>

definition de_inode :: "nat \<Rightarrow> nat \<Rightarrow> kernel \<Rightarrow> u16" where
  "de_inode bh off s = rd16 (b_data (bufs s bh)) off"

definition de_name :: "nat \<Rightarrow> nat \<Rightarrow> kernel \<Rightarrow> nat \<Rightarrow> u8" where
  "de_name bh off s k = b_data (bufs s bh) (off + 2 + k)"

definition set_de_inode :: "nat \<Rightarrow> nat \<Rightarrow> u16 \<Rightarrow> kernel \<Rightarrow> kernel" where
  "set_de_inode bh off v s = upd_buf bh (\<lambda>b. b\<lparr>b_data := wr16 (b_data b) off v\<rparr>) s"

definition set_de_name :: "nat \<Rightarrow> nat \<Rightarrow> u8 list \<Rightarrow> kernel \<Rightarrow> kernel" where
  "set_de_name bh off name s =
     upd_buf bh (\<lambda>b. b\<lparr>b_data := (\<lambda>k. if off + 2 \<le> k \<and> k < off + 2 + length name then name ! (k - (off + 2))
                                      else b_data b k)\<rparr>) s"

definition mark_dirty :: "nat \<Rightarrow> kernel \<Rightarrow> kernel" where
  "mark_dirty bh s = upd_buf bh (\<lambda>b. b\<lparr>b_dirt := True\<rparr>) s"

definition match_entry :: "nat \<Rightarrow> u32 \<Rightarrow> nat \<Rightarrow> nat \<Rightarrow> kernel \<Rightarrow> bool" where
  "match_entry len name bh off s =
     (if de_inode bh off s = 0 \<or> len > NAME_LEN then False
      else if len < NAME_LEN \<and> de_name bh off s len \<noteq> 0 then False
      else list_all (\<lambda>k. get_fs_byte (name + of_nat k) s = de_name bh off s k) [0..<len])"

abbreviation "DIR_ENTRIES_PER_BLOCK \<equiv> (64 :: nat)"

text \<open>
  At the end of a block the search moves on to the next one: the new buffer, null if it cannot be
  had, and the offset.
\<close>

definition find_block :: "nat \<Rightarrow> nat \<Rightarrow> nat option \<Rightarrow> nat \<Rightarrow> kernel \<Rightarrow> (nat option \<times> nat \<times> kernel) option" where
  "find_block dir i bh off s =
     (if off \<ge> BLOCK_SIZE \<or> bh = None
      then do {
        s \<leftarrow> brelse bh s;
        (block, s) \<leftarrow> bmap dir (int (i div DIR_ENTRIES_PER_BLOCK)) s;
        (if block = 0 then Some (None, off, s)
         else do { (bh, s) \<leftarrow> bread (uint (i_dev (inode_table s dir))) block s;
                   Some (bh, if bh = None then off else 0, s) }) }
      else Some (bh, off, s))"

text \<open>The search from entry \<open>i\<close> on, with the current buffer and offset.\<close>

partial_function (option) find_loop ::
  "nat \<Rightarrow> u32 \<Rightarrow> nat \<Rightarrow> nat \<Rightarrow> nat \<Rightarrow> nat option \<Rightarrow> nat \<Rightarrow> kernel \<Rightarrow> ((nat \<times> nat) option \<times> kernel) option" where
  "find_loop dir name namelen entries i bh off s =
     (if i < entries
      then
        (case find_block dir i bh off s of
           None \<Rightarrow> None
         | Some (None, off, s) \<Rightarrow> find_loop dir name namelen entries (i + DIR_ENTRIES_PER_BLOCK) None off s
         | Some (Some bh, off, s) \<Rightarrow>
             if match_entry namelen name bh off s then Some (Some (bh, off), s)
             else find_loop dir name namelen entries (i + 1) (Some bh) (off + 16) s)
      else do { s \<leftarrow> brelse bh s; Some (None, s) })"

text \<open>\<open>find_entry\<close> returns the buffer and the entry, and the directory, which it may exchange.\<close>

definition is_dotdot :: "u32 \<Rightarrow> nat \<Rightarrow> kernel \<Rightarrow> bool" where
  "is_dotdot name namelen s \<longleftrightarrow> namelen = 2 \<and> get_fs_byte name s = 46 \<and> get_fs_byte (name + 1) s = 46"

definition find_entry :: "nat \<Rightarrow> u32 \<Rightarrow> nat \<Rightarrow> kernel \<Rightarrow> ((nat \<times> nat) option \<times> nat \<times> kernel) option" where
  "find_entry dir name namelen0 s =
     (let namelen = (if namelen0 > NAME_LEN then NAME_LEN else namelen0);
          entries = unat (i_size (inode_table s dir)) div 16
      in if namelen = 0 then Some (None, dir, s)
         else do {
           (namelen, dir, s) \<leftarrow>
             (if is_dotdot name namelen s
              then if Some dir = root (cur s) then Some (1, dir, s)
                   else if uint (i_num (inode_table s dir)) = ROOT_INO
                   then do {
                     (sb, s) \<leftarrow> get_super (uint (i_dev (inode_table s dir))) s;
                     (case sb of
                        None \<Rightarrow> null_deref
                      | Some sb \<Rightarrow>
                          if s_imount (super_tab s sb) \<noteq> None
                          then do {
                            s \<leftarrow> iput (Some dir) s;
                            (case s_imount (super_tab s sb) of
                               None \<Rightarrow> null_deref
                             | Some d \<Rightarrow> Some (namelen, d, upd_ino d (\<lambda>n. n\<lparr>i_count := i_count n + 1\<rparr>) s)) }
                          else Some (namelen, dir, s)) }
                   else Some (namelen, dir, s)
              else Some (namelen, dir, s));
           let block = i_zone (inode_table s dir) 0;
           if block = 0 then Some (None, dir, s)
           else do {
             (bh, s) \<leftarrow> bread (uint (i_dev (inode_table s dir))) (uint block) s;
             (case bh of
                None \<Rightarrow> Some (None, dir, s)
              | Some bh \<Rightarrow> do {
                  (r, s) \<leftarrow> find_loop dir name namelen entries 0 (Some bh) 0 s;
                  Some (r, dir, s) }) } })"

text \<open>The same for \<open>add_entry\<close>, which extends the directory; no block at all ends it.\<close>

definition add_block :: "nat \<Rightarrow> nat \<Rightarrow> nat option \<Rightarrow> nat \<Rightarrow> kernel \<Rightarrow> (bool \<times> nat option \<times> nat \<times> kernel) option" where
  "add_block dir i bh off s =
     (if off \<ge> BLOCK_SIZE \<or> bh = None
      then do {
        s \<leftarrow> brelse bh s;
        (block, s) \<leftarrow> create_block dir (int (i div DIR_ENTRIES_PER_BLOCK)) s;
        (if block = 0 then Some (False, None, off, s)
         else do { (bh, s) \<leftarrow> bread (uint (i_dev (inode_table s dir))) block s;
                   Some (True, bh, if bh = None then off else 0, s) }) }
      else Some (True, bh, off, s))"

text \<open>An entry behind the end of the directory is cleared and becomes its last.\<close>

definition extend_dir :: "nat \<Rightarrow> nat \<Rightarrow> nat \<Rightarrow> nat \<Rightarrow> kernel \<Rightarrow> kernel" where
  "extend_dir dir i bh off s =
     (if of_nat (i * 16) \<ge> i_size (inode_table s dir)
      then upd_ino dir (\<lambda>n. n\<lparr>i_size := of_nat ((i + 1) * 16), i_dirt := True, i_ctime := time32 s\<rparr>)
             (set_de_inode bh off 0 s)
      else s)"

definition fill_entry :: "nat \<Rightarrow> u32 \<Rightarrow> nat \<Rightarrow> nat \<Rightarrow> nat \<Rightarrow> kernel \<Rightarrow> kernel" where
  "fill_entry dir name namelen bh off s =
     (let s = upd_ino dir (\<lambda>n. n\<lparr>i_mtime := time32 s\<rparr>) s
      in mark_dirty bh (set_de_name bh off
           (map (\<lambda>k. if k < namelen then get_fs_byte (name + of_nat k) s else 0) [0..<NAME_LEN]) s))"

partial_function (option) add_loop ::
  "nat \<Rightarrow> u32 \<Rightarrow> nat \<Rightarrow> nat \<Rightarrow> nat option \<Rightarrow> nat \<Rightarrow> kernel \<Rightarrow> ((nat \<times> nat) option \<times> kernel) option" where
  "add_loop dir name namelen i bh off s =
     Option.bind (add_block dir i bh off s) (\<lambda>(ok, bh, off, s).
       if \<not> ok then Some (None, s)
       else
         (case bh of
            None \<Rightarrow> add_loop dir name namelen (i + DIR_ENTRIES_PER_BLOCK) None off s
          | Some bh \<Rightarrow>
              let s = extend_dir dir i bh off s
              in if de_inode bh off s = 0 then Some (Some (bh, off), fill_entry dir name namelen bh off s)
                 else add_loop dir name namelen (i + 1) (Some bh) (off + 16) s))"

definition add_entry :: "nat \<Rightarrow> u32 \<Rightarrow> nat \<Rightarrow> kernel \<Rightarrow> ((nat \<times> nat) option \<times> kernel) option" where
  "add_entry dir name namelen0 s =
     (let namelen = (if namelen0 > NAME_LEN then NAME_LEN else namelen0);
          block = i_zone (inode_table s dir) 0
      in if namelen = 0 \<or> block = 0 then Some (None, s)
         else do {
           (bh, s) \<leftarrow> bread (uint (i_dev (inode_table s dir))) (uint block) s;
           (case bh of
              None \<Rightarrow> Some (None, s)
            | Some bh \<Rightarrow> add_loop dir name namelen 0 (Some bh) 0 s) })"

section \<open>Path names\<close>

text \<open>The characters up to the next slash or the end of the name: their number, and whether it is a slash.\<close>

partial_function (option) name_end :: "u32 \<Rightarrow> nat \<Rightarrow> kernel \<Rightarrow> (nat \<times> bool) option" where
  "name_end p k s =
     (if get_fs_byte p s = 0 then Some (k, False)
      else if get_fs_byte p s = 47 then Some (k, True)
      else name_end (p + 1) (k + 1) s)"

text \<open>Releasing a directory for the inode that one of its entries names.\<close>

definition enter_entry :: "nat \<Rightarrow> nat \<Rightarrow> nat \<Rightarrow> kernel \<Rightarrow> (nat \<times> kernel) option" where
  "enter_entry inode bh off s =
     (let inr = uint (de_inode bh off s); idev = uint (i_dev (inode_table s inode)) in
      do { s \<leftarrow> brelse (Some bh) s;
           s \<leftarrow> iput (Some inode) s;
           iget idev inr s })"

partial_function (option) get_dir_from :: "u32 \<Rightarrow> nat \<Rightarrow> kernel \<Rightarrow> (nat option \<times> kernel) option" where
  "get_dir_from pathname inode s =
     (if \<not> S_ISDIR (i_mode (inode_table s inode)) \<or> \<not> permission inode MAY_EXEC s
      then do { s \<leftarrow> iput (Some inode) s; Some (None, s) }
      else
        Option.bind (name_end pathname 0 s) (\<lambda>(namelen, slash).
          if \<not> slash then Some (Some inode, s)
          else
            Option.bind (find_entry inode pathname namelen s) (\<lambda>(e, inode, s).
              (case e of
                 None \<Rightarrow> do { s \<leftarrow> iput (Some inode) s; Some (None, s) }
               | Some (bh, off) \<Rightarrow>
                   Option.bind (enter_entry inode bh off s) (\<lambda>(inode, s).
                     get_dir_from (pathname + of_nat namelen + 1) inode s)))))"

definition no_inode :: "nat option \<Rightarrow> kernel \<Rightarrow> bool" where
  "no_inode p s \<longleftrightarrow> (case p of None \<Rightarrow> True | Some i \<Rightarrow> i_count (inode_table s i) = 0)"

definition get_dir :: "u32 \<Rightarrow> kernel \<Rightarrow> (nat option \<times> kernel) option" where
  "get_dir pathname s =
     (if no_inode (root (cur s)) s then panic ''No root inode''
      else if no_inode (pwd (cur s)) s then panic ''No cwd inode''
      else
        let c = get_fs_byte pathname s;
            go = (\<lambda>inode p. get_dir_from p inode (upd_ino inode (\<lambda>n. n\<lparr>i_count := i_count n + 1\<rparr>) s))
        in if c = 47 then go (the (root (cur s))) (pathname + 1)
           else if c \<noteq> 0 then go (the (pwd (cur s))) pathname
           else Some (None, s))"

text \<open>The last component: its address and its length.\<close>

partial_function (option) last_name :: "u32 \<Rightarrow> u32 \<Rightarrow> kernel \<Rightarrow> (nat \<times> u32) option" where
  "last_name pathname basename s =
     (let c = get_fs_byte pathname s; p = pathname + 1 in
      if c = 0 then Some (unat (p - basename - 1), basename)
      else last_name p (if c = 47 then p else basename) s)"

definition dir_namei :: "u32 \<Rightarrow> kernel \<Rightarrow> ((nat \<times> nat \<times> u32) option \<times> kernel) option" where
  "dir_namei pathname s =
     do { (dir, s) \<leftarrow> get_dir pathname s;
          (case dir of
             None \<Rightarrow> Some (None, s)
           | Some dir \<Rightarrow> do {
               (namelen, name) \<leftarrow> last_name pathname pathname s;
               Some (Some (dir, namelen, name), s) }) }"

definition namei :: "u32 \<Rightarrow> kernel \<Rightarrow> (nat option \<times> kernel) option" where
  "namei pathname s =
     do { (d, s) \<leftarrow> dir_namei pathname s;
          (case d of
             None \<Rightarrow> Some (None, s)
           | Some (dir, namelen, basename) \<Rightarrow>
               if namelen = 0 then Some (Some dir, s)
               else do {
                 (e, dir, s) \<leftarrow> find_entry dir basename namelen s;
                 (case e of
                    None \<Rightarrow> do { s \<leftarrow> iput (Some dir) s; Some (None, s) }
                  | Some (bh, off) \<Rightarrow> do {
                      (dir, s) \<leftarrow> enter_entry dir bh off s;
                      Some (Some dir, upd_ino dir (\<lambda>n. n\<lparr>i_atime := time32 s, i_dirt := True\<rparr>) s) }) }) }"

section \<open>Opening and creating files\<close>

definition open_create :: "nat \<Rightarrow> u32 \<Rightarrow> nat \<Rightarrow> int \<Rightarrow> kernel \<Rightarrow> (int \<times> nat option \<times> kernel) option" where
  "open_create dir basename namelen mode s =
     (if \<not> permission dir MAY_WRITE s
      then do { s \<leftarrow> iput (Some dir) s; Some (- EACCES, None, s) }
      else do {
        (inode, s) \<leftarrow> new_inode (uint (i_dev (inode_table s dir))) s;
        (case inode of
           None \<Rightarrow> do { s \<leftarrow> iput (Some dir) s; Some (- ENOSPC, None, s) }
         | Some inode \<Rightarrow> do {
             let s = upd_ino inode (\<lambda>n. n\<lparr>i_uid := euid (cur s), i_mode := word_of_int mode, i_dirt := True\<rparr>) s;
             (e, s) \<leftarrow> add_entry dir basename namelen s;
             (case e of
                None \<Rightarrow> do {
                  let s = upd_ino inode (\<lambda>n. n\<lparr>i_nlinks := i_nlinks n - 1\<rparr>) s;
                  s \<leftarrow> iput (Some inode) s;
                  s \<leftarrow> iput (Some dir) s;
                  Some (- ENOSPC, None, s) }
              | Some (bh, off) \<Rightarrow> do {
                  let s = mark_dirty bh (set_de_inode bh off (i_num (inode_table s inode)) s);
                  s \<leftarrow> brelse (Some bh) s;
                  s \<leftarrow> iput (Some dir) s;
                  Some (0, Some inode, s) }) }) })"

definition open_namei :: "u32 \<Rightarrow> int \<Rightarrow> int \<Rightarrow> kernel \<Rightarrow> (int \<times> nat option \<times> kernel) option" where
  "open_namei pathname flag0 mode0 s =
     (let flag = (if flag0 AND O_TRUNC \<noteq> 0 \<and> flag0 AND O_ACCMODE = 0 then flag0 OR 1 else flag0);
          mode = mode0 AND (0x1ff AND NOT (uint (umask (cur s)))) OR I_REGULAR
      in do {
        (d, s) \<leftarrow> dir_namei pathname s;
        (case d of
           None \<Rightarrow> Some (- ENOENT, None, s)
         | Some (dir, namelen, basename) \<Rightarrow>
             if namelen = 0
             then if flag AND (O_ACCMODE OR O_CREAT OR O_TRUNC) = 0 then Some (0, Some dir, s)
                  else do { s \<leftarrow> iput (Some dir) s; Some (- EISDIR, None, s) }
             else do {
               (e, dir, s) \<leftarrow> find_entry dir basename namelen s;
               (case e of
                  None \<Rightarrow>
                    if flag AND O_CREAT = 0
                    then do { s \<leftarrow> iput (Some dir) s; Some (- ENOENT, None, s) }
                    else open_create dir basename namelen mode s
                | Some (bh, off) \<Rightarrow> do {
                    let inr = uint (de_inode bh off s);
                    let dev = uint (i_dev (inode_table s dir));
                    s \<leftarrow> brelse (Some bh) s;
                    s \<leftarrow> iput (Some dir) s;
                    if flag AND O_EXCL \<noteq> 0 then Some (- EEXIST, None, s)
                    else do {
                      (inode, s) \<leftarrow> iget dev inr s;
                      if S_ISDIR (i_mode (inode_table s inode)) \<and> flag AND O_ACCMODE \<noteq> 0 \<or>
                         \<not> permission inode (ACC_MODE flag) s
                      then do { s \<leftarrow> iput (Some inode) s; Some (- EPERM, None, s) }
                      else do {
                        let s = upd_ino inode (\<lambda>n. n\<lparr>i_atime := time32 s\<rparr>) s;
                        s \<leftarrow> (if flag AND O_TRUNC \<noteq> 0 then truncate inode s else Some s);
                        Some (0, Some inode, s) } } }) }) })"

section \<open>The search in a directory\<close>

text \<open>The name of an entry, and the name a program passes, as strings.\<close>

definition entry_name :: "nat \<Rightarrow> nat \<Rightarrow> kernel \<Rightarrow> u8 list" where
  "entry_name bh off s = takeWhile (\<lambda>c. c \<noteq> 0) (map (de_name bh off s) [0..<NAME_LEN])"

definition user_name :: "u32 \<Rightarrow> nat \<Rightarrow> kernel \<Rightarrow> u8 list" where
  "user_name name len s = map (\<lambda>k. get_fs_byte (name + of_nat k) s) [0..<len]"

lemma match_entry_names:
  assumes "0 \<notin> set (user_name name len s)"
  shows "match_entry len name bh off s \<longleftrightarrow> de_inode bh off s \<noteq> 0 \<and> entry_name bh off s = user_name name len s"
proof -
  have nz: "\<forall>c\<in>set (user_name name len s). c \<noteq> 0" using assms by metis
  have "entry_name bh off s = user_name name len s \<longleftrightarrow>
      len \<le> NAME_LEN \<and> take len (map (de_name bh off s) [0..<NAME_LEN]) = user_name name len s \<and>
      (len < NAME_LEN \<longrightarrow> de_name bh off s len = 0)"
    unfolding entry_name_def takeWhile_eq_iff [OF nz] by (auto simp: user_name_def simp del: upt_rec_numeral)
  then show ?thesis
    by (auto simp: match_entry_def user_name_def take_map list_all_iff simp del: upt_rec_numeral)
qed

lemma find_loop_entries:
  assumes "entries \<le> DIR_ENTRIES_PER_BLOCK" "i \<le> entries"
  shows "find_loop dir name len entries i (Some bh) (16 * i) s =
         (case find (\<lambda>k. match_entry len name bh (16 * k) s) [i..<entries] of
            None \<Rightarrow> do { s \<leftarrow> brelse (Some bh) s; Some (None, s) }
          | Some k \<Rightarrow> Some (Some (bh, 16 * k), s))"
  using assms(2)
proof (induction "entries - i" arbitrary: i)
  case 0
  then show ?case by (subst find_loop.simps) simp
next
  case (Suc n)
  then have i: "i < entries" by simp
  have "find_block dir i (Some bh) (16 * i) s = Some (Some bh, 16 * i, s)"
    using i assms(1) by (simp add: find_block_def)
  moreover have "find_loop dir name len entries (Suc i) (Some bh) (16 * i + 16) s =
      (case find (\<lambda>k. match_entry len name bh (16 * k) s) [Suc i..<entries] of
            None \<Rightarrow> do { s \<leftarrow> brelse (Some bh) s; Some (None, s) }
          | Some k \<Rightarrow> Some (Some (bh, 16 * k), s))"
    using Suc.hyps(1) [of "Suc i"] Suc.hyps(2) i by (simp add: add.commute)
  ultimately show ?case
    unfolding upt_conv_Cons [OF i] using i by (subst find_loop.simps) simp
qed

text \<open>
  C15: in a directory of one block the search for a name without a zero byte ends at
  the first entry in use with exactly this name, taken as a C string of at most fourteen bytes, and
  when there is none it releases the buffer and fails. No state is changed by a search that succeeds.
\<close>

theorem find_loop_first:
  assumes "entries \<le> DIR_ENTRIES_PER_BLOCK" "0 \<notin> set (user_name name len s)"
  shows "find_loop dir name len entries 0 (Some bh) 0 s =
         (case find (\<lambda>k. de_inode bh (16 * k) s \<noteq> 0 \<and> entry_name bh (16 * k) s = user_name name len s) [0..<entries] of
            None \<Rightarrow> do { s \<leftarrow> brelse (Some bh) s; Some (None, s) }
          | Some k \<Rightarrow> Some (Some (bh, 16 * k), s))"
  using find_loop_entries [OF assms(1), of 0 dir name len bh s] by (simp add: match_entry_names [OF assms(2)])

text \<open>A directory block whose second entry is the name \<open>a\<close>, and \<open>a\<close> in the user's memory.\<close>

definition dir_example :: kernel where
  "dir_example = boot_kernel\<lparr>bufs := (\<lambda>_. zero_buf\<lparr>b_data := (\<lambda>_. 0)(16 := 1, 18 := 97)\<rparr>), user := (\<lambda>_. 97)\<rparr>"

theorem find_loop_first_witness:
  "find_loop 0 0 1 2 0 (Some 7) 0 dir_example = Some (Some (7, 16), dir_example)"
proof -
  have [simp]: "user_name 0 (Suc 0) dir_example = [97]"
    by (simp add: user_name_def get_fs_byte_def dir_example_def)
  have [simp]: "de_inode 7 0 dir_example = 0" "de_inode 7 16 dir_example \<noteq> 0"
    by (simp_all add: de_inode_def rd16_def dir_example_def)
  have [simp]: "entry_name 7 16 dir_example = [97]"
    by (simp add: entry_name_def de_name_def dir_example_def upt_conv_Cons)
  show ?thesis
    using find_loop_first [of 2 0 1 dir_example 0 7] by (simp add: upt_conv_Cons)
qed

end
