(* ===== verification/Dir_Calls.thy ===== *)
theory Dir_Calls
  imports Namei
begin

text \<open>
  The second half of fs/namei.c: the system calls that make and remove directory entries. Each
  releases what it holds on every error path in the order the code has.
\<close>

definition put2 :: "nat \<Rightarrow> nat \<Rightarrow> int \<Rightarrow> kernel \<Rightarrow> (int \<times> kernel) option" where
  "put2 a b e s = do { s \<leftarrow> iput (Some a) s; s \<leftarrow> iput (Some b) s; Some (e, s) }"

text \<open>Two inodes and the buffer of a directory entry released, with an error as the result.\<close>

definition put3 :: "nat \<Rightarrow> nat \<Rightarrow> nat \<Rightarrow> int \<Rightarrow> kernel \<Rightarrow> (int \<times> kernel) option" where
  "put3 a b bh e s =
     do { s \<leftarrow> iput (Some a) s; s \<leftarrow> iput (Some b) s; s \<leftarrow> brelse (Some bh) s; Some (e, s) }"

definition put1 :: "nat \<Rightarrow> int \<Rightarrow> kernel \<Rightarrow> (int \<times> kernel) option" where
  "put1 a e s = do { s \<leftarrow> iput (Some a) s; Some (e, s) }"

section \<open>Making entries\<close>

definition mknod_entry :: "nat \<Rightarrow> u32 \<Rightarrow> nat \<Rightarrow> nat \<Rightarrow> int \<Rightarrow> int \<Rightarrow> kernel \<Rightarrow> (int \<times> kernel) option" where
  "mknod_entry dir basename namelen inode mode dev s =
     do { let s = upd_ino inode (\<lambda>n. n\<lparr>i_mode := word_of_int mode\<rparr>) s;
          let s = (if S_ISBLK (word_of_int mode) \<or> S_ISCHR (word_of_int mode)
                   then set_zone inode 0 (word_of_int dev) s else s);
          let s = upd_ino inode (\<lambda>n. n\<lparr>i_mtime := time32 s, i_atime := time32 s, i_dirt := True\<rparr>) s;
          (e, s) \<leftarrow> add_entry dir basename namelen s;
          (case e of
             None \<Rightarrow> do {
               s \<leftarrow> iput (Some dir) s;
               let s = upd_ino inode (\<lambda>n. n\<lparr>i_nlinks := 0\<rparr>) s;
               s \<leftarrow> iput (Some inode) s;
               Some (- ENOSPC, s) }
           | Some (bh, off) \<Rightarrow>
               put3 dir inode bh 0 (mark_dirty bh (set_de_inode bh off (i_num (inode_table s inode)) s))) }"

definition sys_mknod :: "u32 \<Rightarrow> int \<Rightarrow> int \<Rightarrow> kernel \<Rightarrow> (int \<times> kernel) option" where
  "sys_mknod filename mode dev s =
     (if \<not> suser s then Some (- EPERM, s)
      else do {
        (d, s) \<leftarrow> dir_namei filename s;
        (case d of
           None \<Rightarrow> Some (- ENOENT, s)
         | Some (dir, namelen, basename) \<Rightarrow>
             if namelen = 0 then put1 dir (- ENOENT) s
             else if \<not> permission dir MAY_WRITE s then put1 dir (- EPERM) s
             else do {
               (e, dir, s) \<leftarrow> find_entry dir basename namelen s;
               (case e of
                  Some (bh, off) \<Rightarrow> do { s \<leftarrow> brelse (Some bh) s; put1 dir (- EEXIST) s }
                | None \<Rightarrow> do {
                    (inode, s) \<leftarrow> new_inode (uint (i_dev (inode_table s dir))) s;
                    (case inode of
                       None \<Rightarrow> put1 dir (- ENOSPC) s
                     | Some inode \<Rightarrow> mknod_entry dir basename namelen inode mode dev s) }) }) })"

text \<open>The first block of a new directory: the entries \<open>.\<close> and \<open>..\<close>; \<open>strcpy\<close> writes the closing NUL.\<close>

definition make_dots :: "nat \<Rightarrow> nat \<Rightarrow> nat \<Rightarrow> kernel \<Rightarrow> kernel" where
  "make_dots inode dir b s =
     (let s = set_de_inode b 0 (i_num (inode_table s inode)) s;
          s = set_de_name b 0 [46, 0] s;
          s = set_de_inode b 16 (i_num (inode_table s dir)) s;
          s = set_de_name b 16 [46, 46, 0] s;
          s = upd_ino inode (\<lambda>n. n\<lparr>i_nlinks := 2\<rparr>) s
      in mark_dirty b s)"

definition mkdir_entry :: "nat \<Rightarrow> u32 \<Rightarrow> nat \<Rightarrow> nat \<Rightarrow> int \<Rightarrow> kernel \<Rightarrow> (int \<times> kernel) option" where
  "mkdir_entry dir basename namelen inode mode s =
     do { let s = upd_ino inode (\<lambda>n. n\<lparr>i_size := 32, i_dirt := True, i_mtime := time32 s, i_atime := time32 s\<rparr>) s;
          (b, s) \<leftarrow> new_block (uint (i_dev (inode_table s inode))) s;
          let s = set_zone inode 0 (word_of_int b) s;
          if i_zone (inode_table s inode) 0 = 0
          then do {
            s \<leftarrow> iput (Some dir) s;
            put1 inode (- ENOSPC) (upd_ino inode (\<lambda>n. n\<lparr>i_nlinks := i_nlinks n - 1\<rparr>) s) }
          else do {
            let s = upd_ino inode (\<lambda>n. n\<lparr>i_dirt := True\<rparr>) s;
            (db, s) \<leftarrow> bread (uint (i_dev (inode_table s inode))) (uint (i_zone (inode_table s inode) 0)) s;
            (case db of
               None \<Rightarrow> do {
                 s \<leftarrow> iput (Some dir) s;
                 s \<leftarrow> free_block (uint (i_dev (inode_table s inode))) (uint (i_zone (inode_table s inode) 0)) s;
                 put1 inode (- ERROR) (upd_ino inode (\<lambda>n. n\<lparr>i_nlinks := i_nlinks n - 1\<rparr>) s) }
             | Some db \<Rightarrow> do {
                 s \<leftarrow> brelse (Some db) (make_dots inode dir db s);
                 let s = upd_ino inode (\<lambda>n. n\<lparr>i_mode :=
                           word_of_int (I_DIRECTORY OR (mode AND 0x1ff AND NOT (uint (umask (cur s))))), i_dirt := True\<rparr>) s;
                 (e, s) \<leftarrow> add_entry dir basename namelen s;
                 (case e of
                    None \<Rightarrow> do {
                      s \<leftarrow> iput (Some dir) s;
                      s \<leftarrow> free_block (uint (i_dev (inode_table s inode))) (uint (i_zone (inode_table s inode) 0)) s;
                      put1 inode (- ENOSPC) (upd_ino inode (\<lambda>n. n\<lparr>i_nlinks := 0\<rparr>) s) }
                  | Some (bh, off) \<Rightarrow>
                      let s = mark_dirty bh (set_de_inode bh off (i_num (inode_table s inode)) s);
                          s = upd_ino dir (\<lambda>n. n\<lparr>i_nlinks := i_nlinks n + 1, i_dirt := True\<rparr>) s
                      in put3 dir inode bh 0 s) }) } }"

definition sys_mkdir :: "u32 \<Rightarrow> int \<Rightarrow> kernel \<Rightarrow> (int \<times> kernel) option" where
  "sys_mkdir pathname mode s =
     (if \<not> suser s then Some (- EPERM, s)
      else do {
        (d, s) \<leftarrow> dir_namei pathname s;
        (case d of
           None \<Rightarrow> Some (- ENOENT, s)
         | Some (dir, namelen, basename) \<Rightarrow>
             if namelen = 0 then put1 dir (- ENOENT) s
             else if \<not> permission dir MAY_WRITE s then put1 dir (- EPERM) s
             else do {
               (e, dir, s) \<leftarrow> find_entry dir basename namelen s;
               (case e of
                  Some (bh, off) \<Rightarrow> do { s \<leftarrow> brelse (Some bh) s; put1 dir (- EEXIST) s }
                | None \<Rightarrow> do {
                    (inode, s) \<leftarrow> new_inode (uint (i_dev (inode_table s dir))) s;
                    (case inode of
                       None \<Rightarrow> put1 dir (- ENOSPC) s
                     | Some inode \<Rightarrow> mkdir_entry dir basename namelen inode mode s) }) }) })"

section \<open>Removing entries\<close>

text \<open>
  \<open>empty_dir\<close>. After a hole the loop goes on with the buffer it has just released and the old entry
  pointer, as in the code.
\<close>

definition good_dots :: "nat \<Rightarrow> nat \<Rightarrow> kernel \<Rightarrow> bool" where
  "good_dots inode bh s \<longleftrightarrow>
     de_inode bh 0 s = i_num (inode_table s inode) \<and> de_inode bh 16 s \<noteq> 0 \<and>
     de_name bh 0 s 0 = 46 \<and> de_name bh 0 s 1 = 0 \<and>
     de_name bh 16 s 0 = 46 \<and> de_name bh 16 s 1 = 46 \<and> de_name bh 16 s 2 = 0"

definition empty_block :: "nat \<Rightarrow> nat \<Rightarrow> nat \<Rightarrow> nat \<Rightarrow> kernel \<Rightarrow> ((nat \<times> nat) option \<times> bool \<times> kernel) option" where
  "empty_block inode nr bh off s =
     (if off \<ge> BLOCK_SIZE
      then do {
        s \<leftarrow> brelse (Some bh) s;
        (block, s) \<leftarrow> bmap inode (int (nr div DIR_ENTRIES_PER_BLOCK)) s;
        if block = 0 then Some (Some (bh, off), True, s)
        else do {
          (b, s) \<leftarrow> bread (uint (i_dev (inode_table s inode))) block s;
          (case b of None \<Rightarrow> Some (None, False, s) | Some b \<Rightarrow> Some (Some (b, 0), False, s)) } }
      else Some (Some (bh, off), False, s))"

partial_function (option) empty_loop :: "nat \<Rightarrow> nat \<Rightarrow> nat \<Rightarrow> nat \<Rightarrow> nat \<Rightarrow> kernel \<Rightarrow> (int \<times> kernel) option" where
  "empty_loop inode len nr bh off s =
     (if nr < len
      then
        Option.bind (empty_block inode nr bh off s) (\<lambda>(p, hole, s).
          (case p of
             None \<Rightarrow> Some (0, s)
           | Some (bh, off) \<Rightarrow>
               if hole then empty_loop inode len (nr + DIR_ENTRIES_PER_BLOCK) bh off s
               else if de_inode bh off s \<noteq> 0 then do { s \<leftarrow> brelse (Some bh) s; Some (0, s) }
               else empty_loop inode len (nr + 1) bh (off + 16) s))
      else do { s \<leftarrow> brelse (Some bh) s; Some (1, s) })"

definition empty_dir :: "nat \<Rightarrow> kernel \<Rightarrow> (int \<times> kernel) option" where
  "empty_dir inode s =
     (let len = unat (i_size (inode_table s inode)) div 16 in
      if len < 2 \<or> i_zone (inode_table s inode) 0 = 0 then Some (0, s)
      else do {
        (bh, s) \<leftarrow> bread (uint (i_dev (inode_table s inode))) (uint (i_zone (inode_table s inode) 0)) s;
        (case bh of
           None \<Rightarrow> Some (0, s)
         | Some bh \<Rightarrow>
             if \<not> good_dots inode bh s then Some (0, s)
             else empty_loop inode len 2 bh 32 s) })"

definition rmdir_entry :: "nat \<Rightarrow> nat \<Rightarrow> nat \<Rightarrow> nat \<Rightarrow> kernel \<Rightarrow> (int \<times> kernel) option" where
  "rmdir_entry dir inode bh off s =
     (if i_mode (inode_table s dir) AND S_ISVTX \<noteq> 0 \<and> euid (cur s) \<noteq> 0 \<and>
         i_uid (inode_table s inode) \<noteq> euid (cur s)
      then put3 dir inode bh (- EPERM) s
      else if i_dev (inode_table s inode) \<noteq> i_dev (inode_table s dir) \<or> i_count (inode_table s inode) > 1
      then put3 dir inode bh (- EPERM) s
      else if inode = dir then put3 inode dir bh (- EPERM) s
      else if \<not> S_ISDIR (i_mode (inode_table s inode)) then put3 inode dir bh (- ENOTDIR) s
      else do {
        (ok, s) \<leftarrow> empty_dir inode s;
        if ok = 0 then put3 inode dir bh (- ENOTEMPTY) s
        else do {
          s \<leftarrow> brelse (Some bh) (mark_dirty bh (set_de_inode bh off 0 s));
          let s = upd_ino inode (\<lambda>n. n\<lparr>i_nlinks := 0, i_dirt := True\<rparr>) s;
          let s = upd_ino dir (\<lambda>n. n\<lparr>i_nlinks := i_nlinks n - 1, i_ctime := time32 s, i_mtime := time32 s,
                    i_dirt := True\<rparr>) s;
          put2 dir inode 0 s } })"

definition sys_rmdir :: "u32 \<Rightarrow> kernel \<Rightarrow> (int \<times> kernel) option" where
  "sys_rmdir name s =
     (if \<not> suser s then Some (- EPERM, s)
      else do {
        (d, s) \<leftarrow> dir_namei name s;
        (case d of
           None \<Rightarrow> Some (- ENOENT, s)
         | Some (dir, namelen, basename) \<Rightarrow>
             if namelen = 0 then put1 dir (- ENOENT) s
             else if \<not> permission dir MAY_WRITE s then put1 dir (- EPERM) s
             else do {
               (e, dir, s) \<leftarrow> find_entry dir basename namelen s;
               (case e of
                  None \<Rightarrow> put1 dir (- ENOENT) s
                | Some (bh, off) \<Rightarrow> do {
                    (inode, s) \<leftarrow> iget (uint (i_dev (inode_table s dir))) (uint (de_inode bh off s)) s;
                    rmdir_entry dir inode bh off s }) }) })"

definition unlink_entry :: "nat \<Rightarrow> nat \<Rightarrow> nat \<Rightarrow> nat \<Rightarrow> kernel \<Rightarrow> (int \<times> kernel) option" where
  "unlink_entry dir inode bh off s =
     (if i_mode (inode_table s dir) AND S_ISVTX \<noteq> 0 \<and> \<not> suser s \<and>
         euid (cur s) \<noteq> i_uid (inode_table s inode) \<and> euid (cur s) \<noteq> i_uid (inode_table s dir)
      then put3 dir inode bh (- EPERM) s
      else if S_ISDIR (i_mode (inode_table s inode)) then put3 inode dir bh (- EPERM) s
      else do {
        let s = (if i_nlinks (inode_table s inode) = 0 then upd_ino inode (\<lambda>n. n\<lparr>i_nlinks := 1\<rparr>) s else s);
        s \<leftarrow> brelse (Some bh) (mark_dirty bh (set_de_inode bh off 0 s));
        let s = upd_ino inode (\<lambda>n. n\<lparr>i_nlinks := i_nlinks n - 1, i_dirt := True, i_ctime := time32 s\<rparr>) s;
        put2 inode dir 0 s })"

definition sys_unlink :: "u32 \<Rightarrow> kernel \<Rightarrow> (int \<times> kernel) option" where
  "sys_unlink name s =
     do { (d, s) \<leftarrow> dir_namei name s;
          (case d of
             None \<Rightarrow> Some (- ENOENT, s)
           | Some (dir, namelen, basename) \<Rightarrow>
               if namelen = 0 then put1 dir (- ENOENT) s
               else if \<not> permission dir MAY_WRITE s then put1 dir (- EPERM) s
               else do {
                 (e, dir, s) \<leftarrow> find_entry dir basename namelen s;
                 (case e of
                    None \<Rightarrow> put1 dir (- ENOENT) s
                  | Some (bh, off) \<Rightarrow> do {
                      (inode, s) \<leftarrow> iget (uint (i_dev (inode_table s dir))) (uint (de_inode bh off s)) s;
                      unlink_entry dir inode bh off s }) }) }"

definition sys_link :: "u32 \<Rightarrow> u32 \<Rightarrow> kernel \<Rightarrow> (int \<times> kernel) option" where
  "sys_link oldname newname s =
     do { (old, s) \<leftarrow> namei oldname s;
          (case old of
             None \<Rightarrow> Some (- ENOENT, s)
           | Some old \<Rightarrow>
               if S_ISDIR (i_mode (inode_table s old)) then put1 old (- EPERM) s
               else do {
                 (d, s) \<leftarrow> dir_namei newname s;
                 (case d of
                    None \<Rightarrow> put1 old (- EACCES) s
                  | Some (dir, namelen, basename) \<Rightarrow>
                      if namelen = 0 then put2 old dir (- EPERM) s
                      else if i_dev (inode_table s dir) \<noteq> i_dev (inode_table s old) then put2 dir old (- EXDEV) s
                      else if \<not> permission dir MAY_WRITE s then put2 dir old (- EACCES) s
                      else do {
                        (e, dir, s) \<leftarrow> find_entry dir basename namelen s;
                        (case e of
                           Some (bh, off) \<Rightarrow> do { s \<leftarrow> brelse (Some bh) s; put2 dir old (- EEXIST) s }
                         | None \<Rightarrow> do {
                             (e, s) \<leftarrow> add_entry dir basename namelen s;
                             (case e of
                                None \<Rightarrow> put2 dir old (- ENOSPC) s
                              | Some (bh, off) \<Rightarrow> do {
                                  let s = mark_dirty bh (set_de_inode bh off (i_num (inode_table s old)) s);
                                  s \<leftarrow> brelse (Some bh) s;
                                  s \<leftarrow> iput (Some dir) s;
                                  let s = upd_ino old (\<lambda>n. n\<lparr>i_nlinks := i_nlinks n + 1, i_ctime := time32 s,
                                            i_dirt := True\<rparr>) s;
                                  put1 old 0 s }) }) }) }) }"

end
