(* ===== verification/User_Memory.thy ===== *)
theory User_Memory
  imports Kernel_State
begin

text \<open>
  Longs in the user's memory: what \<open>put_fs_long\<close> leaves in each byte, and sequences of longs stored at
  consecutive addresses, as the stack frames of signal handlers and new programs have them.
\<close>

text \<open>\<open>put_fs_long\<close> of each of the values, at consecutive addresses.\<close>

fun push_longs :: "u32 list \<Rightarrow> u32 \<Rightarrow> kernel \<Rightarrow> kernel" where
  "push_longs [] a s = s"
| "push_longs (v # vs) a s = push_longs vs (a + 4) (put_fs_long v a s)"

definition byte_of :: "u32 \<Rightarrow> nat \<Rightarrow> u8" where
  "byte_of v j = ucast (drop_bit (8 * j) v)"

section \<open>Addresses\<close>

lemma unat_small: "n < 2 ^ 32 \<Longrightarrow> unat (of_nat n :: u32) = n"
  by (simp add: unsigned_of_nat take_bit_nat_eq_self)

lemma addr_eq:
  assumes "n < 2 ^ 32"
  shows "(a :: u32) = buf + of_nat n \<longleftrightarrow> unat (a - buf) = n"
proof -
  have "a = buf + of_nat n \<longleftrightarrow> a - buf = of_nat n" by (auto simp: algebra_simps)
  then show ?thesis using unat_small [OF assms] by (metis word_unat_eq_iff)
qed

lemma unat_diff:
  assumes "unat (a :: u32) = m" "unat b = n"
  shows "unat (a - b) = (if n \<le> m then m - n else m + 2 ^ 32 - n)"
  using assms by (simp add: unat_sub_if')

lemma addr_distance:
  assumes "m < 2 ^ 32" "n < 2 ^ 32"
  shows "unat ((a + of_nat m) - (a + of_nat n) :: u32) = (if n \<le> m then m - n else m + 2 ^ 32 - n)"
proof -
  have "(a + of_nat m) - (a + of_nat n) = (of_nat m - of_nat n :: u32)" by simp
  then show ?thesis using unat_diff [OF unat_small [OF assms(1)] unat_small [OF assms(2)]] by simp
qed

section \<open>Bytes and longs\<close>

lemma get_put_fs_long [simp]: "get_fs_long a (put_fs_long v a s) = v"
proof (rule bit_word_eqI)
  fix n
  assume "n < LENGTH(32)"
  then show "bit (get_fs_long a (put_fs_long v a s)) n \<longleftrightarrow> bit v n"
    by (cases "n < 16") (auto simp: get_fs_long_def put_fs_long_def rd32_def rd16_def bit_simps)
qed

lemma put_fs_long_user:
  "user (put_fs_long v a s) x = (if unat (x - a) < 4 then byte_of v (unat (x - a)) else user s x)"
proof -
  have eq: "x = a + of_nat k \<longleftrightarrow> unat (x - a) = k" if "k < 4096" for k using addr_eq that by simp
  have "unat (x - a) = 0 \<or> unat (x - a) = 1 \<or> unat (x - a) = 2 \<or> unat (x - a) = 3 \<or> \<not> unat (x - a) < 4" by linarith
  then show ?thesis
    using eq [of 0] eq [of 1] eq [of 2] eq [of 3]
    by (auto simp: put_fs_long_def byte_of_def)
qed

lemma rd32_bytes: "rd32 (byte_of v) 0 = v"
proof (rule bit_word_eqI)
  fix n
  assume "n < LENGTH(32)"
  then show "bit (rd32 (byte_of v) 0) n \<longleftrightarrow> bit v n"
    by (cases "n < 16") (auto simp: rd32_def rd16_def byte_of_def bit_simps)
qed

lemma get_fs_long_cong:
  assumes "\<And>j. j < 4 \<Longrightarrow> user s (a + of_nat j) = f j"
  shows "get_fs_long a s = rd32 f 0"
  using assms [of 0] assms [of 1] assms [of 2] assms [of 3]
  by (simp add: get_fs_long_def rd32_def rd16_def numeral_2_eq_2 numeral_3_eq_3)

lemma push_longs_user:
  assumes "4 * length vs \<le> 2 ^ 32"
  shows "user (push_longs vs a s) x =
    (if unat (x - a) < 4 * length vs then byte_of (vs ! (unat (x - a) div 4)) (unat (x - a) mod 4) else user s x)"
  using assms
proof (induction vs arbitrary: a s)
  case (Cons v vs)
  have u: "unat (x - (a + 4)) = (if 4 \<le> unat (x - a) then unat (x - a) - 4 else unat (x - a) + 2 ^ 32 - 4)"
  proof -
    have "unat (x - (a + 4)) = unat ((x - a) - 4)" by (simp add: algebra_simps)
    then show ?thesis by (simp add: unat_sub_if')
  qed
  have "(unat (x - a) - 4) div 4 = unat (x - a) div 4 - 1" "(unat (x - a) - 4) mod 4 = unat (x - a) mod 4"
    if "4 \<le> unat (x - a)"
    using that by (simp_all add: le_div_geq le_mod_geq)
  moreover have "0 < unat (x - a) div 4" if "4 \<le> unat (x - a)" using that by (simp add: div_greater_zero_iff)
  ultimately show ?case
    using Cons by (auto simp: u put_fs_long_user nth_Cons')
qed simp

lemma get_push_longs:
  assumes "4 * length vs \<le> 2 ^ 32" "k < length vs"
  shows "get_fs_long (a + 4 * of_nat k) (push_longs vs a s) = vs ! k"
proof -
  have "user (push_longs vs a s) (a + 4 * of_nat k + of_nat j) = byte_of (vs ! k) j" if "j < 4" for j
  proof -
    have "a + 4 * of_nat k + of_nat j - a = (of_nat (4 * k + j) :: u32)" by simp
    moreover have n: "4 * k + j < 4 * length vs" "(4 * k + j) div 4 = k" "(4 * k + j) mod 4 = j"
      using assms(2) that by auto
    then have "4 * k + j < 2 ^ 32" using assms(1) by linarith
    note unat_small [OF this]
    ultimately have "unat (a + 4 * of_nat k + of_nat j - a) = 4 * k + j" by (simp only:)
    then show ?thesis using n push_longs_user [OF assms(1)] by simp
  qed
  from get_fs_long_cong [OF this] show ?thesis by (simp add: rd32_bytes)
qed

lemma get_fs_long_outside:
  assumes "4 * length vs \<le> 2 ^ 32" "\<And>j. j < 4 \<Longrightarrow> 4 * length vs \<le> unat (b + of_nat j - a)"
  shows "get_fs_long b (push_longs vs a s) = get_fs_long b s"
proof -
  have "user (push_longs vs a s) (b + of_nat j) = user s (b + of_nat j)" if "j < 4" for j
    using push_longs_user [OF assms(1)] assms(2) [OF that] by simp
  from get_fs_long_cong [OF this] show ?thesis by (simp add: get_fs_long_def)
qed

lemma push_longs_frame [simp]:
  "task (push_longs vs a s) = task s" "current (push_longs vs a s) = current s"
  by (induction vs arbitrary: a s) (simp_all add: put_fs_long_def)

lemma push_longs_cur [simp]: "cur (push_longs vs a s) = cur s"
  by (simp add: cur_def)

end
