(* ===== verification/Pipe.thy ===== *)
theory Pipe
  imports Inode User_Memory
begin

text \<open>
  fs/pipe.c. The bytes of a pipe lie in one page of physical memory, whose address is in \<open>i_size\<close>;
  \<open>i_zone[0]\<close> and \<open>i_zone[1]\<close> are the positions where the next byte is written and read.
\<close>

section \<open>Definitions\<close>

definition PIPE_HEAD :: "m_inode \<Rightarrow> nat" where "PIPE_HEAD n = unat (i_zone n 0)"
definition PIPE_TAIL :: "m_inode \<Rightarrow> nat" where "PIPE_TAIL n = unat (i_zone n 1)"

definition PIPE_SIZE :: "m_inode \<Rightarrow> nat" where
  "PIPE_SIZE n = unat ((i_zone n 0 - i_zone n 1) AND 4095)"

definition pipe_to_user :: "nat \<Rightarrow> nat \<Rightarrow> u32 \<Rightarrow> nat \<Rightarrow> kernel \<Rightarrow> kernel" where
  "pipe_to_user inode pos buf chars s =
     fold (\<lambda>k s. put_fs_byte (hw8 s (i_size (inode_table s inode) + of_nat (pos + k))) (buf + of_nat k) s) [0..<chars] s"

definition user_to_pipe :: "nat \<Rightarrow> nat \<Rightarrow> u32 \<Rightarrow> nat \<Rightarrow> kernel \<Rightarrow> kernel" where
  "user_to_pipe inode pos buf chars s =
     fold (\<lambda>k s. s\<lparr>hw8 := (hw8 s)(i_size (inode_table s inode) + of_nat (pos + k) :=
                         get_fs_byte (buf + of_nat k) s)\<rparr>) [0..<chars] s"

text \<open>One round of the loop of \<open>read_pipe\<close>, when the pipe is not empty: the bytes moved.\<close>

definition read_chunk :: "nat \<Rightarrow> u32 \<Rightarrow> nat \<Rightarrow> kernel \<Rightarrow> nat \<times> kernel" where
  "read_chunk inode buf count s =
     (let n = inode_table s inode;
          chars = min (min (4096 - PIPE_TAIL n) count) (PIPE_SIZE n);
          s = set_zone inode 1 ((i_zone n 1 + of_nat chars) AND 4095) s
      in (chars, pipe_to_user inode (PIPE_TAIL n) buf chars s))"

definition write_chunk :: "nat \<Rightarrow> u32 \<Rightarrow> nat \<Rightarrow> kernel \<Rightarrow> nat \<times> kernel" where
  "write_chunk inode buf count s =
     (let n = inode_table s inode;
          chars = min (min (4096 - PIPE_HEAD n) count) (4095 - PIPE_SIZE n);
          s = set_zone inode 0 ((i_zone n 0 + of_nat chars) AND 4095) s
      in (chars, user_to_pipe inode (PIPE_HEAD n) buf chars s))"

partial_function (option) read_loop :: "nat \<Rightarrow> u32 \<Rightarrow> nat \<Rightarrow> nat \<Rightarrow> kernel \<Rightarrow> (nat \<times> kernel) option" where
  "read_loop inode buf count done s =
     (if count = 0 then Some (done, wake_up (Wino inode) s)
      else if PIPE_SIZE (inode_table s inode) = 0
      then
        let s = wake_up (Wino inode) s in
        if i_count (inode_table s inode) \<noteq> 2 then Some (done, s)
        else (case sleep_on (Wino inode) s of None \<Rightarrow> None | Some s \<Rightarrow> read_loop inode buf count done s)
      else
        (case read_chunk inode buf count s of
           (chars, s) \<Rightarrow> read_loop inode (buf + of_nat chars) (count - chars) (done + chars) s))"

definition read_pipe :: "nat \<Rightarrow> u32 \<Rightarrow> int \<Rightarrow> kernel \<Rightarrow> (int \<times> kernel) option" where
  "read_pipe inode buf count s =
     do { (r, s) \<leftarrow> read_loop inode buf (nat count) 0 s; Some (int r, s) }"

partial_function (option) write_loop :: "nat \<Rightarrow> u32 \<Rightarrow> nat \<Rightarrow> nat \<Rightarrow> kernel \<Rightarrow> (int \<times> kernel) option" where
  "write_loop inode buf count done s =
     (if count = 0 then Some (int done, wake_up (Wino inode) s)
      else if 4095 - PIPE_SIZE (inode_table s inode) = 0
      then
        let s = wake_up (Wino inode) s in
        if i_count (inode_table s inode) \<noteq> 2
        then Some (if done \<noteq> 0 then int done else -1,
                   upd_cur (\<lambda>p. p\<lparr>signal := signal p OR S_bit SIGPIPE\<rparr>) s)
        else (case sleep_on (Wino inode) s of None \<Rightarrow> None | Some s \<Rightarrow> write_loop inode buf count done s)
      else
        (case write_chunk inode buf count s of
           (chars, s) \<Rightarrow> write_loop inode (buf + of_nat chars) (count - chars) (done + chars) s))"

definition write_pipe :: "nat \<Rightarrow> u32 \<Rightarrow> int \<Rightarrow> kernel \<Rightarrow> (int \<times> kernel) option" where
  "write_pipe inode buf count s = write_loop inode buf (nat count) 0 s"

text \<open>
  The two searches of \<open>sys_pipe\<close> reserve what they find as they go; when only one free entry is
  found, or the other search fails, the reservations are undone.
\<close>

definition free_files :: "kernel \<Rightarrow> nat list" where
  "free_files s = take 2 (filter (\<lambda>i. f_count (file_table s i) = 0) [0..<NR_FILE])"

definition free_fds :: "kernel \<Rightarrow> nat list" where
  "free_fds s = take 2 (filter (\<lambda>i. filp (cur s) i = None) [0..<NR_OPEN])"

definition set_filp :: "nat \<Rightarrow> nat option \<Rightarrow> kernel \<Rightarrow> kernel" where
  "set_filp fd f s = upd_cur (\<lambda>p. p\<lparr>filp := (filp p)(fd := f)\<rparr>) s"

definition sys_pipe :: "u32 \<Rightarrow> kernel \<Rightarrow> (int \<times> kernel) option" where
  "sys_pipe fildes s =
     (case free_files s of
        [f0, f1] \<Rightarrow>
          let inc = (\<lambda>f. f\<lparr>f_count := f_count f + 1\<rparr>); clr = (\<lambda>f. f\<lparr>f_count := 0\<rparr>);
              s = upd_file f1 inc (upd_file f0 inc s)
          in (case free_fds s of
                [a, b] \<Rightarrow> do {
                  let s = set_filp b (Some f1) (set_filp a (Some f0) s);
                  (inode, s) \<leftarrow> get_pipe_inode s;
                  (case inode of
                     None \<Rightarrow>
                       let s = set_filp b None (set_filp a None s)
                       in Some (-1, upd_file f1 clr (upd_file f0 clr s))
                   | Some inode \<Rightarrow>
                       let s = upd_file f0 (\<lambda>f. f\<lparr>f_inode := Some inode, f_pos := 0, f_mode := 1\<rparr>) s;
                           s = upd_file f1 (\<lambda>f. f\<lparr>f_inode := Some inode, f_pos := 0, f_mode := 2\<rparr>) s;
                           s = put_fs_long (of_nat a) fildes s;
                           s = put_fs_long (of_nat b) (fildes + 4) s
                       in Some (0, s)) }
              | _ \<Rightarrow> Some (-1, upd_file f1 clr (upd_file f0 clr s)))
      | _ \<Rightarrow> Some (-1, s))"

section \<open>A pipe is a queue of bytes\<close>

text \<open>The positions stay in the page; the bytes in the pipe, oldest first.\<close>

definition pipe_ok :: "kernel \<Rightarrow> nat \<Rightarrow> bool" where
  "pipe_ok s i \<longleftrightarrow> PIPE_HEAD (inode_table s i) < 4096 \<and> PIPE_TAIL (inode_table s i) < 4096"

definition pipe_bytes :: "kernel \<Rightarrow> nat \<Rightarrow> u8 list" where
  "pipe_bytes s i =
     map (\<lambda>k. hw8 s (i_size (inode_table s i) + of_nat ((PIPE_TAIL (inode_table s i) + k) mod 4096)))
       [0..<PIPE_SIZE (inode_table s i)]"

definition user_bytes :: "kernel \<Rightarrow> u32 \<Rightarrow> nat \<Rightarrow> u8 list" where
  "user_bytes s buf n = map (\<lambda>k. user s (buf + of_nat k)) [0..<n]"

lemma and_4095: "unat ((w :: u16) AND 4095) = unat w mod 4096"
proof -
  have "w AND 4095 = take_bit 12 w" by (simp add: take_bit_eq_mask mask_eq_exp_minus_1)
  then show ?thesis by (simp add: take_bit_eq_mod unat_mod)
qed

lemma mod_65536: "(a + 65536) mod 4096 = a mod (4096 :: nat)" "(a + 61440) mod 4096 = a mod (4096 :: nat)"
  using mod_mult_self1 [of a 16 4096] mod_mult_self1 [of a 15 4096] by simp_all

lemma PIPE_SIZE_mod: "PIPE_SIZE n = (PIPE_HEAD n + 65536 - PIPE_TAIL n) mod 4096"
proof -
  have "unat (i_zone n 0 - i_zone n 1) mod 4096 = (unat (i_zone n 0) + 65536 - unat (i_zone n 1)) mod 4096"
  proof (cases "unat (i_zone n 1) \<le> unat (i_zone n 0)")
    case True
    then have "unat (i_zone n 0) + 65536 - unat (i_zone n 1) = unat (i_zone n 0) - unat (i_zone n 1) + 65536" by simp
    then show ?thesis using True by (simp only: unat_sub_if' if_True mod_65536)
  next
    case False
    then show ?thesis by (simp add: unat_sub_if')
  qed
  then show ?thesis by (simp add: PIPE_SIZE_def and_4095 PIPE_HEAD_def PIPE_TAIL_def)
qed

lemma PIPE_SIZE_less: "PIPE_SIZE n < 4096"
  by (simp add: PIPE_SIZE_mod)

text \<open>With the positions in the page, the size is their distance around the ring.\<close>

lemma ring_size:
  assumes "(h :: nat) < 4096" "t < 4096"
  shows "(h + 65536 - t) mod 4096 = (if t \<le> h then h - t else h + 4096 - t)"
proof (cases "t \<le> h")
  case True
  then have "h + 65536 - t = h - t + 65536" by simp
  then show ?thesis using True assms by (simp only: mod_65536) simp
next
  case False
  then have "h + 65536 - t = h + 4096 - t + 61440" using assms by simp
  then show ?thesis using False assms by (simp only: mod_65536) simp
qed

lemma PIPE_SIZE_ring:
  "pipe_ok s i \<Longrightarrow> PIPE_SIZE (inode_table s i) =
     (if PIPE_TAIL (inode_table s i) \<le> PIPE_HEAD (inode_table s i)
      then PIPE_HEAD (inode_table s i) - PIPE_TAIL (inode_table s i)
      else PIPE_HEAD (inode_table s i) + 4096 - PIPE_TAIL (inode_table s i))"
  by (simp add: PIPE_SIZE_mod pipe_ok_def ring_size)

lemma ring_step:
  assumes "(p :: nat) < 4096" "c + p \<le> 4096"
  shows "(p + c) mod 4096 = (if p + c = 4096 then 0 else p + c)"
  using assms by auto

lemma ring_advance:
  assumes "c + (p :: nat) \<le> 4096" "p < 4096"
  shows "unat ((of_nat p + of_nat c :: u16) AND 4095) = (p + c) mod 4096"
proof -
  have "unat (of_nat p + of_nat c :: u16) = p + c"
    using assms by (simp add: unat_word_ariths unsigned_of_nat take_bit_nat_eq_self)
  then show ?thesis by (simp add: and_4095)
qed

lemma put_range:
  assumes "n \<le> 4096" "\<And>k u. g k (s\<lparr>user := u\<rparr>) = g k s"
  shows "fold (\<lambda>k s. put_fs_byte (g k s) (buf + of_nat k) s) [0..<n] s =
    s\<lparr>user := (\<lambda>a. if unat (a - buf) < n then g (unat (a - buf)) s else user s a)\<rparr>"
  using assms(1)
proof (induction n)
  case (Suc n)
  let ?u = "\<lambda>n a. if unat (a - buf) < n then g (unat (a - buf)) s else user s a"
  have "fold (\<lambda>k s. put_fs_byte (g k s) (buf + of_nat k) s) [0..<Suc n] s =
      put_fs_byte (g n s) (buf + of_nat n) (s\<lparr>user := ?u n\<rparr>)"
    using Suc by (simp add: assms(2))
  also have "\<dots> = s\<lparr>user := (?u n)(buf + of_nat n := g n s)\<rparr>" by (simp add: put_fs_byte_def)
  also have "(?u n)(buf + of_nat n := g n s) = ?u (Suc n)"
    using addr_eq [of n _ buf] Suc.prems by (auto simp: fun_eq_iff less_Suc_eq)
  finally show ?case .
qed simp

lemma store_range:
  assumes "n \<le> 4096" "\<And>k m. g k (s\<lparr>hw8 := m\<rparr>) = g k s"
  shows "fold (\<lambda>k s. s\<lparr>hw8 := (hw8 s)(base + of_nat k := g k s)\<rparr>) [0..<n] s =
    s\<lparr>hw8 := (\<lambda>a. if unat (a - base) < n then g (unat (a - base)) s else hw8 s a)\<rparr>"
  using assms(1)
proof (induction n)
  case (Suc n)
  let ?u = "\<lambda>n a. if unat (a - base) < n then g (unat (a - base)) s else hw8 s a"
  have "fold (\<lambda>k s. s\<lparr>hw8 := (hw8 s)(base + of_nat k := g k s)\<rparr>) [0..<Suc n] s =
      s\<lparr>hw8 := (?u n)(base + of_nat n := g n s)\<rparr>"
    using Suc by (simp add: assms(2) del: fun_upd_apply)
  also have "(?u n)(base + of_nat n := g n s) = ?u (Suc n)"
    using addr_eq [of n _ base] Suc.prems by (auto simp: fun_eq_iff less_Suc_eq)
  finally show ?case .
qed simp

lemma pipe_to_user_eq:
  assumes "n \<le> 4096"
  shows "pipe_to_user i pos buf n s = s\<lparr>user := (\<lambda>a. if unat (a - buf) < n
    then hw8 s (i_size (inode_table s i) + of_nat (pos + unat (a - buf))) else user s a)\<rparr>"
  unfolding pipe_to_user_def
  by (rule put_range [OF assms, where g = "\<lambda>k s. hw8 s (i_size (inode_table s i) + of_nat (pos + k))"]) simp

lemma user_to_pipe_eq:
  assumes "n \<le> 4096"
  shows "user_to_pipe i pos buf n s = s\<lparr>hw8 := (\<lambda>a. if unat (a - (i_size (inode_table s i) + of_nat pos)) < n
    then user s (buf + of_nat (unat (a - (i_size (inode_table s i) + of_nat pos)))) else hw8 s a)\<rparr>"
proof -
  let ?b = "i_size (inode_table s i) + of_nat pos"
  have "user_to_pipe i pos buf n s =
      fold (\<lambda>k s. s\<lparr>hw8 := (hw8 s)(?b + of_nat k := get_fs_byte (buf + of_nat k) s)\<rparr>) [0..<n] s"
  proof -
    have "fold (\<lambda>k u. u\<lparr>hw8 := (hw8 u)(i_size (inode_table u i) + of_nat (pos + k) := get_fs_byte (buf + of_nat k) u)\<rparr>) ks u =
        fold (\<lambda>k u. u\<lparr>hw8 := (hw8 u)(?b + of_nat k := get_fs_byte (buf + of_nat k) u)\<rparr>) ks u"
      if "inode_table u = inode_table s" for ks u
      using that by (induction ks arbitrary: u) (simp_all add: add.assoc)
    then show ?thesis unfolding user_to_pipe_def by blast
  qed
  also have "\<dots> = s\<lparr>hw8 := (\<lambda>a. if unat (a - ?b) < n then get_fs_byte (buf + of_nat (unat (a - ?b))) s else hw8 s a)\<rparr>"
    by (rule store_range [OF assms]) (simp add: get_fs_byte_def)
  finally show ?thesis by (simp add: get_fs_byte_def cong: if_cong)
qed

lemma read_chunk_fifo:
  assumes ok: "pipe_ok s i" and r: "read_chunk i buf count s = (c, t)"
  shows "c = min (min (4096 - PIPE_TAIL (inode_table s i)) count) (PIPE_SIZE (inode_table s i))"
    "user_bytes t buf c @ pipe_bytes t i = pipe_bytes s i" "pipe_ok t i"
    "PIPE_SIZE (inode_table t i) = PIPE_SIZE (inode_table s i) - c"
    "\<And>a. c \<le> unat (a - buf) \<Longrightarrow> user t a = user s a"
proof -
  let ?n = "inode_table s i"
  show c: "c = min (min (4096 - PIPE_TAIL ?n) count) (PIPE_SIZE ?n)"
    using r by (auto simp: read_chunk_def Let_def)
  have c4: "c \<le> 4096" "c + PIPE_TAIL ?n \<le> 4096" using c ok by (auto simp: pipe_ok_def)
  let ?s = "set_zone i 1 ((i_zone ?n 1 + of_nat c) AND 4095) s"
  have t: "t = ?s\<lparr>user := (\<lambda>a. if unat (a - buf) < c
      then hw8 s (i_size ?n + of_nat (PIPE_TAIL ?n + unat (a - buf))) else user s a)\<rparr>"
    using r pipe_to_user_eq [OF c4(1), of i "PIPE_TAIL ?n" buf ?s]
    by (auto simp: read_chunk_def Let_def c [symmetric] set_zone_def cong: if_cong)
  have "of_nat (PIPE_TAIL ?n) = i_zone ?n 1" by (simp add: PIPE_TAIL_def)
  then have tl: "PIPE_TAIL (inode_table t i) = (PIPE_TAIL ?n + c) mod 4096"
    using ring_advance [OF c4(2)] ok by (simp add: t set_zone_def PIPE_TAIL_def pipe_ok_def)
  have hd: "PIPE_HEAD (inode_table t i) = PIPE_HEAD ?n" by (simp add: t set_zone_def PIPE_HEAD_def)
  show ok': "pipe_ok t i" using ok by (simp add: pipe_ok_def tl hd)
  show sz: "PIPE_SIZE (inode_table t i) = PIPE_SIZE ?n - c"
  proof -
    have "PIPE_TAIL (inode_table t i) = (if PIPE_TAIL ?n + c = 4096 then 0 else PIPE_TAIL ?n + c)"
      using tl ring_step c4(2) ok by (simp add: pipe_ok_def)
    moreover have "c \<le> PIPE_SIZE ?n" "PIPE_HEAD ?n < 4096" using c ok by (auto simp: pipe_ok_def)
    ultimately show ?thesis
      using PIPE_SIZE_ring [OF ok] PIPE_SIZE_ring [OF ok'] hd by (simp split: if_splits)
  qed
  show "user t a = user s a" if "c \<le> unat (a - buf)" for a using that by (simp add: t)
  have "user_bytes t buf c = map (\<lambda>k. hw8 s (i_size ?n + of_nat ((PIPE_TAIL ?n + k) mod 4096))) [0..<c]"
    unfolding user_bytes_def
  proof (rule map_cong [OF refl])
    fix k assume "k \<in> set [0..<c]"
    then have k: "k < c" "k < 4096" "PIPE_TAIL ?n + k < 4096" using c4 by auto
    have "unat (of_nat k :: u32) = k" using k by (simp add: unsigned_of_nat take_bit_nat_eq_self)
    then show "user t (buf + of_nat k) = hw8 s (i_size ?n + of_nat ((PIPE_TAIL ?n + k) mod 4096))"
      using k by (simp add: t)
  qed
  moreover have "pipe_bytes t i = map (\<lambda>k. hw8 s (i_size ?n + of_nat ((PIPE_TAIL ?n + k) mod 4096))) [c..<PIPE_SIZE ?n]"
  proof -
    have "c \<le> PIPE_SIZE ?n" using c by simp
    then have "[c..<PIPE_SIZE ?n] = map (\<lambda>k. c + k) [0..<PIPE_SIZE ?n - c]"
      using map_add_upt [of c "PIPE_SIZE ?n - c"] by (simp add: add.commute)
    then show ?thesis
      unfolding pipe_bytes_def sz tl by (simp add: t set_zone_def mod_simps add.assoc)
  qed
  moreover have "[0..<PIPE_SIZE ?n] = [0..<c] @ [c..<PIPE_SIZE ?n]"
    using c upt_add_eq_append [of 0 c "PIPE_SIZE ?n - c"] by simp
  ultimately show "user_bytes t buf c @ pipe_bytes t i = pipe_bytes s i" by (simp add: pipe_bytes_def)
qed

lemma map_upt_split: "map f [0..<m + n] = map f [0..<m] @ map (\<lambda>k. f (m + k)) [0..<n]"
  by (induction n) simp_all

lemma write_chunk_fifo:
  assumes ok: "pipe_ok s i" and r: "write_chunk i buf count s = (c, t)"
  shows "c = min (min (4096 - PIPE_HEAD (inode_table s i)) count) (4095 - PIPE_SIZE (inode_table s i))"
    "pipe_bytes t i = pipe_bytes s i @ user_bytes s buf c" "pipe_ok t i"
    "PIPE_SIZE (inode_table t i) = PIPE_SIZE (inode_table s i) + c" "user t = user s"
proof -
  let ?n = "inode_table s i"
  show c: "c = min (min (4096 - PIPE_HEAD ?n) count) (4095 - PIPE_SIZE ?n)"
    using r by (auto simp: write_chunk_def Let_def)
  have c4: "c \<le> 4096" "c + PIPE_HEAD ?n \<le> 4096" using c ok by (auto simp: pipe_ok_def)
  let ?s = "set_zone i 0 ((i_zone ?n 0 + of_nat c) AND 4095) s"
  let ?b = "i_size ?n + of_nat (PIPE_HEAD ?n)"
  have t: "t = ?s\<lparr>hw8 := (\<lambda>a. if unat (a - ?b) < c then user s (buf + of_nat (unat (a - ?b))) else hw8 s a)\<rparr>"
    using r user_to_pipe_eq [OF c4(1), of i "PIPE_HEAD ?n" buf ?s]
    by (auto simp: write_chunk_def Let_def c [symmetric] set_zone_def cong: if_cong)
  have "of_nat (PIPE_HEAD ?n) = i_zone ?n 0" by (simp add: PIPE_HEAD_def)
  then have hd: "PIPE_HEAD (inode_table t i) = (PIPE_HEAD ?n + c) mod 4096"
    using ring_advance [OF c4(2)] ok by (simp add: t set_zone_def PIPE_HEAD_def pipe_ok_def)
  have tl: "PIPE_TAIL (inode_table t i) = PIPE_TAIL ?n" by (simp add: t set_zone_def PIPE_TAIL_def)
  show ok': "pipe_ok t i" using ok by (simp add: pipe_ok_def tl hd)
  show sz: "PIPE_SIZE (inode_table t i) = PIPE_SIZE ?n + c"
  proof -
    have "PIPE_HEAD (inode_table t i) = (if PIPE_HEAD ?n + c = 4096 then 0 else PIPE_HEAD ?n + c)"
      using hd ring_step c4(2) ok by (simp add: pipe_ok_def)
    moreover have "c \<le> 4095 - PIPE_SIZE ?n" "PIPE_HEAD ?n < 4096" "PIPE_TAIL ?n < 4096"
      using c ok by (auto simp: pipe_ok_def)
    ultimately show ?thesis
      using PIPE_SIZE_ring [OF ok] PIPE_SIZE_ring [OF ok'] tl by (simp split: if_splits)
  qed
  show "user t = user s" by (simp add: t set_zone_def)
  let ?at = "\<lambda>k. i_size ?n + of_nat ((PIPE_TAIL ?n + k) mod 4096)"
  have byte: "hw8 t (?at k) = (if k < PIPE_SIZE ?n then hw8 s (?at k) else user s (buf + of_nat (k - PIPE_SIZE ?n)))"
    if k: "k < PIPE_SIZE ?n + c" for k
  proof -
    let ?p = "(PIPE_TAIL ?n + k) mod 4096"
    have p: "?p < 4096" by simp
    have ub: "PIPE_SIZE ?n + c < 4096" using c PIPE_SIZE_less [of ?n] by (simp add: min_def split: if_splits)
    have pos: "?p = (if PIPE_TAIL ?n + k < 4096 then PIPE_TAIL ?n + k else PIPE_TAIL ?n + k - 4096)"
      using ok k ub by (auto simp: pipe_ok_def mod_if)
    show ?thesis
    proof (cases "k < PIPE_SIZE ?n")
      case True
      have "\<not> (PIPE_HEAD ?n \<le> ?p \<and> ?p < PIPE_HEAD ?n + c)"
        using True PIPE_SIZE_ring [OF ok] pos ok ub by (auto simp: pipe_ok_def split: if_splits)
      moreover have "?at k - ?b = of_nat ?p - of_nat (PIPE_HEAD ?n)" by simp
      then have "unat (?at k - ?b) = (if PIPE_HEAD ?n \<le> ?p then ?p - PIPE_HEAD ?n else ?p + 2 ^ 32 - PIPE_HEAD ?n)"
        using p ok by (simp add: unat_sub_if' unsigned_of_nat take_bit_nat_eq_self pipe_ok_def)
      ultimately have "\<not> unat (?at k - ?b) < c" using c4 ok by (auto simp: pipe_ok_def split: if_splits)
      then show ?thesis using True by (simp add: t)
    next
      case False
      have "?p = PIPE_HEAD ?n + (k - PIPE_SIZE ?n)"
        using False k PIPE_SIZE_ring [OF ok] pos ok ub c4 by (auto simp: pipe_ok_def split: if_splits)
      then have "?at k - ?b = of_nat (k - PIPE_SIZE ?n)" by simp
      moreover have "unat (of_nat m :: u32) = m" if "m < 4096" for m
        using that by (simp add: unsigned_of_nat take_bit_nat_eq_self)
      then have "unat (of_nat (k - PIPE_SIZE ?n) :: u32) = k - PIPE_SIZE ?n"
        using k ub by (metis less_imp_diff_less order.strict_trans)
      ultimately have "unat (?at k - ?b) = k - PIPE_SIZE ?n" by simp
      moreover have "k - PIPE_SIZE ?n < c" using False k by linarith
      ultimately show ?thesis using False by (simp add: t)
    qed
  qed
  have "pipe_bytes t i = map (\<lambda>k. hw8 t (?at k)) [0..<PIPE_SIZE ?n + c]"
    unfolding pipe_bytes_def sz tl by (simp add: t set_zone_def)
  also have "\<dots> = map (\<lambda>k. hw8 t (?at k)) [0..<PIPE_SIZE ?n] @ map (\<lambda>k. hw8 t (?at (PIPE_SIZE ?n + k))) [0..<c]"
    by (rule map_upt_split)
  also have "map (\<lambda>k. hw8 t (?at k)) [0..<PIPE_SIZE ?n] = pipe_bytes s i"
    unfolding pipe_bytes_def by (rule map_cong [OF refl]) (simp add: byte)
  also have "map (\<lambda>k. hw8 t (?at (PIPE_SIZE ?n + k))) [0..<c] = user_bytes s buf c"
    unfolding user_bytes_def by (rule map_cong [OF refl]) (simp add: byte)
  finally show "pipe_bytes t i = pipe_bytes s i @ user_bytes s buf c" .
qed

lemma user_bytes_add: "user_bytes s buf (m + n) = user_bytes s buf m @ user_bytes s (buf + of_nat m) n"
  by (simp add: user_bytes_def map_upt_split add.assoc)

lemma pipe_wake_up:
  "pipe_bytes (wake_up (Wino i) s) i = pipe_bytes s i" "pipe_ok (wake_up (Wino i) s) i = pipe_ok s i"
  "user (wake_up (Wino i) s) = user s"
  by (simp_all add: wake_up_def pipe_bytes_def pipe_ok_def PIPE_SIZE_def PIPE_HEAD_def PIPE_TAIL_def set_running_def
        split: option.split)

lemma write_loop_fifo:
  assumes "pipe_ok s i" "PIPE_SIZE (inode_table s i) + n \<le> 4095"
  shows "\<exists>t. write_loop i buf n d s = Some (int (d + n), t) \<and>
    pipe_bytes t i = pipe_bytes s i @ user_bytes s buf n \<and> pipe_ok t i \<and> user t = user s"
  using assms
proof (induction n arbitrary: s buf d rule: less_induct)
  case (less n)
  show ?case
  proof (cases "n = 0")
    case True
    then show ?thesis using less.prems(1) by (simp add: write_loop.simps pipe_wake_up user_bytes_def)
  next
    case False
    obtain c t where ct: "write_chunk i buf n s = (c, t)" by fastforce
    note chunk = write_chunk_fifo [OF less.prems(1) ct]
    have c: "0 < c" "c \<le> n" using chunk(1) less.prems False by (auto simp: pipe_ok_def)
    obtain t' where t': "write_loop i (buf + of_nat c) (n - c) (d + c) t = Some (int (d + n), t')"
        "pipe_bytes t' i = pipe_bytes t i @ user_bytes t (buf + of_nat c) (n - c)" "pipe_ok t' i" "user t' = user t"
      using less.IH [of "n - c" t "buf + of_nat c" "d + c"] c chunk(3,4) less.prems(2) by auto
    have "user_bytes t (buf + of_nat c) (n - c) = user_bytes s (buf + of_nat c) (n - c)"
      by (simp add: user_bytes_def chunk(5))
    then have "pipe_bytes t' i = pipe_bytes s i @ user_bytes s buf n"
      using t'(2) chunk(2) user_bytes_add [of s buf c "n - c"] c by simp
    then show ?thesis
      using t' ct False less.prems(2) chunk(5) by (subst write_loop.simps) auto
  qed
qed

lemma read_loop_fifo:
  assumes "pipe_ok s i" "n \<le> PIPE_SIZE (inode_table s i)"
  shows "\<exists>t. read_loop i buf n d s = Some (d + n, t) \<and>
    user_bytes t buf n @ pipe_bytes t i = pipe_bytes s i \<and> pipe_ok t i \<and>
    (\<forall>a. n \<le> unat (a - buf) \<longrightarrow> user t a = user s a)"
  using assms
proof (induction n arbitrary: s buf d rule: less_induct)
  case (less n)
  show ?case
  proof (cases "n = 0")
    case True
    then show ?thesis using less.prems(1) by (simp add: read_loop.simps pipe_wake_up user_bytes_def)
  next
    case False
    obtain c t where ct: "read_chunk i buf n s = (c, t)" by fastforce
    note chunk = read_chunk_fifo [OF less.prems(1) ct]
    have c: "0 < c" "c \<le> n" "c < 4096" "n < 4096"
      using chunk(1) less.prems False PIPE_SIZE_less [of "inode_table s i"] by (auto simp: pipe_ok_def)
    obtain t' where t': "read_loop i (buf + of_nat c) (n - c) (d + c) t = Some (d + n, t')"
        "user_bytes t' (buf + of_nat c) (n - c) @ pipe_bytes t' i = pipe_bytes t i" "pipe_ok t' i"
        "\<And>a. n - c \<le> unat (a - (buf + of_nat c)) \<Longrightarrow> user t' a = user t a"
    proof -
      have "n - c < n" "n - c \<le> PIPE_SIZE (inode_table t i)" "d + c + (n - c) = d + n"
        using c chunk(4) less.prems(2) by auto
      then show thesis using less.IH [OF _ chunk(3), of "n - c" "buf + of_nat c" "d + c"] that by auto
    qed
    have far: "user t' a = user t a" if "unat (a - buf) < c \<or> n \<le> unat (a - buf)" for a
    proof (rule t'(4))
      have "unat (a - (buf + of_nat c)) = unat ((a - buf) - of_nat c)" by (simp add: algebra_simps)
      moreover have "unat (of_nat c :: u32) = c" using c by (simp add: unsigned_of_nat take_bit_nat_eq_self)
      then have "unat (x - of_nat c) = (if c \<le> unat x then unat x - c else unat x + 2 ^ 32 - c)" for x :: u32
        by (simp add: unat_sub_if')
      note this [of "a - buf"]
      ultimately show "n - c \<le> unat (a - (buf + of_nat c))"
        using that c by (simp split: if_splits)
    qed
    have "user_bytes t' buf c = user_bytes t buf c"
      unfolding user_bytes_def
    proof (rule map_cong [OF refl], rule far)
      fix k assume "k \<in> set [0..<c]"
      then show "unat (buf + of_nat k - buf) < c \<or> n \<le> unat (buf + of_nat k - buf)"
        using c by (simp add: unsigned_of_nat take_bit_nat_eq_self)
    qed
    then have "user_bytes t' buf n @ pipe_bytes t' i = pipe_bytes s i"
      using t'(2) chunk(2) user_bytes_add [of t' buf c "n - c"] c by simp
    moreover have "user t' a = user s a" if "n \<le> unat (a - buf)" for a
      using far [of a] chunk(5) [of a] c that by simp
    ultimately show ?thesis
      using t' ct False less.prems(2) by (subst read_loop.simps) auto
  qed
qed

section \<open>Properties\<close>

text \<open>
  C7: a write for which the pipe has room (a pipe of 4096 bytes holds 4095) does not sleep, returns its
  length and puts the bytes of the caller's buffer behind the ones already there, whatever the
  positions of the ring are; the caller's memory is not changed.
\<close>

theorem write_pipe_fifo:
  assumes "pipe_ok s i" "0 \<le> n" "int (PIPE_SIZE (inode_table s i)) + n \<le> 4095"
  shows "\<exists>t. write_pipe i buf n s = Some (n, t) \<and> pipe_ok t i \<and>
    pipe_bytes t i = pipe_bytes s i @ user_bytes s buf (nat n) \<and> user t = user s"
proof -
  have "PIPE_SIZE (inode_table s i) + nat n \<le> 4095" "int (nat n) = n" using assms(2,3) by auto
  then show ?thesis using write_loop_fifo [OF assms(1), of "nat n" buf 0] by (auto simp: write_pipe_def)
qed

text \<open>Two bytes before the end of the page: the write wraps around.\<close>

definition ring_state :: kernel where
  "ring_state = boot_kernel\<lparr>inode_table := (\<lambda>_. zero_inode\<lparr>i_size := 0x5000, i_count := 2,
     i_zone := (\<lambda>_. 0)(0 := 4094, 1 := 4091)\<rparr>), user := (\<lambda>a. ucast a + 7), hw8 := (\<lambda>a. ucast a)\<rparr>"

lemma ring_state_ok: "pipe_ok ring_state 3" "PIPE_SIZE (inode_table ring_state 3) = 3"
  "pipe_bytes ring_state 3 = [0xfb, 0xfc, 0xfd]"
  by (simp_all add: ring_state_def pipe_ok_def PIPE_HEAD_def PIPE_TAIL_def PIPE_SIZE_def pipe_bytes_def upt_rec)

theorem write_pipe_fifo_witness:
  "\<exists>t. write_pipe 3 9 4 ring_state = Some (4, t) \<and>
     pipe_bytes t 3 = [0xfb, 0xfc, 0xfd, 0x10, 0x11, 0x12, 0x13]"
proof -
  have "user_bytes ring_state 9 4 = [0x10, 0x11, 0x12, 0x13]"
    by (simp add: user_bytes_def ring_state_def upt_rec)
  then show ?thesis using write_pipe_fifo [of ring_state 3 4 9] by (auto simp: ring_state_ok)
qed

text \<open>
  C8: a read of no more than what the pipe holds does not sleep, returns its length, stores the oldest
  bytes of the pipe in the caller's buffer, in order, removes exactly those from the pipe, and touches
  no other byte of the caller's memory.
\<close>

theorem read_pipe_fifo:
  assumes "pipe_ok s i" "0 \<le> n" "n \<le> int (PIPE_SIZE (inode_table s i))"
  shows "\<exists>t. read_pipe i buf n s = Some (n, t) \<and> pipe_ok t i \<and>
    user_bytes t buf (nat n) @ pipe_bytes t i = pipe_bytes s i \<and>
    (\<forall>a. nat n \<le> unat (a - buf) \<longrightarrow> user t a = user s a)"
proof -
  have "nat n \<le> PIPE_SIZE (inode_table s i)" "int (nat n) = n" using assms(2,3) by auto
  then show ?thesis using read_loop_fifo [OF assms(1), of "nat n" buf 0] by (auto simp: read_pipe_def)
qed

theorem read_pipe_fifo_witness:
  "\<exists>t. read_pipe 3 0 2 ring_state = Some (2, t) \<and> user_bytes t 0 2 = [0xfb, 0xfc] \<and> pipe_bytes t 3 = [0xfd]"
proof -
  obtain t where t: "read_pipe 3 0 2 ring_state = Some (2, t)"
      "user_bytes t 0 2 @ pipe_bytes t 3 = [0xfb, 0xfc, 0xfd]"
    using read_pipe_fifo [of ring_state 3 2 0] by (auto simp: ring_state_ok)
  moreover have "length (user_bytes t 0 2) = 2" by (simp add: user_bytes_def)
  ultimately show ?thesis by (auto simp: append_eq_Cons_conv)
qed

end
