(* ===== verification/Tty_Queue.thy ===== *)
theory Tty_Queue
  imports User_Memory Sched
begin

text \<open>
  The ring queues of include/linux/tty.h and kernel/chr_drv/serial.c. The macros on a queue are
  functions of the queue; the bytes between tail and head, in order, are what it stands for.
\<close>

section \<open>Definitions\<close>

definition INC :: "u32 \<Rightarrow> u32" where "INC a = (a + 1) AND 1023"
definition DEC :: "u32 \<Rightarrow> u32" where "DEC a = (a - 1) AND 1023"

definition EMPTY :: "tty_queue \<Rightarrow> bool" where
  "EMPTY a \<longleftrightarrow> q_head a = q_tail a"

definition LEFT :: "tty_queue \<Rightarrow> u32" where
  "LEFT a = (q_tail a - q_head a - 1) AND 1023"

definition LAST :: "tty_queue \<Rightarrow> u8" where
  "LAST a = q_buf a (unat (1023 AND (q_head a - 1)))"

definition FULL :: "tty_queue \<Rightarrow> bool" where
  "FULL a \<longleftrightarrow> LEFT a = 0"

definition CHARS :: "tty_queue \<Rightarrow> u32" where
  "CHARS a = (q_head a - q_tail a) AND 1023"

definition GETCH :: "tty_queue \<Rightarrow> u8 \<times> tty_queue" where
  "GETCH q = (q_buf q (unat (q_tail q)), q\<lparr>q_tail := INC (q_tail q)\<rparr>)"

definition PUTCH :: "u8 \<Rightarrow> tty_queue \<Rightarrow> tty_queue" where
  "PUTCH c q = q\<lparr>q_buf := (q_buf q)(unat (q_head q) := c), q_head := INC (q_head q)\<rparr>"

definition flush :: "tty_queue \<Rightarrow> tty_queue" where
  "flush q = q\<lparr>q_head := q_tail q\<rparr>"

text \<open>\<open>DEC(tty->secondary.head)\<close>, which takes the last byte back.\<close>

definition UNPUTCH :: "tty_queue \<Rightarrow> tty_queue" where
  "UNPUTCH q = q\<lparr>q_head := DEC (q_head q)\<rparr>"

subsection \<open>kernel/chr_drv/serial.c\<close>

text \<open>\<open>init\<close> programs a serial port for 2400 bits per second; the interrupt gates are hardware state.\<close>

definition serial_init :: "u16 \<Rightarrow> kernel \<Rightarrow> kernel" where
  "serial_init port s =
     (let s = outb 0x80 (port + 3) s;
          s = outb 0x30 port s;
          s = outb 0 (port + 1) s;
          s = outb 0x03 (port + 3) s;
          s = outb 0x0b (port + 4) s;
          s = outb 0x0d (port + 1) s
      in snd (inb port s))"

definition rs_init :: "kernel \<Rightarrow> kernel" where
  "rs_init s =
     (let s = set_intr_gate 0x23 ''rs2_interrupt'' (set_intr_gate 0x24 ''rs1_interrupt'' s);
          s = serial_init (ucast (q_data (read_q (tty_table s 1)))) s;
          s = serial_init (ucast (q_data (read_q (tty_table s 2)))) s;
          (v, s) = inb 0x21 s
      in outb (v AND 0xE7) 0x21 s)"

definition rs_write :: "nat \<Rightarrow> kernel \<Rightarrow> kernel" where
  "rs_write t s =
     (let q = write_q (tty_table s t); port = ucast (q_data q) + 1 in
      if EMPTY q then s else case inb port s of (v, s) \<Rightarrow> outb (v OR 0x02) port s)"

section \<open>What a queue stands for\<close>

definition queue_ok :: "tty_queue \<Rightarrow> bool" where
  "queue_ok q \<longleftrightarrow> unat (q_head q) < 1024 \<and> unat (q_tail q) < 1024"

definition queue_list :: "tty_queue \<Rightarrow> u8 list" where
  "queue_list q = map (\<lambda>k. q_buf q ((unat (q_tail q) + k) mod 1024)) [0..<unat (CHARS q)]"

lemma and_1023: "unat ((w :: u32) AND 1023) = unat w mod 1024"
proof -
  have "w AND 1023 = take_bit 10 w" by (simp add: take_bit_eq_mask mask_eq_exp_minus_1)
  then show ?thesis by (simp add: take_bit_eq_mod unat_mod)
qed

lemma mod_wrap32: "(a + 4294967296) mod 1024 = a mod (1024 :: nat)" "4294967295 mod 1024 = (1023 :: nat)"
  using mod_mult_self1 [of a 4194304 1024] by simp_all

lemma unat_INC: "unat (INC a) = (unat a + 1) mod 1024"
proof -
  have "unat (a + 1) mod 1024 = (unat a + 1) mod 1024"
  proof (cases "unat a + 1 < 2 ^ 32")
    case False
    then have "unat a = 4294967295" using unsigned_less [of a, where ?'a = nat] by simp
    then show ?thesis by (simp add: unat_word_ariths)
  qed (simp add: unat_word_ariths)
  then show ?thesis by (simp add: INC_def and_1023)
qed

lemma unat_sub_1024:
  assumes "unat (a :: u32) < 1024" "unat (b :: u32) < 1024"
  shows "unat (a - b) mod 1024 = (unat a + 1024 - unat b) mod 1024"
proof (cases "unat b \<le> unat a")
  case True
  then have "unat a + 1024 - unat b = unat a - unat b + 1024" by simp
  then show ?thesis using True by (simp only: unat_sub_if' if_True mod_add_self2)
next
  case False
  then have "unat a + 2 ^ 32 - unat b = unat a + 1024 - unat b + 1024 * 4194303" using assms by simp
  then have "(unat a + 2 ^ 32 - unat b) mod 1024 = (unat a + 1024 - unat b) mod 1024" by (simp only: mod_mult_self2)
  then show ?thesis using False by (simp add: unat_sub_if')
qed

lemma unat_DEC:
  assumes "unat a < 1024"
  shows "unat (DEC a) = (unat a + 1023) mod 1024"
  using unat_sub_1024 [OF assms, of 1] by (simp add: DEC_def and_1023 add.commute)

lemma unat_CHARS:
  assumes "queue_ok q"
  shows "unat (CHARS q) = (unat (q_head q) + 1024 - unat (q_tail q)) mod 1024"
  using assms unat_sub_1024 by (simp add: CHARS_def and_1023 queue_ok_def)

lemma ring_distance:
  assumes "(h :: nat) < 1024" "t < 1024"
  shows "(h + 1024 - t) mod 1024 = (if t \<le> h then h - t else h + 1024 - t)"
proof (cases "t \<le> h")
  case True
  then have "h + 1024 - t = h - t + 1024" by simp
  then show ?thesis using True assms by (simp only: mod_add_self2) simp
qed (use assms in simp)

lemma unat_CHARS_cases:
  assumes "queue_ok q"
  shows "unat (CHARS q) = (if unat (q_tail q) \<le> unat (q_head q) then unat (q_head q) - unat (q_tail q)
                           else unat (q_head q) + 1024 - unat (q_tail q))"
  using assms by (simp add: unat_CHARS ring_distance queue_ok_def)

lemma length_queue_list: "length (queue_list q) = unat (CHARS q)"
  by (simp add: queue_list_def)

lemma queue_list_less: "length (queue_list q) < 1024"
  by (simp add: length_queue_list CHARS_def and_1023)

lemma EMPTY_iff: "queue_ok q \<Longrightarrow> EMPTY q \<longleftrightarrow> queue_list q = []"
  using unat_CHARS_cases [of q] by (auto simp: EMPTY_def queue_list_def queue_ok_def word_eq_iff_unsigned split: if_splits)

text \<open>The room that is left and the bytes that are there add up to one less than the buffer.\<close>

lemma unat_LEFT:
  assumes "queue_ok q"
  shows "unat (LEFT q) = 1023 - length (queue_list q)"
proof -
  have "LEFT q = (- 1 - (q_head q - q_tail q)) AND 1023" by (simp add: LEFT_def algebra_simps)
  moreover have "unat (- 1 - w :: u32) mod 1024 = 1023 - unat w mod 1024" for w :: u32
  proof -
    have "unat (- 1 - w) = 4294967295 - unat w"
      using unsigned_less [of w, where ?'a = nat] by (simp add: unat_sub_if' unsigned_minus_1_eq_mask mask_eq_exp_minus_1)
    moreover have "unat w = 1024 * (unat w div 1024) + unat w mod 1024" by simp
    moreover have "unat w div 1024 < 4194304" using unsigned_less [of w, where ?'a = nat] by auto
    moreover have "unat w mod 1024 < 1024" by simp
    ultimately have "unat (- 1 - w) = 1024 * (4194303 - unat w div 1024) + (1023 - unat w mod 1024)" by linarith
    then show ?thesis by (simp only: mod_mult_self4) simp
  qed
  ultimately show ?thesis by (simp add: and_1023 length_queue_list CHARS_def)
qed

lemma FULL_iff: "queue_ok q \<Longrightarrow> FULL q \<longleftrightarrow> length (queue_list q) = 1023"
  using unat_LEFT [of q] queue_list_less [of q] by (auto simp: FULL_def unat_eq_0)

lemma queue_ok_PUTCH [simp]: "queue_ok q \<Longrightarrow> queue_ok (PUTCH c q)"
  by (simp add: queue_ok_def PUTCH_def unat_INC)

lemma queue_ok_GETCH [simp]: "queue_ok q \<Longrightarrow> queue_ok (snd (GETCH q))"
  by (simp add: queue_ok_def GETCH_def unat_INC)

lemma queue_ok_UNPUTCH [simp]: "queue_ok q \<Longrightarrow> queue_ok (UNPUTCH q)"
  by (simp add: queue_ok_def UNPUTCH_def unat_DEC)

lemma queue_ok_flush [simp]: "queue_ok q \<Longrightarrow> queue_ok (flush q)"
  by (simp add: queue_ok_def flush_def)

lemma queue_list_flush [simp]: "queue_list (flush q) = []"
  by (simp add: queue_list_def flush_def CHARS_def)

lemma ring_last:
  assumes "queue_ok q" "\<not> FULL q"
  shows "(unat (q_tail q) + unat (CHARS q)) mod 1024 = unat (q_head q)"
proof -
  have "(unat (q_tail q) + unat (CHARS q)) mod 1024 = (unat (q_head q) + 1024) mod 1024"
    using assms(1) by (simp add: unat_CHARS queue_ok_def mod_add_right_eq)
  then show ?thesis using assms(1) by (simp add: queue_ok_def)
qed

lemma ring_put:
  assumes "(h :: nat) < 1024" "t < 1024" "(h + 1024 - t) mod 1024 < 1023"
  shows "((h + 1) mod 1024 + 1024 - t) mod 1024 = Suc ((h + 1024 - t) mod 1024)"
proof -
  define p where "p = (h + 1) mod 1024"
  have p: "p = (if h = 1023 then 0 else h + 1)" using assms(1) by (simp add: p_def)
  then have "p < 1024" using assms(1) by (simp split: if_splits)
  then have "(p + 1024 - t) mod 1024 = (if t \<le> p then p - t else p + 1024 - t)" using assms(2) ring_distance by simp
  also have "\<dots> = Suc (if t \<le> h then h - t else h + 1024 - t)"
    using assms(1,2) assms(3) [unfolded ring_distance [OF assms(1,2)]] p by (auto split: if_splits)
  finally show ?thesis using ring_distance [OF assms(1,2)] by (simp add: p_def)
qed

lemma ring_dec:
  assumes "(h :: nat) < 1024"
  shows "(h + 1023) mod 1024 = (if h = 0 then 1023 else h - 1)"
proof (cases "h = 0")
  case False
  then have "h + 1023 = h - 1 + 1024" by simp
  then show ?thesis using False assms by (simp only: mod_add_self2) simp
qed simp

lemma ring_add:
  assumes "(t :: nat) < 1024" "k < 1024"
  shows "(t + k) mod 1024 = (if t + k < 1024 then t + k else t + k - 1024)"
proof (cases "t + k < 1024")
  case False
  then have "t + k = t + k - 1024 + 1024" by simp
  then have "(t + k) mod 1024 = (t + k - 1024) mod 1024" by (metis mod_add_self2)
  then show ?thesis using False assms by simp
qed simp

lemma ring_unput:
  assumes "(h :: nat) < 1024" "t < 1024" "(h + 1024 - t) mod 1024 = Suc m"
  shows "(t + m) mod 1024 = (h + 1023) mod 1024" "((h + 1023) mod 1024 + 1024 - t) mod 1024 = m"
proof -
  define p where "p = (h + 1023) mod 1024"
  have m: "m < 1023" using assms(3) mod_less_divisor [of 1024 "h + 1024 - t"] by simp
  have d: "(if t \<le> h then h - t else h + 1024 - t) = Suc m" using assms ring_distance by simp
  have p: "p = (if h = 0 then 1023 else h - 1)" using ring_dec [OF assms(1)] by (simp add: p_def)
  then have "p < 1024" using assms(1) by (simp split: if_splits)
  then have "(p + 1024 - t) mod 1024 = (if t \<le> p then p - t else p + 1024 - t)" using assms(2) ring_distance by simp
  also have "\<dots> = m" using assms(1,2) m d p by (auto split: if_splits)
  finally show "((h + 1023) mod 1024 + 1024 - t) mod 1024 = m" by (simp add: p_def)
  have "(t + m) mod 1024 = (if t + m < 1024 then t + m else t + m - 1024)" using assms(2) m by (simp add: ring_add)
  also have "\<dots> = p" using assms(1,2) m d p by (auto split: if_splits)
  finally show "(t + m) mod 1024 = (h + 1023) mod 1024" by (simp add: p_def)
qed

lemma ring_get:
  assumes "(h :: nat) < 1024" "t < 1024" "(h + 1024 - t) mod 1024 = Suc m"
  shows "(h + 1024 - (t + 1) mod 1024) mod 1024 = m"
proof (cases "t = 1023")
  case False
  then have "(t + 1) mod 1024 = t + 1" using assms(2) by simp
  then show ?thesis using False assms ring_distance [of h t] ring_distance [of h "t + 1"] by (simp split: if_splits)
qed (use assms ring_distance [of h 1023] in \<open>simp split: if_splits\<close>)

lemma queue_list_PUTCH [simp]:
  assumes "queue_ok q" "\<not> FULL q"
  shows "queue_list (PUTCH c q) = queue_list q @ [c]"
proof -
  let ?n = "unat (CHARS q)"
  have n: "?n < 1023" using assms FULL_iff [OF assms(1)] queue_list_less [of q] by (simp add: length_queue_list)
  have c: "unat (CHARS (PUTCH c q)) = Suc ?n"
    using unat_CHARS [OF assms(1)] unat_CHARS [OF queue_ok_PUTCH [OF assms(1)], of c] assms(1) n
      ring_put [of "unat (q_head q)" "unat (q_tail q)"]
    by (simp add: queue_ok_def PUTCH_def unat_INC)
  have "(unat (q_tail q) + k) mod 1024 \<noteq> unat (q_head q)" if "k < ?n" for k
  proof
    assume "(unat (q_tail q) + k) mod 1024 = unat (q_head q)"
    then have "(unat (q_tail q) + k) mod 1024 = (unat (q_tail q) + ?n) mod 1024" using ring_last [OF assms] by simp
    then show False using that n assms(1) by (simp add: queue_ok_def ring_add split: if_splits)
  qed
  then show ?thesis using ring_last [OF assms] by (simp add: queue_list_def c) (simp add: PUTCH_def)
qed

lemma queue_list_GETCH:
  assumes "queue_ok q" "\<not> EMPTY q"
  shows "queue_list q = fst (GETCH q) # queue_list (snd (GETCH q))"
proof -
  let ?n = "unat (CHARS q)"
  have "?n \<noteq> 0" using assms EMPTY_iff [OF assms(1)] by (auto simp: queue_list_def)
  then obtain m where m: "?n = Suc m" using not0_implies_Suc by blast
  have c: "unat (CHARS (snd (GETCH q))) = m"
    using unat_CHARS [OF assms(1)] unat_CHARS [OF queue_ok_GETCH [OF assms(1)]] assms(1) m
      ring_get [of "unat (q_head q)" "unat (q_tail q)"]
    by (simp add: queue_ok_def GETCH_def unat_INC)
  have "[0..<Suc m] = 0 # map Suc [0..<m]" by (simp add: map_Suc_upt upt_conv_Cons)
  moreover have "((unat (q_tail q) + 1) mod 1024 + k) mod 1024 = (unat (q_tail q) + Suc k) mod 1024" for k
    by (simp add: mod_add_left_eq)
  ultimately show ?thesis using assms(1)
    by (simp only: queue_list_def m c) (simp add: GETCH_def unat_INC queue_ok_def comp_def)
qed

lemma UNPUTCH_PUTCH:
  assumes "queue_ok q"
  shows "UNPUTCH (PUTCH c q) = q\<lparr>q_buf := (q_buf q)(unat (q_head q) := c)\<rparr>"
proof -
  have "unat (DEC (INC (q_head q))) = unat (q_head q)"
    using assms by (simp add: unat_DEC unat_INC queue_ok_def mod_Suc ring_dec)
  then have "DEC (INC (q_head q)) = q_head q" by (simp only: word_unat_eq_iff)
  then show ?thesis by (simp add: UNPUTCH_def PUTCH_def)
qed

lemma queue_list_UNPUTCH [simp]:
  assumes "queue_ok q" "\<not> EMPTY q"
  shows "queue_list (UNPUTCH q) = butlast (queue_list q)"
proof -
  let ?n = "unat (CHARS q)"
  have "?n \<noteq> 0" using assms EMPTY_iff [OF assms(1)] by (auto simp: queue_list_def)
  then obtain m where m: "?n = Suc m" using not0_implies_Suc by blast
  have "unat (CHARS (UNPUTCH q)) = m"
    using unat_CHARS [OF assms(1)] unat_CHARS [OF queue_ok_UNPUTCH [OF assms(1)]] assms(1) m
      ring_unput(2) [of "unat (q_head q)" "unat (q_tail q)"]
    by (simp add: queue_ok_def UNPUTCH_def unat_DEC)
  then show ?thesis by (simp add: queue_list_def m) (simp add: UNPUTCH_def)
qed

lemma LAST_eq:
  assumes "queue_ok q" "\<not> EMPTY q"
  shows "LAST q = last (queue_list q)"
proof -
  let ?n = "unat (CHARS q)"
  have "?n \<noteq> 0" using assms EMPTY_iff [OF assms(1)] by (auto simp: queue_list_def)
  then obtain m where m: "?n = Suc m" using not0_implies_Suc by blast
  have "(unat (q_tail q) + m) mod 1024 = (unat (q_head q) + 1023) mod 1024"
    using unat_CHARS [OF assms(1)] assms(1) m ring_unput(1) by (simp add: queue_ok_def)
  moreover have "1023 AND (q_head q - 1) = DEC (q_head q)" by (simp add: DEC_def and.commute)
  ultimately show ?thesis using assms(1) by (simp add: queue_list_def m LAST_def unat_DEC queue_ok_def)
qed

section \<open>Bounded queues\<close>

text \<open>
  What the terminal driver relies on: a put appends while there is room, a get takes the oldest
  byte. \<open>take_out\<close> is a reader that gets \<open>n\<close> bytes.
\<close>

fun take_out :: "('q \<Rightarrow> 'b \<times> 'q) \<Rightarrow> nat \<Rightarrow> 'q \<Rightarrow> 'b list \<times> 'q" where
  "take_out get 0 q = ([], q)"
| "take_out get (Suc n) q = (let (c, q) = get q; (cs, q) = take_out get n q in (c # cs, q))"

locale bounded_queue =
  fixes contents :: "'q \<Rightarrow> 'b list" and ok :: "'q \<Rightarrow> bool" and put :: "'b \<Rightarrow> 'q \<Rightarrow> 'q"
    and get :: "'q \<Rightarrow> 'b \<times> 'q" and cap :: nat
  assumes put_ok: "ok q \<Longrightarrow> ok (put c q)"
    and get_ok: "ok q \<Longrightarrow> ok (snd (get q))"
    and put_contents: "ok q \<Longrightarrow> length (contents q) < cap \<Longrightarrow> contents (put c q) = contents q @ [c]"
    and get_contents: "ok q \<Longrightarrow> contents q \<noteq> [] \<Longrightarrow> contents q = fst (get q) # contents (snd (get q))"
begin

lemma put_all:
  assumes "ok q" "length (contents q) + length xs \<le> cap"
  shows "ok (fold put xs q) \<and> contents (fold put xs q) = contents q @ xs"
  using assms by (induction xs arbitrary: q) (auto simp: put_ok put_contents)

lemma get_all:
  assumes "ok q" "n \<le> length (contents q)"
  shows "fst (take_out get n q) = take n (contents q) \<and> contents (snd (take_out get n q)) = drop n (contents q) \<and>
    ok (snd (take_out get n q))"
  using assms
proof (induction n arbitrary: q)
  case (Suc n)
  then have "contents q \<noteq> []" by auto
  then have "contents q = fst (get q) # contents (snd (get q))" using get_contents Suc.prems(1) by blast
  then obtain c r where "get q = (c, r)" "contents q = c # contents r" "ok r"
    using get_ok [OF Suc.prems(1)] by (cases "get q") auto
  then show ?case using Suc.IH [of r] Suc.prems(2) by (auto split: prod.split)
qed simp

lemma first_in_first_out:
  assumes "ok q" "length (contents q) + length xs \<le> cap"
  shows "fst (take_out get (length (contents q) + length xs) (fold put xs q)) = contents q @ xs \<and>
    contents (snd (take_out get (length (contents q) + length xs) (fold put xs q))) = []"
  using put_all [OF assms] get_all [of "fold put xs q" "length (contents q) + length xs"] by simp

end

interpretation ttyq: bounded_queue queue_list queue_ok PUTCH GETCH 1023
  using queue_list_GETCH queue_list_PUTCH EMPTY_iff FULL_iff by unfold_locales auto

text \<open>
  C24: the ring of a terminal queue is first in, first out: when bytes are put into a queue that has
  room for them, as many gets deliver what was there before and then the new bytes, in order and
  wrapped around the end of the buffer or not, and leave the queue empty.
\<close>

theorem tty_queue_fifo:
  assumes "queue_ok q" "length (queue_list q) + length xs \<le> 1023"
  shows "fst (take_out GETCH (length (queue_list q) + length xs) (fold PUTCH xs q)) = queue_list q @ xs \<and>
    EMPTY (snd (take_out GETCH (length (queue_list q) + length xs) (fold PUTCH xs q)))"
  using ttyq.first_in_first_out [OF assms] ttyq.put_all [OF assms]
    ttyq.get_all [of "fold PUTCH xs q" "length (queue_list q) + length xs"]
  by (simp add: EMPTY_iff)

text \<open>A queue whose three bytes start at the end of the buffer, and two more.\<close>

definition wrapped_queue :: tty_queue where
  "wrapped_queue = \<lparr>q_data = 0, q_head = 1, q_tail = 1022, q_proc_list = None,
     q_buf = (\<lambda>_. 0)(1022 := 65, 1023 := 66, 0 := 67)\<rparr>"

theorem tty_queue_fifo_witness:
  "fst (take_out GETCH 5 (fold PUTCH [68, 69] wrapped_queue)) = [65, 66, 67, 68, 69] \<and>
   EMPTY (snd (take_out GETCH 5 (fold PUTCH [68, 69] wrapped_queue)))"
proof -
  have "CHARS wrapped_queue = 3" by (simp add: wrapped_queue_def CHARS_def)
  then have l: "queue_list wrapped_queue = [65, 66, 67]"
    by (simp add: queue_list_def upt_rec) (simp add: wrapped_queue_def)
  have "queue_ok wrapped_queue" by (simp add: queue_ok_def wrapped_queue_def)
  moreover have "length (queue_list wrapped_queue) + length [68, 69 :: u8] = 5" by (simp add: l)
  ultimately show ?thesis using tty_queue_fifo [of wrapped_queue "[68, 69]"] by (simp only: l) simp
qed

end
