(* ===== verification/Console.thy ===== *)
theory Console
  imports Tty_Queue
begin

text \<open>
  kernel/chr_drv/console.c: the operations on the screen. The screen is the part of physical memory
  from \<open>origin\<close> to \<open>scr_end\<close>; every cell has two bytes, the character and its attribute. The string
  instructions are loops over the cells; the instruction \<open>movsl\<close> moves four bytes.
\<close>

section \<open>Definitions\<close>

abbreviation "VIDEO_TYPE_MDA \<equiv> (0x10::u8)"
abbreviation "VIDEO_TYPE_CGA \<equiv> (0x11::u8)"
abbreviation "VIDEO_TYPE_EGAM \<equiv> (0x20::u8)"
abbreviation "VIDEO_TYPE_EGAC \<equiv> (0x21::u8)"
abbreviation "NPAR \<equiv> (16::nat)"

text \<open>A store of 16 bits, low byte first, and of 8 bits.\<close>

definition store8 :: "u32 \<Rightarrow> u8 \<Rightarrow> kernel \<Rightarrow> kernel" where
  "store8 a v s = s\<lparr>hw8 := (hw8 s)(a := v)\<rparr>"

definition store16 :: "u32 \<Rightarrow> u16 \<Rightarrow> kernel \<Rightarrow> kernel" where
  "store16 a v s = store8 (a + 1) (ucast (drop_bit 8 v)) (store8 a (ucast v) s)"

definition load16 :: "u32 \<Rightarrow> kernel \<Rightarrow> u16" where
  "load16 a s = ucast (hw8 s a) OR push_bit 8 (ucast (hw8 s (a + 1)))"

text \<open>\<open>rep stosw\<close> and \<open>rep movsl\<close>, with the direction flag clear and set.\<close>

fun stosw :: "nat \<Rightarrow> u32 \<Rightarrow> u16 \<Rightarrow> kernel \<Rightarrow> kernel" where
  "stosw 0 di ax s = s"
| "stosw (Suc n) di ax s = stosw n (di + 2) ax (store16 di ax s)"

fun stosw_down :: "nat \<Rightarrow> u32 \<Rightarrow> u16 \<Rightarrow> kernel \<Rightarrow> kernel" where
  "stosw_down 0 di ax s = s"
| "stosw_down (Suc n) di ax s = stosw_down n (di - 2) ax (store16 di ax s)"

definition move32 :: "u32 \<Rightarrow> u32 \<Rightarrow> kernel \<Rightarrow> kernel" where
  "move32 di si s =
     (let v = load16 si s; w = load16 (si + 2) s in store16 (di + 2) w (store16 di v s))"

fun movsl :: "nat \<Rightarrow> u32 \<Rightarrow> u32 \<Rightarrow> kernel \<Rightarrow> kernel" where
  "movsl 0 di si s = s"
| "movsl (Suc n) di si s = movsl n (di + 4) (si + 4) (move32 di si s)"

fun movsl_down :: "nat \<Rightarrow> u32 \<Rightarrow> u32 \<Rightarrow> kernel \<Rightarrow> kernel" where
  "movsl_down 0 di si s = s"
| "movsl_down (Suc n) di si s = movsl_down n (di - 4) (si - 4) (move32 di si s)"

definition gotoxy :: "u32 \<Rightarrow> u32 \<Rightarrow> kernel \<Rightarrow> kernel" where
  "gotoxy new_x new_y s =
     (if new_x > video_num_columns (console s) \<or> new_y \<ge> video_num_lines (console s) then s
      else upd_con (\<lambda>c. c\<lparr>con_x := new_x, con_y := new_y,
             con_pos := con_origin c + new_y * video_size_row c + push_bit 1 new_x\<rparr>) s)"

definition set_origin :: "kernel \<Rightarrow> kernel" where
  "set_origin s =
     (let c = console s; d = con_origin c - video_mem_start c;
          s = outb 12 (video_port_reg c) s;
          s = outb (ucast (0xff AND drop_bit 9 d)) (video_port_val c) s;
          s = outb 13 (video_port_reg c) s
      in outb (ucast (0xff AND drop_bit 1 d)) (video_port_val c) s)"

text \<open>The text of the scroll region moves up one line and the last line is erased.\<close>

definition scroll_region_up :: "kernel \<Rightarrow> kernel" where
  "scroll_region_up s =
     (let c = console s;
          n = unat (drop_bit 1 ((con_bottom c - con_top c - 1) * video_num_columns c));
          di = con_origin c + video_size_row c * con_top c;
          si = con_origin c + video_size_row c * (con_top c + 1)
      in stosw (unat (video_num_columns c)) (di + 4 * of_nat n) (video_erase_char c) (movsl n di si s))"

definition scrup :: "kernel \<Rightarrow> kernel" where
  "scrup s =
     (let c = console s in
      if video_type c = VIDEO_TYPE_EGAC \<or> video_type c = VIDEO_TYPE_EGAM
      then
        if con_top c = 0 \<and> con_bottom c = video_num_lines c
        then
          let s = upd_con (\<lambda>c. c\<lparr>con_origin := con_origin c + video_size_row c,
                                 con_pos := con_pos c + video_size_row c,
                                 con_scr_end := con_scr_end c + video_size_row c\<rparr>) s;
              c = console s;
              s = (if con_scr_end c > video_mem_end c
                   then
                     let n = unat (drop_bit 1 ((video_num_lines c - 1) * video_num_columns c));
                         s = movsl n (video_mem_start c) (con_origin c) s;
                         s = stosw (unat (video_num_columns c)) (video_mem_start c + 4 * of_nat n)
                               (video_erase_char c) s
                     in upd_con (\<lambda>c. c\<lparr>con_scr_end := con_scr_end c - (con_origin c - video_mem_start c),
                                       con_pos := con_pos c - (con_origin c - video_mem_start c),
                                       con_origin := video_mem_start c\<rparr>) s
                   else stosw (unat (video_num_columns c)) (con_scr_end c - video_size_row c) (video_erase_char c) s)
          in set_origin s
        else scroll_region_up s
      else scroll_region_up s)"

text \<open>Both branches of \<open>scrdown\<close> are the same.\<close>

definition scrdown :: "kernel \<Rightarrow> kernel" where
  "scrdown s =
     (let c = console s;
          n = unat (drop_bit 1 ((con_bottom c - con_top c - 1) * video_num_columns c));
          di = con_origin c + video_size_row c * con_bottom c - 4;
          si = con_origin c + video_size_row c * (con_bottom c - 1) - 4
      in stosw_down (unat (video_num_columns c)) (di - 4 * of_nat n + 2) (video_erase_char c)
           (movsl_down n di si s))"

definition lf :: "kernel \<Rightarrow> kernel" where
  "lf s =
     (if con_y (console s) + 1 < con_bottom (console s)
      then upd_con (\<lambda>c. c\<lparr>con_y := con_y c + 1, con_pos := con_pos c + video_size_row c\<rparr>) s
      else scrup s)"

definition ri :: "kernel \<Rightarrow> kernel" where
  "ri s =
     (if con_y (console s) > con_top (console s)
      then upd_con (\<lambda>c. c\<lparr>con_y := con_y c - 1, con_pos := con_pos c - video_size_row c\<rparr>) s
      else scrdown s)"

definition cr :: "kernel \<Rightarrow> kernel" where
  "cr s = upd_con (\<lambda>c. c\<lparr>con_pos := con_pos c - push_bit 1 (con_x c), con_x := 0\<rparr>) s"

definition del :: "kernel \<Rightarrow> kernel" where
  "del s =
     (if con_x (console s) \<noteq> 0
      then let s = upd_con (\<lambda>c. c\<lparr>con_pos := con_pos c - 2, con_x := con_x c - 1\<rparr>) s
           in store16 (con_pos (console s)) (video_erase_char (console s)) s
      else s)"

text \<open>The functions on the parameters of an escape sequence take them as signed or unsigned integers.\<close>

definition csi_J :: "u32 \<Rightarrow> kernel \<Rightarrow> kernel" where
  "csi_J par s =
     (let c = console s in
      if par = 0 then stosw (unat (drop_bit 1 (con_scr_end c - con_pos c))) (con_pos c) (video_erase_char c) s
      else if par = 1 then stosw (unat (drop_bit 1 (con_pos c - con_origin c))) (con_origin c) (video_erase_char c) s
      else if par = 2 then stosw (unat (video_num_columns c * video_num_lines c)) (con_origin c) (video_erase_char c) s
      else s)"

definition csi_K :: "u32 \<Rightarrow> kernel \<Rightarrow> kernel" where
  "csi_K par s =
     (let c = console s; start = con_pos c - push_bit 1 (con_x c) in
      if par = 0
      then if con_x c \<ge> video_num_columns c then s
           else stosw (unat (video_num_columns c - con_x c)) (con_pos c) (video_erase_char c) s
      else if par = 1 then stosw (unat (min (con_x c) (video_num_columns c))) start (video_erase_char c) s
      else if par = 2 then stosw (unat (video_num_columns c)) start (video_erase_char c) s
      else s)"

definition csi_m :: "kernel \<Rightarrow> kernel" where
  "csi_m s =
     fold (\<lambda>i s. upd_con (\<lambda>c. c\<lparr>con_attr :=
         (let p = con_par c i in
          if p = 0 then 0x07 else if p = 1 then 0x0f else if p = 4 then 0x0f
          else if p = 7 then 0x70 else if p = 27 then 0x07 else con_attr c)\<rparr>) s)
       [0..<con_npar (console s) + 1] s"

definition set_cursor :: "kernel \<Rightarrow> kernel" where
  "set_cursor s =
     (let c = console s; d = con_pos c - video_mem_start c;
          s = outb 14 (video_port_reg c) s;
          s = outb (ucast (0xff AND drop_bit 9 d)) (video_port_val c) s;
          s = outb 15 (video_port_reg c) s
      in outb (ucast (0xff AND drop_bit 1 d)) (video_port_val c) s)"

text \<open>The loop of \<open>insert_char\<close> carries the cell it has displaced.\<close>

fun shift_right :: "nat \<Rightarrow> u32 \<Rightarrow> u16 \<Rightarrow> kernel \<Rightarrow> kernel" where
  "shift_right 0 p old s = s"
| "shift_right (Suc n) p old s = (let tmp = load16 p s in shift_right n (p + 2) tmp (store16 p old s))"

definition insert_char :: "kernel \<Rightarrow> kernel" where
  "insert_char s =
     (let c = console s
      in shift_right (unat (video_num_columns c) - unat (con_x c)) (con_pos c) (video_erase_char c) s)"

definition with_region :: "(kernel \<Rightarrow> kernel) \<Rightarrow> kernel \<Rightarrow> kernel" where
  "with_region f s =
     (let oldtop = con_top (console s); oldbottom = con_bottom (console s);
          s = upd_con (\<lambda>c. c\<lparr>con_top := con_y c, con_bottom := video_num_lines c\<rparr>) s
      in upd_con (\<lambda>c. c\<lparr>con_top := oldtop, con_bottom := oldbottom\<rparr>) (f s))"

definition insert_line :: "kernel \<Rightarrow> kernel" where
  "insert_line s = with_region scrdown s"

fun shift_left :: "nat \<Rightarrow> u32 \<Rightarrow> u16 \<Rightarrow> kernel \<Rightarrow> kernel" where
  "shift_left 0 p erase s = store16 p erase s"
| "shift_left (Suc n) p erase s = shift_left n (p + 2) erase (store16 p (load16 (p + 2) s) s)"

definition delete_char :: "kernel \<Rightarrow> kernel" where
  "delete_char s =
     (let c = console s in
      if con_x c \<ge> video_num_columns c then s
      else shift_left (unat (video_num_columns c) - unat (con_x c) - 1) (con_pos c) (video_erase_char c) s)"

definition delete_line :: "kernel \<Rightarrow> kernel" where
  "delete_line s = with_region scrup s"

text \<open>The common part of \<open>csi_at\<close>, \<open>csi_L\<close>, \<open>csi_P\<close> and \<open>csi_M\<close>: how often the operation is done.\<close>

definition csi_count :: "u32 \<Rightarrow> u32 \<Rightarrow> nat" where
  "csi_count limit nr = (if nr > limit then unat limit else if nr = 0 then 1 else unat nr)"

definition csi_at :: "u32 \<Rightarrow> kernel \<Rightarrow> kernel" where
  "csi_at nr s = (insert_char ^^ csi_count (video_num_columns (console s)) nr) s"

definition csi_L :: "u32 \<Rightarrow> kernel \<Rightarrow> kernel" where
  "csi_L nr s = (insert_line ^^ csi_count (video_num_lines (console s)) nr) s"

definition csi_P :: "u32 \<Rightarrow> kernel \<Rightarrow> kernel" where
  "csi_P nr s = (delete_char ^^ csi_count (video_num_columns (console s)) nr) s"

definition csi_M :: "u32 \<Rightarrow> kernel \<Rightarrow> kernel" where
  "csi_M nr s = (delete_line ^^ csi_count (video_num_lines (console s)) nr) s"

definition save_cur :: "kernel \<Rightarrow> kernel" where
  "save_cur s = upd_con (\<lambda>c. c\<lparr>con_saved_x := con_x c, con_saved_y := con_y c\<rparr>) s"

definition restore_cur :: "kernel \<Rightarrow> kernel" where
  "restore_cur s = gotoxy (con_saved_x (console s)) (con_saved_y (console s)) s"

definition sysbeep :: "kernel \<Rightarrow> kernel" where
  "sysbeep s =
     (let (v, s) = inb 0x61 s;
          s = outb (v OR 3) 0x61 s;
          s = outb 0xB6 0x43 s;
          s = outb 0x37 0x42 s;
          s = outb 0x06 0x42 s
      in s\<lparr>beepcount := HZ sdiv 8\<rparr>)"

subsection \<open>The bytes of the output\<close>

text \<open>\<open>if (par[i]) par[i]--\<close> and \<open>if (!par[0]) par[0]++\<close>.\<close>

definition dec_par :: "nat \<Rightarrow> kernel \<Rightarrow> kernel" where
  "dec_par i s =
     upd_con (\<lambda>c. c\<lparr>con_par := (con_par c)(i := if con_par c i \<noteq> 0 then con_par c i - 1 else 0)\<rparr>) s"

definition one_par :: "kernel \<Rightarrow> kernel" where
  "one_par s = upd_con (\<lambda>c. c\<lparr>con_par := (con_par c)(0 := if con_par c 0 = 0 then 1 else con_par c 0)\<rparr>) s"

definition set_region :: "kernel \<Rightarrow> kernel" where
  "set_region s =
     (let s = dec_par 0 s;
          s = upd_con (\<lambda>c. c\<lparr>con_par := (con_par c)(1 := if con_par c 1 = 0 then video_num_lines c else con_par c 1)\<rparr>) s;
          c = console s
      in if con_par c 0 < con_par c 1 \<and> con_par c 1 \<le> video_num_lines c
         then upd_con (\<lambda>c. c\<lparr>con_top := con_par c 0, con_bottom := con_par c 1\<rparr>) s else s)"

text \<open>State 4: the letter that ends an escape sequence.\<close>

definition con_csi :: "u8 \<Rightarrow> kernel \<Rightarrow> kernel" where
  "con_csi ch s =
     (let s = upd_con (\<lambda>c. c\<lparr>con_state := 0\<rparr>) s;
          d = dec_par 0 s; u = one_par s;
          x = con_x (console s); y = con_y (console s);
          p = con_par (console s) 0; n = con_par (console u) 0; m = con_par (console d) 0
      in if ch = 0x47 \<or> ch = 0x60 then gotoxy m y d
         else if ch = 0x41 then gotoxy x (y - n) u
         else if ch = 0x42 \<or> ch = 0x65 then gotoxy x (y + n) u
         else if ch = 0x43 \<or> ch = 0x61 then gotoxy (x + n) y u
         else if ch = 0x44 then gotoxy (x - n) y u
         else if ch = 0x45 then gotoxy 0 (y + n) u
         else if ch = 0x46 then gotoxy 0 (y - n) u
         else if ch = 0x64 then gotoxy x m d
         else if ch = 0x48 \<or> ch = 0x66
         then let s = dec_par 1 d in gotoxy (con_par (console s) 1) (con_par (console s) 0) s
         else if ch = 0x4a then csi_J p s
         else if ch = 0x4b then csi_K p s
         else if ch = 0x4c then csi_L p s
         else if ch = 0x4d then csi_M p s
         else if ch = 0x50 then csi_P p s
         else if ch = 0x40 then csi_at p s
         else if ch = 0x6d then csi_m s
         else if ch = 0x72 then set_region s
         else if ch = 0x73 then save_cur s
         else if ch = 0x75 then restore_cur s
         else s)"

text \<open>State 3: the parameters, and state 2 before it, which clears them.\<close>

definition con_params :: "u8 \<Rightarrow> kernel \<Rightarrow> kernel" where
  "con_params ch s =
     (let c = console s in
      if ch = 0x3b \<and> con_npar c < NPAR - 1 then upd_con (\<lambda>c. c\<lparr>con_npar := con_npar c + 1\<rparr>) s
      else if 0x30 \<le> ch \<and> ch \<le> 0x39
      then upd_con (\<lambda>c. c\<lparr>con_par := (con_par c)(con_npar c :=
                          10 * con_par c (con_npar c) + ucast ch - 0x30)\<rparr>) s
      else con_csi ch s)"

definition con_bracket :: "u8 \<Rightarrow> kernel \<Rightarrow> kernel" where
  "con_bracket ch s =
     (let s = upd_con (\<lambda>c. c\<lparr>con_par := (\<lambda>i. if i < NPAR then 0 else con_par c i), con_npar := 0,
                             con_state := 3, con_ques := (ch = 0x3f)\<rparr>) s
      in if ch = 0x3f then s else con_params ch s)"

text \<open>
  State 1: the byte after an escape; the second result says that \<open>respond\<close> is called. The code compares
  the column \<open>x\<close>, not the byte \<open>c\<close>, with the digits 7 and 8.
\<close>

definition con_escape :: "u8 \<Rightarrow> kernel \<Rightarrow> bool \<times> kernel" where
  "con_escape ch s =
     (let s = upd_con (\<lambda>c. c\<lparr>con_state := 0\<rparr>) s in
      if ch = 0x5b then (False, upd_con (\<lambda>c. c\<lparr>con_state := 2\<rparr>) s)
      else if ch = 0x45 then (False, gotoxy 0 (con_y (console s) + 1) s)
      else if ch = 0x4d then (False, ri s)
      else if ch = 0x44 then (False, lf s)
      else if ch = 0x5a then (True, s)
      else if con_x (console s) = 0x37 then (False, save_cur s)
      else if con_x (console s) = 0x38 then (False, restore_cur s)
      else (False, s))"

text \<open>A column at or beyond the last one continues on the next line.\<close>

definition wrap_line :: "kernel \<Rightarrow> kernel" where
  "wrap_line s =
     lf (upd_con (\<lambda>c. c\<lparr>con_x := con_x c - video_num_columns c, con_pos := con_pos c - video_size_row c\<rparr>) s)"

definition put_char :: "u8 \<Rightarrow> kernel \<Rightarrow> kernel" where
  "put_char ch s =
     (let s = (if con_x (console s) \<ge> video_num_columns (console s) then wrap_line s else s);
          c = console s;
          s = store16 (con_pos c) (push_bit 8 (ucast (con_attr c)) OR ucast ch) s
      in upd_con (\<lambda>c. c\<lparr>con_pos := con_pos c + 2, con_x := con_x c + 1\<rparr>) s)"

definition con_tab :: "kernel \<Rightarrow> kernel" where
  "con_tab s =
     (let n = 8 - (con_x (console s) AND 7);
          s = upd_con (\<lambda>c. c\<lparr>con_x := con_x c + n, con_pos := con_pos c + push_bit 1 n\<rparr>) s
      in if con_x (console s) > video_num_columns (console s) then wrap_line s else s)"

text \<open>State 0. \<open>c\<close> is a signed char and \<open>ERASE_CHAR\<close> an unsigned one, so bytes above 127 differ from it.\<close>

definition con_plain :: "u8 \<Rightarrow> u8 \<Rightarrow> kernel \<Rightarrow> kernel" where
  "con_plain erase ch s =
     (if 31 < ch \<and> ch < 127 then put_char ch s
      else if ch = 27 then upd_con (\<lambda>c. c\<lparr>con_state := 1\<rparr>) s
      else if ch = 10 \<or> ch = 11 \<or> ch = 12 then lf s
      else if ch = 13 then cr s
      else if ch = erase \<and> ch < 128 then del s
      else if ch = 8
      then if con_x (console s) \<noteq> 0
           then upd_con (\<lambda>c. c\<lparr>con_x := con_x c - 1, con_pos := con_pos c - 2\<rparr>) s else s
      else if ch = 9 then con_tab s
      else if ch = 7 then sysbeep s
      else s)"

definition con_char :: "u8 \<Rightarrow> u8 \<Rightarrow> kernel \<Rightarrow> bool \<times> kernel" where
  "con_char erase ch s =
     (let st = con_state (console s) in
      if st = 0 then (False, con_plain erase ch s)
      else if st = 1 then con_escape ch s
      else if st = 2 then (False, con_bracket ch s)
      else if st = 3 then (False, con_params ch s)
      else if st = 4 then (False, con_csi ch s)
      else (False, s))"

text \<open>\<open>con_init\<close> reads what the boot loader left from address 0x90000 on. The gates are hardware state.\<close>

definition con_init :: "kernel \<Rightarrow> kernel" where
  "con_init s =
     (let page = load16 0x90004 s; md = load16 0x90006 s; bx = load16 0x9000a s;
          cols = ucast (drop_bit 8 (md AND 0xff00)); row = cols * 2;
          mono = (md AND 0xff = 7); ega = (bx AND 0xff \<noteq> 0x10);
          start = (if mono then 0xb0000 else 0xb8000);
          desc = (if mono then if ega then [0x45, 0x47, 0x41, 0x6d] else [0x2a, 0x4d, 0x44, 0x41]
                  else if ega then [0x45, 0x47, 0x41, 0x63] else [0x2a, 0x43, 0x47, 0x41]);
          s = upd_con (\<lambda>c. c\<lparr>video_num_columns := cols, video_size_row := row, video_num_lines := 25,
                video_page := ucast page, video_erase_char := 0x0720, video_mem_start := start,
                video_port_reg := (if mono then 0x3b4 else 0x3d4), video_port_val := (if mono then 0x3b5 else 0x3d5),
                video_type := (if mono then if ega then VIDEO_TYPE_EGAM else VIDEO_TYPE_MDA
                               else if ega then VIDEO_TYPE_EGAC else VIDEO_TYPE_CGA),
                video_mem_end := (if mono then if ega then 0xb8000 else 0xb2000
                                  else if ega then 0xbc000 else 0xba000)\<rparr>) s;
          s = fold (\<lambda>k. store8 (start + row - 8 + of_nat (2 * k)) (desc ! k)) [0..<4] s;
          s = upd_con (\<lambda>c. c\<lparr>con_origin := start, con_scr_end := start + 25 * row, con_top := 0, con_bottom := 25\<rparr>) s;
          s = gotoxy (ucast (hw8 s 0x90000)) (ucast (hw8 s 0x90001)) s;
          (v, s) = inb 0x21 (set_trap_gate 0x21 ''keyboard_interrupt'' s);
          s = outb (v AND 0xfd) 0x21 s;
          (a, s) = inb 0x61 s;
          s = outb (a OR 0x80) 0x61 s
      in outb a 0x61 s)"

end
