(* ===== verification/Console_Screen.thy ===== *)
theory Console_Screen
  imports Console
begin

text \<open>
  The console keeps its cursor on the screen and writes to video memory only: an invariant of the
  variables of kernel/chr_drv/console.c that every byte of output keeps.
\<close>

section \<open>Writes to a part of memory\<close>

definition paint :: "nat \<Rightarrow> nat \<Rightarrow> kernel \<Rightarrow> kernel \<Rightarrow> bool" where
  "paint lo hi s t \<longleftrightarrow>
     (\<exists>m. t = s\<lparr>hw8 := m\<rparr> \<and> (\<forall>a. unat a < lo \<or> hi \<le> unat a \<longrightarrow> m a = hw8 s a))"

lemma paint_refl [simp]: "paint lo hi s s"
  unfolding paint_def by (rule exI [of _ "hw8 s"]) simp

lemma paint_trans: "paint lo hi s t \<Longrightarrow> paint lo hi t u \<Longrightarrow> paint lo hi s u"
  unfolding paint_def by auto


lemma paint_wider: "paint lo hi s t \<Longrightarrow> lo' \<le> lo \<Longrightarrow> hi \<le> hi' \<Longrightarrow> paint lo' hi' s t"
  unfolding paint_def by (metis le_trans less_le_trans)

lemma paint_store16:
  assumes "lo \<le> unat a" "unat a + 2 \<le> hi" "hi \<le> 2 ^ 32"
  shows "paint lo hi s (store16 a v s)"
proof -
  have "unat (a + 1) = unat a + 1" using assms unat_add_le [of a 1] by simp
  then show ?thesis
    unfolding paint_def using assms
    by (intro exI [of _ "(hw8 s)(a := ucast v, a + 1 := ucast (drop_bit 8 v))"]) (auto simp: store16_def store8_def)
qed

lemma paint_stosw:
  assumes "lo \<le> unat di" "unat di + 2 * n \<le> hi" "hi < 2 ^ 32"
  shows "paint lo hi s (stosw n di ax s)"
  using assms
proof (induction n arbitrary: di s)
  case (Suc n)
  have "unat (di + 2) = unat di + 2" using Suc.prems unat_add_le [of di 2] by simp
  then have "paint lo hi (store16 di ax s) (stosw n (di + 2) ax (store16 di ax s))" using Suc by simp
  moreover have "paint lo hi s (store16 di ax s)" using Suc.prems by (intro paint_store16) auto
  ultimately show ?case by (simp add: paint_trans [of lo hi s])
qed simp

lemma paint_stosw_down:
  assumes "lo + 2 * n \<le> unat di + 2" "unat di + 2 \<le> hi" "hi < 2 ^ 32"
  shows "paint lo hi s (stosw_down n di ax s)"
  using assms
proof (induction n arbitrary: di s)
  case (Suc n)
  have "paint lo hi (store16 di ax s) (stosw_down n (di - 2) ax (store16 di ax s))"
  proof (cases n)
    case (Suc m)
    then have "unat (di - 2) = unat di - 2" using Suc.prems unat_sub_le [of 2 di] by simp
    then have "lo + 2 * n \<le> unat (di - 2) + 2" "unat (di - 2) + 2 \<le> hi" using Suc Suc.prems by auto
    then show ?thesis using Suc.IH Suc.prems(3) by blast
  qed simp
  moreover have "paint lo hi s (store16 di ax s)" using Suc.prems by (intro paint_store16) auto
  ultimately show ?case by (simp add: paint_trans [of lo hi s])
qed simp

lemma paint_move32:
  assumes "lo \<le> unat di" "unat di + 4 \<le> hi" "hi < 2 ^ 32"
  shows "paint lo hi s (move32 di si s)"
proof -
  have "unat (di + 2) = unat di + 2" using assms unat_add_le [of di 2] by simp
  then show ?thesis unfolding move32_def Let_def
    using assms by (intro paint_trans [OF paint_store16 paint_store16]) auto
qed

lemma paint_movsl:
  assumes "lo \<le> unat di" "unat di + 4 * n \<le> hi" "hi < 2 ^ 32"
  shows "paint lo hi s (movsl n di si s)"
  using assms
proof (induction n arbitrary: di si s)
  case (Suc n)
  have "unat (di + 4) = unat di + 4" using Suc.prems unat_add_le [of di 4] by simp
  then have "paint lo hi (move32 di si s) (movsl n (di + 4) (si + 4) (move32 di si s))" using Suc by simp
  moreover have "paint lo hi s (move32 di si s)" using Suc.prems by (intro paint_move32) auto
  ultimately show ?case by (simp add: paint_trans [of lo hi s])
qed simp

lemma paint_movsl_down:
  assumes "lo + 4 * n \<le> unat di + 4" "unat di + 4 \<le> hi" "hi < 2 ^ 32"
  shows "paint lo hi s (movsl_down n di si s)"
  using assms
proof (induction n arbitrary: di si s)
  case (Suc n)
  have "paint lo hi (move32 di si s) (movsl_down n (di - 4) (si - 4) (move32 di si s))"
  proof (cases n)
    case (Suc m)
    then have "unat (di - 4) = unat di - 4" using Suc.prems unat_sub_le [of 4 di] by simp
    then have "lo + 4 * n \<le> unat (di - 4) + 4" "unat (di - 4) + 4 \<le> hi" using Suc Suc.prems by auto
    then show ?thesis using Suc.IH Suc.prems(3) by blast
  qed simp
  moreover have "paint lo hi s (move32 di si s)" using Suc.prems by (intro paint_move32) auto
  ultimately show ?case by (simp add: paint_trans [of lo hi s])
qed simp

lemma paint_shift_right:
  assumes "lo \<le> unat p" "unat p + 2 * n \<le> hi" "hi < 2 ^ 32"
  shows "paint lo hi s (shift_right n p old s)"
  using assms
proof (induction n arbitrary: p old s)
  case (Suc n)
  have "unat (p + 2) = unat p + 2" using Suc.prems unat_add_le [of p 2] by simp
  then have "paint lo hi (store16 p old s) (shift_right n (p + 2) v (store16 p old s))" for v using Suc by simp
  moreover have "paint lo hi s (store16 p old s)" using Suc.prems by (intro paint_store16) auto
  ultimately show ?case unfolding shift_right.simps Let_def using paint_trans by blast
qed simp

lemma paint_shift_left:
  assumes "lo \<le> unat p" "unat p + 2 * Suc n \<le> hi" "hi < 2 ^ 32"
  shows "paint lo hi s (shift_left n p e s)"
  using assms
proof (induction n arbitrary: p s)
  case 0
  then show ?case by (simp add: paint_store16)
next
  case (Suc n)
  have "unat (p + 2) = unat p + 2" using Suc.prems unat_add_le [of p 2] by simp
  then have "paint lo hi (store16 p v s) (shift_left n (p + 2) e (store16 p v s))" for v using Suc by simp
  moreover have "paint lo hi s (store16 p v s)" for v using Suc.prems by (intro paint_store16) auto
  ultimately show ?case unfolding shift_left.simps using paint_trans by blast
qed

section \<open>The invariant of the console\<close>

definition con_ok :: "console_vars \<Rightarrow> bool" where
  "con_ok c \<longleftrightarrow>
     8 \<le> unat (video_num_columns c) \<and> unat (video_size_row c) = 2 * unat (video_num_columns c) \<and>
     unat (con_x c) \<le> unat (video_num_columns c) \<and> unat (con_y c) < unat (video_num_lines c) \<and>
     unat (con_top c) < unat (con_bottom c) \<and> unat (con_bottom c) \<le> unat (video_num_lines c) \<and>
     unat (video_mem_start c) \<le> unat (con_origin c) \<and>
     unat (con_scr_end c) = unat (con_origin c) + unat (video_num_lines c) * unat (video_size_row c) \<and>
     unat (con_scr_end c) \<le> unat (video_mem_end c) \<and> unat (video_mem_end c) < 2 ^ 31 \<and>
     unat (con_pos c) = unat (con_origin c) + unat (con_y c) * unat (video_size_row c) + 2 * unat (con_x c) \<and>
     con_npar c < NPAR"

lemma con_okD:
  assumes "con_ok c"
  shows "8 \<le> unat (video_num_columns c)" "unat (video_size_row c) = 2 * unat (video_num_columns c)"
    "unat (con_x c) \<le> unat (video_num_columns c)" "unat (con_y c) < unat (video_num_lines c)"
    "unat (con_top c) < unat (con_bottom c)" "unat (con_bottom c) \<le> unat (video_num_lines c)"
    "unat (video_mem_start c) \<le> unat (con_origin c)"
    "unat (con_scr_end c) = unat (con_origin c) + unat (video_num_lines c) * unat (video_size_row c)"
    "unat (con_scr_end c) \<le> unat (video_mem_end c)" "unat (video_mem_end c) < 2 ^ 31"
    "unat (con_pos c) = unat (con_origin c) + unat (con_y c) * unat (video_size_row c) + 2 * unat (con_x c)"
    "con_npar c < NPAR"
  using assms unfolding con_ok_def by blast+

lemma scr_end_small: "con_ok c \<Longrightarrow> unat (con_scr_end c) < 2147483648"
  using con_okD(9,10) [of c] by simp

definition geometry :: "console_vars \<Rightarrow> u8 \<times> u32 \<times> u32 \<times> u32 \<times> u32 \<times> u32" where
  "geometry c = (video_type c, video_num_columns c, video_size_row c, video_num_lines c,
     video_mem_start c, video_mem_end c)"

text \<open>What an operation of the console may change, and that it keeps the invariant.\<close>

definition draws :: "kernel \<Rightarrow> kernel \<Rightarrow> bool" where
  "draws s t \<longleftrightarrow>
     con_ok (console t) \<and> geometry (console t) = geometry (console s) \<and>
     (\<exists>m c i out b. t = s\<lparr>hw8 := m, console := c, inputs := i, outputs := out, beepcount := b\<rparr> \<and>
       (\<forall>a. unat a < unat (video_mem_start (console s)) \<or> unat (video_mem_end (console s)) \<le> unat a \<longrightarrow>
         m a = hw8 s a))"

lemma drawsI:
  assumes "con_ok c" "geometry c = geometry (console s)"
    "\<And>a. unat a < unat (video_mem_start (console s)) \<or> unat (video_mem_end (console s)) \<le> unat a \<Longrightarrow> m a = hw8 s a"
  shows "draws s (s\<lparr>hw8 := m, console := c, inputs := i, outputs := out, beepcount := b\<rparr>)"
  unfolding draws_def using assms by (intro conjI exI [of _ m] exI [of _ c] exI [of _ i] exI [of _ out] exI [of _ b]) auto

lemma draws_trans: "draws s t \<Longrightarrow> draws t u \<Longrightarrow> draws s u"
  unfolding draws_def geometry_def by (elim conjE exE) (intro conjI exI, auto)

lemma draws_ok: "draws s t \<Longrightarrow> con_ok (console t)"
  by (simp add: draws_def)

lemma draws_refl: "con_ok (console s) \<Longrightarrow> draws s s"
  using drawsI [of "console s" s "hw8 s" "beepcount s" "outputs s" "inputs s"] by simp

lemma draws_upd_con:
  "con_ok (f (console s)) \<Longrightarrow> geometry (f (console s)) = geometry (console s) \<Longrightarrow> draws s (upd_con f s)"
  using drawsI [of "f (console s)" s "hw8 s" "beepcount s" "outputs s" "inputs s"] by (simp add: upd_con_def)

lemma draws_outb: "con_ok (console s) \<Longrightarrow> draws s (outb v p s)"
  using drawsI [of "console s" s "hw8 s" "beepcount s" "outputs s @ [(p, v)]" "inputs s"] by (simp add: outb_def)



lemma draws_paint:
  assumes "con_ok (console s)" "paint (unat (video_mem_start (console s))) (unat (video_mem_end (console s))) s t"
  shows "draws s t"
proof -
  obtain m where "t = s\<lparr>hw8 := m\<rparr>"
    "\<forall>a. unat a < unat (video_mem_start (console s)) \<or> unat (video_mem_end (console s)) \<le> unat a \<longrightarrow> m a = hw8 s a"
    using assms(2) unfolding paint_def by blast
  moreover have "draws s (s\<lparr>hw8 := m\<rparr>)"
    using drawsI [of "console s" s m "beepcount s" "outputs s" "inputs s", OF assms(1) refl] calculation(2) by simp
  ultimately show ?thesis by simp
qed

subsection \<open>Addresses on the screen\<close>

lemma unat_push_bit_1: "unat x < 2 ^ 31 \<Longrightarrow> unat (push_bit 1 x :: u32) = 2 * unat x"
  using unat_mult_le [of 2 x] by (simp add: push_bit_eq_mult mult.commute)

lemma rows_le:
  assumes "k < (l :: nat)"
  shows "k * r + r \<le> l * r"
  using assms mult_le_mono1 [of "Suc k" l r] by simp

lemma unat_screen:
  assumes "con_ok c" "unat k \<le> unat (video_num_lines c)"
  shows "unat (con_origin c + video_size_row c * k) = unat (con_origin c) + unat k * unat (video_size_row c)"
    "unat (con_origin c) + unat k * unat (video_size_row c) \<le> unat (con_scr_end c)"
proof -
  have le: "unat k * unat (video_size_row c) \<le> unat (video_num_lines c) * unat (video_size_row c)"
    using assms(2) mult_le_mono1 by blast
  then show "unat (con_origin c) + unat k * unat (video_size_row c) \<le> unat (con_scr_end c)"
    using con_okD(8) [OF assms(1)] by linarith
  moreover note scr_end_small [OF assms(1)]
  ultimately show "unat (con_origin c + video_size_row c * k) = unat (con_origin c) + unat k * unat (video_size_row c)"
    using unat_mult_le [of "video_size_row c" k] unat_add_le [of "con_origin c" "video_size_row c * k"]
    by (simp add: mult.commute)
qed

lemma unat_cell:
  assumes "con_ok c" "unat x \<le> unat (video_num_columns c)" "unat y < unat (video_num_lines c)"
  shows "unat (con_origin c + y * video_size_row c + push_bit 1 x) =
      unat (con_origin c) + unat y * unat (video_size_row c) + 2 * unat x"
    "unat (con_origin c) + unat y * unat (video_size_row c) + 2 * unat x \<le> unat (con_scr_end c)"
proof -
  have le: "unat y * unat (video_size_row c) + unat (video_size_row c) \<le> unat (video_num_lines c) * unat (video_size_row c)"
    using assms(3) by (rule rows_le)
  then show b: "unat (con_origin c) + unat y * unat (video_size_row c) + 2 * unat x \<le> unat (con_scr_end c)"
    using con_okD(2,8) [OF assms(1)] assms(2) by linarith
  note s = scr_end_small [OF assms(1)]
  then have "unat (push_bit 1 x :: u32) = 2 * unat x" using b by (intro unat_push_bit_1) simp
  then show "unat (con_origin c + y * video_size_row c + push_bit 1 x) =
      unat (con_origin c) + unat y * unat (video_size_row c) + 2 * unat x"
    using unat_screen(1) [OF assms(1), of y] assms(3) b s
      unat_add_le [of "con_origin c + y * video_size_row c" "push_bit 1 x"] by (simp add: mult.commute)
qed

lemma draws_gotoxy:
  assumes "con_ok (console s)"
  shows "draws s (gotoxy x y s)"
proof (cases "x > video_num_columns (console s) \<or> y \<ge> video_num_lines (console s)")
  case False
  then have b: "unat x \<le> unat (video_num_columns (console s))" "unat y < unat (video_num_lines (console s))"
    by (simp_all add: word_le_nat_alt word_less_nat_alt)
  let ?f = "\<lambda>c. c\<lparr>con_x := x, con_y := y, con_pos := con_origin c + y * video_size_row c + push_bit 1 x\<rparr>"
  have "con_ok (?f (console s))"
    using con_okD [OF assms] b unat_cell(1) [OF assms b] by (simp add: con_ok_def del: One_nat_def)
  then show ?thesis using False draws_upd_con [of ?f s] by (simp add: gotoxy_def geometry_def)
qed (use assms draws_refl in \<open>simp add: gotoxy_def\<close>)

lemma row_longs:
  assumes "con_ok c" "unat k \<le> unat (video_num_lines c)"
  shows "4 * unat (drop_bit 1 (k * video_num_columns c)) \<le> unat k * unat (video_size_row c)"
proof -
  note f = con_okD [OF assms(1)]
  have "unat k * unat (video_size_row c) \<le> unat (video_num_lines c) * unat (video_size_row c)"
    using assms(2) by (rule mult_le_mono1)
  moreover have "unat k * unat (video_num_columns c) \<le> unat k * unat (video_size_row c)" using f(2) by simp
  ultimately have "unat k * unat (video_num_columns c) < 4294967296" using f(8) scr_end_small [OF assms(1)] by linarith
  then have m: "unat (k * video_num_columns c) = unat k * unat (video_num_columns c)"
    using unat_mult_le [of k "video_num_columns c"] by simp
  have "4 * (unat k * unat (video_num_columns c) div 2) \<le> 2 * (unat k * unat (video_num_columns c))" by linarith
  then show ?thesis using m f(2) by (simp add: unat_drop_bit_div)
qed

lemma region_longs:
  assumes "con_ok c"
  shows "4 * unat (drop_bit 1 ((con_bottom c - con_top c - 1) * video_num_columns c)) \<le>
    (unat (con_bottom c) - unat (con_top c) - 1) * unat (video_size_row c)"
proof -
  note f = con_okD [OF assms]
  have k: "unat (con_bottom c - con_top c - 1) = unat (con_bottom c) - unat (con_top c) - 1"
    using f(5) unat_sub_le [of "con_top c" "con_bottom c"] unat_sub_le [of 1 "con_bottom c - con_top c"] by simp
  then have "unat (con_bottom c - con_top c - 1) \<le> unat (video_num_lines c)" using f(6) by linarith
  then show ?thesis using row_longs [OF assms] k by metis
qed

lemma draws_scroll_region_up:
  assumes "con_ok (console s)"
  shows "draws s (scroll_region_up s)"
proof -
  let ?c = "console s"
  note f = con_okD [OF assms]
  let ?n = "unat (drop_bit 1 ((con_bottom ?c - con_top ?c - 1) * video_num_columns ?c))"
  let ?d = "con_origin ?c + video_size_row ?c * con_top ?c"
  have d: "unat ?d = unat (con_origin ?c) + unat (con_top ?c) * unat (video_size_row ?c)"
    using unat_screen(1) [OF assms, of "con_top ?c"] f(5,6) by simp
  have "unat (con_top ?c) + (unat (con_bottom ?c) - unat (con_top ?c) - 1) + 1 = unat (con_bottom ?c)" using f(5) by simp
  then have "unat (con_bottom ?c) * unat (video_size_row ?c) =
      unat (con_top ?c) * unat (video_size_row ?c) +
      (unat (con_bottom ?c) - unat (con_top ?c) - 1) * unat (video_size_row ?c) + unat (video_size_row ?c)"
    by (metis add_mult_distrib mult_1)
  then have e: "unat ?d + 4 * ?n + unat (video_size_row ?c) \<le> unat (con_scr_end ?c)"
    using region_longs [OF assms] unat_screen(2) [OF assms f(6)] d by linarith
  then have "?n < 2147483648" using scr_end_small [OF assms] by linarith
  then have "unat (?d + 4 * of_nat ?n) = unat ?d + 4 * ?n"
    using e scr_end_small [OF assms] unat_add_le [of ?d "4 * of_nat ?n"] unat_mult_le [of 4 "of_nat ?n"] by simp
  then show ?thesis
    unfolding scroll_region_up_def Let_def
    using e d f scr_end_small [OF assms]
    by (intro draws_paint [OF assms] paint_trans [OF paint_movsl paint_stosw]) auto
qed

lemma draws_scrdown:
  assumes "con_ok (console s)"
  shows "draws s (scrdown s)"
proof -
  let ?c = "console s"
  note f = con_okD [OF assms]
  let ?n = "unat (drop_bit 1 ((con_bottom ?c - con_top ?c - 1) * video_num_columns ?c))"
  let ?d = "con_origin ?c + video_size_row ?c * con_bottom ?c"
  have d: "unat ?d = unat (con_origin ?c) + unat (con_bottom ?c) * unat (video_size_row ?c)"
    using unat_screen(1) [OF assms f(6)] .
  have le: "unat ?d \<le> unat (con_scr_end ?c)" using unat_screen(2) [OF assms f(6)] d by simp
  have "unat (con_top ?c) + (unat (con_bottom ?c) - unat (con_top ?c) - 1) + 1 = unat (con_bottom ?c)" using f(5) by simp
  then have "unat (con_bottom ?c) * unat (video_size_row ?c) =
      unat (con_top ?c) * unat (video_size_row ?c) +
      (unat (con_bottom ?c) - unat (con_top ?c) - 1) * unat (video_size_row ?c) + unat (video_size_row ?c)"
    by (metis add_mult_distrib mult_1)
  then have e: "unat (con_origin ?c) + 4 * ?n + unat (video_size_row ?c) \<le> unat ?d"
    using region_longs [OF assms] d by linarith
  then have n: "?n < 2147483648" using le scr_end_small [OF assms] by linarith
  have r: "16 \<le> unat (video_size_row ?c)" using f(1,2) by simp
  have d4: "unat (?d - 4) = unat ?d - 4" using e r unat_sub_le [of 4 ?d] by simp
  have "unat (?d - 4 - 4 * of_nat ?n) = unat ?d - 4 - 4 * ?n"
    using e r n d4 le scr_end_small [OF assms] unat_mult_le [of 4 "of_nat ?n"] unat_sub_le [of "4 * of_nat ?n" "?d - 4"] by simp
  then have "unat (?d - 4 - 4 * of_nat ?n + 2) = unat ?d - 2 - 4 * ?n"
    using e r le scr_end_small [OF assms] unat_add_le [of "?d - 4 - 4 * of_nat ?n" 2] by simp
  then show ?thesis
    unfolding scrdown_def Let_def
    using e d4 r le f scr_end_small [OF assms]
    by (intro draws_paint [OF assms] paint_trans [OF paint_movsl_down paint_stosw_down]) auto
qed

lemma draws_set_origin:
  assumes "con_ok (console s)"
  shows "draws s (set_origin s)"
  unfolding set_origin_def Let_def
  by (intro draws_trans [OF draws_outb draws_trans [OF draws_outb draws_trans [OF draws_outb draws_outb]]])
     (use assms in simp_all)

lemma draws_set_cursor:
  assumes "con_ok (console s)"
  shows "draws s (set_cursor s)"
  unfolding set_cursor_def Let_def
  by (intro draws_trans [OF draws_outb draws_trans [OF draws_outb draws_trans [OF draws_outb draws_outb]]])
     (use assms in simp_all)


lemma con_ok_move:
  assumes "con_ok c" "geometry d = geometry c"
    "unat (con_top d) < unat (con_bottom d)" "unat (con_bottom d) \<le> unat (video_num_lines c)" "con_npar d < NPAR"
    "unat (video_mem_start c) \<le> unat (con_origin d)"
    "unat (con_scr_end d) = unat (con_origin d) + unat (video_num_lines c) * unat (video_size_row c)"
    "unat (con_scr_end d) \<le> unat (video_mem_end c)"
    "unat (con_x d) \<le> unat (video_num_columns c)" "unat (con_y d) < unat (video_num_lines c)"
    "unat (con_pos d) = unat (con_origin d) + unat (con_y d) * unat (video_size_row c) + 2 * unat (con_x d)"
  shows "con_ok d"
  using assms unfolding con_ok_def geometry_def by simp

lemma draws_paint_con:
  assumes "paint (unat (video_mem_start (console s))) (unat (video_mem_end (console s))) (upd_con f s) t"
    "con_ok (g (f (console s)))" "geometry (g (f (console s))) = geometry (console s)"
  shows "draws s (upd_con g t)"
proof -
  obtain m where m: "t = (upd_con f s)\<lparr>hw8 := m\<rparr>"
    "\<forall>a. unat a < unat (video_mem_start (console s)) \<or> unat (video_mem_end (console s)) \<le> unat a \<longrightarrow> m a = hw8 s a"
    using assms(1) unfolding paint_def by auto
  have "draws s (s\<lparr>hw8 := m, console := g (f (console s))\<rparr>)"
    using drawsI [of "g (f (console s))" s m "beepcount s" "outputs s" "inputs s", OF assms(2,3)] m(2) by simp
  then show ?thesis by (simp add: m(1) upd_con_def)
qed

abbreviation "scroll_origin c \<equiv> c\<lparr>con_origin := con_origin c + video_size_row c,
  con_pos := con_pos c + video_size_row c, con_scr_end := con_scr_end c + video_size_row c\<rparr>"

lemma unat_scroll_origin:
  assumes "con_ok c"
  shows "unat (con_origin c + video_size_row c) = unat (con_origin c) + unat (video_size_row c)"
    "unat (con_scr_end c + video_size_row c) = unat (con_scr_end c) + unat (video_size_row c)"
    "unat (con_pos c + video_size_row c) = unat (con_pos c) + unat (video_size_row c)"
    "unat (video_size_row c) \<le> unat (video_num_lines c) * unat (video_size_row c)"
proof -
  let ?R = "unat (video_size_row c)"
  note f = con_okD [OF assms]
  note small = scr_end_small [OF assms]
  show R: "?R \<le> unat (video_num_lines c) * ?R" using f(4) rows_le [of 0 "unat (video_num_lines c)" ?R] by simp
  have P: "unat (con_pos c) \<le> unat (con_scr_end c)" using unat_cell(2) [OF assms f(3,4)] f(11) by simp
  have "unat (con_origin c) + ?R \<le> unat (con_scr_end c)" "unat (con_scr_end c) + ?R < 4294967296"
    "unat (con_pos c) + ?R < 4294967296"
    using R P small f(8) by linarith+
  then show "unat (con_origin c + video_size_row c) = unat (con_origin c) + ?R"
    "unat (con_scr_end c + video_size_row c) = unat (con_scr_end c) + ?R"
    "unat (con_pos c + video_size_row c) = unat (con_pos c) + ?R"
    using unat_add_le [of "con_origin c" "video_size_row c"] unat_add_le [of "con_scr_end c" "video_size_row c"]
      unat_add_le [of "con_pos c" "video_size_row c"] small
    by simp_all
qed

lemma draws_scroll_on:
  assumes "con_ok (console s)" "con_scr_end (console s) + video_size_row (console s) \<le> video_mem_end (console s)"
  shows "draws s (stosw (unat (video_num_columns (console s))) (con_scr_end (console s)) e
    (upd_con (\<lambda>c. scroll_origin c) s))"
proof -
  let ?c = "console s"
  note f = con_okD [OF assms(1)]
  note u = unat_scroll_origin [OF assms(1)]
  have le: "unat (con_scr_end ?c) + unat (video_size_row ?c) \<le> unat (video_mem_end ?c)"
    using assms(2) u(2) by (simp add: word_le_nat_alt)
  have "con_ok (scroll_origin ?c)"
    by (rule con_ok_move [OF assms(1)]) (use f u le in \<open>simp_all add: geometry_def\<close>)
  moreover have "paint (unat (video_mem_start ?c)) (unat (video_mem_end ?c)) (upd_con (\<lambda>c. scroll_origin c) s)
      (stosw (unat (video_num_columns ?c)) (con_scr_end ?c) e (upd_con (\<lambda>c. scroll_origin c) s))"
    using le f by (intro paint_stosw) auto
  ultimately have "draws s (upd_con (\<lambda>c. c) (stosw (unat (video_num_columns ?c)) (con_scr_end ?c) e
      (upd_con (\<lambda>c. scroll_origin c) s)))"
    by (intro draws_paint_con [of s "\<lambda>c. scroll_origin c"]) (simp_all add: geometry_def)
  then show ?thesis by (simp add: upd_con_def)
qed


lemma draws_scroll_back:
  assumes "con_ok (console s)"
  defines "c \<equiv> scroll_origin (console s)"
  defines "n \<equiv> unat (drop_bit 1 ((video_num_lines c - 1) * video_num_columns c))"
  shows "draws s (upd_con (\<lambda>c. c\<lparr>con_scr_end := con_scr_end c - (con_origin c - video_mem_start c),
                              con_pos := con_pos c - (con_origin c - video_mem_start c),
                              con_origin := video_mem_start c\<rparr>)
        (stosw (unat (video_num_columns c)) (video_mem_start c + 4 * of_nat n) e
          (movsl n (video_mem_start c) (con_origin c) (upd_con (\<lambda>c. scroll_origin c) s))))"
proof -
  let ?c = "console s"
  let ?R = "unat (video_size_row ?c)"
  note f = con_okD [OF assms(1)]
  note u = unat_scroll_origin [OF assms(1)]
  note small = scr_end_small [OF assms(1)]
  let ?b = "con_origin ?c + video_size_row ?c - video_mem_start ?c"
  have b: "unat ?b = unat (con_origin ?c) + ?R - unat (video_mem_start ?c)"
    using f(7) u(1) unat_sub_le [of "video_mem_start ?c"] by simp
  have p: "unat (con_pos ?c + video_size_row ?c - ?b) =
      unat (video_mem_start ?c) + unat (con_y ?c) * ?R + 2 * unat (con_x ?c)"
    using f(7,11) u(3) b unat_sub_le [of ?b "con_pos ?c + video_size_row ?c"] by simp
  have e: "unat (con_scr_end ?c + video_size_row ?c - ?b) = unat (video_mem_start ?c) + unat (video_num_lines ?c) * ?R"
    using f(7,8) u(2) b unat_sub_le [of ?b "con_scr_end ?c + video_size_row ?c"] by simp
  let ?g = "\<lambda>c. c\<lparr>con_scr_end := con_scr_end c - (con_origin c - video_mem_start c),
      con_pos := con_pos c - (con_origin c - video_mem_start c), con_origin := video_mem_start c\<rparr>"
  have ok: "con_ok (?g (scroll_origin ?c))"
  proof (rule con_ok_move [OF assms(1)])
    show "unat (con_pos (?g (scroll_origin ?c))) = unat (con_origin (?g (scroll_origin ?c))) +
        unat (con_y (?g (scroll_origin ?c))) * ?R + 2 * unat (con_x (?g (scroll_origin ?c)))"
      using p by simp
    show "unat (con_scr_end (?g (scroll_origin ?c))) = unat (con_origin (?g (scroll_origin ?c))) +
        unat (video_num_lines ?c) * ?R"
      using e by simp
    show "unat (con_scr_end (?g (scroll_origin ?c))) \<le> unat (video_mem_end ?c)"
      using e f(7,8,9) by simp
  qed (use f in \<open>simp_all add: geometry_def\<close>)
  have k: "unat (video_num_lines ?c - 1) = unat (video_num_lines ?c) - 1"
    using f(4) unat_sub_le [of 1 "video_num_lines ?c"] by simp
  have nR: "(unat (video_num_lines ?c) - 1) * ?R + ?R = unat (video_num_lines ?c) * ?R"
    using f(4) by (cases "unat (video_num_lines ?c)") auto
  have "4 * n \<le> (unat (video_num_lines ?c) - 1) * ?R"
    using row_longs [OF assms(1), of "video_num_lines ?c - 1"] k by (simp add: n_def c_def)
  then have n: "unat (video_mem_start ?c) + 4 * n + ?R \<le> unat (con_scr_end ?c)" using nR f(7,8) by linarith
  then have "unat (video_mem_start ?c + 4 * of_nat n) = unat (video_mem_start ?c) + 4 * n"
    using small unat_add_le [of "video_mem_start ?c" "4 * of_nat n"] unat_mult_le [of 4 "of_nat n"] unat_small [of n] by simp
  then have "paint (unat (video_mem_start ?c)) (unat (video_mem_end ?c)) (upd_con (\<lambda>c. scroll_origin c) s)
      (stosw (unat (video_num_columns c)) (video_mem_start c + 4 * of_nat n) e
        (movsl n (video_mem_start c) (con_origin c) (upd_con (\<lambda>c. scroll_origin c) s)))"
    using n f by (intro paint_trans [OF paint_movsl paint_stosw]) (auto simp: c_def)
  then show ?thesis by (rule draws_paint_con) (use ok in \<open>simp_all only:\<close>, simp add: geometry_def)
qed

lemma draws_scrup:
  assumes "con_ok (console s)"
  shows "draws s (scrup s)"
proof -
  let ?c = "console s"
  let ?u = "upd_con (\<lambda>c. scroll_origin c) s"
  let ?n = "unat (drop_bit 1 ((video_num_lines ?c - 1) * video_num_columns ?c))"
  consider (region) "scrup s = scroll_region_up s"
    | (forth) "con_scr_end ?c + video_size_row ?c \<le> video_mem_end ?c"
        "scrup s = set_origin (stosw (unat (video_num_columns ?c)) (con_scr_end ?c) (video_erase_char ?c) ?u)"
    | (rewind) "scrup s = set_origin (upd_con (\<lambda>c. c\<lparr>con_scr_end := con_scr_end c - (con_origin c - video_mem_start c),
                              con_pos := con_pos c - (con_origin c - video_mem_start c),
                              con_origin := video_mem_start c\<rparr>)
        (stosw (unat (video_num_columns ?c)) (video_mem_start ?c + 4 * of_nat ?n) (video_erase_char ?c)
          (movsl ?n (video_mem_start ?c) (con_origin ?c + video_size_row ?c) ?u)))"
    by (cases "video_type ?c = VIDEO_TYPE_EGAC \<or> video_type ?c = VIDEO_TYPE_EGAM";
        cases "con_top ?c = 0 \<and> con_bottom ?c = video_num_lines ?c";
        cases "con_scr_end ?c + video_size_row ?c > video_mem_end ?c")
       (simp_all add: scrup_def Let_def not_less)
  then show ?thesis
  proof cases
    case region
    then show ?thesis using draws_scroll_region_up [OF assms] by simp
  next
    case forth
    then show ?thesis using draws_trans [OF draws_scroll_on [OF assms forth(1)] draws_set_origin [OF draws_ok [OF draws_scroll_on [OF assms forth(1)]]]]
      by simp
  next
    case rewind
    then show ?thesis using draws_trans [OF draws_scroll_back [OF assms] draws_set_origin [OF draws_ok [OF draws_scroll_back [OF assms]]]]
      by simp
  qed
qed

lemma draws_upd:
  assumes "con_ok (console s)" "geometry (f (console s)) = geometry (console s)"
    "con_origin (f (console s)) = con_origin (console s)" "con_scr_end (f (console s)) = con_scr_end (console s)"
    "unat (con_top (f (console s))) < unat (con_bottom (f (console s)))"
    "unat (con_bottom (f (console s))) \<le> unat (video_num_lines (console s))" "con_npar (f (console s)) < NPAR"
    "unat (con_x (f (console s))) \<le> unat (video_num_columns (console s))"
    "unat (con_y (f (console s))) < unat (video_num_lines (console s))"
    "unat (con_pos (f (console s))) = unat (con_origin (console s)) +
       unat (con_y (f (console s))) * unat (video_size_row (console s)) + 2 * unat (con_x (f (console s)))"
  shows "draws s (upd_con f s)"
  using assms con_okD(7-9) [OF assms(1)] by (intro draws_upd_con con_ok_move [OF assms(1)]) simp_all

lemma draws_lf:
  assumes "con_ok (console s)"
  shows "draws s (lf s)"
proof (cases "con_y (console s) + 1 < con_bottom (console s)")
  case True
  let ?c = "console s"
  note f = con_okD [OF assms]
  have y: "unat (con_y ?c + 1) = unat (con_y ?c) + 1"
    using f(4) unat_add_le [of "con_y ?c" 1] unsigned_less [of "video_num_lines ?c", where ?'a = nat] by simp
  have "unat (con_y ?c + 1) < unat (video_num_lines ?c)" using True f(6) by (simp add: word_less_nat_alt)
  then show ?thesis using True f y unat_scroll_origin(3) [OF assms]
    by (simp add: lf_def) (rule draws_upd [OF assms], simp_all add: geometry_def)
qed (use assms draws_scrup in \<open>simp add: lf_def\<close>)

lemma unat_pos_up:
  assumes "con_ok c" "con_y c \<noteq> 0"
  shows "unat (con_pos c - video_size_row c) =
    unat (con_origin c) + (unat (con_y c) - 1) * unat (video_size_row c) + 2 * unat (con_x c)"
proof -
  have "0 < unat (con_y c)" using assms(2) by (simp add: unat_gt_0)
  then obtain k where "unat (con_y c) = Suc k" using gr0_implies_Suc by blast
  then show ?thesis using con_okD(11) [OF assms(1)] unat_sub_le [of "video_size_row c" "con_pos c"] by simp
qed

lemma draws_ri:
  assumes "con_ok (console s)"
  shows "draws s (ri s)"
proof (cases "con_y (console s) > con_top (console s)")
  case True
  let ?c = "console s"
  note f = con_okD [OF assms]
  have "con_y ?c \<noteq> 0" using True by auto
  moreover from this have "unat (con_y ?c - 1) = unat (con_y ?c) - 1"
    using unat_sub_le [of 1 "con_y ?c"] by (simp add: Suc_le_eq unat_gt_0)
  ultimately show ?thesis using True f unat_pos_up [OF assms]
    by (simp add: ri_def) (rule draws_upd [OF assms], simp_all add: geometry_def)
qed (use assms draws_scrdown in \<open>simp add: ri_def\<close>)

lemma unat_pos_line:
  assumes "con_ok c"
  shows "unat (con_pos c - push_bit 1 (con_x c)) = unat (con_origin c) + unat (con_y c) * unat (video_size_row c)"
    "unat (con_origin c) + unat (con_y c) * unat (video_size_row c) + unat (video_size_row c) \<le> unat (con_scr_end c)"
proof -
  note f = con_okD [OF assms]
  have "unat (con_x c) < 2 ^ 31" using f(3,2,11) unat_cell(2) [OF assms f(3,4)] scr_end_small [OF assms] by simp
  then show "unat (con_pos c - push_bit 1 (con_x c)) = unat (con_origin c) + unat (con_y c) * unat (video_size_row c)"
    using f(11) unat_push_bit_1 unat_sub_le [of "push_bit 1 (con_x c)" "con_pos c"] by simp
  show "unat (con_origin c) + unat (con_y c) * unat (video_size_row c) + unat (video_size_row c) \<le> unat (con_scr_end c)"
    using rows_le [OF f(4)] f(8) by simp
qed

lemma draws_cr:
  assumes "con_ok (console s)"
  shows "draws s (cr s)"
  unfolding cr_def
  by (rule draws_upd [OF assms]) (use con_okD [OF assms] unat_pos_line(1) [OF assms] in \<open>simp_all add: geometry_def\<close>)

lemma draws_back:
  assumes "con_ok (console s)" "con_x (console s) \<noteq> 0"
  shows "draws s (upd_con (\<lambda>c. c\<lparr>con_pos := con_pos c - 2, con_x := con_x c - 1\<rparr>) s)"
proof -
  let ?c = "console s"
  note f = con_okD [OF assms(1)]
  have x: "1 \<le> unat (con_x ?c)" using assms(2) by (simp add: Suc_le_eq unat_gt_0)
  then have "unat (con_x ?c - 1) = unat (con_x ?c) - 1" using unat_sub_le [of 1 "con_x ?c"] by simp
  moreover have "unat (con_pos ?c - 2) = unat (con_pos ?c) - 2" using x f(11) unat_sub_le [of 2 "con_pos ?c"] by simp
  ultimately show ?thesis using x f by (intro draws_upd [OF assms(1)]) (simp_all add: geometry_def)
qed

lemma draws_on_screen:
  assumes "con_ok (console s)" "paint (unat (con_origin (console s))) (unat (con_scr_end (console s))) s t"
  shows "draws s t"
  using con_okD(7,9) [OF assms(1)] paint_wider [OF assms(2)] by (intro draws_paint assms(1)) simp

lemmas on_screen_rules = paint_store16 paint_stosw paint_shift_right paint_shift_left

lemma draws_del:
  assumes "con_ok (console s)"
  shows "draws s (del s)"
proof (cases "con_x (console s) = 0")
  case False
  let ?t = "upd_con (\<lambda>c. c\<lparr>con_pos := con_pos c - 2, con_x := con_x c - 1\<rparr>) s"
  note d = draws_back [OF assms False]
  note ok = draws_ok [OF d]
  note f = con_okD [OF assms]
  have x: "1 \<le> unat (con_x (console s))" using False by (simp add: Suc_le_eq unat_gt_0)
  then have p: "unat (con_pos (console ?t)) = unat (con_pos (console s)) - 2"
    using f(11) unat_sub_le [of 2 "con_pos (console s)"] by simp
  have "draws ?t (store16 (con_pos (console ?t)) e ?t)" for e
    by (rule draws_on_screen [OF ok], rule paint_store16)
      (use x p f(11) unat_cell(2) [OF assms f(3,4)] scr_end_small [OF assms] in simp_all)
  then show ?thesis using False draws_trans [OF d] by (simp add: del_def Let_def)
qed (use assms draws_refl in \<open>simp add: del_def\<close>)

lemma draws_csi_J:
  assumes "con_ok (console s)"
  shows "draws s (csi_J p s)"
proof -
  let ?c = "console s"
  note f = con_okD [OF assms]
  note small = scr_end_small [OF assms]
  have P: "unat (con_pos ?c) \<le> unat (con_scr_end ?c)" "unat (con_origin ?c) \<le> unat (con_pos ?c)"
    using f(11) unat_cell(2) [OF assms f(3,4)] by simp_all
  have "2 * unat (drop_bit 1 (con_scr_end ?c - con_pos ?c)) \<le> unat (con_scr_end ?c) - unat (con_pos ?c)"
    "2 * unat (drop_bit 1 (con_pos ?c - con_origin ?c)) \<le> unat (con_pos ?c) - unat (con_origin ?c)"
    using P unat_sub_le [of "con_pos ?c" "con_scr_end ?c"] unat_sub_le [of "con_origin ?c" "con_pos ?c"]
    by (simp_all add: unat_drop_bit_div)
  moreover have "unat (video_num_columns ?c) * unat (video_num_lines ?c) \<le> unat (video_num_lines ?c) * unat (video_size_row ?c)"
    using f(2) by simp
  then have "unat (video_num_columns ?c) * unat (video_num_lines ?c) < 4294967296" using f(8) small by linarith
  then have "2 * unat (video_num_columns ?c * video_num_lines ?c) = unat (con_scr_end ?c) - unat (con_origin ?c)"
    using f(2,8) unat_mult_le [of "video_num_columns ?c" "video_num_lines ?c"] by simp
  ultimately show ?thesis unfolding csi_J_def Let_def using P f(8) small draws_refl [OF assms]
    by (auto intro!: draws_on_screen [OF assms] paint_stosw)
qed

lemma draws_csi_K:
  assumes "con_ok (console s)"
  shows "draws s (csi_K p s)"
proof -
  let ?c = "console s"
  note f = con_okD [OF assms]
  note l = unat_pos_line [OF assms]
  have "unat (con_pos ?c) + 2 * unat (video_num_columns ?c - con_x ?c) \<le> unat (con_scr_end ?c)"
    using f(2,3,11) l(2) unat_sub_le [OF f(3)] by simp
  moreover have "unat (min (con_x ?c) (video_num_columns ?c)) = unat (con_x ?c)"
    using f(3) by (simp add: min_def word_le_nat_alt)
  ultimately show ?thesis unfolding csi_K_def Let_def using f(2,3,11) l scr_end_small [OF assms] draws_refl [OF assms]
    by (auto intro!: draws_on_screen [OF assms] paint_stosw)
qed

lemma draws_fold:
  assumes "con_ok (console s)" "\<And>i t. con_ok (console t) \<Longrightarrow> draws t (f i t)"
  shows "draws s (fold f xs s)"
  using assms(1)
proof (induction xs arbitrary: s)
  case (Cons x xs)
  have d: "draws s (f x s)" using assms(2) Cons.prems by blast
  show ?case using draws_trans [OF d Cons.IH [OF draws_ok [OF d]]] by simp
qed (simp add: draws_refl)


lemma draws_csi_m:
  assumes "con_ok (console s)"
  shows "draws s (csi_m s)"
  unfolding csi_m_def
  by (rule draws_fold [OF assms], rule draws_upd) (simp_all add: geometry_def con_okD)

lemma draws_insert_char:
  assumes "con_ok (console s)"
  shows "draws s (insert_char s)"
  unfolding insert_char_def Let_def
  by (rule draws_on_screen [OF assms], rule paint_shift_right)
    (use con_okD(2,3,11) [OF assms] unat_pos_line(2) [OF assms] scr_end_small [OF assms] in simp_all)

lemma draws_delete_char:
  assumes "con_ok (console s)"
  shows "draws s (delete_char s)"
proof (cases "con_x (console s) \<ge> video_num_columns (console s)")
  case False
  then have "unat (con_x (console s)) < unat (video_num_columns (console s))" by (simp add: word_le_nat_alt)
  then have "draws s (shift_left (unat (video_num_columns (console s)) - unat (con_x (console s)) - 1)
      (con_pos (console s)) (video_erase_char (console s)) s)"
    by (intro draws_on_screen [OF assms] paint_shift_left)
      (use con_okD(2,11) [OF assms] unat_pos_line(2) [OF assms] scr_end_small [OF assms] in simp_all)
  then show ?thesis using False by (simp add: delete_char_def Let_def)
qed (use assms draws_refl in \<open>simp add: delete_char_def Let_def\<close>)



lemmas draws_screen = draws_gotoxy draws_scrup draws_scrdown draws_lf draws_ri draws_cr draws_del draws_csi_J
  draws_csi_K draws_csi_m draws_insert_char draws_delete_char











lemma upd_con_const: "upd_con f s = upd_con (\<lambda>_. f (console s)) s"
  by (simp add: upd_con_def)













end
