(* ===== verification/Tty_Io.thy ===== *)
theory Tty_Io
  imports Console_Screen
begin

text \<open>
  kernel/chr_drv/tty_io.c and the loop of \<open>con_write\<close> in kernel/chr_drv/console.c. Both are one recursion in the
  code: \<open>copy_to_cooked\<close> echoes through \<open>tty->write\<close>, which for the console is \<open>con_write\<close>, and \<open>con_write\<close> answers
  the identify sequence through \<open>respond\<close> and \<open>copy_to_cooked\<close>. \<open>tty_run\<close> is that recursion, with the places
  where the code loops or calls as the values of \<open>tty_point\<close>.

  A byte is a signed \<open>char\<close> there and the control characters are unsigned, so a byte above 127 is less than 32
  and equal to no control character.
\<close>

section \<open>Definitions\<close>

abbreviation "VINTR \<equiv> (0::nat)"
abbreviation "VQUIT \<equiv> (1::nat)"
abbreviation "VERASE \<equiv> (2::nat)"
abbreviation "VKILL \<equiv> (3::nat)"
abbreviation "VEOF \<equiv> (4::nat)"
abbreviation "VTIME \<equiv> (5::nat)"
abbreviation "VMIN \<equiv> (6::nat)"
abbreviation "VSTART \<equiv> (8::nat)"
abbreviation "VSTOP \<equiv> (9::nat)"

definition L_FLAG :: "tty_struct \<Rightarrow> u32 \<Rightarrow> bool" where "L_FLAG t f \<longleftrightarrow> c_lflag (t_termios t) AND f \<noteq> 0"
definition I_FLAG :: "tty_struct \<Rightarrow> u32 \<Rightarrow> bool" where "I_FLAG t f \<longleftrightarrow> c_iflag (t_termios t) AND f \<noteq> 0"
definition O_FLAG :: "tty_struct \<Rightarrow> u32 \<Rightarrow> bool" where "O_FLAG t f \<longleftrightarrow> c_oflag (t_termios t) AND f \<noteq> 0"

definition is_cc :: "tty_struct \<Rightarrow> nat \<Rightarrow> u8 \<Rightarrow> bool" where
  "is_cc t i c \<longleftrightarrow> c < 128 \<and> c = c_cc (t_termios t) i"

definition below_32 :: "u8 \<Rightarrow> bool" where "below_32 c \<longleftrightarrow> c < 32 \<or> c \<ge> 128"

text \<open>
  The macros of include/ctype.h on the table of lib/ctype.c. For a byte above 127 the index into the table is
  negative; the bytes in front of it are taken to be neither upper nor lower case.
\<close>

definition isupper :: "u8 \<Rightarrow> bool" where "isupper c \<longleftrightarrow> 65 \<le> c \<and> c \<le> 90"
definition islower :: "u8 \<Rightarrow> bool" where "islower c \<longleftrightarrow> 97 \<le> c \<and> c \<le> 122"
definition tolower :: "u8 \<Rightarrow> u8" where "tolower c = (if isupper c then c + 32 else c)"
definition toupper :: "u8 \<Rightarrow> u8" where "toupper c = (if islower c then c - 32 else c)"

definition tty_intr :: "nat \<Rightarrow> u32 \<Rightarrow> kernel \<Rightarrow> kernel" where
  "tty_intr t msk s =
     (let g = t_pgrp (tty_table s t) in
      if g \<le> 0 then s
      else fold (\<lambda>i s. case task s i of
                       None \<Rightarrow> s
                     | Some p \<Rightarrow> if pgrp p = g then upd_task i (\<lambda>p. p\<lparr>signal := signal p OR msk\<rparr>) s else s)
             [0..<NR_TASKS] s)"

text \<open>\<open>sleep_if_empty\<close> is called with the secondary queue of a terminal, \<open>sleep_if_full\<close> with its write queue.\<close>

partial_function (option) sleep_if_empty :: "nat \<Rightarrow> kernel \<Rightarrow> kernel option" where
  "sleep_if_empty t s =
     (if signal (cur s) = 0 \<and> EMPTY (secondary (tty_table s t))
      then (case interruptible_sleep_on (Wtty_secondary t) s of None \<Rightarrow> None | Some s \<Rightarrow> sleep_if_empty t s)
      else Some s)"

partial_function (option) full_loop :: "nat \<Rightarrow> kernel \<Rightarrow> kernel option" where
  "full_loop t s =
     (if signal (cur s) = 0 \<and> LEFT (write_q (tty_table s t)) < 128
      then (case interruptible_sleep_on (Wtty_write t) s of None \<Rightarrow> None | Some s \<Rightarrow> full_loop t s)
      else Some s)"

definition sleep_if_full :: "nat \<Rightarrow> kernel \<Rightarrow> kernel option" where
  "sleep_if_full t s = (if \<not> FULL (write_q (tty_table s t)) then Some s else full_loop t s)"

definition wait_for_keypress :: "kernel \<Rightarrow> kernel option" where
  "wait_for_keypress s = sleep_if_empty 0 s"

subsection \<open>Input processing and output\<close>

definition put_write :: "nat \<Rightarrow> u8 \<Rightarrow> kernel \<Rightarrow> kernel" where
  "put_write t c s = upd_tty t (\<lambda>y. y\<lparr>write_q := PUTCH c (write_q y)\<rparr>) s"

definition put_secondary :: "nat \<Rightarrow> u8 \<Rightarrow> kernel \<Rightarrow> kernel" where
  "put_secondary t c s = upd_tty t (\<lambda>y. y\<lparr>secondary := PUTCH c (secondary y)\<rparr>) s"

definition unput_secondary :: "nat \<Rightarrow> kernel \<Rightarrow> kernel" where
  "unput_secondary t s = upd_tty t (\<lambda>y. y\<lparr>secondary := UNPUTCH (secondary y)\<rparr>) s"

text \<open>The changes of a byte on input: \<open>None\<close> when it is dropped.\<close>

definition map_input :: "tty_struct \<Rightarrow> u8 \<Rightarrow> u8 option" where
  "map_input y c =
     (if c = 13 \<and> \<not> I_FLAG y ICRNL \<and> I_FLAG y IGNCR then None
      else
        let c = (if c = 13 then if I_FLAG y ICRNL then 10 else c
                 else if c = 10 \<and> I_FLAG y INLCR then 13 else c)
        in Some (if I_FLAG y IUCLC then tolower c else c))"

text \<open>The last byte of the line cannot be taken back: there is none, or it ended the line.\<close>

definition line_empty :: "tty_struct \<Rightarrow> bool" where
  "line_empty y \<longleftrightarrow> EMPTY (secondary y) \<or> LAST (secondary y) = 10 \<or> is_cc y VEOF (LAST (secondary y))"

definition echo_erase :: "nat \<Rightarrow> kernel \<Rightarrow> kernel" where
  "echo_erase t s =
     put_write t 127 (if below_32 (LAST (secondary (tty_table s t))) then put_write t 127 s else s)"

definition echo_char :: "nat \<Rightarrow> u8 \<Rightarrow> kernel \<Rightarrow> kernel" where
  "echo_char t c s =
     (if c = 10 then put_write t 13 (put_write t 10 s)
      else if below_32 c
      then if L_FLAG (tty_table s t) ECHOCTL then put_write t (c + 64) (put_write t 0x5e s) else s
      else put_write t c s)"

text \<open>
  One round of \<open>copy_to_cooked\<close> up to a call of \<open>tty->write\<close>: nothing more to do in it, a line to be killed, or a call
  and after it the last byte taken back or a byte stored.
\<close>

datatype cook_action = Again | Kill_line | Echo_erase | Echo_put u8

definition cook_char :: "nat \<Rightarrow> u8 \<Rightarrow> kernel \<Rightarrow> cook_action \<times> kernel" where
  "cook_char t c s =
     (let y = tty_table s t in
      if L_FLAG y ICANON \<and> is_cc y VKILL c then (Kill_line, s)
      else if L_FLAG y ICANON \<and> is_cc y VERASE c
      then if line_empty y then (Again, s)
           else if L_FLAG y ECHO then (Echo_erase, echo_erase t s)
           else (Again, unput_secondary t s)
      else if L_FLAG y ICANON \<and> is_cc y VSTOP c then (Again, upd_tty t (\<lambda>y. y\<lparr>t_stopped := True\<rparr>) s)
      else if L_FLAG y ICANON \<and> is_cc y VSTART c then (Again, upd_tty t (\<lambda>y. y\<lparr>t_stopped := False\<rparr>) s)
      else if L_FLAG y ISIG \<and> is_cc y VINTR c then (Again, tty_intr t 0x2 s)
      else if L_FLAG y ISIG \<and> is_cc y VQUIT c then (Again, tty_intr t 0x4 s)
      else
        let s = (if c = 10 \<or> is_cc y VEOF c
                 then upd_tty t (\<lambda>y. y\<lparr>secondary := (secondary y)\<lparr>q_data := q_data (secondary y) + 1\<rparr>\<rparr>) s else s)
        in if L_FLAG y ECHO then (Echo_put c, echo_char t c s) else (Again, put_secondary t c s))"

definition cook_step :: "nat \<Rightarrow> kernel \<Rightarrow> cook_action \<times> kernel" where
  "cook_step t s =
     (let (c, q) = GETCH (read_q (tty_table s t));
          s = upd_tty t (\<lambda>y. y\<lparr>read_q := q\<rparr>) s
      in case map_input (tty_table s t) c of None \<Rightarrow> (Again, s) | Some c \<Rightarrow> cook_char t c s)"

text \<open>\<open>RESPONSE\<close>, what the terminal answers to an identify sequence.\<close>

definition RESPONSE :: "u8 list" where
  "RESPONSE = [27, 0x5b, 0x3f, 0x31, 0x3b, 0x32, 0x63]"

definition put_response :: "nat \<Rightarrow> kernel \<Rightarrow> kernel" where
  "put_response t s = fold (\<lambda>c. upd_tty t (\<lambda>y. y\<lparr>read_q := PUTCH c (read_q y)\<rparr>)) RESPONSE s"

text \<open>
  \<open>Cooked\<close> is the head of the loop of \<open>copy_to_cooked\<close>, \<open>Killing\<close> that of its inner loop, \<open>Con\<close> that of the loop of
  \<open>con_write\<close> with the bytes left to write, \<open>Drive\<close> the call \<open>tty->write(tty)\<close>.
\<close>

datatype tty_point = Cooked nat | Killing nat | Con nat nat | Drive nat

partial_function (option) tty_run :: "tty_point \<Rightarrow> kernel \<Rightarrow> kernel option" where
  "tty_run pt s =
     (case pt of
        Cooked t \<Rightarrow>
          if EMPTY (read_q (tty_table s t)) \<or> FULL (secondary (tty_table s t))
          then Some (wake_up (Wtty_secondary t) s)
          else
            (case cook_step t s of
               (Again, s) \<Rightarrow> tty_run (Cooked t) s
             | (Kill_line, s) \<Rightarrow> tty_run (Killing t) s
             | (Echo_erase, s) \<Rightarrow>
                 Option.bind (tty_run (Drive t) s) (\<lambda>s. tty_run (Cooked t) (unput_secondary t s))
             | (Echo_put c, s) \<Rightarrow>
                 Option.bind (tty_run (Drive t) s) (\<lambda>s. tty_run (Cooked t) (put_secondary t c s)))
      | Killing t \<Rightarrow>
          if line_empty (tty_table s t) then tty_run (Cooked t) s
          else if L_FLAG (tty_table s t) ECHO
          then Option.bind (tty_run (Drive t) (echo_erase t s)) (\<lambda>s. tty_run (Killing t) (unput_secondary t s))
          else tty_run (Killing t) (unput_secondary t s)
      | Con t nr \<Rightarrow>
          if nr = 0 then Some (set_cursor s)
          else
            (case GETCH (write_q (tty_table s t)) of (c, q) \<Rightarrow>
               (case con_char (c_cc (t_termios (tty_table s t)) VERASE) c (upd_tty t (\<lambda>y. y\<lparr>write_q := q\<rparr>) s) of
                  (resp, s) \<Rightarrow>
                    if resp
                    then Option.bind (tty_run (Cooked t) (put_response t s)) (\<lambda>s. tty_run (Con t (nr - 1)) s)
                    else tty_run (Con t (nr - 1)) s))
      | Drive t \<Rightarrow>
          (case t_write (tty_table s t) of
             con_write_fn \<Rightarrow> tty_run (Con t (unat (CHARS (write_q (tty_table s t))))) s
           | rs_write_fn \<Rightarrow> Some (rs_write t s)))"

definition copy_to_cooked :: "nat \<Rightarrow> kernel \<Rightarrow> kernel option" where
  "copy_to_cooked t s = tty_run (Cooked t) s"

definition respond :: "nat \<Rightarrow> kernel \<Rightarrow> kernel option" where
  "respond t s = tty_run (Cooked t) (put_response t s)"

definition con_write :: "nat \<Rightarrow> kernel \<Rightarrow> kernel option" where
  "con_write t s = tty_run (Con t (unat (CHARS (write_q (tty_table s t))))) s"

definition do_tty_interrupt :: "nat \<Rightarrow> kernel \<Rightarrow> kernel option" where
  "do_tty_interrupt t s = copy_to_cooked t s"

definition tty_init :: "kernel \<Rightarrow> kernel" where
  "tty_init s = con_init (rs_init s)"

subsection \<open>Reading\<close>

text \<open>
  The inner loop of \<open>tty_read\<close>, for \<open>nr > 0\<close>: whether the call returns at an end of file, and the number of bytes
  stored.
\<close>

fun read_chars :: "nat \<Rightarrow> nat \<Rightarrow> u32 \<Rightarrow> kernel \<Rightarrow> bool \<times> nat \<times> kernel" where
  "read_chars t 0 b s = (False, 0, s)"
| "read_chars t (Suc nr) b s =
     (let (c, q) = GETCH (secondary (tty_table s t));
          eof = is_cc (tty_table s t) VEOF c;
          q = (if eof \<or> c = 10 then q\<lparr>q_data := q_data q - 1\<rparr> else q);
          s = upd_tty t (\<lambda>y. y\<lparr>secondary := q\<rparr>) s
      in if eof \<and> L_FLAG (tty_table s t) ICANON then (True, 0, s)
         else
           let s = put_fs_byte c b s in
           if nr = 0 \<or> EMPTY (secondary (tty_table s t)) then (False, 1, s)
           else case read_chars t nr (b + 1) s of (r, k, s) \<Rightarrow> (r, Suc k, s))"

text \<open>\<open>if ((flag=(!oldalarm || time+jiffies<oldalarm))) current->alarm = time+jiffies\<close>\<close>

definition set_alarm :: "int \<Rightarrow> int \<Rightarrow> kernel \<Rightarrow> bool \<times> kernel" where
  "set_alarm time oldalarm s =
     (if oldalarm = 0 \<or> time + jiffies s < oldalarm
      then (True, upd_cur (\<lambda>p. p\<lparr>alarm := time + jiffies s\<rparr>) s) else (False, s))"

text \<open>
  The outer loop. The result is the number of bytes read so far and whether the function has returned at an end of
  file, without restoring the alarm.
\<close>

partial_function (option) tty_read_loop :: "nat \<Rightarrow> int \<Rightarrow> nat \<Rightarrow> int \<Rightarrow> bool \<Rightarrow> u32 \<Rightarrow> nat \<Rightarrow> nat \<Rightarrow> kernel \<Rightarrow> (nat \<times> bool \<times> kernel) option" where
  "tty_read_loop t time minimum oldalarm flag buf nr got s =
     (if nr = 0 then Some (got, False, s)
      else if flag \<and> signal (cur s) AND 0x2000 \<noteq> 0
      then Some (got, False, upd_cur (\<lambda>p. p\<lparr>signal := signal p AND NOT 0x2000\<rparr>) s)
      else if signal (cur s) \<noteq> 0 then Some (got, False, s)
      else
        let y = tty_table s t in
        if EMPTY (secondary y) \<or> L_FLAG y ICANON \<and> q_data (secondary y) = 0 \<and> LEFT (secondary y) > 20
        then (case sleep_if_empty t s of
                None \<Rightarrow> None
              | Some s \<Rightarrow> tty_read_loop t time minimum oldalarm flag buf nr got s)
        else
          (case read_chars t nr (buf + of_nat got) s of (r, k, s) \<Rightarrow>
             if r then Some (got + k, True, s)
             else
               let got = got + k; nr = nr - k; canon = L_FLAG (tty_table s t) ICANON in
               (case (if time \<noteq> 0 \<and> \<not> canon
                      then case set_alarm time oldalarm s of
                             (True, s) \<Rightarrow> (True, s)
                           | (False, s) \<Rightarrow> (False, upd_cur (\<lambda>p. p\<lparr>alarm := oldalarm\<rparr>) s)
                      else (flag, s)) of (flag, s) \<Rightarrow>
                 if (if canon then got \<noteq> 0 else got \<ge> minimum) then Some (got, False, s)
                 else tty_read_loop t time minimum oldalarm flag buf nr got s)))"

definition tty_read :: "nat \<Rightarrow> u32 \<Rightarrow> int \<Rightarrow> kernel \<Rightarrow> (int \<times> kernel) option" where
  "tty_read channel buf nr s =
     (if channel > 2 \<or> nr < 0 then Some (-1, s)
      else
        let tm = t_termios (tty_table s channel);
            oldalarm = alarm (cur s);
            time = 10 * uint (c_cc tm VTIME);
            minimum = unat (c_cc tm VMIN);
            (flag, minimum, s) = (if time \<noteq> 0 \<and> minimum = 0
                                  then case set_alarm time oldalarm s of (flag, s) \<Rightarrow> (flag, 1, s)
                                  else (False, minimum, s));
            minimum = min minimum (nat nr)
        in do { (got, returned, s) \<leftarrow> tty_read_loop channel time minimum oldalarm flag buf (nat nr) 0 s;
                if returned then Some (int got, s)
                else
                  let s = upd_cur (\<lambda>p. p\<lparr>alarm := oldalarm\<rparr>) s in
                  if signal (cur s) \<noteq> 0 \<and> got = 0 then Some (- EINTR, s) else Some (int got, s) })"

subsection \<open>Writing\<close>

text \<open>The inner loop of \<open>tty_write\<close>; a newline is preceded by a carriage return once, as \<open>cr_flag\<close> remembers.\<close>

definition map_output :: "tty_struct \<Rightarrow> u8 \<Rightarrow> u8" where
  "map_output y c =
     (if \<not> O_FLAG y OPOST then c
      else if c = 13 \<and> O_FLAG y OCRNL then 10
      else if c = 10 \<and> O_FLAG y ONLRET then 13
      else c)"

function write_chars :: "nat \<Rightarrow> nat \<Rightarrow> u32 \<Rightarrow> kernel \<Rightarrow> nat \<times> kernel" where
  "write_chars t nr b s =
     (if nr = 0 \<or> FULL (write_q (tty_table s t)) then (0, s)
      else
        let y = tty_table s t; c = map_output y (get_fs_byte b s) in
        if O_FLAG y OPOST \<and> c = 10 \<and> \<not> cr_flag s \<and> O_FLAG y ONLCR
        then write_chars t nr b (put_write t 13 (s\<lparr>cr_flag := True\<rparr>))
        else
          let c = (if O_FLAG y OPOST \<and> O_FLAG y OLCUC then toupper c else c);
              (k, s) = write_chars t (nr - 1) (b + 1) (put_write t c (s\<lparr>cr_flag := False\<rparr>))
          in (Suc k, s))"
  by pat_completeness auto

termination
  by (relation "measure (\<lambda>(t, nr, b, s). 2 * nr + of_bool (\<not> cr_flag s))") (auto simp: put_write_def)

declare write_chars.simps [simp del]

partial_function (option) tty_write_loop :: "nat \<Rightarrow> u32 \<Rightarrow> nat \<Rightarrow> nat \<Rightarrow> kernel \<Rightarrow> (nat \<times> kernel) option" where
  "tty_write_loop t buf nr done s =
     (if nr = 0 then Some (done, s)
      else
        (case sleep_if_full t s of
           None \<Rightarrow> None
         | Some s \<Rightarrow>
             if signal (cur s) \<noteq> 0 then Some (done, s)
             else
               (case write_chars t nr (buf + of_nat done) s of (k, s) \<Rightarrow>
                  (case tty_run (Drive t) s of
                     None \<Rightarrow> None
                   | Some s \<Rightarrow>
                       if nr - k = 0 then Some (done + k, s)
                       else (case schedule s of None \<Rightarrow> None | Some s \<Rightarrow> tty_write_loop t buf (nr - k) (done + k) s)))))"

definition tty_write :: "nat \<Rightarrow> u32 \<Rightarrow> int \<Rightarrow> kernel \<Rightarrow> (int \<times> kernel) option" where
  "tty_write channel buf nr s =
     (if channel > 2 \<or> nr < 0 then Some (-1, s)
      else do { (n, s) \<leftarrow> tty_write_loop channel buf (nat nr) 0 s; Some (int n, s) })"

end
