(* ===== verification/Tty_Ioctl.thy ===== *)
theory Tty_Ioctl
  imports Tty_Io Memory
begin

text \<open>
  kernel/chr_drv/tty_ioctl.c. A structure that is copied byte by byte to or from the user's memory is written as
  the list of its bytes.
\<close>

section \<open>Definitions\<close>

definition quotient :: "nat \<Rightarrow> u16" where
  "quotient i = [0, 2304, 1536, 1047, 857, 768, 576, 384, 192, 96, 64, 48, 24, 12, 6, 3] ! i"

definition change_speed :: "nat \<Rightarrow> kernel \<Rightarrow> kernel" where
  "change_speed t s =
     (let y = tty_table s t; port = ucast (q_data (read_q y)); quot = quotient (unat (c_cflag (t_termios y) AND CBAUD)) in
      if port = (0 :: u16) then s
      else
        let s = outb 0x80 (port + 3) s;
            s = outb (ucast (quot AND 0xff)) port s;
            s = outb (ucast (drop_bit 8 quot)) (port + 1) s
        in outb 0x03 (port + 3) s)"

definition wait_until_sent :: "nat \<Rightarrow> kernel \<Rightarrow> kernel" where "wait_until_sent t s = s"
definition send_break :: "nat \<Rightarrow> kernel \<Rightarrow> kernel" where "send_break t s = s"

text \<open>The 36 bytes of a \<open>struct termios\<close>, and back.\<close>

definition long_bytes :: "u32 \<Rightarrow> u8 list" where
  "long_bytes v = map (byte_of v) [0..<4]"

definition bytes_long :: "u8 list \<Rightarrow> u32" where
  "bytes_long bs = rd32 (\<lambda>i. bs ! i) 0"

definition termios_bytes :: "termios \<Rightarrow> u8 list" where
  "termios_bytes x =
     long_bytes (c_iflag x) @ long_bytes (c_oflag x) @ long_bytes (c_cflag x) @ long_bytes (c_lflag x) @
     [c_line x] @ map (c_cc x) [0..<17] @ map (c_pad x) [0..<2]"

definition bytes_termios :: "u8 list \<Rightarrow> termios \<Rightarrow> termios" where
  "bytes_termios bs x =
     x\<lparr>c_iflag := bytes_long bs, c_oflag := bytes_long (drop 4 bs), c_cflag := bytes_long (drop 8 bs),
       c_lflag := bytes_long (drop 12 bs), c_line := bs ! 16,
       c_cc := (\<lambda>i. if i < 17 then bs ! (17 + i) else c_cc x i),
       c_pad := (\<lambda>i. if i < 2 then bs ! (34 + i) else c_pad x i)\<rparr>"

definition put_user_bytes :: "u8 list \<Rightarrow> u32 \<Rightarrow> kernel \<Rightarrow> kernel" where
  "put_user_bytes bs a s = fold (\<lambda>i s. put_fs_byte (bs ! i) (a + of_nat i) s) [0..<length bs] s"

definition get_user_bytes :: "nat \<Rightarrow> u32 \<Rightarrow> kernel \<Rightarrow> u8 list" where
  "get_user_bytes n a s = map (\<lambda>i. get_fs_byte (a + of_nat i) s) [0..<n]"

definition get_termios :: "nat \<Rightarrow> u32 \<Rightarrow> kernel \<Rightarrow> (int \<times> kernel) option" where
  "get_termios t a s =
     do { s \<leftarrow> verify_area a 36 s;
          Some (0, put_user_bytes (termios_bytes (t_termios (tty_table s t))) a s) }"

definition set_termios :: "nat \<Rightarrow> u32 \<Rightarrow> kernel \<Rightarrow> int \<times> kernel" where
  "set_termios t a s =
     (let bs = get_user_bytes 36 a s;
          s = upd_tty t (\<lambda>y. y\<lparr>t_termios := bytes_termios bs (t_termios y)\<rparr>) s
      in (0, change_speed t s))"

text \<open>
  The 18 bytes of a \<open>struct termio\<close>: the low halves of the flags, the line and eight characters; the byte that pads
  the structure is what the kernel's stack holds there.
\<close>

definition termio_bytes :: "u8 \<Rightarrow> termios \<Rightarrow> u8 list" where
  "termio_bytes pad x =
     take 2 (long_bytes (c_iflag x)) @ take 2 (long_bytes (c_oflag x)) @ take 2 (long_bytes (c_cflag x)) @
     take 2 (long_bytes (c_lflag x)) @ [c_line x] @ map (c_cc x) [0..<8] @ [pad]"

definition low_half :: "u8 list \<Rightarrow> u32 \<Rightarrow> u32" where
  "low_half bs v = (v AND 0xffff0000) OR ucast (bs ! 0) OR push_bit 8 (ucast (bs ! 1))"

definition bytes_termio :: "u8 list \<Rightarrow> termios \<Rightarrow> termios" where
  "bytes_termio bs x =
     x\<lparr>c_iflag := low_half bs (c_iflag x), c_oflag := low_half (drop 2 bs) (c_oflag x),
       c_cflag := low_half (drop 4 bs) (c_cflag x), c_lflag := low_half (drop 6 bs) (c_lflag x),
       c_line := bs ! 8, c_cc := (\<lambda>i. if i < 8 then bs ! (9 + i) else c_cc x i)\<rparr>"

definition get_termio :: "u8 \<Rightarrow> nat \<Rightarrow> u32 \<Rightarrow> kernel \<Rightarrow> (int \<times> kernel) option" where
  "get_termio pad t a s =
     do { s \<leftarrow> verify_area a 18 s;
          Some (0, put_user_bytes (termio_bytes pad (t_termios (tty_table s t))) a s) }"

definition set_termio :: "nat \<Rightarrow> u32 \<Rightarrow> kernel \<Rightarrow> int \<times> kernel" where
  "set_termio t a s =
     (let bs = get_user_bytes 18 a s;
          s = upd_tty t (\<lambda>y. y\<lparr>t_termios := bytes_termio bs (t_termios y)\<rparr>) s
      in (0, change_speed t s))"

definition flush_read :: "nat \<Rightarrow> kernel \<Rightarrow> kernel" where
  "flush_read t s = upd_tty t (\<lambda>y. y\<lparr>read_q := flush (read_q y)\<rparr>) s"

definition flush_write :: "nat \<Rightarrow> kernel \<Rightarrow> kernel" where
  "flush_write t s = upd_tty t (\<lambda>y. y\<lparr>write_q := flush (write_q y)\<rparr>) s"

definition put_long :: "(nat \<Rightarrow> kernel \<Rightarrow> u32) \<Rightarrow> nat \<Rightarrow> u32 \<Rightarrow> kernel \<Rightarrow> (int \<times> kernel) option" where
  "put_long f t a s = do { s \<leftarrow> verify_area a 4 s; Some (0, put_fs_long (f t s) a s) }"

text \<open>\<open>pad\<close> is the padding byte of a \<open>struct termio\<close>.\<close>

definition tty_ioctl :: "u8 \<Rightarrow> int \<Rightarrow> nat \<Rightarrow> u32 \<Rightarrow> kernel \<Rightarrow> (int \<times> kernel) option" where
  "tty_ioctl pad dev cmd arg s =
     (if MAJOR dev = 5 \<and> tty (cur s) < 0 then panic ''tty_ioctl: dev<0''
      else
        let t = nat (if MAJOR dev = 5 then tty (cur s) else MINOR dev) in
        if cmd = 0x5401 then get_termios t arg s
        else if cmd = 0x5404 then Some (set_termios t arg (wait_until_sent t (flush_read t s)))
        else if cmd = 0x5403 then Some (set_termios t arg (wait_until_sent t s))
        else if cmd = 0x5402 then Some (set_termios t arg s)
        else if cmd = 0x5405 then get_termio pad t arg s
        else if cmd = 0x5408 then Some (set_termio t arg (wait_until_sent t (flush_read t s)))
        else if cmd = 0x5407 then Some (set_termio t arg (wait_until_sent t s))
        else if cmd = 0x5406 then Some (set_termio t arg s)
        else if cmd = 0x5409 then Some (0, if arg = 0 then send_break t (wait_until_sent t s) else s)
        else if cmd = 0x540B
        then if arg = 0 then Some (0, flush_read t s)
             else if arg = 1 then Some (0, flush_write t s)
             else if arg = 2 then Some (0, flush_write t (flush_read t s))
             else Some (- EINVAL, s)
        else if cmd = 0x540F then put_long (\<lambda>t s. word_of_int (t_pgrp (tty_table s t))) t arg s
        else if cmd = 0x5410 then Some (0, upd_tty t (\<lambda>y. y\<lparr>t_pgrp := sint (get_fs_long arg s)\<rparr>) s)
        else if cmd = 0x5411 then put_long (\<lambda>t s. CHARS (write_q (tty_table s t))) t arg s
        else if cmd = 0x541B then put_long (\<lambda>t s. CHARS (secondary (tty_table s t))) t arg s
        else Some (- EINVAL, s))"

section \<open>The terminal settings\<close>

lemma byte_of_long: "length bs \<ge> 4 \<Longrightarrow> j < 4 \<Longrightarrow> byte_of (bytes_long bs) j = bs ! j"
proof (rule bit_word_eqI)
  fix n
  assume "j < 4" "n < LENGTH(8)"
  then consider "j = 0" | "j = 1" | "j = 2" | "j = 3" by linarith
  then show "bit (byte_of (bytes_long bs) j) n \<longleftrightarrow> bit (bs ! j) n"
    using \<open>n < LENGTH(8)\<close>
    by cases (auto simp: byte_of_def bytes_long_def rd32_def rd16_def bit_simps numeral_2_eq_2 numeral_3_eq_3
        dest: bit_imp_le_length)
qed

lemma long_bytes_long: "length bs \<ge> 4 \<Longrightarrow> long_bytes (bytes_long bs) = take 4 bs"
  by (intro nth_equalityI) (auto simp: long_bytes_def byte_of_long)

lemma termios_bytes_inverse:
  assumes "length bs = 36"
  shows "termios_bytes (bytes_termios bs x) = bs"
proof -
  have "long_bytes (bytes_long (drop n bs)) = take 4 (drop n bs)" if "n \<le> 32" for n
    using that assms by (intro long_bytes_long) simp
  from this [of 0] this [of 4] this [of 8] this [of 12]
  have "termios_bytes (bytes_termios bs x) = take 4 bs @ take 4 (drop 4 bs) @ take 4 (drop 8 bs) @ take 4 (drop 12 bs) @
      [bs ! 16] @ map (\<lambda>i. bs ! (17 + i)) [0..<17] @ map (\<lambda>i. bs ! (34 + i)) [0..<2]"
    by (simp add: termios_bytes_def bytes_termios_def cong: map_cong)
  also have "\<dots> = bs"
  proof -
    have "map (\<lambda>i. bs ! (17 + i)) [0..<17] = take 17 (drop 17 bs)" "map (\<lambda>i. bs ! (34 + i)) [0..<2] = take 2 (drop 34 bs)"
      "[bs ! 16] = take 1 (drop 16 bs)"
      using assms by (auto intro!: nth_equalityI)
    moreover have "take n (drop k bs) @ drop (k + n) bs = drop k bs" for k n
      by (metis append_take_drop_id drop_drop add.commute)
    from this [of 17 17] this [of 1 16] this [of 4 12] this [of 4 8] this [of 4 4] this [of 4 0]
    have "take 4 bs @ take 4 (drop 4 bs) @ take 4 (drop 8 bs) @ take 4 (drop 12 bs) @ take 1 (drop 16 bs) @
      take 17 (drop 17 bs) @ drop 34 bs = bs" by simp
    ultimately show ?thesis using assms by simp
  qed
  finally show ?thesis .
qed


lemma put_user_bytes_user:
  assumes "length bs \<le> 4096"
  shows "put_user_bytes bs a s = s\<lparr>user := (\<lambda>x. if unat (x - a) < length bs then bs ! unat (x - a) else user s x)\<rparr>"
  unfolding put_user_bytes_def
proof -
  have "n \<le> length bs \<Longrightarrow> fold (\<lambda>i s. put_fs_byte (bs ! i) (a + of_nat i) s) [0..<n] s =
    s\<lparr>user := (\<lambda>x. if unat (x - a) < n then bs ! unat (x - a) else user s x)\<rparr>" for n
  proof (induction n)
    case (Suc n)
    have "x = a + of_nat n \<longleftrightarrow> unat (x - a) = n" for x using Suc.prems assms by (intro addr_eq) simp
    then show ?case using Suc by (auto simp: put_fs_byte_def fun_eq_iff less_Suc_eq)
  qed simp
  then show "fold (\<lambda>i s. put_fs_byte (bs ! i) (a + of_nat i) s) [0..<length bs] s =
    s\<lparr>user := (\<lambda>x. if unat (x - a) < length bs then bs ! unat (x - a) else user s x)\<rparr>" by blast
qed

lemma get_put_user_bytes:
  assumes "length bs \<le> 4096"
  shows "get_user_bytes (length bs) a (put_user_bytes bs a s) = bs"
proof (rule nth_equalityI)
  fix i
  assume "i < length (get_user_bytes (length bs) a (put_user_bytes bs a s))"
  then have i: "i < length bs" by (simp add: get_user_bytes_def)
  then have "unat (a + of_nat i - a) = i" using assms by (simp add: unat_small)
  then show "get_user_bytes (length bs) a (put_user_bytes bs a s) ! i = bs ! i"
    using i by (simp add: get_user_bytes_def put_user_bytes_user [OF assms] get_fs_byte_def)
qed (simp add: get_user_bytes_def)

text \<open>
  the settings that \<open>TCSETS\<close> stores for a terminal are, byte for byte, those that \<open>TCGETS\<close> then delivers, to
  whichever address.
\<close>

lemma termios_round_trip:
  assumes "snd (set_termios t a s) = s1" "get_termios t b s1 = Some (r, s2)"
  shows "r = 0 \<and> get_user_bytes 36 b s2 = get_user_bytes 36 a s"
proof -
  let ?bs = "get_user_bytes 36 a s"
  have l: "length ?bs = 36" by (simp add: get_user_bytes_def)
  have "tty_table (change_speed t u) = tty_table u" for u by (simp add: change_speed_def Let_def)
  then have "t_termios (tty_table s1 t) = bytes_termios ?bs (t_termios (tty_table s t))"
    using assms(1) by (auto simp: set_termios_def Let_def)
  moreover obtain v where v: "verify_area b 36 s1 = Some v" "r = 0"
    "s2 = put_user_bytes (termios_bytes (t_termios (tty_table v t))) b v"
    using assms(2) by (auto simp: get_termios_def bind_Some_iff)
  moreover have "tty_table v = tty_table s1" using verify_area_mm [OF v(1)] by (auto simp: mm_only_def)
  ultimately have "s2 = put_user_bytes ?bs b v" using termios_bytes_inverse [OF l] by simp
  then show ?thesis using get_put_user_bytes [of ?bs b v] l v(2) by simp
qed

text \<open>The second serial line is set to 9600 bits per second from address 64, and read back to address 128.\<close>

definition ioctl_state :: kernel where
  "ioctl_state = boot_kernel\<lparr>user := (\<lambda>_. 0)(72 := 0x3d, 76 := 2)\<rparr>"

lemma termios_round_trip_witness:
  "\<exists>s2. get_termios 2 128 (snd (set_termios 2 64 ioctl_state)) = Some (0, s2) \<and>
     get_user_bytes 36 128 s2 ! 8 = 0x3d"
proof -
  let ?s = "snd (set_termios 2 64 ioctl_state)"
  have "hw32 ?s = hw32 ioctl_state" by (simp add: set_termios_def change_speed_def Let_def)
  then obtain s2 where g: "get_termios 2 128 ?s = Some (0, s2)"
    using verify_unmapped [of ?s 128 36] by (simp add: get_termios_def ioctl_state_def)
  have "get_user_bytes 36 64 ioctl_state ! 8 = 0x3d"
    by (simp add: get_user_bytes_def get_fs_byte_def ioctl_state_def)
  then show ?thesis using g termios_round_trip [OF refl g] by auto
qed

end
