(* ===== verification/Read_Write.thy ===== *)
theory Read_Write
  imports Pipe Tty_Ioctl
begin

text \<open>
  fs/file_dev.c, fs/block_dev.c, fs/char_dev.c and fs/read_write.c: reading and writing through an
  open file. An open file is an index in \<open>file_table\<close>, which is shared and so may be changed by
  other processes each time the caller sleeps; the code reads \<open>f_pos\<close> from it each time round its
  loops, and so does the model. A C pointer \<open>&file->f_pos\<close> is the index of the file.
\<close>

section \<open>Definitions\<close>

text \<open>The values of a signed 32 bit integer.\<close>

definition wrap32 :: "int \<Rightarrow> int" where
  "wrap32 x = sint (word_of_int x :: u32)"

text \<open>The loops that copy between a block, from offset \<open>off\<close>, and the user's buffer.\<close>

definition block_to_user :: "nat \<Rightarrow> nat \<Rightarrow> u32 \<Rightarrow> nat \<Rightarrow> kernel \<Rightarrow> kernel" where
  "block_to_user bh off buf chars s =
     fold (\<lambda>k s. put_fs_byte (b_data (bufs s bh) (off + k)) (buf + of_nat k) s) [0..<chars] s"

definition zero_to_user :: "u32 \<Rightarrow> nat \<Rightarrow> kernel \<Rightarrow> kernel" where
  "zero_to_user buf chars s = fold (\<lambda>k s. put_fs_byte 0 (buf + of_nat k) s) [0..<chars] s"

definition user_to_block :: "nat \<Rightarrow> nat \<Rightarrow> u32 \<Rightarrow> nat \<Rightarrow> kernel \<Rightarrow> kernel" where
  "user_to_block bh off buf chars s =
     fold (\<lambda>k s. upd_buf bh (\<lambda>b. b\<lparr>b_data := (b_data b)(off + k := get_fs_byte (buf + of_nat k) s)\<rparr>) s)
       [0..<chars] s"

definition add_pos :: "nat \<Rightarrow> int \<Rightarrow> kernel \<Rightarrow> kernel" where
  "add_pos fp n s = upd_file fp (\<lambda>f. f\<lparr>f_pos := f_pos f + n\<rparr>) s"

subsection \<open>fs/file_dev.c\<close>

text \<open>
  A position is negative only when a file's size on disk is beyond \<open>2^31\<close>; the offset in the block is
  then negative too, and the code leaves the block: this is not modelled.
\<close>

definition read_piece :: "nat \<Rightarrow> nat \<Rightarrow> u32 \<Rightarrow> nat \<Rightarrow> kernel \<Rightarrow> (nat option \<times> kernel) option" where
  "read_piece inode fp buf left s =
     do { (nr, s) \<leftarrow> bmap inode (f_pos (file_table s fp) sdiv int BLOCK_SIZE) s;
          (ok, bh, s) \<leftarrow> (if nr \<noteq> 0
                          then do { (bh, s) \<leftarrow> bread (uint (i_dev (inode_table s inode))) nr s;
                                    Some (bh \<noteq> None, bh, s) }
                          else Some (True, None, s));
          if \<not> ok then Some (None, s)
          else if f_pos (file_table s fp) < 0 then None
          else do {
            let off = nat (f_pos (file_table s fp) smod int BLOCK_SIZE);
            let chars = min (BLOCK_SIZE - off) left;
            let s = add_pos fp (int chars) s;
            s \<leftarrow> (case bh of
                   Some b \<Rightarrow> brelse bh (block_to_user b off buf chars s)
                 | None \<Rightarrow> Some (zero_to_user buf chars s));
            Some (Some chars, s) } }"

partial_function (option) file_read_loop :: "nat \<Rightarrow> nat \<Rightarrow> u32 \<Rightarrow> nat \<Rightarrow> kernel \<Rightarrow> (nat \<times> kernel) option" where
  "file_read_loop inode fp buf left s =
     (if left = 0 then Some (0, s)
      else
        (case read_piece inode fp buf left s of
           None \<Rightarrow> None
         | Some (None, s) \<Rightarrow> Some (left, s)
         | Some (Some chars, s) \<Rightarrow> file_read_loop inode fp (buf + of_nat chars) (left - chars) s))"

definition file_read :: "nat \<Rightarrow> nat \<Rightarrow> u32 \<Rightarrow> int \<Rightarrow> kernel \<Rightarrow> (int \<times> kernel) option" where
  "file_read inode fp buf count s =
     (if count \<le> 0 then Some (0, s)
      else do {
        (left, s) \<leftarrow> file_read_loop inode fp buf (nat count) s;
        let s = upd_ino inode (\<lambda>n. n\<lparr>i_atime := time32 s\<rparr>) s;
        Some (if count - int left \<noteq> 0 then count - int left else - ERROR, s) })"

text \<open>One round of the loop of \<open>file_write\<close>; \<open>None\<close> in the result is a \<open>break\<close>.\<close>

definition write_piece :: "nat \<Rightarrow> u32 \<Rightarrow> int \<Rightarrow> nat \<Rightarrow> kernel \<Rightarrow> (nat option \<times> kernel) option" where
  "write_piece inode buf pos left s =
     do { (block, s) \<leftarrow> create_block inode (pos sdiv int BLOCK_SIZE) s;
          if block = 0 then Some (None, s)
          else do {
            (bh, s) \<leftarrow> bread (uint (i_dev (inode_table s inode))) block s;
            (case bh of
               None \<Rightarrow> Some (None, s)
             | Some b \<Rightarrow>
                 if pos < 0 then None
                 else do {
                   let off = nat (pos smod int BLOCK_SIZE);
                   let s = upd_buf b (\<lambda>b. b\<lparr>b_dirt := True\<rparr>) s;
                   let c = min (BLOCK_SIZE - off) left;
                   let p = (word_of_int (pos + int c) :: u32);
                   let s = (if p > i_size (inode_table s inode)
                            then upd_ino inode (\<lambda>n. n\<lparr>i_size := p, i_dirt := True\<rparr>) s else s);
                   s \<leftarrow> brelse bh (user_to_block b off buf c s);
                   Some (Some c, s) }) } }"

partial_function (option) file_write_loop ::
  "nat \<Rightarrow> u32 \<Rightarrow> int \<Rightarrow> nat \<Rightarrow> kernel \<Rightarrow> (int \<times> nat \<times> kernel) option" where
  "file_write_loop inode buf pos left s =
     (if left = 0 then Some (pos, 0, s)
      else
        (case write_piece inode buf pos left s of
           None \<Rightarrow> None
         | Some (None, s) \<Rightarrow> Some (pos, left, s)
         | Some (Some c, s) \<Rightarrow> file_write_loop inode (buf + of_nat c) (pos + int c) (left - c) s))"

definition file_write :: "nat \<Rightarrow> nat \<Rightarrow> u32 \<Rightarrow> int \<Rightarrow> kernel \<Rightarrow> (int \<times> kernel) option" where
  "file_write inode fp buf count s =
     do { let append = (\<lambda>s. f_flags (file_table s fp) AND 0x400 \<noteq> 0);
          let pos = (if append s then sint (i_size (inode_table s inode)) else f_pos (file_table s fp));
          (pos, left, s) \<leftarrow> file_write_loop inode buf pos (nat count) s;
          let s = upd_ino inode (\<lambda>n. n\<lparr>i_mtime := time32 s\<rparr>) s;
          let s = (if \<not> append s
                   then upd_ino inode (\<lambda>n. n\<lparr>i_ctime := time32 s\<rparr>) (upd_file fp (\<lambda>f. f\<lparr>f_pos := pos\<rparr>) s)
                   else s);
          let i = int (nat count - left);
          Some (if i \<noteq> 0 then i else -1, s) }"

subsection \<open>fs/block_dev.c\<close>

definition block_write_piece :: "int \<Rightarrow> nat \<Rightarrow> int \<Rightarrow> nat \<Rightarrow> u32 \<Rightarrow> nat \<Rightarrow> kernel \<Rightarrow> (nat option \<times> kernel) option" where
  "block_write_piece dev fp block offset buf count s =
     do { let chars = min (BLOCK_SIZE - offset) count;
          (bh, s) \<leftarrow> (if chars = BLOCK_SIZE
                      then do { (b, s) \<leftarrow> getblk dev block s; Some (Some b, s) }
                      else breada dev block [block + 1, block + 2, -1] s);
          (case bh of
             None \<Rightarrow> Some (None, s)
           | Some b \<Rightarrow> do {
               let s = user_to_block b offset buf chars (add_pos fp (int chars) s);
               s \<leftarrow> brelse bh (upd_buf b (\<lambda>b. b\<lparr>b_dirt := True\<rparr>) s);
               Some (Some chars, s) }) }"

partial_function (option) block_write_loop ::
  "int \<Rightarrow> nat \<Rightarrow> int \<Rightarrow> nat \<Rightarrow> u32 \<Rightarrow> nat \<Rightarrow> nat \<Rightarrow> kernel \<Rightarrow> (int \<times> kernel) option" where
  "block_write_loop dev fp block offset buf count written s =
     (if count = 0 then Some (int written, s)
      else
        (case block_write_piece dev fp block offset buf count s of
           None \<Rightarrow> None
         | Some (None, s) \<Rightarrow> Some (if written \<noteq> 0 then int written else - EIO, s)
         | Some (Some chars, s) \<Rightarrow>
             block_write_loop dev fp (block + 1) 0 (buf + of_nat chars) (count - chars) (written + chars) s))"

definition block_write :: "int \<Rightarrow> nat \<Rightarrow> u32 \<Rightarrow> int \<Rightarrow> kernel \<Rightarrow> (int \<times> kernel) option" where
  "block_write dev fp buf count s =
     (let pos = f_pos (file_table s fp)
      in block_write_loop dev fp (drop_bit 10 pos) (nat (pos AND 1023)) buf (nat count) 0 s)"

definition block_read_piece :: "int \<Rightarrow> nat \<Rightarrow> int \<Rightarrow> nat \<Rightarrow> u32 \<Rightarrow> nat \<Rightarrow> kernel \<Rightarrow> (nat option \<times> kernel) option" where
  "block_read_piece dev fp block offset buf count s =
     do { let chars = min (BLOCK_SIZE - offset) count;
          (bh, s) \<leftarrow> breada dev block [block + 1, block + 2, -1] s;
          (case bh of
             None \<Rightarrow> Some (None, s)
           | Some b \<Rightarrow> do {
               s \<leftarrow> brelse bh (block_to_user b offset buf chars (add_pos fp (int chars) s));
               Some (Some chars, s) }) }"

partial_function (option) block_read_loop ::
  "int \<Rightarrow> nat \<Rightarrow> int \<Rightarrow> nat \<Rightarrow> u32 \<Rightarrow> nat \<Rightarrow> nat \<Rightarrow> kernel \<Rightarrow> (int \<times> kernel) option" where
  "block_read_loop dev fp block offset buf count done s =
     (if count = 0 then Some (int done, s)
      else
        (case block_read_piece dev fp block offset buf count s of
           None \<Rightarrow> None
         | Some (None, s) \<Rightarrow> Some (if done \<noteq> 0 then int done else - EIO, s)
         | Some (Some chars, s) \<Rightarrow>
             block_read_loop dev fp (block + 1) 0 (buf + of_nat chars) (count - chars) (done + chars) s))"

text \<open>\<open>block_read\<close> takes the position as unsigned.\<close>

definition block_read :: "int \<Rightarrow> nat \<Rightarrow> u32 \<Rightarrow> int \<Rightarrow> kernel \<Rightarrow> (int \<times> kernel) option" where
  "block_read dev fp buf count s =
     (let pos = f_pos (file_table s fp)
      in block_read_loop dev fp (uint (drop_bit 10 (word_of_int pos :: u32))) (nat (pos AND 1023))
           buf (nat count) 0 s)"

subsection \<open>fs/char_dev.c\<close>

definition rw_ttyx :: "int \<Rightarrow> int \<Rightarrow> u32 \<Rightarrow> int \<Rightarrow> kernel \<Rightarrow> (int \<times> kernel) option" where
  "rw_ttyx rw minor buf count s =
     (if rw = READ then tty_read (nat minor) buf count s else tty_write (nat minor) buf count s)"

definition rw_tty :: "int \<Rightarrow> u32 \<Rightarrow> int \<Rightarrow> kernel \<Rightarrow> (int \<times> kernel) option" where
  "rw_tty rw buf count s =
     (if tty (cur s) < 0 then Some (- EPERM, s) else rw_ttyx rw (tty (cur s)) buf count s)"

definition rw_ram :: int where "rw_ram = - EIO"
definition rw_mem :: int where "rw_mem = - EIO"
definition rw_kmem :: int where "rw_kmem = - EIO"

definition port_step :: "int \<Rightarrow> int \<Rightarrow> u32 \<Rightarrow> nat \<Rightarrow> kernel \<Rightarrow> kernel" where
  "port_step rw first buf k s =
     (let port = word_of_int (first + int k) in
      if rw = READ then (case inb port s of (v, s) \<Rightarrow> put_fs_byte v (buf + of_nat k) s)
      else outb (get_fs_byte (buf + of_nat k) s) port s)"

definition rw_port :: "int \<Rightarrow> u32 \<Rightarrow> int \<Rightarrow> nat \<Rightarrow> kernel \<Rightarrow> int \<times> kernel" where
  "rw_port rw buf count fp s =
     (let i = f_pos (file_table s fp);
          n = min (nat count) (nat (65536 - i));
          s = fold (port_step rw i buf) [0..<n] s
      in (int n, add_pos fp (int n) s))"

definition rw_memory :: "int \<Rightarrow> int \<Rightarrow> u32 \<Rightarrow> int \<Rightarrow> nat \<Rightarrow> kernel \<Rightarrow> int \<times> kernel" where
  "rw_memory rw minor buf count fp s =
     (if minor = 0 then (rw_ram, s)
      else if minor = 1 then (rw_mem, s)
      else if minor = 2 then (rw_kmem, s)
      else if minor = 3 then (if rw = READ then 0 else count, s)
      else if minor = 4 then rw_port rw buf count fp s
      else (- EIO, s))"

definition rw_char :: "int \<Rightarrow> int \<Rightarrow> u32 \<Rightarrow> int \<Rightarrow> nat \<Rightarrow> kernel \<Rightarrow> (int \<times> kernel) option" where
  "rw_char rw dev buf count fp s =
     (if MAJOR dev \<ge> 8 then Some (- ENODEV, s)
      else if MAJOR dev = 1 then Some (rw_memory rw (MINOR dev) buf count fp s)
      else if MAJOR dev = 4 then rw_ttyx rw (MINOR dev) buf count s
      else if MAJOR dev = 5 then rw_tty rw buf count s
      else Some (- ENODEV, s))"

subsection \<open>fs/read_write.c\<close>

definition sys_lseek :: "nat \<Rightarrow> int \<Rightarrow> int \<Rightarrow> kernel \<Rightarrow> int \<times> kernel" where
  "sys_lseek fd offset origin s =
     (case (if fd \<ge> NR_OPEN then None else filp (cur s) fd) of
        None \<Rightarrow> (- EBADF, s)
      | Some fp \<Rightarrow>
          (case f_inode (file_table s fp) of
             None \<Rightarrow> (- EBADF, s)
           | Some i \<Rightarrow>
               let f = file_table s fp; n = inode_table s i;
                   go = (\<lambda>p. if p < 0 then (- EINVAL, s) else (p, upd_file fp (\<lambda>f. f\<lparr>f_pos := p\<rparr>) s))
               in if \<not> IS_SEEKABLE (MAJOR (uint (i_dev n))) then (- EBADF, s)
                  else if i_pipe n then (- ESPIPE, s)
                  else if origin = 0 then go offset
                  else if origin = 1 then go (wrap32 (f_pos f + offset))
                  else if origin = 2 then go (sint (i_size n + word_of_int offset))
                  else (- EINVAL, s)))"

definition sys_read :: "nat \<Rightarrow> u32 \<Rightarrow> int \<Rightarrow> kernel \<Rightarrow> (int \<times> kernel) option" where
  "sys_read fd buf count s =
     (if fd \<ge> NR_OPEN \<or> count < 0 \<or> filp (cur s) fd = None then Some (- EINVAL, s)
      else if count = 0 then Some (0, s)
      else do {
        s \<leftarrow> verify_area buf count s;
        fp \<leftarrow> filp (cur s) fd;
        (case f_inode (file_table s fp) of
           None \<Rightarrow> null_deref
         | Some i \<Rightarrow>
             let n = inode_table s i; f = file_table s fp in
             if i_pipe n
             then if f_mode f AND 1 \<noteq> 0 then read_pipe i buf count s else Some (- EIO, s)
             else if S_ISCHR (i_mode n) then rw_char READ (uint (i_zone n 0)) buf count fp s
             else if S_ISBLK (i_mode n) then block_read (uint (i_zone n 0)) fp buf count s
             else if S_ISDIR (i_mode n) \<or> S_ISREG (i_mode n)
             then
               let count = (if word_of_int (count + f_pos f) > i_size n
                            then sint (i_size n - word_of_int (f_pos f)) else count)
               in if count \<le> 0 then Some (0, s) else file_read i fp buf count s
             else Some (- EINVAL, s)) })"

definition sys_write :: "nat \<Rightarrow> u32 \<Rightarrow> int \<Rightarrow> kernel \<Rightarrow> (int \<times> kernel) option" where
  "sys_write fd buf count s =
     (case (if fd \<ge> NR_OPEN \<or> count < 0 then None else filp (cur s) fd) of
        None \<Rightarrow> Some (- EINVAL, s)
      | Some fp \<Rightarrow>
          if count = 0 then Some (0, s)
          else
            (case f_inode (file_table s fp) of
               None \<Rightarrow> null_deref
             | Some i \<Rightarrow>
                 let n = inode_table s i; f = file_table s fp in
                 if i_pipe n
                 then if f_mode f AND 2 \<noteq> 0 then write_pipe i buf count s else Some (- EIO, s)
                 else if S_ISCHR (i_mode n) then rw_char WRITE (uint (i_zone n 0)) buf count fp s
                 else if S_ISBLK (i_mode n) then block_write (uint (i_zone n 0)) fp buf count s
                 else if S_ISREG (i_mode n) then file_write i fp buf count s
                 else Some (- EINVAL, s)))"

end
