(* ===== verification/File_Calls.thy ===== *)
theory File_Calls
  imports Namei Read_Write
begin

text \<open>
  fs/open.c, fs/fcntl.c, fs/stat.c and fs/ioctl.c: the system calls on file descriptors and on the
  attributes of files. A descriptor is an \<open>unsigned int\<close>, a natural number here.
\<close>

section \<open>Definitions\<close>

definition fd_bit :: "nat \<Rightarrow> u32" where
  "fd_bit fd = push_bit fd 1"

definition clear_close_on_exec :: "nat \<Rightarrow> kernel \<Rightarrow> kernel" where
  "clear_close_on_exec fd s = upd_cur (\<lambda>p. p\<lparr>close_on_exec := close_on_exec p AND NOT (fd_bit fd)\<rparr>) s"

definition open_file :: "nat \<Rightarrow> kernel \<Rightarrow> nat option" where
  "open_file fd s = (if fd \<ge> NR_OPEN then None else filp (cur s) fd)"

subsection \<open>fs/open.c\<close>

definition sys_ustat :: int where "sys_ustat = - ENOSYS"

definition sys_utime :: "u32 \<Rightarrow> u32 \<Rightarrow> kernel \<Rightarrow> (int \<times> kernel) option" where
  "sys_utime filename utimes s =
     do { (inode, s) \<leftarrow> namei filename s;
          (case inode of
             None \<Rightarrow> Some (- ENOENT, s)
           | Some i \<Rightarrow> do {
               let (actime, modtime) = (if utimes \<noteq> 0 then (get_fs_long utimes s, get_fs_long (utimes + 4) s)
                                        else (time32 s, time32 s));
               let s = upd_ino i (\<lambda>n. n\<lparr>i_atime := actime, i_mtime := modtime, i_dirt := True\<rparr>) s;
               s \<leftarrow> iput inode s;
               Some (0, s) }) }"

text \<open>The owner and the group are read after the inode has been put back.\<close>

definition access_mode :: "int \<Rightarrow> int \<Rightarrow> m_inode \<Rightarrow> kernel \<Rightarrow> bool" where
  "access_mode mode m n s =
     (let res = (if uid (cur s) = i_uid n then drop_bit 6 m
                 else if gid (cur s) = ucast (i_gid n) then drop_bit 6 m
                 else m)
      in res AND 7 AND mode = mode \<or> uid (cur s) = 0 \<and> (mode AND 1 = 0 \<or> m AND 0x49 \<noteq> 0))"

definition sys_access :: "u32 \<Rightarrow> int \<Rightarrow> kernel \<Rightarrow> (int \<times> kernel) option" where
  "sys_access filename mode s =
     do { (inode, s) \<leftarrow> namei filename s;
          (case inode of
             None \<Rightarrow> Some (- EACCES, s)
           | Some i \<Rightarrow> do {
               let m = uint (i_mode (inode_table s i)) AND 0x1ff;
               s \<leftarrow> iput inode s;
               Some (if access_mode (mode AND 7) m (inode_table s i) s then 0 else - EACCES, s) }) }"

definition sys_chdir :: "u32 \<Rightarrow> kernel \<Rightarrow> (int \<times> kernel) option" where
  "sys_chdir filename s =
     do { (inode, s) \<leftarrow> namei filename s;
          (case inode of
             None \<Rightarrow> Some (- ENOENT, s)
           | Some i \<Rightarrow>
               if \<not> S_ISDIR (i_mode (inode_table s i))
               then do { s \<leftarrow> iput inode s; Some (- ENOTDIR, s) }
               else do {
                 s \<leftarrow> iput (pwd (cur s)) s;
                 Some (0, upd_cur (\<lambda>p. p\<lparr>pwd := inode\<rparr>) s) }) }"

definition sys_chroot :: "u32 \<Rightarrow> kernel \<Rightarrow> (int \<times> kernel) option" where
  "sys_chroot filename s =
     do { (inode, s) \<leftarrow> namei filename s;
          (case inode of
             None \<Rightarrow> Some (- ENOENT, s)
           | Some i \<Rightarrow>
               if \<not> S_ISDIR (i_mode (inode_table s i))
               then do { s \<leftarrow> iput inode s; Some (- ENOTDIR, s) }
               else do {
                 s \<leftarrow> iput (root (cur s)) s;
                 Some (0, upd_cur (\<lambda>p. p\<lparr>root := inode\<rparr>) s) }) }"

definition sys_chmod :: "u32 \<Rightarrow> int \<Rightarrow> kernel \<Rightarrow> (int \<times> kernel) option" where
  "sys_chmod filename mode s =
     do { (inode, s) \<leftarrow> namei filename s;
          (case inode of
             None \<Rightarrow> Some (- ENOENT, s)
           | Some i \<Rightarrow>
               if euid (cur s) \<noteq> i_uid (inode_table s i) \<and> \<not> suser s
               then do { s \<leftarrow> iput inode s; Some (- EACCES, s) }
               else do {
                 let s = upd_ino i (\<lambda>n. n\<lparr>i_mode := (word_of_int mode AND 0xfff) OR (i_mode n AND NOT 0xfff),
                                          i_dirt := True\<rparr>) s;
                 s \<leftarrow> iput inode s;
                 Some (0, s) }) }"

definition sys_chown :: "u32 \<Rightarrow> int \<Rightarrow> int \<Rightarrow> kernel \<Rightarrow> (int \<times> kernel) option" where
  "sys_chown filename uid' gid' s =
     do { (inode, s) \<leftarrow> namei filename s;
          (case inode of
             None \<Rightarrow> Some (- ENOENT, s)
           | Some i \<Rightarrow>
               if \<not> suser s then do { s \<leftarrow> iput inode s; Some (- EACCES, s) }
               else do {
                 let s = upd_ino i (\<lambda>n. n\<lparr>i_uid := word_of_int uid', i_gid := word_of_int gid', i_dirt := True\<rparr>) s;
                 s \<leftarrow> iput inode s;
                 Some (0, s) }) }"

text \<open>
  The part of \<open>sys_open\<close> after a successful \<open>open_namei\<close>: the special cases of terminals (the
  \<open>inode\<close> of \<open>/dev/ttyx\<close> may become the controlling terminal, that of \<open>/dev/tty\<close> needs one) and
  the exchangeable disks.
\<close>

definition release_fd :: "nat \<Rightarrow> nat \<Rightarrow> kernel \<Rightarrow> kernel" where
  "release_fd fd fp s = upd_file fp (\<lambda>f. f\<lparr>f_count := 0\<rparr>) (set_filp fd None s)"

definition claim_tty :: "nat \<Rightarrow> kernel \<Rightarrow> kernel" where
  "claim_tty i s =
     (let zone = uint (i_zone (inode_table s i) 0) in
      if leader (cur s) \<and> tty (cur s) < 0
      then let s = upd_cur (\<lambda>p. p\<lparr>tty := MINOR zone\<rparr>) s
           in upd_tty (nat (tty (cur s))) (\<lambda>t. t\<lparr>t_pgrp := pgrp (cur s)\<rparr>) s
      else s)"

definition finish_open :: "nat \<Rightarrow> nat \<Rightarrow> int \<Rightarrow> nat \<Rightarrow> kernel \<Rightarrow> (int \<times> kernel) option" where
  "finish_open fd fp flag i s =
     (let zone = uint (i_zone (inode_table s i) 0);
          chr = S_ISCHR (i_mode (inode_table s i))
      in if chr \<and> MAJOR zone = 5 \<and> tty (cur s) < 0
         then do { s \<leftarrow> iput (Some i) s; Some (- EPERM, release_fd fd fp s) }
         else do {
           let s = (if chr \<and> MAJOR zone = 4 then claim_tty i s else s);
           s \<leftarrow> (if S_ISBLK (i_mode (inode_table s i))
                 then check_disk_change (uint (i_zone (inode_table s i) 0)) s else Some s);
           Some (int fd, upd_file fp (\<lambda>f. f\<lparr>f_mode := i_mode (inode_table s i), f_flags := word_of_int flag,
                           f_count := 1, f_inode := Some i, f_pos := 0\<rparr>) s) })"

definition sys_open :: "u32 \<Rightarrow> int \<Rightarrow> int \<Rightarrow> kernel \<Rightarrow> (int \<times> kernel) option" where
  "sys_open filename flag mode0 s =
     (let mode = mode0 AND (0x1ff AND NOT (uint (umask (cur s)))) in
      case find (\<lambda>fd. filp (cur s) fd = None) [0..<NR_OPEN] of
        None \<Rightarrow> Some (- EINVAL, s)
      | Some fd \<Rightarrow>
          let s = clear_close_on_exec fd s in
          (case find (\<lambda>i. f_count (file_table s i) = 0) [0..<NR_FILE] of
             None \<Rightarrow> Some (- EINVAL, s)
           | Some fp \<Rightarrow> do {
               let s = upd_file fp (\<lambda>f. f\<lparr>f_count := f_count f + 1\<rparr>) (set_filp fd (Some fp) s);
               (i, inode, s) \<leftarrow> open_namei filename flag mode s;
               if i < 0 then Some (i, release_fd fd fp s)
               else (case inode of None \<Rightarrow> null_deref | Some inode \<Rightarrow> finish_open fd fp flag inode s) }))"

definition sys_creat :: "u32 \<Rightarrow> int \<Rightarrow> kernel \<Rightarrow> (int \<times> kernel) option" where
  "sys_creat pathname mode s = sys_open pathname (O_CREAT OR O_TRUNC) mode s"

definition sys_close :: "nat \<Rightarrow> kernel \<Rightarrow> (int \<times> kernel) option" where
  "sys_close fd s =
     (if fd \<ge> NR_OPEN then Some (- EINVAL, s)
      else
        let s = clear_close_on_exec fd s in
        case filp (cur s) fd of
          None \<Rightarrow> Some (- EINVAL, s)
        | Some fp \<Rightarrow>
            let s = set_filp fd None s in
            if f_count (file_table s fp) = 0 then panic ''Close: file count is 0''
            else
              let s = upd_file fp (\<lambda>f. f\<lparr>f_count := f_count f - 1\<rparr>) s in
              if f_count (file_table s fp) \<noteq> 0 then Some (0, s)
              else do { s \<leftarrow> iput (f_inode (file_table s fp)) s; Some (0, s) })"

subsection \<open>fs/fcntl.c\<close>

definition dupfd :: "nat \<Rightarrow> nat \<Rightarrow> kernel \<Rightarrow> int \<times> kernel" where
  "dupfd fd arg s =
     (case open_file fd s of
        None \<Rightarrow> (- EBADF, s)
      | Some fp \<Rightarrow>
          if arg \<ge> NR_OPEN then (- EINVAL, s)
          else
            (case find (\<lambda>a. filp (cur s) a = None) [arg..<NR_OPEN] of
               None \<Rightarrow> (- EMFILE, s)
             | Some a \<Rightarrow>
                 let s = set_filp a (Some fp) (clear_close_on_exec a s)
                 in (int a, upd_file fp (\<lambda>f. f\<lparr>f_count := f_count f + 1\<rparr>) s)))"

definition sys_dup2 :: "nat \<Rightarrow> nat \<Rightarrow> kernel \<Rightarrow> (int \<times> kernel) option" where
  "sys_dup2 oldfd newfd s =
     do { (_, s) \<leftarrow> sys_close newfd s; Some (dupfd oldfd newfd s) }"

definition sys_dup :: "nat \<Rightarrow> kernel \<Rightarrow> int \<times> kernel" where
  "sys_dup fildes s = dupfd fildes 0 s"

definition sys_fcntl :: "nat \<Rightarrow> nat \<Rightarrow> u32 \<Rightarrow> kernel \<Rightarrow> int \<times> kernel" where
  "sys_fcntl fd cmd arg s =
     (case open_file fd s of
        None \<Rightarrow> (- EBADF, s)
      | Some fp \<Rightarrow>
          if cmd = 0 then dupfd fd (unat arg) s
          else if cmd = 1 then (uint (drop_bit fd (close_on_exec (cur s)) AND 1), s)
          else if cmd = 2
          then (0, if arg AND 1 \<noteq> 0
                   then upd_cur (\<lambda>p. p\<lparr>close_on_exec := close_on_exec p OR fd_bit fd\<rparr>) s
                   else clear_close_on_exec fd s)
          else if cmd = 3 then (uint (f_flags (file_table s fp)), s)
          else if cmd = 4
          then (0, upd_file fp (\<lambda>f. f\<lparr>f_flags := (f_flags f AND NOT 0xc00) OR (ucast arg AND 0xc00)\<rparr>) s)
          else (-1, s))"

subsection \<open>fs/stat.c\<close>

text \<open>
  The bytes of the local variable \<open>tmp\<close> of \<open>cp_stat\<close>: the fields at the offsets that \<open>struct stat\<close>
  gives them, and \<open>pad\<close>, what the stack held, in the four bytes of padding.
\<close>

definition stat_bytes :: "m_inode \<Rightarrow> (nat \<Rightarrow> u8) \<Rightarrow> nat \<Rightarrow> u8" where
  "stat_bytes n pad =
     wr32 (wr32 (wr32 (wr32 (wr16 (wr16 (wr16 (wr16 (wr16 (pad(6 := i_nlinks n, 10 := i_gid n))
       0 (i_dev n)) 2 (i_num n)) 4 (i_mode n)) 8 (i_uid n)) 12 (i_zone n 0))
       16 (i_size n)) 20 (i_atime n)) 24 (i_mtime n)) 28 (i_ctime n)"

definition cp_stat :: "(nat \<Rightarrow> u8) \<Rightarrow> nat \<Rightarrow> u32 \<Rightarrow> kernel \<Rightarrow> kernel option" where
  "cp_stat pad inode statbuf s =
     do { s \<leftarrow> verify_area statbuf 32 s;
          let tmp = stat_bytes (inode_table s inode) pad;
          Some (fold (\<lambda>i s. put_fs_byte (tmp i) (statbuf + of_nat i) s) [0..<32] s) }"

definition sys_stat :: "(nat \<Rightarrow> u8) \<Rightarrow> u32 \<Rightarrow> u32 \<Rightarrow> kernel \<Rightarrow> (int \<times> kernel) option" where
  "sys_stat pad filename statbuf s =
     do { (inode, s) \<leftarrow> namei filename s;
          (case inode of
             None \<Rightarrow> Some (- ENOENT, s)
           | Some i \<Rightarrow> do { s \<leftarrow> cp_stat pad i statbuf s; s \<leftarrow> iput inode s; Some (0, s) }) }"

definition sys_fstat :: "(nat \<Rightarrow> u8) \<Rightarrow> nat \<Rightarrow> u32 \<Rightarrow> kernel \<Rightarrow> (int \<times> kernel) option" where
  "sys_fstat pad fd statbuf s =
     (case open_file fd s of
        None \<Rightarrow> Some (- EBADF, s)
      | Some fp \<Rightarrow>
          (case f_inode (file_table s fp) of
             None \<Rightarrow> Some (- EBADF, s)
           | Some i \<Rightarrow> do { s \<leftarrow> cp_stat pad i statbuf s; Some (0, s) }))"

subsection \<open>fs/ioctl.c\<close>

definition sys_ioctl :: "u8 \<Rightarrow> nat \<Rightarrow> nat \<Rightarrow> u32 \<Rightarrow> kernel \<Rightarrow> (int \<times> kernel) option" where
  "sys_ioctl pad fd cmd arg s =
     (case open_file fd s of
        None \<Rightarrow> Some (- EBADF, s)
      | Some fp \<Rightarrow>
          (case f_inode (file_table s fp) of
             None \<Rightarrow> null_deref
           | Some i \<Rightarrow>
               let n = inode_table s i; dev = uint (i_zone n 0) in
               if \<not> S_ISCHR (i_mode n) \<and> \<not> S_ISBLK (i_mode n) then Some (- EINVAL, s)
               else if MAJOR dev \<ge> 8 then Some (- ENODEV, s)
               else if MAJOR dev = 4 \<or> MAJOR dev = 5 then tty_ioctl pad dev cmd arg s
               else Some (- ENOTTY, s)))"

end
