(* ===== verification/Exit.thy ===== *)
theory Exit
  imports File_Calls
begin

text \<open>
  kernel/exit.c: sending signals, the end of a process and waiting for it. A task pointer is the
  index of its slot in \<open>task[]\<close>.

  The last call of \<open>schedule\<close> in \<open>do_exit\<close>, and the one in \<open>release(current)\<close>, do not return: the
  slot holds a zombie or nothing and is never picked again. The model of \<open>do_exit\<close> gives the state in
  which the process leaves the system at that call.
\<close>

section \<open>Definitions\<close>

abbreviation "WNOHANG \<equiv> (1 :: int)"
abbreviation "WUNTRACED \<equiv> (2 :: int)"

text \<open>\<open>release\<close> up to its call of \<open>schedule\<close>.\<close>

definition free_slot_of :: "nat \<Rightarrow> kernel \<Rightarrow> kernel option" where
  "free_slot_of p s =
     (case (if 1 \<le> p \<and> p < NR_TASKS then task s p else None) of
        None \<Rightarrow> panic ''trying to release non-existent task''
      | Some t \<Rightarrow> free_page (t_page t) (s\<lparr>task := (task s)(p := None)\<rparr>))"

definition release :: "nat \<Rightarrow> kernel \<Rightarrow> kernel option" where
  "release p s = do { s \<leftarrow> free_slot_of p s; schedule s }"

definition send_sig :: "int \<Rightarrow> nat \<Rightarrow> bool \<Rightarrow> kernel \<Rightarrow> int \<times> kernel" where
  "send_sig sig p priv s =
     (case task s p of
        None \<Rightarrow> (- EINVAL, s)
      | Some t \<Rightarrow>
          if sig < 1 \<or> sig > 32 then (- EINVAL, s)
          else if priv \<or> euid (cur s) = euid t \<or> suser s
          then (0, upd_task p (\<lambda>t. t\<lparr>signal := signal t OR S_bit (nat sig)\<rparr>) s)
          else (- EPERM, s))"

definition kill_session :: "kernel \<Rightarrow> kernel" where
  "kill_session s =
     fold (\<lambda>p s. case task s p of
                   None \<Rightarrow> s
                 | Some t \<Rightarrow> if session t = session (cur s)
                             then upd_task p (\<lambda>t. t\<lparr>signal := signal t OR S_bit SIGHUP\<rparr>) s else s)
       (rev [1..<NR_TASKS]) s"

text \<open>Which slots one of the four loops of \<open>sys_kill\<close> sends the signal to, and one round of it.\<close>

definition kill_target :: "int \<Rightarrow> nat \<Rightarrow> kernel \<Rightarrow> bool" where
  "kill_target to p s =
     (case task s p of
        None \<Rightarrow> to = -1
      | Some t \<Rightarrow>
          if to = 0 then pgrp t = pid (cur s)
          else if to > 0 then pid t = to
          else if to = -1 then True
          else pgrp t = - to)"

definition kill_step :: "int \<Rightarrow> int \<Rightarrow> nat \<Rightarrow> int \<times> kernel \<Rightarrow> int \<times> kernel" where
  "kill_step to sig p = (\<lambda>(retval, s).
     if kill_target to p s
     then (case send_sig sig p (to = 0) s of (err, s) \<Rightarrow> (if err \<noteq> 0 then err else retval, s))
     else (retval, s))"

definition sys_kill :: "int \<Rightarrow> int \<Rightarrow> kernel \<Rightarrow> int \<times> kernel" where
  "sys_kill to sig s = fold (kill_step to sig) (rev [1..<NR_TASKS]) (0, s)"

definition tell_father :: "int \<Rightarrow> kernel \<Rightarrow> kernel option" where
  "tell_father father_pid s =
     (case (if father_pid = 0 then None
            else find (\<lambda>i. case task s i of None \<Rightarrow> False | Some t \<Rightarrow> pid t = father_pid) [0..<NR_TASKS]) of
        Some i \<Rightarrow> Some (upd_task i (\<lambda>t. t\<lparr>signal := signal t OR S_bit SIGCHLD\<rparr>) s)
      | None \<Rightarrow> free_slot_of (current s) s)"

text \<open>The children of the process become children of process 1.\<close>

definition orphan :: "nat \<Rightarrow> kernel \<Rightarrow> kernel" where
  "orphan i s =
     (case task s i of
        None \<Rightarrow> s
      | Some t \<Rightarrow>
          if father t = pid (cur s)
          then let s = upd_task i (\<lambda>t. t\<lparr>father := 1\<rparr>) s
               in if state t = TASK_ZOMBIE then snd (send_sig (int SIGCHLD) 1 True s) else s
          else s)"

definition close_files :: "kernel \<Rightarrow> kernel option" where
  "close_files s =
     for_each [0..<NR_OPEN] (\<lambda>i s. if filp (cur s) i \<noteq> None then map_option snd (sys_close i s) else Some s) s"

definition leave_session :: "kernel \<Rightarrow> kernel" where
  "leave_session s =
     (let s = (if leader (cur s) \<and> tty (cur s) \<ge> 0
               then upd_tty (nat (tty (cur s))) (\<lambda>t. t\<lparr>t_pgrp := 0\<rparr>) s else s);
          s = (if last_task_used_math s = Some (current s) then s\<lparr>last_task_used_math := None\<rparr> else s)
      in if leader (cur s) then kill_session s else s)"

definition do_exit :: "int \<Rightarrow> kernel \<Rightarrow> kernel option" where
  "do_exit code s =
     do { (_, s) \<leftarrow> free_page_tables (ldt_base (cur s) 1) (ldt_limit (cur s) 1) s;
          (_, s) \<leftarrow> free_page_tables (ldt_base (cur s) 2) (ldt_limit (cur s) 2) s;
          s \<leftarrow> close_files (fold orphan [0..<NR_TASKS] s);
          s \<leftarrow> iput (pwd (cur s)) s;
          let s = upd_cur (\<lambda>p. p\<lparr>pwd := None\<rparr>) s;
          s \<leftarrow> iput (root (cur s)) s;
          let s = upd_cur (\<lambda>p. p\<lparr>root := None\<rparr>) s;
          s \<leftarrow> iput (executable (cur s)) s;
          let s = leave_session (upd_cur (\<lambda>p. p\<lparr>executable := None\<rparr>) s);
          let s = upd_cur (\<lambda>p. p\<lparr>state := TASK_ZOMBIE, exit_code := code\<rparr>) s;
          tell_father (father (cur s)) s }"

definition sys_exit :: "int \<Rightarrow> kernel \<Rightarrow> kernel option" where
  "sys_exit error_code s = do_exit (push_bit 8 (error_code AND 0xff)) s"

text \<open>The scan of \<open>sys_waitpid\<close>: the first child to report, or whether there is a child at all.\<close>

definition wait_matches :: "int \<Rightarrow> task_struct \<Rightarrow> kernel \<Rightarrow> bool" where
  "wait_matches target t s \<longleftrightarrow>
     father t = pid (cur s) \<and>
     (if target > 0 then pid t = target
      else if target = 0 then pgrp t = pgrp (cur s)
      else target = -1 \<or> pgrp t = - target)"

fun wait_scan :: "int \<Rightarrow> int \<Rightarrow> nat list \<Rightarrow> bool \<Rightarrow> kernel \<Rightarrow> (nat \<times> task_struct) + bool" where
  "wait_scan target options [] flag s = Inr flag"
| "wait_scan target options (p # ps) flag s =
     (case (if p = current s then None else task s p) of
        None \<Rightarrow> wait_scan target options ps flag s
      | Some t \<Rightarrow>
          if \<not> wait_matches target t s then wait_scan target options ps flag s
          else if state t = TASK_STOPPED
          then if options AND WUNTRACED = 0 then wait_scan target options ps flag s else Inl (p, t)
          else if state t = TASK_ZOMBIE then Inl (p, t)
          else wait_scan target options ps True s)"

definition report_child :: "nat \<Rightarrow> task_struct \<Rightarrow> u32 \<Rightarrow> kernel \<Rightarrow> (int \<times> kernel) option" where
  "report_child p t stat_addr s =
     (if state t = TASK_STOPPED then Some (pid t, put_fs_long 0x7f stat_addr s)
      else do {
        s \<leftarrow> release p (upd_cur (\<lambda>c. c\<lparr>cutime := cutime c + utime t, cstime := cstime c + stime t\<rparr>) s);
        Some (pid t, put_fs_long (word_of_int (exit_code t)) stat_addr s) })"

partial_function (option) waitpid_repeat :: "int \<Rightarrow> u32 \<Rightarrow> int \<Rightarrow> kernel \<Rightarrow> (int \<times> kernel) option" where
  "waitpid_repeat target stat_addr options s =
     (case wait_scan target options (rev [1..<NR_TASKS]) False s of
        Inl (p, t) \<Rightarrow> report_child p t stat_addr s
      | Inr flag \<Rightarrow>
          if \<not> flag then Some (- ECHILD, s)
          else if options AND WNOHANG \<noteq> 0 then Some (0, s)
          else
            (case schedule (upd_cur (\<lambda>p. p\<lparr>state := TASK_INTERRUPTIBLE\<rparr>) s) of
               None \<Rightarrow> None
             | Some s \<Rightarrow>
                 let s = upd_cur (\<lambda>p. p\<lparr>signal := signal p AND NOT (S_bit SIGCHLD)\<rparr>) s
                 in if signal (cur s) = 0 then waitpid_repeat target stat_addr options s
                    else Some (- EINTR, s)))"

definition sys_waitpid :: "int \<Rightarrow> u32 \<Rightarrow> int \<Rightarrow> kernel \<Rightarrow> (int \<times> kernel) option" where
  "sys_waitpid target stat_addr options s =
     do { s \<leftarrow> verify_area stat_addr 4 s; waitpid_repeat target stat_addr options s }"

section \<open>Sending signals\<close>

text \<open>What \<open>sys_kill\<close> is meant to do: every target gets the signal that the sender may send to it.\<close>

definition kill_allowed :: "int \<Rightarrow> int \<Rightarrow> nat \<Rightarrow> kernel \<Rightarrow> bool" where
  "kill_allowed to sig i s =
     (case task s i of
        None \<Rightarrow> False
      | Some q \<Rightarrow> 1 \<le> sig \<and> sig \<le> 32 \<and> (to = 0 \<or> euid (cur s) = euid q \<or> euid (cur s) = 0))"

definition kill_after :: "int \<Rightarrow> int \<Rightarrow> nat set \<Rightarrow> kernel \<Rightarrow> kernel" where
  "kill_after to sig P s =
     s\<lparr>task := (\<lambda>i. if i \<in> P \<and> kill_target to i s \<and> kill_allowed to sig i s
                    then map_option (\<lambda>q. q\<lparr>signal := signal q OR S_bit (nat sig)\<rparr>) (task s i)
                    else task s i)\<rparr>"

lemma kill_after_cur:
  assumes "task s (current s) \<noteq> None"
  shows "pid (cur (kill_after to sig P s)) = pid (cur s)" "euid (cur (kill_after to sig P s)) = euid (cur s)"
    "suser (kill_after to sig P s) = suser s"
  using assms by (auto simp: cur_def kill_after_def suser_def)

lemma kill_after_fresh:
  "p \<notin> P \<Longrightarrow> task (kill_after to sig P s) p = task s p"
  by (simp add: kill_after_def)

lemma kill_step_after:
  assumes c: "task s (current s) \<noteq> None" and p: "p \<notin> P"
  shows "kill_step to sig p (r, kill_after to sig P s) =
    (if kill_target to p s \<and> \<not> kill_allowed to sig p s
     then (if task s p = None \<or> sig < 1 \<or> sig > 32 then - EINVAL else - EPERM) else r,
     kill_after to sig (insert p P) s)"
proof -
  let ?u = "kill_after to sig P s"
  have tgt: "kill_target to p ?u = kill_target to p s"
    using kill_after_fresh [OF p] kill_after_cur [OF c] by (simp add: kill_target_def split: option.split)
  have add: "upd_task p (\<lambda>q. q\<lparr>signal := signal q OR S_bit (nat sig)\<rparr>) ?u = kill_after to sig (insert p P) s"
    if "kill_target to p s" "kill_allowed to sig p s"
    using that p by (auto simp: upd_task_def kill_after_def fun_eq_iff)
  have skip: "?u = kill_after to sig (insert p P) s" if "\<not> (kill_target to p s \<and> kill_allowed to sig p s)"
    using that p by (auto simp: kill_after_def fun_eq_iff intro!: arg_cong [where f = "\<lambda>x. task_update x s"])
  have send: "send_sig sig p (to = 0) ?u =
      (if kill_allowed to sig p s then (0, upd_task p (\<lambda>q. q\<lparr>signal := signal q OR S_bit (nat sig)\<rparr>) ?u)
       else (if task s p = None \<or> sig < 1 \<or> sig > 32 then - EINVAL else - EPERM, ?u))"
    using kill_after_fresh [OF p] kill_after_cur [OF c]
    by (auto simp: send_sig_def kill_allowed_def suser_def split: option.split)
  show ?thesis
    using add skip by (auto simp: kill_step_def tgt send)
qed

lemma kill_fold:
  assumes "task s (current s) \<noteq> None" "distinct ps" "set ps \<inter> P = {}"
  shows "snd (fold (kill_step to sig) ps (r, kill_after to sig P s)) = kill_after to sig (P \<union> set ps) s"
    "fst (fold (kill_step to sig) ps (r, kill_after to sig P s)) =
       (if \<forall>p\<in>set ps. kill_target to p s \<longrightarrow> kill_allowed to sig p s then r
        else fst (fold (kill_step to sig) ps (r, kill_after to sig P s)))"
    "r \<noteq> 0 \<or> (\<exists>p\<in>set ps. kill_target to p s \<and> \<not> kill_allowed to sig p s) \<Longrightarrow>
       fst (fold (kill_step to sig) ps (r, kill_after to sig P s)) \<noteq> 0"
  using assms(2,3)
proof (induction ps arbitrary: P r)
  case (Cons p ps)
  { case 1 then show ?case using Cons.IH(1) [of "insert p P"] by (simp add: kill_step_after [OF assms(1)]) }
  { case 2 then show ?case using Cons.IH(2) [of "insert p P"] by (auto simp: kill_step_after [OF assms(1)]) }
  { case 3 then show ?case using Cons.IH(3) [of _ "insert p P"] by (auto simp: kill_step_after [OF assms(1)]) }
qed simp_all

lemma sys_kill_run:
  assumes "task s (current s) \<noteq> None"
  shows "snd (sys_kill to sig s) = kill_after to sig {1..<NR_TASKS} s"
    "fst (sys_kill to sig s) = 0 \<longleftrightarrow>
      (\<forall>i\<in>{1..<NR_TASKS}. kill_target to i s \<longrightarrow> kill_allowed to sig i s)"
proof -
  have s: "kill_after to sig {} s = s" by (simp add: kill_after_def)
  have set: "set (rev [1..<NR_TASKS]) = {1..<NR_TASKS}" by auto
  note fold = kill_fold [OF assms, where ps = "rev [1..<NR_TASKS]" and P = "{}" and to = to and sig = sig and r = 0,
      unfolded s set]
  show "snd (sys_kill to sig s) = kill_after to sig {1..<NR_TASKS} s"
    using fold(1) by (simp add: sys_kill_def)
  show "fst (sys_kill to sig s) = 0 \<longleftrightarrow>
      (\<forall>i\<in>{1..<NR_TASKS}. kill_target to i s \<longrightarrow> kill_allowed to sig i s)"
  proof (cases "\<forall>p\<in>{1..<NR_TASKS}. kill_target to p s \<longrightarrow> kill_allowed to sig p s")
    case True
    then show ?thesis using fold(2) by (simp add: sys_kill_def)
  next
    case False
    then show ?thesis using fold(3) by (auto simp: sys_kill_def)
  qed
qed

text \<open>
  Whom a process number addresses: a positive one the task with that number, 0 the process group that has
  the number of the caller (its own group only if it leads one), -1 every slot, empty ones too, and any
  other negative one the process group of that number.
\<close>

definition addressed :: "int \<Rightarrow> kernel \<Rightarrow> nat \<Rightarrow> bool" where
  "addressed to s i \<longleftrightarrow>
     to = -1 \<or>
     (\<exists>q. task s i = Some q \<and>
          (to > 0 \<and> pid q = to \<or> to = 0 \<and> pgrp q = pid (cur s) \<or> to < -1 \<and> pgrp q = - to))"

lemma kill_target_addressed: "kill_target to i s \<longleftrightarrow> addressed to s i"
  by (auto simp: kill_target_def addressed_def split: option.split)

text \<open>
  C18: \<open>sys_kill\<close> sets the signal's bit in exactly those tasks, other than task 0, that it addresses and
  that the caller may signal (any of them with pid 0, else a task of the same effective user, or any task
  for the superuser) and changes nothing else. It returns 0 exactly when no addressed slot was refused.
\<close>

theorem sys_kill_exact:
  assumes "task s (current s) \<noteq> None"
  shows "snd (sys_kill to sig s) =
      s\<lparr>task := (\<lambda>i. if 1 \<le> i \<and> i < NR_TASKS \<and> addressed to s i \<and> kill_allowed to sig i s
                     then map_option (\<lambda>q. q\<lparr>signal := signal q OR push_bit (nat sig - 1) 1\<rparr>) (task s i)
                     else task s i)\<rparr> \<and>
    (fst (sys_kill to sig s) = 0 \<longleftrightarrow>
      (\<forall>i. 1 \<le> i \<and> i < NR_TASKS \<and> addressed to s i \<longrightarrow> kill_allowed to sig i s))"
  unfolding sys_kill_run [OF assms] kill_after_def kill_target_addressed S_bit_def by auto

text \<open>Process 5 of user 7 signals process 9 of the same user; process 4 of user 8 is out of its reach.\<close>

definition kill_state :: kernel where
  "kill_state = boot_kernel\<lparr>current := 2, task := (task boot_kernel)
     (2 := Some (init_task\<lparr>pid := 5, euid := 7\<rparr>), 3 := Some (init_task\<lparr>pid := 9, euid := 7\<rparr>),
      4 := Some (init_task\<lparr>pid := 4, euid := 8\<rparr>))\<rparr>"

theorem sys_kill_exact_witness:
  "fst (sys_kill 9 15 kill_state) = 0 \<and> signal (the (task (snd (sys_kill 9 15 kill_state)) 3)) = 0x4000 \<and>
   fst (sys_kill 4 15 kill_state) \<noteq> 0 \<and> snd (sys_kill 4 15 kill_state) = kill_state"
proof -
  have c: "task kill_state (current kill_state) \<noteq> None" by (simp add: kill_state_def)
  have eu: "cur kill_state = init_task\<lparr>pid := 5, euid := 7\<rparr>" by (simp add: cur_def kill_state_def)
  have t9: "addressed 9 kill_state i \<longleftrightarrow> i = 3" and t4: "addressed 4 kill_state i \<longleftrightarrow> i = 4" for i
    by (auto simp: addressed_def kill_state_def init_task_def)
  have t: "task kill_state 3 = Some (init_task\<lparr>pid := 9, euid := 7\<rparr>)"
      "task kill_state 4 = Some (init_task\<lparr>pid := 4, euid := 8\<rparr>)"
    by (simp_all add: kill_state_def)
  have a9: "kill_allowed 9 15 3 kill_state" and a4: "\<not> kill_allowed 4 15 4 kill_state"
    by (simp_all add: kill_allowed_def eu t)
  have "snd (sys_kill 4 15 kill_state) = kill_state"
    using sys_kill_exact [OF c, of 4 15] t4 a4 by (simp cong: conj_cong)
  moreover have "signal (the (task (snd (sys_kill 9 15 kill_state)) 3)) = 0x4000"
    using sys_kill_exact [OF c, of 9 15] t9 a9 t(1) by (simp add: init_task_def)
  ultimately show ?thesis
    using sys_kill_exact [OF c, of 9 15] sys_kill_exact [OF c, of 4 15] t9 a9 t4 a4 by auto
qed

text \<open>
  a signal to every process (pid -1) is reported as failed whenever one of the 63 slots is empty,
  even if it was delivered to every process there is: the empty slots count as refusals.
\<close>

lemma kill_all_reports_failure:
  assumes "task s (current s) \<noteq> None" "1 \<le> i" "i < NR_TASKS" "task s i = None"
  shows "fst (sys_kill (-1) sig s) \<noteq> 0"
proof -
  have "kill_target (-1) i s" "\<not> kill_allowed (-1) sig i s"
    using assms(4) by (simp_all add: kill_target_def kill_allowed_def)
  moreover have "i \<in> {1..<NR_TASKS}" using assms(2,3) by simp
  ultimately show ?thesis using sys_kill_run(2) [OF assms(1), of "-1" sig] by blast
qed

lemma kill_all_reports_failure_witness:
  "fst (sys_kill (-1) 1 boot_kernel) \<noteq> 0 \<and> suser boot_kernel"
  using kill_all_reports_failure [of boot_kernel 1 1] by (simp add: suser_def init_task_def)

section \<open>Waiting for a child\<close>

definition reportable :: "int \<Rightarrow> int \<Rightarrow> nat \<Rightarrow> task_struct \<Rightarrow> kernel \<Rightarrow> bool" where
  "reportable target options i t s \<longleftrightarrow>
     i \<noteq> current s \<and> task s i = Some t \<and> wait_matches target t s \<and>
     (state t = TASK_ZOMBIE \<or> state t = TASK_STOPPED \<and> options AND WUNTRACED \<noteq> 0)"

lemma wait_scan_Inl:
  "wait_scan target options ps flag s = Inl (p, t) \<Longrightarrow>
     reportable target options p t s \<and>
     (\<exists>xs ys. ps = xs @ p # ys \<and> (\<forall>q\<in>set xs. \<forall>u. \<not> reportable target options q u s))"
proof (induction ps arbitrary: flag)
  case (Cons q ps)
  show ?case
  proof (cases "\<exists>u. reportable target options q u s")
    case True
    then have "p = q \<and> reportable target options q t s"
      using Cons.prems by (auto simp: reportable_def split: if_splits option.splits)
    then show ?thesis by (intro conjI exI [of _ "[]"] exI [of _ ps]) auto
  next
    case False
    then obtain f where "wait_scan target options ps f s = Inl (p, t)"
      using Cons.prems by (auto simp: reportable_def split: if_splits option.splits)
    from Cons.IH [OF this] obtain xs ys where r: "reportable target options p t s"
        "ps = xs @ p # ys" "\<forall>q\<in>set xs. \<forall>u. \<not> reportable target options q u s" by blast
    then show ?thesis using False by (intro conjI exI [of _ "q # xs"] exI [of _ ys]) auto
  qed
qed simp

lemma wait_scan_Inr:
  "wait_scan target options ps flag s = Inr f \<Longrightarrow>
     (\<forall>p\<in>set ps. \<forall>t. \<not> reportable target options p t s) \<and>
     (f \<longleftrightarrow> flag \<or> (\<exists>p\<in>set ps. \<exists>t. p \<noteq> current s \<and> task s p = Some t \<and> wait_matches target t s \<and>
                     state t \<noteq> TASK_STOPPED \<and> state t \<noteq> TASK_ZOMBIE))"
  by (induction ps arbitrary: flag) (auto simp: reportable_def split: if_splits option.splits)

lemma rev_upt_split:
  assumes "rev [a..<b] = xs @ p # ys"
  shows "set xs = {Suc p..<b}" "a \<le> p" "p < b"
proof -
  have split: "[a..<b] = rev ys @ p # rev xs" using arg_cong [OF assms, of rev] by simp
  have n: "length ys < b - a" using arg_cong [OF split, of length] by simp
  moreover have "[a..<b] ! length ys = p" using split by (simp add: nth_append)
  ultimately have "p = a + length ys" by simp
  with n show "a \<le> p" "p < b" by auto
  have "rev xs = drop (Suc (length ys)) [a..<b]" using split by simp
  also have "\<dots> = [Suc p..<b]" using \<open>p = a + length ys\<close> by simp
  finally have "set (rev xs) = set [Suc p..<b]" by (rule arg_cong)
  then show "set xs = {Suc p..<b}" by simp
qed

lemma reportable_mm:
  assumes "mm_only s t"
  shows "wait_matches target q t = wait_matches target q s"
    "reportable target options p q t = reportable target options p q s" "cur t = cur s"
  using mm_onlyD [OF assms] by (auto simp: reportable_def wait_matches_def)

text \<open>The scan finds the highest slot whose child can be reported.\<close>

lemma wait_scan_highest:
  assumes "1 \<le> p" "p < NR_TASKS" "reportable target options p t s"
    "\<And>q u. p < q \<Longrightarrow> q < NR_TASKS \<Longrightarrow> \<not> reportable target options q u s"
  shows "wait_scan target options (rev [1..<NR_TASKS]) False s = Inl (p, t)"
proof (cases "wait_scan target options (rev [1..<NR_TASKS]) False s")
  case (Inr f)
  have "p \<in> set (rev [1..<NR_TASKS])" using assms(1,2) by simp
  then show ?thesis using wait_scan_Inr [OF Inr] assms(3) by blast
next
  case (Inl x)
  obtain q w where x: "x = (q, w)" by fastforce
  obtain xs ys where qw: "reportable target options q w s" "rev [1..<NR_TASKS] = xs @ q # ys"
      "\<forall>z\<in>set xs. \<forall>u. \<not> reportable target options z u s"
    using wait_scan_Inl [OF Inl [unfolded x]] by blast
  note q = rev_upt_split [OF qw(2)]
  have "\<not> p < q" using assms(4) qw(1) q(3) by blast
  moreover have "\<not> q < p" using assms(3) qw(3) q(1) assms(2) by auto
  ultimately have "q = p" by simp
  then have "w = t" using qw(1) assms(3) by (simp add: reportable_def)
  with Inl x \<open>q = p\<close> show ?thesis by simp
qed

text \<open>The report of a child that has ended: its slot is free and its times are the caller's before anybody else runs.\<close>

lemma report_ended_child:
  assumes out: "report_child p t a s = Some (r, u)" and t: "state t \<noteq> TASK_STOPPED" "task s p = Some t" "p \<noteq> current s"
    and p: "1 \<le> p" "p < NR_TASKS" and cur: "task s (current s) \<noteq> None"
  shows "\<exists>v w. task v p = None \<and> (\<forall>q. q \<noteq> p \<and> q \<noteq> current s \<longrightarrow> task v q = task s q) \<and>
    cutime (cur v) = cutime (cur s) + utime t \<and> cstime (cur v) = cstime (cur s) + stime t \<and>
    schedule v = Some w \<and> r = pid t \<and> u = put_fs_long (word_of_int (exit_code t)) a w"
proof -
  let ?s = "upd_cur (\<lambda>c. c\<lparr>cutime := cutime c + utime t, cstime := cstime c + stime t\<rparr>) s"
  obtain v w where v: "free_slot_of p ?s = Some v" "schedule v = Some w" "r = pid t"
      "u = put_fs_long (word_of_int (exit_code t)) a w"
    using out t(1) by (auto simp: report_child_def release_def bind_Some_iff)
  have f: "free_page (t_page t) (?s\<lparr>task := (task ?s)(p := None)\<rparr>) = Some v"
    using v(1) t(2,3) p by (simp add: free_slot_of_def upd_cur_def)
  have tv: "task v = (task ?s)(p := None)" "current v = current s"
    using mm_onlyD(1,2) [OF free_page_mm [OF f]] by simp_all
  have "cur v = (cur s)\<lparr>cutime := cutime (cur s) + utime t, cstime := cstime (cur s) + stime t\<rparr>"
    using tv t(3) cur by (auto simp: cur_def upd_cur_def)
  moreover have "\<forall>q. q \<noteq> p \<and> q \<noteq> current s \<longrightarrow> task v q = task s q"
    using tv(1) by (simp add: upd_cur_def)
  moreover have "task v p = None" using tv(1) by simp
  ultimately have "task v p = None \<and> (\<forall>q. q \<noteq> p \<and> q \<noteq> current s \<longrightarrow> task v q = task s q) \<and>
      cutime (cur v) = cutime (cur s) + utime t \<and> cstime (cur v) = cstime (cur s) + stime t" by simp
  with v(2-4) show ?thesis by (intro exI [of _ v] exI [of _ w]) simp_all
qed

text \<open>
  C19: when a child that \<open>sys_waitpid\<close> asks for has ended or, with \<open>WUNTRACED\<close>, stopped, the call reports the
  one in the highest slot: it returns that child's number and stores its exit code (0x7f for a stopped one). The
  slot of an ended child is free before any other process can run, and its times are added to the caller's.
\<close>

theorem waitpid_reports:
  assumes "1 \<le> p" "p < NR_TASKS" "reportable target options p t s"
    and "\<forall>q u. p < q \<and> q < NR_TASKS \<longrightarrow> \<not> reportable target options q u s"
    and "sys_waitpid target a options s = Some (r, u)" "task s (current s) \<noteq> None"
  shows "r = pid t \<and> get_fs_long a u = (if state t = TASK_STOPPED then 0x7f else word_of_int (exit_code t)) \<and>
    (state t = TASK_ZOMBIE \<longrightarrow>
      (\<exists>v w. task v p = None \<and> (\<forall>q. q \<noteq> p \<and> q \<noteq> current s \<longrightarrow> task v q = task s q) \<and>
         cutime (cur v) = cutime (cur s) + utime t \<and> cstime (cur v) = cstime (cur s) + stime t \<and>
         schedule v = Some w \<and> u = put_fs_long (word_of_int (exit_code t)) a w))"
proof -
  from assms(5) obtain s1 where s1: "verify_area a 4 s = Some s1" "waitpid_repeat target a options s1 = Some (r, u)"
    by (auto simp: sys_waitpid_def bind_Some_iff)
  note mm = verify_area_mm [OF s1(1)]
  note same = mm_onlyD(1,2) [OF mm]
  have rep: "reportable target options p t s1" "\<And>q u. p < q \<Longrightarrow> q < NR_TASKS \<Longrightarrow> \<not> reportable target options q u s1"
    using assms(3,4) reportable_mm [OF mm] by auto
  have scan: "wait_scan target options (rev [1..<NR_TASKS]) False s1 = Inl (p, t)"
    using assms(1,2) rep by (rule wait_scan_highest)
  have out: "report_child p t a s1 = Some (r, u)"
    using s1(2) scan by (subst (asm) waitpid_repeat.simps) simp
  show ?thesis
  proof (cases "state t = TASK_STOPPED")
    case True
    then show ?thesis using out by (auto simp: report_child_def)
  next
    case False
    have p: "p \<noteq> current s1" "task s1 p = Some t" using rep(1) by (auto simp: reportable_def)
    have "task s1 (current s1) \<noteq> None" using assms(6) same by simp
    from report_ended_child [OF out False p(2,1) assms(1,2) this] same reportable_mm(3) [OF mm] False
    show ?thesis by auto
  qed
qed

text \<open>
  without a child that matches, \<open>sys_waitpid\<close> does not sleep: it fails with \<open>ECHILD\<close> and changes nothing but
  the protection of the page it would have stored the status in.
\<close>

lemma waitpid_no_child:
  assumes "\<forall>p t. 1 \<le> p \<and> p < NR_TASKS \<and> p \<noteq> current s \<and> task s p = Some t \<longrightarrow> \<not> wait_matches target t s"
    and "verify_area a 4 s = Some s1"
  shows "sys_waitpid target a options s = Some (- ECHILD, s1) \<and> mm_only s s1"
proof -
  note mm = verify_area_mm [OF assms(2)]
  have no: "\<not> wait_matches target t s1" if "p \<in> set (rev [1..<NR_TASKS])" "p \<noteq> current s1" "task s1 p = Some t" for p t
    using assms(1) reportable_mm(1) [OF mm] mm_onlyD(1,2) [OF mm] that by auto
  have "wait_scan target options ps False s1 = Inr False" if "set ps \<subseteq> set (rev [1..<NR_TASKS])" for ps
    using that by (induction ps) (use no in \<open>auto split: option.split\<close>)
  then have "wait_scan target options (rev [1..<NR_TASKS]) False s1 = Inr False" by blast
  then show ?thesis using mm assms(2) by (simp add: sys_waitpid_def waitpid_repeat.simps)
qed

text \<open>Process 0 with a child in slot 1 that ended with code 1.\<close>

definition zombie_state :: kernel where
  "zombie_state = boot_kernel\<lparr>task := (task boot_kernel)
     (1 := Some (init_task\<lparr>pid := 7, father := 0, state := TASK_ZOMBIE, exit_code := 0x100\<rparr>))\<rparr>"

lemma schedule_idle:
  assumes "current s = 0" "\<And>i. 1 \<le> i \<Longrightarrow> i < NR_TASKS \<Longrightarrow> task s i = None"
  shows "schedule s = Some (check_signals s)"
proof -
  have "best_task (task (check_signals s)) ps (-1, 0) = (-1, 0)" if "set ps \<subseteq> {1..<NR_TASKS}" for ps
    using that by (induction ps) (auto simp: check_signals_def assms(2))
  from this [of "rev [1..<NR_TASKS]"] have "schedule_loop (check_signals s) = Some (0, check_signals s)"
    by (subst schedule_loop.simps) simp
  moreover have "current (check_signals s) = 0" using assms(1) by (simp add: check_signals_def)
  ultimately show ?thesis by (simp add: schedule_def)
qed

theorem waitpid_reports_witness:
  "\<exists>u. sys_waitpid (-1) 0 0 zombie_state = Some (7, u) \<and> get_fs_long 0 u = 0x100"
proof -
  let ?z = "init_task\<lparr>pid := 7, father := 0, state := TASK_ZOMBIE, exit_code := 0x100\<rparr>"
  have c: "cur zombie_state = init_task" by (simp add: cur_def zombie_state_def)
  have z: "task zombie_state = (\<lambda>i. if i = 0 then Some init_task else None)(1 := Some ?z)" "current zombie_state = 0"
    by (simp_all add: zombie_state_def)
  have "pid init_task = 0" by (simp add: init_task_def)
  then have rep: "reportable (-1) 0 i t zombie_state \<longleftrightarrow> i = 1 \<and> t = ?z" for i t
    by (auto simp: reportable_def wait_matches_def c z split: if_splits)
  let ?v = "(upd_cur (\<lambda>c. c\<lparr>cutime := cutime c + utime ?z, cstime := cstime c + stime ?z\<rparr>) zombie_state)"
  have fr: "free_slot_of 1 ?v = Some (?v\<lparr>task := (task ?v)(1 := None)\<rparr>)"
    by (simp add: free_slot_of_def zombie_state_def upd_cur_def free_page_def init_task_def)
  have "schedule (?v\<lparr>task := (task ?v)(1 := None)\<rparr>) = Some (check_signals (?v\<lparr>task := (task ?v)(1 := None)\<rparr>))"
    by (rule schedule_idle) (auto simp: zombie_state_def upd_cur_def)
  then obtain w where w: "release 1 ?v = Some w" using fr by (simp add: release_def)
  have "wait_scan (-1) 0 (rev [1..<NR_TASKS]) False zombie_state = Inl (1, ?z)"
  proof (cases "wait_scan (-1) 0 (rev [1..<NR_TASKS]) False zombie_state")
    case (Inl x)
    obtain q u where x: "x = (q, u)" by fastforce
    have "reportable (-1) 0 q u zombie_state" using wait_scan_Inl [OF Inl [unfolded x]] by (rule conjunct1)
    then have "q = 1" "u = ?z" using rep [of q u] by simp_all
    then show ?thesis using Inl by (simp only: x)
  next
    case (Inr f)
    have "1 \<in> set (rev [1..<NR_TASKS])" by (simp only: set_rev set_upt) simp
    then have "\<not> reportable (-1) 0 1 ?z zombie_state" using wait_scan_Inr [OF Inr] by blast
    then show ?thesis using rep [of 1 ?z] by simp
  qed
  then have "waitpid_repeat (-1) 0 0 zombie_state = Some (7, put_fs_long 0x100 0 w)"
    using w by (subst waitpid_repeat.simps) (simp add: report_child_def)
  then have run: "sys_waitpid (-1) 0 0 zombie_state = Some (7, put_fs_long 0x100 0 w)"
    by (simp add: sys_waitpid_def verify_unmapped zombie_state_def)
  have "get_fs_long 0 (put_fs_long 0x100 0 w) = word_of_int (exit_code ?z)"
    using waitpid_reports [OF _ _ rep [THEN iffD2] _ run] rep by (auto simp: zombie_state_def)
  then show ?thesis using run by auto
qed

lemma waitpid_no_child_witness: "sys_waitpid (-1) 0 0 boot_kernel = Some (- ECHILD, boot_kernel)"
  using waitpid_no_child [of boot_kernel "-1" 0 boot_kernel 0] verify_unmapped [of boot_kernel 0 4] by simp

end
