(* ===== verification/Signals.thy ===== *)
theory Signals
  imports Exit
begin

text \<open>
  kernel/signal.c: signal masks and handlers, and the delivery of a signal to its handler.
  \<open>do_signal\<close> gets the registers that were saved on the kernel stack at the system call or interrupt
  and changes \<open>eip\<close> and \<open>esp\<close> in place; \<open>sig_frame\<close> holds those it uses. A signal without a handler ends
  the process: the result is then the state it leaves behind.
\<close>

section \<open>Definitions\<close>

record sig_frame =
  sf_eax :: u32
  sf_ecx :: u32
  sf_edx :: u32
  sf_eip :: u32
  sf_eflags :: u32
  sf_esp :: u32

abbreviation "SA_NOMASK \<equiv> (0x40000000 :: u32)"
abbreviation "SA_ONESHOT \<equiv> (0x80000000 :: u32)"

definition sys_sgetmask :: "kernel \<Rightarrow> int" where
  "sys_sgetmask s = sint (blocked (cur s))"

definition sys_ssetmask :: "int \<Rightarrow> kernel \<Rightarrow> int \<times> kernel" where
  "sys_ssetmask newmask s =
     (sint (blocked (cur s)),
      upd_cur (\<lambda>p. p\<lparr>blocked := word_of_int newmask AND NOT (S_bit SIGKILL)\<rparr>) s)"

text \<open>The bytes of a \<open>struct sigaction\<close> are those of four longs.\<close>

definition save_old :: "sigaction \<Rightarrow> u32 \<Rightarrow> kernel \<Rightarrow> kernel option" where
  "save_old sa to s =
     do { s \<leftarrow> verify_area to 16 s;
          Some (put_fs_long (sa_restorer sa) (to + 12) (put_fs_long (sa_flags sa) (to + 8)
                 (put_fs_long (sa_mask sa) (to + 4) (put_fs_long (sa_handler sa) to s)))) }"

definition get_new :: "u32 \<Rightarrow> kernel \<Rightarrow> sigaction" where
  "get_new from s =
     \<lparr>sa_handler = get_fs_long from s, sa_mask = get_fs_long (from + 4) s,
      sa_flags = get_fs_long (from + 8) s, sa_restorer = get_fs_long (from + 12) s\<rparr>"

definition set_action :: "nat \<Rightarrow> (sigaction \<Rightarrow> sigaction) \<Rightarrow> kernel \<Rightarrow> kernel" where
  "set_action i f s = upd_cur (\<lambda>p. p\<lparr>sigactions := (sigactions p)(i := f (sigactions p i))\<rparr>) s"

definition catchable :: "int \<Rightarrow> bool" where
  "catchable signum \<longleftrightarrow> 1 \<le> signum \<and> signum \<le> 32 \<and> signum \<noteq> int SIGKILL"

definition sys_signal :: "int \<Rightarrow> u32 \<Rightarrow> u32 \<Rightarrow> kernel \<Rightarrow> int \<times> kernel" where
  "sys_signal signum handler restorer s =
     (if \<not> catchable signum then (-1, s)
      else
        let i = nat (signum - 1)
        in (sint (sa_handler (sigactions (cur s) i)),
            set_action i (\<lambda>_. \<lparr>sa_handler = handler, sa_mask = 0, sa_flags = SA_ONESHOT OR SA_NOMASK,
                               sa_restorer = restorer\<rparr>) s))"

definition sys_sigaction :: "int \<Rightarrow> u32 \<Rightarrow> u32 \<Rightarrow> kernel \<Rightarrow> (int \<times> kernel) option" where
  "sys_sigaction signum action oldaction s =
     (if \<not> catchable signum then Some (-1, s)
      else do {
        let i = nat (signum - 1);
        let tmp = sigactions (cur s) i;
        let s = set_action i (\<lambda>_. get_new action s) s;
        s \<leftarrow> (if oldaction \<noteq> 0 then save_old tmp oldaction s else Some s);
        let s = set_action i (\<lambda>a. a\<lparr>sa_mask := if sa_flags a AND SA_NOMASK \<noteq> 0 then 0
                                               else sa_mask a OR S_bit (nat signum)\<rparr>) s;
        Some (0, s) })"

definition handler_frame :: "nat \<Rightarrow> sigaction \<Rightarrow> u32 \<Rightarrow> sig_frame \<Rightarrow> u32 list" where
  "handler_frame signr sa msk f =
     [sa_restorer sa, of_nat signr] @ (if sa_flags sa AND SA_NOMASK \<noteq> 0 then [] else [msk]) @
     [sf_eax f, sf_ecx f, sf_edx f, sf_eflags f, sf_eip f]"

definition do_signal :: "nat \<Rightarrow> sig_frame \<Rightarrow> kernel \<Rightarrow> (kernel + sig_frame \<times> kernel) option" where
  "do_signal signr f s =
     (let sa = sigactions (cur s) (signr - 1) in
      if sa_handler sa = 1 then Some (Inr (f, s))
      else if sa_handler sa = 0
      then if signr = SIGCHLD then Some (Inr (f, s)) else map_option Inl (do_exit (sint (S_bit signr)) s)
      else do {
        let s = (if sa_flags sa AND SA_ONESHOT \<noteq> 0 then set_action (signr - 1) (\<lambda>a. a\<lparr>sa_handler := 0\<rparr>) s else s);
        let longs = (if sa_flags sa AND SA_NOMASK \<noteq> 0 then 7 else 8);
        let esp = sf_esp f - 4 * of_nat longs;
        s \<leftarrow> verify_area esp (int longs * 4) s;
        let s = push_longs (handler_frame signr sa (blocked (cur s)) f) esp s;
        let s = upd_cur (\<lambda>p. p\<lparr>blocked := blocked p OR sa_mask sa\<rparr>) s;
        Some (Inr (f\<lparr>sf_eip := sa_handler sa, sf_esp := esp\<rparr>, s)) })"

section \<open>Delivery\<close>

text \<open>
  C20: delivering a signal that has a handler resumes the process in the handler, on a stack that holds, from the top,
  the restorer as return address, the signal number, the old signal mask unless \<open>SA_NOMASK\<close> is set, and the saved
  eax, ecx, edx, flags and interrupted address, in the order in which the restorer pops them. The bytes above are not touched, the
  handler's mask is added to the blocked signals, and a one-shot handler is reset.
\<close>

theorem do_signal_frame:
  assumes "task s (current s) = Some q" "sigactions q (signr - 1) = sa" "sa_handler sa \<noteq> 0" "sa_handler sa \<noteq> 1"
    and "do_signal signr f s = Some out"
  defines "fr \<equiv> [sa_restorer sa, of_nat signr] @ (if sa_flags sa AND SA_NOMASK \<noteq> 0 then [] else [blocked q]) @
    [sf_eax f, sf_ecx f, sf_edx f, sf_eflags f, sf_eip f]"
  shows "\<exists>g t p. out = Inr (g, t) \<and> task t (current t) = Some p \<and>
    sf_eip g = sa_handler sa \<and> sf_esp g = sf_esp f - 4 * of_nat (length fr) \<and>
    (\<forall>k<length fr. get_fs_long (sf_esp g + 4 * of_nat k) t = fr ! k) \<and>
    (\<forall>x. 4 * length fr \<le> unat (x - sf_esp g) \<longrightarrow> user t x = user s x) \<and>
    blocked p = blocked q OR sa_mask sa \<and>
    sigactions p = (sigactions q)(signr - 1 := (if sa_flags sa AND SA_ONESHOT \<noteq> 0 then sa\<lparr>sa_handler := 0\<rparr> else sa))"
proof -
  let ?s = "if sa_flags sa AND SA_ONESHOT \<noteq> 0 then set_action (signr - 1) (\<lambda>a. a\<lparr>sa_handler := 0\<rparr>) s else s"
  let ?esp = "sf_esp f - 4 * of_nat (length fr)"
  have len: "length fr = (if sa_flags sa AND SA_NOMASK \<noteq> 0 then 7 else 8)" "4 * length fr \<le> 2 ^ 32"
    by (auto simp: fr_def)
  have q: "cur s = q" using assms(1) by (simp add: cur_def)
  obtain v where v: "verify_area ?esp (int (length fr) * 4) ?s = Some v"
      "out = Inr (f\<lparr>sf_eip := sa_handler sa, sf_esp := ?esp\<rparr>,
         upd_cur (\<lambda>p. p\<lparr>blocked := blocked p OR sa_mask sa\<rparr>) (push_longs (handler_frame signr sa (blocked (cur v)) f) ?esp v))"
    using assms(2-5) unfolding len(1)
    by (auto simp: do_signal_def q Let_def bind_Some_iff split: if_splits)
  note mm = mm_onlyD [OF verify_area_mm [OF v(1)]]
  have tv: "task v (current v) = Some (q\<lparr>sigactions := (sigactions q)(signr - 1 :=
        (if sa_flags sa AND SA_ONESHOT \<noteq> 0 then sa\<lparr>sa_handler := 0\<rparr> else sa))\<rparr>)"
    using assms(1,2) by (auto simp: mm set_action_def upd_cur_def fun_upd_idem)
  have "user v = user s" by (simp add: mm set_action_def)
  have fr: "handler_frame signr sa (blocked (cur v)) f = fr" using tv by (simp add: cur_def fr_def handler_frame_def)
  let ?t = "upd_cur (\<lambda>p. p\<lparr>blocked := blocked p OR sa_mask sa\<rparr>) (push_longs fr ?esp v)"
  have user: "user ?t = user (push_longs fr ?esp v)" by simp
  have "\<forall>k<length fr. get_fs_long (?esp + 4 * of_nat k) ?t = fr ! k"
    using get_push_longs [OF len(2)] by (simp add: get_fs_long_def user)
  moreover have "\<forall>x. 4 * length fr \<le> unat (x - ?esp) \<longrightarrow> user ?t x = user s x"
    using push_longs_user [OF len(2)] \<open>user v = user s\<close> by (simp add: user)
  moreover have "task ?t (current ?t) = Some (q\<lparr>sigactions := (sigactions q)(signr - 1 :=
        (if sa_flags sa AND SA_ONESHOT \<noteq> 0 then sa\<lparr>sa_handler := 0\<rparr> else sa)), blocked := blocked q OR sa_mask sa\<rparr>)"
    using tv by (simp add: upd_cur_def)
  ultimately show ?thesis
    using v(2) unfolding fr
    by (intro exI [of _ "f\<lparr>sf_eip := sa_handler sa, sf_esp := ?esp\<rparr>"] exI [of _ ?t]
        exI [of _ "q\<lparr>sigactions := (sigactions q)(signr - 1 :=
          (if sa_flags sa AND SA_ONESHOT \<noteq> 0 then sa\<lparr>sa_handler := 0\<rparr> else sa)), blocked := blocked q OR sa_mask sa\<rparr>"])
      simp
qed

text \<open>\<open>SIGINT\<close> (2) with the handler 0x1000 of \<open>signal\<close>, on a stack that ends at 0x8000.\<close>

definition handler_state :: kernel where
  "handler_state = snd (sys_signal 2 0x1000 0x2000 boot_kernel)"

definition user_frame :: sig_frame where
  "user_frame = \<lparr>sf_eax = 1, sf_ecx = 2, sf_edx = 3, sf_eip = 0x500, sf_eflags = 0x202, sf_esp = 0x8000\<rparr>"

theorem do_signal_frame_witness:
  "\<exists>g t. do_signal 2 user_frame handler_state = Some (Inr (g, t)) \<and> sf_eip g = 0x1000 \<and> sf_esp g = 0x7fe4 \<and>
     get_fs_long 0x7fe4 t = 0x2000 \<and> get_fs_long 0x7fec t = 1 \<and> get_fs_long 0x7ff0 t = 2 \<and> get_fs_long 0x7ffc t = 0x500"
proof -
  let ?sa = "\<lparr>sa_handler = 0x1000, sa_mask = 0, sa_flags = SA_ONESHOT OR SA_NOMASK, sa_restorer = 0x2000\<rparr>"
  let ?q = "init_task\<lparr>sigactions := (sigactions init_task)(1 := ?sa)\<rparr>"
  have q: "task handler_state (current handler_state) = Some ?q"
    by (simp add: handler_state_def sys_signal_def catchable_def set_action_def upd_cur_def Let_def)
  have h: "hw32 (set_action i g handler_state) = (\<lambda>_. 0)" for i g
    by (simp add: handler_state_def sys_signal_def catchable_def set_action_def Let_def)
  have c: "cur handler_state = ?q" using q by (simp add: cur_def)
  have "\<exists>out. do_signal 2 user_frame handler_state = Some out"
    using verify_unmapped [OF h] by (simp add: do_signal_def c Let_def)
  then obtain out where out: "do_signal 2 user_frame handler_state = Some out" by blast
  have sa: "sigactions ?q (2 - 1) = ?sa" by simp
  obtain g t where g: "out = Inr (g, t)" "sf_eip g = 0x1000" "sf_esp g = 0x7fe4"
      "\<forall>k<7. get_fs_long (sf_esp g + 4 * of_nat k) t = [0x2000, 2, 1, 2, 3, 0x202, 0x500] ! k"
    using do_signal_frame [OF q sa _ _ out] by (auto simp: user_frame_def)
  have "get_fs_long 0x7fe4 t = 0x2000" "get_fs_long 0x7fec t = 1" "get_fs_long 0x7ff0 t = 2" "get_fs_long 0x7ffc t = 0x500"
    using g(4) [rule_format, of 0] g(4) [rule_format, of 2] g(4) [rule_format, of 3] g(4) [rule_format, of 6] g(3) by simp_all
  with out g show ?thesis by blast
qed

end
