(* ===== verification/Mount.thy ===== *)
theory Mount
  imports Namei Tty_Io
begin

text \<open>
  The rest of fs/super.c, mounting and unmounting, and \<open>rd_load\<close> of kernel/blk_drv/ramdisk.c, which fills
  the RAM disk from the boot floppy.

  A super block that announces more than eight blocks of a bitmap makes \<open>read_super\<close> write behind
  \<open>s_imap\<close> or \<open>s_zmap\<close>; such a disk is outside the model (\<open>None\<close>).
\<close>

section \<open>Definitions\<close>

abbreviation "SUPER_MAGIC \<equiv> (0x137f :: u16)"

text \<open>\<open>struct d_super_block\<close> at the start of a block.\<close>

definition get_d_super :: "(nat \<Rightarrow> u8) \<Rightarrow> 'a d_super_block_scheme \<Rightarrow> 'a d_super_block_scheme" where
  "get_d_super d b =
     b\<lparr>s_ninodes := rd16 d 0, s_nzones := rd16 d 2, s_imap_blocks := rd16 d 4, s_zmap_blocks := rd16 d 6,
       s_firstdatazone := rd16 d 8, s_log_zone_size := rd16 d 10, s_max_size := rd32 d 12, s_magic := rd16 d 16\<rparr>"

text \<open>The two loops that read a bitmap, from slot \<open>i\<close> and block \<open>block\<close> on; the result is the next block.\<close>

definition set_imap :: "nat \<Rightarrow> nat \<Rightarrow> nat option \<Rightarrow> kernel \<Rightarrow> kernel" where
  "set_imap sb i bh s = upd_sb sb (\<lambda>b. b\<lparr>s_imap := (s_imap b)(i := bh)\<rparr>) s"

definition set_zmap :: "nat \<Rightarrow> nat \<Rightarrow> nat option \<Rightarrow> kernel \<Rightarrow> kernel" where
  "set_zmap sb i bh s = upd_sb sb (\<lambda>b. b\<lparr>s_zmap := (s_zmap b)(i := bh)\<rparr>) s"

fun read_map :: "(nat \<Rightarrow> nat option \<Rightarrow> kernel \<Rightarrow> kernel) \<Rightarrow> int \<Rightarrow> nat list \<Rightarrow> int \<Rightarrow> kernel \<Rightarrow> (int \<times> kernel) option" where
  "read_map store dev [] block s = Some (block, s)"
| "read_map store dev (i # is) block s =
     do { (bh, s) \<leftarrow> bread dev block s;
          let s = store i bh s;
          if bh = None then Some (block, s) else read_map store dev is (block + 1) s }"

definition mark_first :: "nat option \<Rightarrow> kernel \<Rightarrow> kernel option" where
  "mark_first bh s =
     (case bh of
        None \<Rightarrow> null_deref
      | Some bh \<Rightarrow> Some (upd_buf bh (\<lambda>b. b\<lparr>b_data := (b_data b)(0 := b_data b 0 OR 1)\<rparr>) s))"

definition give_up_super :: "nat \<Rightarrow> kernel \<Rightarrow> (nat option \<times> kernel) option" where
  "give_up_super sb s = Some (None, free_super sb (upd_sb sb (\<lambda>b. b\<lparr>s_dev := 0\<rparr>) s))"

text \<open>\<open>read_super\<close> from the successful read of the super block on.\<close>

definition read_bitmaps :: "int \<Rightarrow> nat \<Rightarrow> kernel \<Rightarrow> (nat option \<times> kernel) option" where
  "read_bitmaps dev sb s =
     (let b = super_tab s sb; ni = unat (s_imap_blocks b); nz = unat (s_zmap_blocks b) in
      if ni > I_MAP_SLOTS \<or> nz > Z_MAP_SLOTS then None
      else do {
        let s = upd_sb sb (\<lambda>b. b\<lparr>s_imap := (\<lambda>_. None), s_zmap := (\<lambda>_. None)\<rparr>) s;
        (block, s) \<leftarrow> read_map (set_imap sb) dev [0..<ni] 2 s;
        (block, s) \<leftarrow> read_map (set_zmap sb) dev [0..<nz] block s;
        if block \<noteq> 2 + int ni + int nz
        then do {
          s \<leftarrow> for_each [0..<I_MAP_SLOTS] (\<lambda>i s. brelse (s_imap (super_tab s sb) i) s) s;
          s \<leftarrow> for_each [0..<Z_MAP_SLOTS] (\<lambda>i s. brelse (s_zmap (super_tab s sb) i) s) s;
          give_up_super sb s }
        else do {
          s \<leftarrow> mark_first (s_imap (super_tab s sb) 0) s;
          s \<leftarrow> mark_first (s_zmap (super_tab s sb) 0) s;
          Some (Some sb, free_super sb s) } })"

definition read_super :: "int \<Rightarrow> kernel \<Rightarrow> (nat option \<times> kernel) option" where
  "read_super dev s =
     (if dev = 0 then Some (None, s)
      else do {
        s \<leftarrow> check_disk_change dev s;
        (found, s) \<leftarrow> get_super dev s;
        (case found of
           Some sb \<Rightarrow> Some (Some sb, s)
         | None \<Rightarrow>
             (case find (\<lambda>i. s_dev (super_tab s i) = 0) [0..<NR_SUPER] of
                None \<Rightarrow> Some (None, s)
              | Some sb \<Rightarrow> do {
                  let s = upd_sb sb (\<lambda>b. b\<lparr>s_dev := word_of_int dev, s_isup := None, s_imount := None, s_time := 0,
                                            s_rd_only := False, s_dirt := False\<rparr>) s;
                  s \<leftarrow> lock_super sb s;
                  (bh, s) \<leftarrow> bread dev 1 s;
                  (case bh of
                     None \<Rightarrow> give_up_super sb s
                   | Some bh \<Rightarrow> do {
                       let s = upd_sb sb (get_d_super (b_data (bufs s bh))) s;
                       s \<leftarrow> brelse (Some bh) s;
                       if s_magic (super_tab s sb) \<noteq> SUPER_MAGIC then give_up_super sb s
                       else read_bitmaps dev sb s }) })) })"

definition sys_umount :: "u32 \<Rightarrow> kernel \<Rightarrow> (int \<times> kernel) option" where
  "sys_umount dev_name s =
     do { (inode, s) \<leftarrow> namei dev_name s;
          (case inode of
             None \<Rightarrow> Some (- ENOENT, s)
           | Some i \<Rightarrow> do {
               let dev = uint (i_zone (inode_table s i) 0);
               let blk = S_ISBLK (i_mode (inode_table s i));
               s \<leftarrow> iput inode s;
               if \<not> blk then Some (- ENOTBLK, s)
               else if dev = ROOT_DEV s then Some (- EBUSY, s)
               else do {
                 (sb, s) \<leftarrow> get_super dev s;
                 (case sb of
                    None \<Rightarrow> Some (- ENOENT, s)
                  | Some sb \<Rightarrow>
                      (case s_imount (super_tab s sb) of
                         None \<Rightarrow> Some (- ENOENT, s)
                       | Some m \<Rightarrow>
                           if \<exists>i\<in>set [0..<NR_INODE]. uint (i_dev (inode_table s i)) = dev \<and> i_count (inode_table s i) \<noteq> 0
                           then Some (- EBUSY, s)
                           else do {
                             s \<leftarrow> iput (Some m) (upd_ino m (\<lambda>n. n\<lparr>i_mount := False\<rparr>) s);
                             let s = upd_sb sb (\<lambda>b. b\<lparr>s_imount := None\<rparr>) s;
                             s \<leftarrow> iput (s_isup (super_tab s sb)) s;
                             let s = upd_sb sb (\<lambda>b. b\<lparr>s_isup := None\<rparr>) s;
                             s \<leftarrow> put_super dev s;
                             (_, s) \<leftarrow> sync_dev dev s;
                             Some (0, s) })) } }) }"

definition fail_mount :: "nat \<Rightarrow> int \<Rightarrow> kernel \<Rightarrow> (int \<times> kernel) option" where
  "fail_mount dir_i e s = do { s \<leftarrow> iput (Some dir_i) s; Some (- e, s) }"

text \<open>\<open>sys_mount\<close> once the device and the directory are found.\<close>

definition mount_on :: "int \<Rightarrow> nat \<Rightarrow> kernel \<Rightarrow> (int \<times> kernel) option" where
  "mount_on dev dir_i s =
     (if i_count (inode_table s dir_i) \<noteq> 1 \<or> uint (i_num (inode_table s dir_i)) = ROOT_INO
      then fail_mount dir_i EBUSY s
      else if \<not> S_ISDIR (i_mode (inode_table s dir_i)) then fail_mount dir_i EPERM s
      else do {
        (sb, s) \<leftarrow> read_super dev s;
        (case sb of
           None \<Rightarrow> fail_mount dir_i EBUSY s
         | Some sb \<Rightarrow>
             if s_imount (super_tab s sb) \<noteq> None then fail_mount dir_i EBUSY s
             else if i_mount (inode_table s dir_i) then fail_mount dir_i EPERM s
             else
               let s = upd_sb sb (\<lambda>b. b\<lparr>s_imount := Some dir_i\<rparr>) s
               in Some (0, upd_ino dir_i (\<lambda>n. n\<lparr>i_mount := True, i_dirt := True\<rparr>) s)) })"

definition sys_mount :: "u32 \<Rightarrow> u32 \<Rightarrow> kernel \<Rightarrow> (int \<times> kernel) option" where
  "sys_mount dev_name dir_name s =
     do { (dev_i, s) \<leftarrow> namei dev_name s;
          (case dev_i of
             None \<Rightarrow> Some (- ENOENT, s)
           | Some d \<Rightarrow> do {
               let dev = uint (i_zone (inode_table s d) 0);
               let blk = S_ISBLK (i_mode (inode_table s d));
               s \<leftarrow> iput dev_i s;
               if \<not> blk then Some (- EPERM, s)
               else do {
                 (dir_i, s) \<leftarrow> namei dir_name s;
                 (case dir_i of None \<Rightarrow> Some (- ENOENT, s) | Some dir_i \<Rightarrow> mount_on dev dir_i s) } }) }"

text \<open>\<open>mount_root\<close> also counts the zero bits of the two bitmaps, for its messages.\<close>

fun count_free :: "(nat \<Rightarrow> nat option) \<Rightarrow> nat \<Rightarrow> kernel \<Rightarrow> nat option" where
  "count_free m 0 s = Some 0"
| "count_free m (Suc i) s =
     (case m (i div 8192) of
        None \<Rightarrow> null_deref
      | Some bh \<Rightarrow>
          do { n \<leftarrow> count_free m i s;
               Some (if test_bit (b_data (bufs s bh)) (i mod 8192) then n else n + 1) })"

definition mount_root :: "kernel \<Rightarrow> (nat \<times> nat \<times> kernel) option" where
  "mount_root s =
     do { let s = s\<lparr>file_table := (\<lambda>i. if i < NR_FILE then (file_table s i)\<lparr>f_count := 0\<rparr> else file_table s i)\<rparr>;
          s \<leftarrow> (if MAJOR (ROOT_DEV s) = 2 then wait_for_keypress s else Some s);
          let s = s\<lparr>super_tab := (\<lambda>i. if i < NR_SUPER then (super_tab s i)\<lparr>s_dev := 0, s_lock := False, s_wait := None\<rparr>
                                      else super_tab s i)\<rparr>;
          (p, s) \<leftarrow> read_super (ROOT_DEV s) s;
          (case p of
             None \<Rightarrow> panic ''Unable to mount root''
           | Some p \<Rightarrow> do {
               (mi, s) \<leftarrow> iget (ROOT_DEV s) ROOT_INO s;
               let s = upd_ino mi (\<lambda>n. n\<lparr>i_count := i_count n + 3\<rparr>) s;
               let s = upd_sb p (\<lambda>b. b\<lparr>s_isup := Some mi, s_imount := Some mi\<rparr>) s;
               let s = upd_cur (\<lambda>c. c\<lparr>pwd := Some mi, root := Some mi\<rparr>) s;
               let b = super_tab s p;
               blocks \<leftarrow> count_free (s_zmap b) (unat (s_nzones b)) s;
               inodes \<leftarrow> count_free (s_imap b) (unat (s_ninodes b) + 1) s;
               Some (blocks, inodes, s) }) }"

section \<open>Loading the RAM disk\<close>

fun load_blocks :: "nat \<Rightarrow> int \<Rightarrow> u32 \<Rightarrow> kernel \<Rightarrow> (bool \<times> kernel) option" where
  "load_blocks 0 block cp s = Some (True, s)"
| "load_blocks (Suc n) block cp s =
     do { (bh, s) \<leftarrow> (if Suc n > 2 then breada (ROOT_DEV s) block [block + 1, block + 2, -1] s
                      else bread (ROOT_DEV s) block s);
          (case bh of
             None \<Rightarrow> Some (False, s)
           | Some b \<Rightarrow> do {
               s \<leftarrow> brelse bh (buf_to_mem cp b BLOCK_SIZE s);
               load_blocks n (block + 1) (cp + 1024) s }) }"

text \<open>The number of blocks is computed in 32 bits; a negative one would keep the loop from ending.\<close>

definition rd_load :: "kernel \<Rightarrow> kernel option" where
  "rd_load s =
     (if rd_length s = 0 \<or> MAJOR (ROOT_DEV s) \<noteq> 2 then Some s
      else do {
        (bh, s) \<leftarrow> breada (ROOT_DEV s) 257 [256, 258, -1] s;
        (case bh of
           None \<Rightarrow> Some s
         | Some b \<Rightarrow> do {
             let d = get_d_super (b_data (bufs s b)) zero_super;
             s \<leftarrow> brelse bh s;
             if s_magic d \<noteq> SUPER_MAGIC then Some s
             else
               let nblocks = sint (push_bit (unat (s_log_zone_size d) mod 32) (ucast (s_nzones d)) :: u32) in
               if nblocks > drop_bit 10 (rd_length s) then Some s
               else if nblocks < 0 then loops
               else do {
                 (ok, s) \<leftarrow> load_blocks (nat nblocks) 256 (rd_start s) s;
                 Some (if ok then s\<lparr>ROOT_DEV := 0x101\<rparr> else s) } }) })"

end
