(* ===== verification/Demand_Load.thy ===== *)
theory Demand_Load
  imports Inode
begin

text \<open>
  \<open>do_no_page\<close> of mm/memory.c: a page fault on a page that is not present loads the page from the
  executable, shares it with another process that runs the same program, or maps an empty page.
\<close>

section \<open>Definitions\<close>

fun map_blocks :: "int \<Rightarrow> nat \<Rightarrow> kernel \<Rightarrow> (int list \<times> kernel) option" where
  "map_blocks block 0 s = Some ([], s)"
| "map_blocks block (Suc n) s =
     do { (nr, s) \<leftarrow> (case executable (cur s) of None \<Rightarrow> null_deref | Some x \<Rightarrow> bmap x block s);
          (nrs, s) \<leftarrow> map_blocks (block + 1) n s;
          Some (nr # nrs, s) }"

text \<open>The bytes of the page behind the end of the data are cleared, from its end downwards.\<close>

definition clear_tail :: "u32 \<Rightarrow> nat \<Rightarrow> kernel \<Rightarrow> kernel" where
  "clear_tail page n s = fold (\<lambda>k s. s\<lparr>hw8 := (hw8 s)(page + 4096 - of_nat (Suc k) := 0)\<rparr>) [0..<n] s"

definition do_no_page :: "u32 \<Rightarrow> kernel \<Rightarrow> kernel option" where
  "do_no_page address0 s =
     (let address = frame_of address0; tmp = address - start_code (cur s) in
      case executable (cur s) of
        None \<Rightarrow> get_empty_page address s
      | Some _ \<Rightarrow>
          if tmp \<ge> end_data (cur s) then get_empty_page address s
          else do {
            (shared, s) \<leftarrow> share_page tmp s;
            if shared \<noteq> 0 then Some s
            else
              let (page, s) = get_free_page s in
              if page = 0 then oom
              else do {
                (nr, s) \<leftarrow> map_blocks (1 + uint tmp div 1024) 4 s;
                x \<leftarrow> executable (cur s);
                s \<leftarrow> bread_page page (uint (i_dev (inode_table s x))) nr s;
                let s = clear_tail page (nat (sint (tmp + 4096 - end_data (cur s)))) s;
                let (r, s) = put_page page address s;
                if r \<noteq> 0 then Some s else do { s \<leftarrow> free_page page s; oom } } })"

section \<open>Pages that start out empty\<close>

lemma put_page_keeps_used:
  assumes "put_page page address s = (r, t)" "i < PAGING_PAGES" "mem_map s i \<noteq> 0"
  shows "mem_map t i = mem_map s i" "frame_of x = page_addr i \<Longrightarrow> hw8 t x = hw8 s x"
proof -
  have "mem_map t i = mem_map s i \<and> (frame_of x = page_addr i \<longrightarrow> hw8 t x = hw8 s x)"
  proof (cases "present (hw32 s (dir_slot address))")
    case True
    then show ?thesis using assms(1) by (auto simp: put_page_def set_long_def Let_def)
  next
    case False
    show ?thesis
    proof (cases rule: get_free_page_cases [of s])
      case none
      then show ?thesis using assms(1) False by (auto simp: put_page_def Let_def)
    next
      case (page j)
      have "page_addr j \<noteq> page_addr i" using page(1,2) assms(2,3) page_addr_inj by metis
      moreover have "j \<noteq> i" using page(2) assms(3) by auto
      ultimately show ?thesis
        using assms(1) False page(4) page_addr_neq_0 [OF page(1)]
        by (auto simp: put_page_def set_long_def Let_def clear_page_def)
    qed
  qed
  then show "mem_map t i = mem_map s i" "frame_of x = page_addr i \<Longrightarrow> hw8 t x = hw8 s x" by auto
qed

text \<open>
  C21: a fault on an absent page of a process that runs no program file, or behind the data of the program (the
  stack and the heap), maps the address to a page that was free, with one reference and every byte zero.
\<close>

theorem demand_zero_page:
  assumes "do_no_page a s = Some t"
    and "executable (cur s) = None \<or> end_data (cur s) \<le> frame_of a - start_code (cur s)"
    and "present (hw32 s (dir_slot (frame_of a))) \<Longrightarrow> frame_of (hw32 s (dir_slot (frame_of a))) \<noteq> 0"
  shows "\<exists>i<PAGING_PAGES. mem_map s i = 0 \<and> mem_map t i = 1 \<and> pte t (frame_of a) = Some (page_addr i OR 7) \<and>
    (\<forall>x. frame_of x = page_addr i \<longrightarrow> hw8 t x = 0)"
proof -
  have e: "get_empty_page (frame_of a) s = Some t"
    using assms(1,2) by (auto simp: do_no_page_def Let_def split: option.splits)
  show ?thesis
  proof (cases rule: get_free_page_cases [of s])
    case none
    then show ?thesis using e by (simp add: get_empty_page_def oom_def)
  next
    case (page i)
    let ?u = "clear_page (page_addr i) (s\<lparr>mem_map := (mem_map s)(i := 1)\<rparr>)"
    obtain r where r: "put_page (page_addr i) (frame_of a) ?u = (r, t)" "r \<noteq> 0"
      using e page(4) page_addr_neq_0 [OF page(1)]
      by (auto simp: get_empty_page_def oom_def bind_Some_iff split: prod.splits if_splits)
    have "frame_of (dir_slot (frame_of a)) \<noteq> page_addr i"
      using page_addr_neq_0 [OF page(1)] by (metis frame_of_dir_slot)
    then have "hw32 ?u (dir_slot (frame_of a)) = hw32 s (dir_slot (frame_of a))" by (simp add: clear_page_def)
    then have "pte t (frame_of a) = Some (page_addr i OR 7)"
      using put_page_pte [OF r] assms(3) by simp
    moreover have "mem_map t i = 1" "\<And>x. frame_of x = page_addr i \<Longrightarrow> hw8 t x = 0"
      using put_page_keeps_used [OF r(1) page(1)] by (simp_all add: clear_page_def)
    ultimately show ?thesis using page(1,2) by blast
  qed
qed

theorem demand_zero_page_witness:
  "\<exists>t i. do_no_page 0x4000123 boot_kernel = Some t \<and> i < PAGING_PAGES \<and>
     pte t (frame_of 0x4000123) = Some (page_addr i OR 7)"
proof -
  have "\<exists>t. do_no_page 0x4000123 boot_kernel = Some t"
    by (simp add: do_no_page_def get_empty_page_def put_page_def get_free_page_def scasb_down_numeral
        present_def Let_def page_addr_def push_bit_eq_mult init_task_def clear_page_def)
  then obtain t where t: "do_no_page 0x4000123 boot_kernel = Some t" by blast
  have "executable (cur boot_kernel) = None" by (simp add: init_task_def)
  then obtain i where "i < PAGING_PAGES" "pte t (frame_of 0x4000123) = Some (page_addr i OR 7)"
    using demand_zero_page [OF t] by (auto simp: present_def)
  with t show ?thesis by blast
qed

end
