(* ===== verification/Exec.thy ===== *)
theory Exec
  imports File_Calls Demand_Load
begin

text \<open>
  fs/exec.c: \<open>execve\<close>. The strings of the arguments and of the environment are copied into fresh pages, which
  become the top of the new address space; the tables of pointers to them are built below them.

  \<open>set_fs\<close> selects the segment that \<open>get_fs_byte\<close> reads: \<open>copy_strings\<close> gets the memory to read from as an
  argument, and \<open>namei\<close> of an interpreter's name, which lies in the kernel, runs with the kernel's bytes in
  place of the user's. After the old pages are freed and the new ones mapped, the user's memory is what
  the new page tables map; a byte of a page that is not mapped yet is \<open>absent\<close>, what the page fault on it will
  provide.
\<close>

section \<open>Definitions\<close>

abbreviation "MAX_ARG_PAGES \<equiv> (32 :: nat)"
abbreviation "ENOEXEC \<equiv> (8 :: int)"
abbreviation "ZMAGIC \<equiv> (0x10b :: u32)"

subsection \<open>The tables of pointers\<close>

partial_function (option) skip_string :: "u32 \<Rightarrow> kernel \<Rightarrow> u32 option" where
  "skip_string p s = (if get_fs_byte p s = 0 then Some (p + 1) else skip_string (p + 1) s)"

fun fill_table :: "nat \<Rightarrow> u32 \<Rightarrow> u32 \<Rightarrow> kernel \<Rightarrow> (u32 \<times> kernel) option" where
  "fill_table 0 tbl p s = Some (p, put_fs_long 0 tbl s)"
| "fill_table (Suc n) tbl p s =
     (let s = put_fs_long p tbl s in do { p \<leftarrow> skip_string p s; fill_table n (tbl + 4) p s })"

definition create_tables :: "u32 \<Rightarrow> int \<Rightarrow> int \<Rightarrow> kernel \<Rightarrow> (u32 \<times> kernel) option" where
  "create_tables p argc envc s =
     (let sp = p AND 0xfffffffc;
          envp = sp - 4 * word_of_int (envc + 1);
          argv = envp - 4 * word_of_int (argc + 1);
          s = put_fs_long envp (argv - 4) s;
          s = put_fs_long argv (argv - 8) s;
          s = put_fs_long (word_of_int argc) (argv - 12) s
      in do { (p, s) \<leftarrow> fill_table (nat argc) argv p s;
              (p, s) \<leftarrow> fill_table (nat envc) envp p s;
              Some (argv - 12, s) })"

subsection \<open>Counting and copying the strings\<close>

partial_function (option) count_from :: "u32 \<Rightarrow> kernel \<Rightarrow> int option" where
  "count_from tmp s = (if get_fs_long tmp s = 0 then Some 0 else Option.bind (count_from (tmp + 4) s) (\<lambda>i. Some (i + 1)))"

definition count :: "u32 \<Rightarrow> kernel \<Rightarrow> int option" where
  "count argv s = (if argv = 0 then Some 0 else count_from argv s)"

text \<open>The bytes of a string, the final zero included.\<close>

partial_function (option) string_from :: "(u32 \<Rightarrow> u8) \<Rightarrow> u32 \<Rightarrow> u8 list option" where
  "string_from mem a =
     (if mem a = 0 then Some [0] else Option.bind (string_from mem (a + 1)) (\<lambda>bs. Some (mem a # bs)))"

text \<open>The local variables of \<open>copy_strings\<close>, and the array of argument pages.\<close>

record arg_copy =
  ac_p :: u32
  ac_offset :: int
  ac_pag :: u32
  ac_page :: "nat \<Rightarrow> u32"

text \<open>
  One byte, below the ones already there; the flag is false for the \<open>return 0\<close> when no page is
  free. The code means to refuse more than 128 kB of strings, but its test \<open>p - len < 0\<close> compares an
  unsigned number and never holds; \<open>p\<close> then wraps below zero and the index leaves the array (\<open>None\<close>).
\<close>

definition store_byte :: "u8 \<Rightarrow> arg_copy \<Rightarrow> kernel \<Rightarrow> kernel" where
  "store_byte b c s = s\<lparr>hw8 := (hw8 s)(ac_pag c + word_of_int (ac_offset c) := b)\<rparr>"

definition copy_byte :: "u8 \<Rightarrow> arg_copy \<Rightarrow> kernel \<Rightarrow> (bool \<times> arg_copy \<times> kernel) option" where
  "copy_byte b c s =
     (let p = ac_p c - 1; c = c\<lparr>ac_p := p, ac_offset := ac_offset c - 1\<rparr>; k = unat p div 4096
      in if ac_offset c \<ge> 0 then Some (True, c, store_byte b c s)
         else if k \<ge> MAX_ARG_PAGES then None
         else
           let c = c\<lparr>ac_offset := int (unat p mod 4096), ac_pag := ac_page c k\<rparr> in
           if ac_pag c \<noteq> 0 then Some (True, c, store_byte b c s)
           else
             let (q, s) = get_free_page s; c = c\<lparr>ac_pag := q, ac_page := (ac_page c)(k := q)\<rparr>
             in if q = 0 then Some (False, c, s) else Some (True, c, store_byte b c s))"

fun copy_bytes :: "u8 list \<Rightarrow> arg_copy \<Rightarrow> kernel \<Rightarrow> (bool \<times> arg_copy \<times> kernel) option" where
  "copy_bytes [] c s = Some (True, c, s)"
| "copy_bytes (b # bs) c s =
     do { (ok, c, s) \<leftarrow> copy_byte b c s; if ok then copy_bytes bs c s else Some (False, c, s) }"

fun copy_args :: "nat \<Rightarrow> (nat \<Rightarrow> u32) \<Rightarrow> (u32 \<Rightarrow> u8) \<Rightarrow> arg_copy \<Rightarrow> kernel \<Rightarrow> (bool \<times> arg_copy \<times> kernel) option" where
  "copy_args 0 ptr mem c s = Some (True, c, s)"
| "copy_args (Suc argc) ptr mem c s =
     (if ptr argc = 0 then panic ''argc is wrong''
      else do {
        bs \<leftarrow> string_from mem (ptr argc);
        (ok, c, s) \<leftarrow> copy_bytes (rev bs) c s;
        if ok then copy_args argc ptr mem c s else Some (False, c, s) })"

text \<open>The result is the new \<open>p\<close>, 0 for failure; the pages obtained so far stay in the array.\<close>

definition copy_strings ::
  "int \<Rightarrow> (nat \<Rightarrow> u32) \<Rightarrow> (u32 \<Rightarrow> u8) \<Rightarrow> (nat \<Rightarrow> u32) \<Rightarrow> u32 \<Rightarrow> kernel \<Rightarrow> (u32 \<times> (nat \<Rightarrow> u32) \<times> kernel) option" where
  "copy_strings argc ptr mem page p s =
     (if p = 0 then Some (0, page, s)
      else do {
        (ok, c, s) \<leftarrow> copy_args (nat argc) ptr mem \<lparr>ac_p = p, ac_offset = 0, ac_pag = 0, ac_page = page\<rparr> s;
        Some (if ok then ac_p c else 0, ac_page c, s) })"

subsection \<open>The new address space\<close>

definition change_ldt :: "u32 \<Rightarrow> (nat \<Rightarrow> u32) \<Rightarrow> kernel \<Rightarrow> u32 \<times> kernel" where
  "change_ldt text_size page s =
     (let code_limit = (text_size + 4095) AND 0xfffff000;
          data_limit = 0x4000000;
          code_base = ldt_base (cur s) 1;
          s = upd_cur (\<lambda>p. p\<lparr>ldt_base := (ldt_base p)(1 := code_base, 2 := code_base),
                             ldt_limit := (ldt_limit p)(1 := code_limit, 2 := data_limit)\<rparr>) s;
          top = code_base + data_limit;
          s = fold (\<lambda>i s. if page i \<noteq> 0 then snd (put_page (page i) (top - 4096 * of_nat (MAX_ARG_PAGES - i)) s) else s)
                (rev [0..<MAX_ARG_PAGES]) s
      in (data_limit, s))"

definition mapped_user :: "(u32 \<Rightarrow> u8) \<Rightarrow> kernel \<Rightarrow> u32 \<Rightarrow> u8" where
  "mapped_user absent s a =
     (case pte s (ldt_base (cur s) 2 + a) of
        None \<Rightarrow> absent a
      | Some e \<Rightarrow> if present e then hw8 s (frame_of e + (a AND 0xfff)) else absent a)"

subsection \<open>execve\<close>

record exec_header =
  a_magic :: u32
  a_text :: u32
  a_data :: u32
  a_bss :: u32
  a_syms :: u32
  a_entry :: u32
  a_trsize :: u32
  a_drsize :: u32

definition exec_header_of :: "(nat \<Rightarrow> u8) \<Rightarrow> exec_header" where
  "exec_header_of d =
     \<lparr>a_magic = rd32 d 0, a_text = rd32 d 4, a_data = rd32 d 8, a_bss = rd32 d 12, a_syms = rd32 d 16,
      a_entry = rd32 d 20, a_trsize = rd32 d 24, a_drsize = rd32 d 28\<rparr>"

text \<open>\<open>N_TXTOFF\<close> is 1024 for \<open>ZMAGIC\<close>, so the test against \<open>BLOCK_SIZE\<close> that follows in the code holds.\<close>

definition bad_header :: "exec_header \<Rightarrow> m_inode \<Rightarrow> bool" where
  "bad_header ex n \<longleftrightarrow>
     a_magic ex \<noteq> ZMAGIC \<or> a_trsize ex \<noteq> 0 \<or> a_drsize ex \<noteq> 0 \<or> a_text ex + a_data ex + a_bss ex > 0x3000000 \<or>
     i_size n < a_text ex + a_data ex + a_syms ex + 1024"

definition exec_error1 :: "(nat \<Rightarrow> u32) \<Rightarrow> int \<Rightarrow> kernel \<Rightarrow> ((int + u32 \<times> u32) \<times> kernel) option" where
  "exec_error1 page retval s =
     do { s \<leftarrow> for_each [0..<MAX_ARG_PAGES] (\<lambda>i s. free_page (page i) s) s; Some (Inl retval, s) }"

definition exec_error2 :: "nat \<Rightarrow> (nat \<Rightarrow> u32) \<Rightarrow> int \<Rightarrow> kernel \<Rightarrow> ((int + u32 \<times> u32) \<times> kernel) option" where
  "exec_error2 inode page retval s = do { s \<leftarrow> iput (Some inode) s; exec_error1 page retval s }"

text \<open>
  The checks from \<open>restart_interp\<close> on: the ids the program will run with and the first block of the
  file, or the error.
\<close>

definition open_exec :: "nat \<Rightarrow> kernel \<Rightarrow> ((int + u16 \<times> u16 \<times> (nat \<Rightarrow> u8)) \<times> kernel) option" where
  "open_exec inode s =
     (let n = inode_table s inode; c = cur s; m = uint (i_mode n);
          e_uid = (if m AND 0x800 \<noteq> 0 then i_uid n else euid c);
          e_gid = (if m AND 0x400 \<noteq> 0 then ucast (i_gid n) else egid c);
          i = (if euid c = i_uid n then drop_bit 6 m else if egid c = ucast (i_gid n) then drop_bit 3 m else m)
      in if \<not> S_ISREG (i_mode n) then Some (Inl (- EACCES), s)
         else if i AND 1 = 0 \<and> \<not> (m AND 0x49 \<noteq> 0 \<and> suser s) then Some (Inl (- ENOEXEC), s)
         else do {
           (bh, s) \<leftarrow> bread (uint (i_dev n)) (uint (i_zone n 0)) s;
           (case bh of
              None \<Rightarrow> Some (Inl (- EACCES), s)
            | Some b \<Rightarrow> do {
                let d = b_data (bufs s b);
                s \<leftarrow> brelse bh s;
                Some (Inr (e_uid, e_gid, d), s) }) })"

text \<open>The point of no return: the process takes on the new program.\<close>

definition close_on_exec_files :: "kernel \<Rightarrow> kernel option" where
  "close_on_exec_files s =
     for_each [0..<NR_OPEN] (\<lambda>i s. if drop_bit i (close_on_exec (cur s)) AND 1 \<noteq> 0
                                   then map_option snd (sys_close i s) else Some s) s"

definition clear_bss_start :: "u32 \<Rightarrow> kernel \<Rightarrow> kernel" where
  "clear_bss_start i s =
     (let n = unat (- i AND 0xfff) in fold (\<lambda>k s. put_fs_byte 0 (i + of_nat k) s) [0..<n] s)"

definition enter_program ::
  "(u32 \<Rightarrow> u8) \<Rightarrow> nat \<Rightarrow> u16 \<Rightarrow> u16 \<Rightarrow> exec_header \<Rightarrow> (nat \<Rightarrow> u32) \<Rightarrow> u32 \<Rightarrow> int \<Rightarrow> int \<Rightarrow> kernel \<Rightarrow>
     ((int + u32 \<times> u32) \<times> kernel) option" where
  "enter_program absent inode e_uid e_gid ex page p argc envc s =
     do { s \<leftarrow> iput (executable (cur s)) s;
          let s = upd_cur (\<lambda>q. q\<lparr>executable := Some inode,
                     sigactions := (\<lambda>i. if i < 32 then (sigactions q i)\<lparr>sa_handler := 0\<rparr> else sigactions q i)\<rparr>) s;
          s \<leftarrow> close_on_exec_files s;
          let s = upd_cur (\<lambda>q. q\<lparr>close_on_exec := 0\<rparr>) s;
          (_, s) \<leftarrow> free_page_tables (ldt_base (cur s) 1) (ldt_limit (cur s) 1) s;
          (_, s) \<leftarrow> free_page_tables (ldt_base (cur s) 2) (ldt_limit (cur s) 2) s;
          let s = (if last_task_used_math s = Some (current s) then s\<lparr>last_task_used_math := None\<rparr> else s);
          let s = upd_cur (\<lambda>q. q\<lparr>used_math := False\<rparr>) s;
          let (data_limit, s) = change_ldt (a_text ex) page s;
          let s = s\<lparr>user := mapped_user absent s\<rparr>;
          (sp, s) \<leftarrow> create_tables (p + data_limit - 0x20000) argc envc s;
          let s = upd_cur (\<lambda>q. q\<lparr>end_code := a_text ex, end_data := a_data ex + a_text ex,
                     brk := a_bss ex + (a_data ex + a_text ex), start_stack := sp AND 0xfffff000,
                     euid := e_uid, egid := e_gid\<rparr>) s;
          let s = clear_bss_start (a_text ex + a_data ex) s;
          Some (Inr (a_entry ex, sp), s) }"

text \<open>\<open>do_execve\<close> once the file is not a script, or is the interpreter of one (\<open>sh_bang\<close>).\<close>

definition exec_binary ::
  "(u32 \<Rightarrow> u8) \<Rightarrow> bool \<Rightarrow> nat \<Rightarrow> u16 \<times> u16 \<times> (nat \<Rightarrow> u8) \<Rightarrow> (nat \<Rightarrow> u32) \<Rightarrow> u32 \<Rightarrow> u32 \<Rightarrow> u32 \<Rightarrow> int \<Rightarrow> int \<Rightarrow> kernel \<Rightarrow>
     ((int + u32 \<times> u32) \<times> kernel) option" where
  "exec_binary absent sh_bang inode prog page p argv envp argc envc s =
     (let (e_uid, e_gid, d) = prog; ex = exec_header_of d in
      if bad_header ex (inode_table s inode) then exec_error2 inode page (- ENOEXEC) s
      else if sh_bang then enter_program absent inode e_uid e_gid ex page p argc envc s
      else do {
        (p, page, s) \<leftarrow> copy_strings envc (\<lambda>k. get_fs_long (envp + 4 * of_nat k) s) (user s) page p s;
        (p, page, s) \<leftarrow> copy_strings argc (\<lambda>k. get_fs_long (argv + 4 * of_nat k) s) (user s) page p s;
        if p = 0 then exec_error2 inode page (- ENOMEM) s
        else enter_program absent inode e_uid e_gid ex page p argc envc s })"

text \<open>The first line of a script: the interpreter's path, its name, and the optional argument.\<close>

definition blank :: "u8 \<Rightarrow> bool" where
  "blank b \<longleftrightarrow> b = 32 \<or> b = 9"

definition script_line :: "(nat \<Rightarrow> u8) \<Rightarrow> (u8 list \<times> u8 list \<times> u8 list option) option" where
  "script_line d =
     (let buf = takeWhile (\<lambda>b. b \<noteq> 0) (map (\<lambda>k. d (k + 2)) [0..<1022]);
          line = dropWhile blank (takeWhile (\<lambda>b. b \<noteq> 10) buf);
          interp = takeWhile (\<lambda>b. \<not> blank b) line;
          rest = dropWhile (\<lambda>b. \<not> blank b) line;
          i_name = rev (takeWhile (\<lambda>b. b \<noteq> 47) (rev interp))
      in if 10 \<notin> set buf \<or> line = [] then None
         else Some (interp, i_name, if rest = [] then None else Some (tl rest)))"

definition kernel_bytes :: "u8 list \<Rightarrow> u32 \<Rightarrow> u8" where
  "kernel_bytes bs a = (if unat a < length bs then bs ! unat a else 0)"

text \<open>\<open>namei\<close> with \<open>fs\<close> set to the kernel's segment; the name lies at the start of \<open>bs\<close>.\<close>

definition namei_kernel :: "u8 list \<Rightarrow> kernel \<Rightarrow> (nat option \<times> kernel) option" where
  "namei_kernel bs s =
     do { (inode, t) \<leftarrow> namei 0 (s\<lparr>user := kernel_bytes bs\<rparr>); Some (inode, t\<lparr>user := user s\<rparr>) }"

text \<open>A string at the start of a block of kernel memory, addressed from 1 on so that its address is not null.\<close>

definition copy_kernel_string :: "u8 list \<Rightarrow> (nat \<Rightarrow> u32) \<Rightarrow> u32 \<Rightarrow> kernel \<Rightarrow> (u32 \<times> (nat \<Rightarrow> u32) \<times> kernel) option" where
  "copy_kernel_string bs page p s = copy_strings 1 (\<lambda>_. 1) (kernel_bytes (0 # bs)) page p s"

definition exec_script ::
  "(u32 \<Rightarrow> u8) \<Rightarrow> (nat \<Rightarrow> u8) \<Rightarrow> u32 \<Rightarrow> u32 \<Rightarrow> u32 \<Rightarrow> int \<Rightarrow> int \<Rightarrow> kernel \<Rightarrow> ((int + u32 \<times> u32) \<times> kernel) option" where
  "exec_script absent d filename argv envp argc envc s =
     (case script_line d of
        None \<Rightarrow> exec_error1 (\<lambda>_. 0) (- ENOEXEC) s
      | Some (interp, i_name, i_arg) \<Rightarrow> do {
          (p, page, s) \<leftarrow> copy_strings envc (\<lambda>k. get_fs_long (envp + 4 * of_nat k) s) (user s) (\<lambda>_. 0) 0x1fffc s;
          (p, page, s) \<leftarrow> copy_strings (argc - 1) (\<lambda>k. get_fs_long (argv + 4 + 4 * of_nat k) s) (user s) page p s;
          (p, page, s) \<leftarrow> copy_strings 1 (\<lambda>_. filename) (user s) page p s;
          (p, page, s) \<leftarrow> (case i_arg of None \<Rightarrow> Some (p, page, s) | Some a \<Rightarrow> copy_kernel_string a page p s);
          (p, page, s) \<leftarrow> copy_kernel_string i_name page p s;
          let argc = argc - 1 + 1 + (if i_arg = None then 0 else 1) + 1;
          if p = 0 then exec_error1 page (- ENOMEM) s
          else do {
            (inode, s) \<leftarrow> namei_kernel interp s;
            (case inode of
               None \<Rightarrow> exec_error1 page (- ENOENT) s
             | Some i \<Rightarrow> do {
                 (r, s) \<leftarrow> open_exec i s;
                 (case r of
                    Inl e \<Rightarrow> exec_error2 i page e s
                  | Inr prog \<Rightarrow> exec_binary absent True i prog page p argv envp argc envc s) }) } })"

definition do_execve :: "(u32 \<Rightarrow> u8) \<Rightarrow> u32 \<Rightarrow> u32 \<Rightarrow> u32 \<Rightarrow> u32 \<Rightarrow> kernel \<Rightarrow> ((int + u32 \<times> u32) \<times> kernel) option" where
  "do_execve absent cs filename argv envp s =
     (if cs AND 0xffff \<noteq> 0xf then panic ''execve called from supervisor mode''
      else do {
        (inode, s) \<leftarrow> namei filename s;
        (case inode of
           None \<Rightarrow> Some (Inl (- ENOENT), s)
         | Some i \<Rightarrow> do {
             argc \<leftarrow> count argv s;
             envc \<leftarrow> count envp s;
             (r, s) \<leftarrow> open_exec i s;
             (case r of
                Inl e \<Rightarrow> exec_error2 i (\<lambda>_. 0) e s
              | Inr (e_uid, e_gid, d) \<Rightarrow>
                  if d 0 = 35 \<and> d 1 = 33
                  then do { s \<leftarrow> iput (Some i) s; exec_script absent d filename argv envp argc envc s }
                  else exec_binary absent False i (e_uid, e_gid, d) (\<lambda>_. 0) 0x1fffc argv envp argc envc s) }) })"

section \<open>The tables point to the strings\<close>

text \<open>The bytes of a sequence of strings, one behind the other, and the address of each.\<close>

definition layout :: "u8 list list \<Rightarrow> u8 list" where
  "layout ss = concat (map (\<lambda>b. b @ [0]) ss)"

definition addresses :: "u32 \<Rightarrow> u8 list list \<Rightarrow> u32 list" where
  "addresses p ss = map (\<lambda>k. p + of_nat (length (layout (take k ss)))) [0..<length ss]"

definition holds :: "kernel \<Rightarrow> u32 \<Rightarrow> u8 list \<Rightarrow> bool" where
  "holds s p bs \<longleftrightarrow> (\<forall>k<length bs. user s (p + of_nat k) = bs ! k)"

lemma layout_simps [simp]: "layout [] = []" "layout (b # ss) = b @ 0 # layout ss" "layout (ss @ rs) = layout ss @ layout rs"
  by (simp_all add: layout_def)

lemma addresses_simps [simp]:
  "addresses p [] = []" "addresses p (b # ss) = p # addresses (p + of_nat (length b + 1)) ss"
  "length (addresses p ss) = length ss"
proof -
  show "addresses p (b # ss) = p # addresses (p + of_nat (length b + 1)) ss"
    by (rule nth_equalityI) (auto simp: addresses_def nth_Cons' take_Cons' simp del: upt_Suc)
qed (simp_all add: addresses_def)

lemma holds_append: "holds s p (bs @ cs) \<longleftrightarrow> holds s p bs \<and> holds s (p + of_nat (length bs)) cs"
proof -
  have "holds s p (bs @ cs)" if "holds s p bs" "holds s (p + of_nat (length bs)) cs"
  proof -
    have "user s (p + of_nat k) = cs ! (k - length bs)" if "\<not> k < length bs" "k < length (bs @ cs)" for k
    proof -
      have "user s (p + of_nat (length bs) + of_nat (k - length bs)) = cs ! (k - length bs)"
        using \<open>holds s (p + of_nat (length bs)) cs\<close> that unfolding holds_def
        by (metis add_diff_inverse_nat length_append nat_add_left_cancel_less)
      moreover have "p + of_nat (length bs) + of_nat (k - length bs) = p + (of_nat k :: u32)"
        using that by (simp add: of_nat_diff)
      ultimately show ?thesis by (simp only:)
    qed
    with \<open>holds s p bs\<close> show ?thesis by (auto simp: holds_def nth_append)
  qed
  moreover have "holds s p bs \<and> holds s (p + of_nat (length bs)) cs" if "holds s p (bs @ cs)"
  proof -
    have "user s (p + of_nat k) = (bs @ cs) ! k" if "k < length bs + length cs" for k
      using \<open>holds s p (bs @ cs)\<close> that by (simp add: holds_def)
    from this this [of "length bs + k" for k] show ?thesis by (auto simp: holds_def nth_append add.assoc)
  qed
  ultimately show ?thesis by blast
qed

lemma skip_string_holds:
  assumes "holds s p (b @ [0])" "0 \<notin> set b"
  shows "skip_string p s = Some (p + of_nat (length b + 1))"
  using assms
proof (induction b arbitrary: p)
  case Nil
  then show ?case by (simp add: skip_string.simps holds_def get_fs_byte_def)
next
  case (Cons x b)
  have "holds s p [x]" "holds s (p + 1) (b @ [0])"
    using Cons.prems(1) holds_append [of s p "[x]" "b @ [0]"] by simp_all
  moreover from this have "user s p = x" by (simp add: holds_def)
  ultimately have "skip_string p s = skip_string (p + 1) s"
    using Cons.prems(2) by (subst skip_string.simps) (simp add: get_fs_byte_def)
  then show ?case using Cons.IH [OF \<open>holds s (p + 1) (b @ [0])\<close>] Cons.prems(2) by (simp add: add.assoc)
qed

lemma fill_table_strings:
  assumes "\<And>vs. length vs \<le> Suc (length ss) \<Longrightarrow> holds (push_longs vs tbl s) p (layout ss)"
    and "\<forall>b\<in>set ss. 0 \<notin> set b"
  shows "fill_table (length ss) tbl p s =
    Some (p + of_nat (length (layout ss)), push_longs (addresses p ss @ [0]) tbl s)"
  using assms
proof (induction ss arbitrary: tbl p s)
  case (Cons b ss)
  let ?s = "put_fs_long p tbl s"
  have "holds ?s p ((b @ [0]) @ layout ss)" using Cons.prems(1) [of "[p]"] by simp
  then have "holds ?s p (b @ [0])" using holds_append [of ?s p "b @ [0]" "layout ss"] by blast
  moreover have "0 \<notin> set b" using Cons.prems(2) by simp
  ultimately have "skip_string p ?s = Some (p + of_nat (length b + 1))" by (rule skip_string_holds)
  moreover have "holds (push_longs vs (tbl + 4) ?s) (p + of_nat (length b + 1)) (layout ss)"
    if "length vs \<le> Suc (length ss)" for vs
    using Cons.prems(1) [of "p # vs"] that holds_append [of _ p "b @ [0]" "layout ss"] by simp
  ultimately show ?case using Cons.IH [of "tbl + 4" ?s] Cons.prems(2) by (simp add: Let_def add.assoc add.commute)
qed simp

text \<open>Reads behind, in front of and in a sequence of longs, by distance from one address.\<close>

lemma get_outside_at:
  assumes "m + 4 * length vs \<le> 2 ^ 32" "n + 4 \<le> 2 ^ 32" "n + 4 \<le> m \<or> m + 4 * length vs \<le> n"
  shows "get_fs_long (a + of_nat n) (push_longs vs (a + of_nat m) s) = get_fs_long (a + of_nat n) s"
proof (cases "vs = []")
  case False
  then have m: "m < 2 ^ 32" using assms(1) by (cases vs) auto
  have "4 * length vs \<le> unat (a + of_nat n + of_nat j - (a + of_nat m))" if "j < 4" for j
  proof -
    have "a + of_nat n + of_nat j = (a + of_nat (n + j) :: u32)" by (simp add: add.assoc)
    moreover have "n + j < 2 ^ 32" using assms(2) that by linarith
    note addr_distance [OF this m, of a]
    ultimately have "unat (a + of_nat n + of_nat j - (a + of_nat m)) = (if m \<le> n + j then n + j - m else n + j + 2 ^ 32 - m)"
      by (simp only:)
    then show ?thesis using assms(1,3) that by (simp only: split: if_split) linarith
  qed
  then show ?thesis using assms(1) by (intro get_fs_long_outside) linarith
qed simp

lemma get_inside_at:
  assumes "m + 4 * length vs \<le> 2 ^ 32" "k < length vs"
  shows "get_fs_long (a + of_nat (m + 4 * k)) (push_longs vs (a + of_nat m) s) = vs ! k"
proof -
  have "a + of_nat (m + 4 * k) = (a + of_nat m) + 4 * (of_nat k :: u32)" by (simp add: add.assoc)
  moreover have "4 * length vs \<le> 2 ^ 32" using assms(1) by linarith
  ultimately show ?thesis using get_push_longs [OF _ assms(2), of "a + of_nat m" s] by (simp only:)
qed

lemma holds_outside_at:
  assumes "m + 4 * length vs \<le> n" "n + length bs \<le> 2 ^ 32"
  shows "holds (push_longs vs (a + of_nat m) s) (a + of_nat n) bs = holds s (a + of_nat n) bs"
proof -
  have "user (push_longs vs (a + of_nat m) s) (a + of_nat n + of_nat k) = user s (a + of_nat n + of_nat k)"
    if "k < length bs" for k
  proof -
    have "a + of_nat n + of_nat k = (a + of_nat (n + k) :: u32)" by (simp add: add.assoc)
    moreover have "n + k < 2 ^ 32" "m < 2 ^ 32" using assms that by auto
    note addr_distance [OF this, of a]
    ultimately have "unat (a + of_nat n + of_nat k - (a + of_nat m)) = (if m \<le> n + k then n + k - m else n + k + 2 ^ 32 - m)"
      by (simp only:)
    then have "\<not> unat (a + of_nat n + of_nat k - (a + of_nat m)) < 4 * length vs"
      using assms(1) by (simp only: split: if_split) linarith
    moreover have "4 * length vs \<le> 2 ^ 32" using assms by linarith
    ultimately show ?thesis using push_longs_user by (simp only: if_False)
  qed
  then show ?thesis by (simp add: holds_def)
qed

lemma aligned_split: "\<exists>r<4. (p :: u32) = (p AND 0xfffffffc) + of_nat r"
proof (intro exI conjI)
  have e: "(0xfffffffc :: u32) = NOT 3" by simp
  have "(p AND NOT 3) + (p AND 3) = (p AND NOT 3) OR (p AND 3)"
    by (rule disjunctive_add) (auto simp: bit_simps)
  also have "\<dots> = p" by (rule bit_word_eqI) (auto simp: bit_simps)
  finally show "p = (p AND 0xfffffffc) + of_nat (unat (p AND 3))" unfolding e by simp
  show "unat (p AND 3) < 4" using word_and_le1 [of p 3] by (simp add: word_le_nat_alt)
qed

text \<open>The state \<open>create_tables\<close> ends in: the three words below \<open>argv\<close>, then the two tables.\<close>

lemma create_tables_run:
  assumes strings: "holds s p (layout (as @ es))" "\<forall>b\<in>set (as @ es). 0 \<notin> set b"
    and room: "4 * (length as + length es + 5) + 3 + length (layout (as @ es)) \<le> 2 ^ 32"
    and sp: "sp = (p AND 0xfffffffc) - of_nat (4 * (length as + length es + 5))"
  shows "create_tables p (int (length as)) (int (length es)) s = Some (sp,
    push_longs (addresses (p + of_nat (length (layout as))) es @ [0]) (sp + of_nat (12 + 4 * (length as + 1)))
     (push_longs (addresses p as @ [0]) (sp + of_nat 12)
      (push_longs [of_nat (length as)] (sp + of_nat 0)
       (push_longs [sp + of_nat 12] (sp + of_nat 4)
        (push_longs [sp + of_nat (12 + 4 * (length as + 1))] (sp + of_nat 8) s)))))"
proof -
  let ?N = "4 * (length as + length es + 5)"
  let ?s = "push_longs [of_nat (length as)] (sp + of_nat 0)
       (push_longs [sp + of_nat 12] (sp + of_nat 4)
        (push_longs [sp + of_nat (12 + 4 * (length as + 1))] (sp + of_nat 8) s))"
  obtain r where r: "r < 4" "p = (p AND 0xfffffffc) + of_nat r" using aligned_split by blast
  have top: "p AND 0xfffffffc = sp + of_nat ?N" by (simp add: sp)
  then have p: "p = sp + of_nat (?N + r)" using r(2) by (simp add: add.assoc)
  have envp: "(p AND 0xfffffffc) - 4 * word_of_int (int (length es) + 1) = sp + of_nat (12 + 4 * (length as + 1))"
    unfolding top by (simp add: algebra_simps)
  have argv: "sp + of_nat (12 + 4 * (length as + 1)) - 4 * word_of_int (int (length as) + 1) = sp + of_nat 12"
    by (simp add: algebra_simps)
  have keep: "holds (push_longs vs (sp + of_nat m) u) p (layout (as @ es)) = holds u p (layout (as @ es))"
    if "m + 4 * length vs \<le> ?N" for vs m u
    unfolding p by (rule holds_outside_at) (use that room r(1) in auto)
  have h: "holds ?s p (layout (as @ es))"
    using strings(1) keep [of 0 "[of_nat (length as)]"] keep [of 4 "[sp + of_nat 12]"]
      keep [of 8 "[sp + of_nat (12 + 4 * (length as + 1))]"] by simp
  have A: "fill_table (length as) (sp + of_nat 12) p ?s =
      Some (p + of_nat (length (layout as)), push_longs (addresses p as @ [0]) (sp + of_nat 12) ?s)"
  proof (rule fill_table_strings)
    fix vs :: "u32 list" assume "length vs \<le> Suc (length as)"
    then have "holds (push_longs vs (sp + of_nat 12) ?s) p (layout (as @ es))" using h keep [of 12 vs] by simp
    then show "holds (push_longs vs (sp + of_nat 12) ?s) p (layout as)"
      using holds_append [of _ p "layout as" "layout es"] by simp
  qed (use strings(2) in auto)
  let ?t = "push_longs (addresses p as @ [0]) (sp + of_nat 12) ?s"
  have ht: "holds ?t p (layout (as @ es))" using h keep [of 12 "addresses p as @ [0]"] by simp
  have E: "fill_table (length es) (sp + of_nat (12 + 4 * (length as + 1))) (p + of_nat (length (layout as))) ?t =
      Some (p + of_nat (length (layout as)) + of_nat (length (layout es)),
        push_longs (addresses (p + of_nat (length (layout as))) es @ [0]) (sp + of_nat (12 + 4 * (length as + 1))) ?t)"
  proof (rule fill_table_strings)
    fix vs :: "u32 list" assume "length vs \<le> Suc (length es)"
    then have "holds (push_longs vs (sp + of_nat (12 + 4 * (length as + 1))) ?t) p (layout (as @ es))"
      using ht keep [of "12 + 4 * (length as + 1)" vs] by simp
    then show "holds (push_longs vs (sp + of_nat (12 + 4 * (length as + 1))) ?t)
        (p + of_nat (length (layout as))) (layout es)"
      using holds_append [of _ p "layout as" "layout es"] by simp
  qed (use strings(2) in auto)
  have push_one: "put_fs_long v a u = push_longs [v] a u" for v a u by simp
  have steps: "sp + of_nat 12 - 4 = sp + of_nat 8" "sp + of_nat 12 - 8 = sp + of_nat 4" "sp + of_nat 12 - 12 = sp + of_nat 0"
    by (simp_all add: algebra_simps)
  have "create_tables p (int (length as)) (int (length es)) s = Some (sp + of_nat 0,
      push_longs (addresses (p + of_nat (length (layout as))) es @ [0]) (sp + of_nat (12 + 4 * (length as + 1))) ?t)"
    unfolding create_tables_def Let_def envp argv steps nat_int of_int_of_nat_eq push_one A bind.bind_lunit prod.case E ..
  then show ?thesis by simp
qed

text \<open>The longs stay below the strings, and the first three hold the number of arguments and the addresses of the tables.\<close>

lemma push_below_strings:
  assumes sp: "sp = (p AND 0xfffffffc) - of_nat n" and room: "n + 3 + length bs \<le> 2 ^ 32" and m: "m + 4 * length vs \<le> n"
  shows "holds (push_longs vs (sp + of_nat m) u) p bs = holds u p bs"
proof -
  obtain r where r: "r < 4" "p = (p AND 0xfffffffc) + of_nat r" using aligned_split by blast
  then have p: "p = sp + of_nat (n + r)" by (simp add: sp add.assoc)
  show ?thesis unfolding p by (rule holds_outside_at) (use m room r(1) in auto)
qed

lemma first_longs:
  assumes "u = push_longs [c] (sp + of_nat 0) (push_longs [a] (sp + of_nat 4) (push_longs [e] (sp + of_nat 8) s))"
  shows "get_fs_long (sp + of_nat 0) u = c" "get_fs_long (sp + of_nat 4) u = a" "get_fs_long (sp + of_nat 8) u = e"
proof -
  define v where "v = push_longs [e] (sp + of_nat 8) s"
  define w where "w = push_longs [a] (sp + of_nat 4) v"
  have u: "u = push_longs [c] (sp + of_nat 0) w" by (simp add: assms w_def v_def)
  show "get_fs_long (sp + of_nat 0) u = c" using get_inside_at [of 0 "[c]" 0 sp w] by (simp add: u)
  show "get_fs_long (sp + of_nat 4) u = a"
    using get_outside_at [of 0 "[c]" 4 sp w] get_inside_at [of 4 "[a]" 0 sp v] by (simp add: u w_def)
  show "get_fs_long (sp + of_nat 8) u = e"
    using get_outside_at [of 0 "[c]" 8 sp w] get_outside_at [of 4 "[a]" 8 sp v] get_inside_at [of 8 "[e]" 0 sp s]
    by (simp add: u w_def v_def)
qed

text \<open>
  C22: the stack a new program starts on. When the strings of the arguments and of the environment lie at \<open>p\<close>,
  \<open>create_tables\<close> returns a stack pointer below them at which it has stored the number of arguments, the address of
  the argument table and that of the environment table; each entry of the tables is the address of its string,
  both end with a null pointer, and the strings are still in place.
\<close>

theorem create_tables_correct:
  assumes strings: "holds s p (layout (as @ es))" "\<forall>b\<in>set (as @ es). 0 \<notin> set b"
    and room: "4 * (length as + length es + 5) + 3 + length (layout (as @ es)) \<le> 2 ^ 32"
  shows "\<exists>sp t argv envp. create_tables p (int (length as)) (int (length es)) s = Some (sp, t) \<and>
    argv = sp + of_nat 12 \<and> envp = sp + of_nat (12 + 4 * (length as + 1)) \<and>
    get_fs_long sp t = of_nat (length as) \<and> get_fs_long (sp + of_nat 4) t = argv \<and> get_fs_long (sp + of_nat 8) t = envp \<and>
    (\<forall>k<length as. get_fs_long (sp + of_nat (12 + 4 * k)) t = p + of_nat (length (layout (take k as)))) \<and>
    get_fs_long (sp + of_nat (12 + 4 * length as)) t = 0 \<and>
    (\<forall>k<length es. get_fs_long (sp + of_nat (12 + 4 * (length as + 1) + 4 * k)) t =
       p + of_nat (length (layout as)) + of_nat (length (layout (take k es)))) \<and>
    get_fs_long (sp + of_nat (12 + 4 * (length as + 1) + 4 * length es)) t = 0 \<and>
    holds t p (layout (as @ es))"
proof -
  let ?N = "4 * (length as + length es + 5)"
  define sp where "sp = (p AND 0xfffffffc) - of_nat ?N"
  let ?e = "12 + 4 * (length as + 1)"
  define E where "E = addresses (p + of_nat (length (layout as))) es @ [0]"
  define A where "A = addresses p as @ [0]"
  define s3 where "s3 = push_longs [of_nat (length as)] (sp + of_nat 0) (push_longs [sp + of_nat 12] (sp + of_nat 4)
    (push_longs [sp + of_nat ?e] (sp + of_nat 8) s))"
  define s4 where "s4 = push_longs A (sp + of_nat 12) s3"
  define t where "t = push_longs E (sp + of_nat ?e) s4"
  have run: "create_tables p (int (length as)) (int (length es)) s = Some (sp, t)"
    using create_tables_run [OF strings room sp_def] unfolding t_def s4_def s3_def A_def E_def .
  have len: "length A = length as + 1" "length E = length es + 1" by (simp_all add: A_def E_def)
  have below: "get_fs_long (sp + of_nat n) t = get_fs_long (sp + of_nat n) s4" if "n + 4 \<le> ?e" for n
    unfolding t_def by (rule get_outside_at) (use that room len in auto)
  have header: "get_fs_long (sp + of_nat n) s4 = get_fs_long (sp + of_nat n) s3" if "n + 4 \<le> 12" for n
    unfolding s4_def by (rule get_outside_at) (use that room len in auto)
  note words = first_longs [OF s3_def]
  have tabA: "get_fs_long (sp + of_nat (12 + 4 * k)) t = A ! k" if "k < length A" for k
  proof -
    have "get_fs_long (sp + of_nat (12 + 4 * k)) s4 = A ! k"
      unfolding s4_def by (rule get_inside_at) (use that room len in auto)
    then show ?thesis using below [of "12 + 4 * k"] that len by simp
  qed
  have tabE: "get_fs_long (sp + of_nat (?e + 4 * k)) t = E ! k" if "k < length E" for k
    unfolding t_def by (rule get_inside_at) (use that room len in auto)
  have "holds t p (layout (as @ es))"
    unfolding t_def s4_def s3_def
    by (intro push_below_strings [OF sp_def room, THEN iffD2] strings(1)) (simp_all add: len)
  moreover have "\<forall>k<length as. get_fs_long (sp + of_nat (12 + 4 * k)) t = p + of_nat (length (layout (take k as)))"
    using tabA by (simp add: len A_def nth_append addresses_def)
  moreover have "get_fs_long (sp + of_nat (12 + 4 * length as)) t = 0"
    using tabA [of "length as"] by (simp add: len A_def nth_append)
  moreover have "\<forall>k<length es. get_fs_long (sp + of_nat (?e + 4 * k)) t =
       p + of_nat (length (layout as)) + of_nat (length (layout (take k es)))"
    using tabE by (simp add: len E_def nth_append addresses_def)
  moreover have "get_fs_long (sp + of_nat (?e + 4 * length es)) t = 0"
    using tabE [of "length es"] by (simp add: len E_def nth_append)
  moreover have "get_fs_long sp t = of_nat (length as)" "get_fs_long (sp + of_nat 4) t = sp + of_nat 12"
      "get_fs_long (sp + of_nat 8) t = sp + of_nat ?e"
    using below [of 0] below [of 4] below [of 8] header [of 0] header [of 4] header [of 8] words by simp_all
  ultimately show ?thesis using run by blast
qed

text \<open>The program \<open>a\<close> with the one argument \<open>bc\<close> and an empty environment, its strings at 0x3ffffc1.\<close>

definition args_state :: kernel where
  "args_state = boot_kernel\<lparr>user := (\<lambda>_. 0)(0x3ffffc1 := 97, 0x3ffffc3 := 98, 0x3ffffc4 := 99)\<rparr>"

theorem create_tables_correct_witness:
  "\<exists>sp t. create_tables 0x3ffffc1 2 0 args_state = Some (sp, t) \<and> get_fs_long sp t = 2 \<and>
     get_fs_long (sp + 12) t = 0x3ffffc1 \<and> get_fs_long (sp + 16) t = 0x3ffffc3 \<and> get_fs_long (sp + 20) t = 0"
proof -
  let ?as = "[[97], [98, 99]] :: u8 list list"
  have "holds args_state 0x3ffffc1 (layout (?as @ []))"
    unfolding holds_def
  proof (intro allI impI)
    fix k assume "k < length (layout (?as @ []))"
    then have "k = 0 \<or> k = 1 \<or> k = 2 \<or> k = 3 \<or> k = 4" by auto
    then show "user args_state (0x3ffffc1 + of_nat k) = layout (?as @ []) ! k"
      by (elim disjE) (simp_all add: args_state_def)
  qed
  from create_tables_correct [OF this] obtain sp t where
    c: "create_tables 0x3ffffc1 (int (length ?as)) (int (length ([] :: u8 list list))) args_state = Some (sp, t)"
      "get_fs_long sp t = of_nat (length ?as)"
      "\<forall>k<length ?as. get_fs_long (sp + of_nat (12 + 4 * k)) t = 0x3ffffc1 + of_nat (length (layout (take k ?as)))"
      "get_fs_long (sp + of_nat (12 + 4 * length ?as)) t = 0"
    by auto
  have "get_fs_long (sp + 12) t = 0x3ffffc1" "get_fs_long (sp + 16) t = 0x3ffffc3"
    using c(3) [rule_format, of 0] c(3) [rule_format, of 1] by simp_all
  moreover have "get_fs_long (sp + 20) t = 0" using c(4) by simp
  ultimately show ?thesis using c(1,2) by auto
qed

end
