(* ===== verification/Tty_Line.thy ===== *)
theory Tty_Line
  imports Tty_Io
begin

text \<open>
  Line editing. \<open>copy_to_cooked\<close> on a terminal that does not echo is a function on lists: it edits the line that the
  secondary queue holds with each byte that was typed.
\<close>

section \<open>The reference\<close>

definition line_end :: "tty_struct \<Rightarrow> u8 \<Rightarrow> bool" where
  "line_end y c \<longleftrightarrow> c = 10 \<or> is_cc y VEOF c"

definition erase_last :: "tty_struct \<Rightarrow> u8 list \<Rightarrow> u8 list" where
  "erase_last y line = (if line = [] \<or> line_end y (last line) then line else butlast line)"

definition kill_last_line :: "tty_struct \<Rightarrow> u8 list \<Rightarrow> u8 list" where
  "kill_last_line y line = rev (dropWhile (\<lambda>c. \<not> line_end y c) (rev line))"

text \<open>
  What the input flags make of a byte: a carriage return is a newline with \<open>ICRNL\<close>, else nothing with \<open>IGNCR\<close>; a newline
  is a carriage return with \<open>INLCR\<close>; letters are in lower case with \<open>IUCLC\<close>. Then what becomes of the line with a byte
  that they let through, and with any byte.
\<close>

definition in_byte :: "tty_struct \<Rightarrow> u8 \<Rightarrow> u8 option" where
  "in_byte y c =
     (let fl = c_iflag (t_termios y) in
      if c = 13 then (if fl AND 0x100 \<noteq> 0 then Some 10 else if fl AND 0x80 \<noteq> 0 then None else Some 13)
      else if c = 10 then Some (if fl AND 0x40 \<noteq> 0 then 13 else 10)
      else if fl AND 0x200 \<noteq> 0 \<and> 65 \<le> c \<and> c \<le> 90 then Some (c + 32)
      else Some c)"

lemma map_input_table: "map_input y c = in_byte y c"
  by (auto simp: map_input_def in_byte_def I_FLAG_def tolower_def isupper_def Let_def)

definition edit_mapped :: "tty_struct \<Rightarrow> u8 \<Rightarrow> u8 list \<Rightarrow> u8 list" where
  "edit_mapped y c line =
     (if L_FLAG y ICANON \<and> is_cc y VKILL c then kill_last_line y line
      else if L_FLAG y ICANON \<and> is_cc y VERASE c then erase_last y line
      else if L_FLAG y ICANON \<and> (is_cc y VSTOP c \<or> is_cc y VSTART c) then line
      else if L_FLAG y ISIG \<and> (is_cc y VINTR c \<or> is_cc y VQUIT c) then line
      else line @ [c])"

definition edit :: "tty_struct \<Rightarrow> u8 \<Rightarrow> u8 list \<Rightarrow> u8 list" where
  "edit y c line = (case in_byte y c of None \<Rightarrow> line | Some c \<Rightarrow> edit_mapped y c line)"

lemma length_edit: "length (edit y c line) \<le> Suc (length line)"
proof -
  have "length (dropWhile P xs) \<le> length xs" for P and xs :: "u8 list" by (simp add: length_dropWhile_le)
  from this [of _ "rev line"] show ?thesis
    by (auto simp: edit_def edit_mapped_def erase_last_def kill_last_line_def le_Suc_eq split: option.split)
qed

section \<open>The editing of a quiet terminal\<close>

text \<open>The terminal \<open>t\<close> has good queues, does not echo, and its settings are those of \<open>y\<close>.\<close>

definition quiet :: "tty_struct \<Rightarrow> nat \<Rightarrow> kernel \<Rightarrow> bool" where
  "quiet y t s \<longleftrightarrow> t_termios (tty_table s t) = t_termios y \<and> \<not> L_FLAG y ECHO \<and>
     queue_ok (read_q (tty_table s t)) \<and> queue_ok (secondary (tty_table s t))"

abbreviation "typed t s \<equiv> queue_list (read_q (tty_table s t))"
abbreviation "line t s \<equiv> queue_list (secondary (tty_table s t))"

lemma tty_intr_tables [simp]: "tty_table (tty_intr t m s) = tty_table s"
proof -
  have "tty_table (fold (\<lambda>i s. case task s i of None \<Rightarrow> s
      | Some p \<Rightarrow> if pgrp p = g then upd_task i (\<lambda>p. p\<lparr>signal := signal p OR m\<rparr>) s else s) xs u) = tty_table u" for xs g u
    by (induction xs arbitrary: u) (auto split: option.split)
  then show ?thesis by (simp add: tty_intr_def Let_def)
qed

lemma queue_data [simp]: "queue_list (q\<lparr>q_data := d\<rparr>) = queue_list q" "queue_ok (q\<lparr>q_data := d\<rparr>) = queue_ok q"
  "queue_list (q\<lparr>q_proc_list := p\<rparr>) = queue_list q" "queue_ok (q\<lparr>q_proc_list := p\<rparr>) = queue_ok q"
  by (simp_all add: queue_list_def CHARS_def queue_ok_def)

lemma line_empty_iff:
  assumes "quiet y t s"
  shows "line_empty (tty_table s t) \<longleftrightarrow> line t s = [] \<or> line_end y (last (line t s))"
proof -
  have ok: "queue_ok (secondary (tty_table s t))" using assms by (simp add: quiet_def)
  have "is_cc (tty_table s t) VEOF c \<longleftrightarrow> is_cc y VEOF c" for c using assms by (simp add: is_cc_def quiet_def)
  then show ?thesis using LAST_eq [OF ok] EMPTY_iff [OF ok]
    by (cases "EMPTY (secondary (tty_table s t))") (simp_all add: line_empty_def line_end_def)
qed

lemma quiet_unput:
  assumes "quiet y t s"
  shows "quiet y t (unput_secondary t s)"
    "line t s \<noteq> [] \<Longrightarrow> line t (unput_secondary t s) = butlast (line t s)"
    "typed t (unput_secondary t s) = typed t s"
  using assms EMPTY_iff [of "secondary (tty_table s t)"] by (auto simp: quiet_def unput_secondary_def)

text \<open>The loop that kills a line ends, with the line killed.\<close>

lemma killing:
  assumes "quiet y t s"
  shows "\<exists>u. tty_run (Killing t) s = tty_run (Cooked t) u \<and> quiet y t u \<and> typed t u = typed t s \<and>
    line t u = kill_last_line y (line t s)"
  using assms
proof (induction "length (line t s)" arbitrary: s)
  case 0
  then have "line_empty (tty_table s t)" using line_empty_iff by simp
  then show ?case using 0 by (intro exI [of _ s]) (simp add: tty_run.simps [of "Killing t"] kill_last_line_def)
next
  case (Suc n)
  note ne = line_empty_iff [OF Suc.prems]
  show ?case
  proof (cases "line_end y (last (line t s))")
    case True
    have "line t s \<noteq> []" using Suc.hyps(2) by auto
    then have "kill_last_line y (line t s) = line t s"
      using True by (cases "line t s" rule: rev_cases) (simp_all add: kill_last_line_def)
    then show ?thesis using True ne Suc.prems by (intro exI [of _ s]) (simp add: tty_run.simps [of "Killing t"])
  next
    case False
    have l: "line t s \<noteq> []" using Suc.hyps(2) by auto
    let ?u = "unput_secondary t s"
    have "\<not> L_FLAG (tty_table s t) ECHO" using Suc.prems by (simp add: quiet_def L_FLAG_def)
    then have "tty_run (Killing t) s = tty_run (Killing t) ?u"
      using False ne l by (simp add: tty_run.simps [of "Killing t" s])
    moreover have "n = length (line t ?u)" using Suc.hyps(2) quiet_unput(2) [OF Suc.prems l] by simp
    ultimately obtain u where "tty_run (Killing t) s = tty_run (Cooked t) u" "quiet y t u" "typed t u = typed t ?u"
      "line t u = kill_last_line y (line t ?u)" using Suc.hyps(1) [of ?u] quiet_unput(1) [OF Suc.prems] by auto
    moreover have "kill_last_line y (butlast (line t s)) = kill_last_line y (line t s)"
      using False l by (cases "line t s" rule: rev_cases) (simp_all add: kill_last_line_def)
    ultimately show ?thesis using quiet_unput [OF Suc.prems] l by auto
  qed
qed

lemma quiet_put:
  assumes "quiet y t s" "length (line t s) < 1023"
  shows "quiet y t (put_secondary t c s)" "line t (put_secondary t c s) = line t s @ [c]"
    "typed t (put_secondary t c s) = typed t s"
  using assms FULL_iff [of "secondary (tty_table s t)"] by (auto simp: quiet_def put_secondary_def)

lemma cook_char_quiet:
  assumes q: "quiet y t s" and len: "length (line t s) < 1023" and k: "\<not> (L_FLAG y ICANON \<and> is_cc y VKILL c)"
  shows "\<exists>u. cook_char t c s = (Again, u) \<and> quiet y t u \<and> typed t u = typed t s \<and> line t u = edit_mapped y c (line t s)"
proof -
  have f: "L_FLAG (tty_table s t) g = L_FLAG y g" "is_cc (tty_table s t) i c = is_cc y i c" for g i
    using q by (simp_all add: quiet_def L_FLAG_def is_cc_def)
  have e: "\<not> L_FLAG y ECHO" using q by (simp add: quiet_def)
  let ?d = "upd_tty t (\<lambda>y. y\<lparr>secondary := (secondary y)\<lparr>q_data := q_data (secondary y) + 1\<rparr>\<rparr>) s"
  have d: "quiet y t ?d" "line t ?d = line t s" "typed t ?d = typed t s" using q by (simp_all add: quiet_def)
  have p: "quiet y t (put_secondary t c ?d)" "line t (put_secondary t c ?d) = line t s @ [c]"
    "typed t (put_secondary t c ?d) = typed t s"
    using quiet_put [OF d(1)] len d by simp_all
  have same: "quiet y t (upd_tty t (\<lambda>y. y\<lparr>t_stopped := b\<rparr>) s)" "quiet y t (tty_intr t m s)" for b m
    using q by (auto simp: quiet_def)
  let ?L = "L_FLAG y ICANON" and ?S = "L_FLAG y ISIG"
  define K E St Sa I Q where "K = (?L \<and> is_cc y VKILL c)" and "E = (?L \<and> is_cc y VERASE c)" and "St = (?L \<and> is_cc y VSTOP c)"
    and "Sa = (?L \<and> is_cc y VSTART c)" and "I = (?S \<and> is_cc y VINTR c)" and "Q = (?S \<and> is_cc y VQUIT c)"
  have edit: "edit_mapped y c l = (if K then kill_last_line y l else if E then erase_last y l else if St \<or> Sa then l
      else if I \<or> Q then l else l @ [c])" for l
    unfolding edit_mapped_def K_def E_def St_def Sa_def I_def Q_def conj_disj_distribL ..
  have cook: "cook_char t c s =
     (if K then (Kill_line, s)
      else if E then if line_empty (tty_table s t) then (Again, s) else (Again, unput_secondary t s)
      else if St then (Again, upd_tty t (\<lambda>y. y\<lparr>t_stopped := True\<rparr>) s)
      else if Sa then (Again, upd_tty t (\<lambda>y. y\<lparr>t_stopped := False\<rparr>) s)
      else if I then (Again, tty_intr t 0x2 s) else if Q then (Again, tty_intr t 0x4 s)
      else (Again, put_secondary t c (if c = 10 \<or> is_cc y VEOF c then ?d else s)))"
    unfolding cook_char_def Let_def f using e by (simp add: K_def E_def St_def Sa_def I_def Q_def)
  have "\<not> K" using k by (simp add: K_def)
  then show ?thesis
    using q same quiet_unput [OF q] line_empty_iff [OF q] quiet_put [OF q len] p
    by (simp add: cook edit erase_last_def split: if_split)
qed

lemma quiet_getch:
  assumes "quiet y t s" "typed t s = c # cs"
  shows "\<exists>u. cook_step t s = (case map_input y c of None \<Rightarrow> (Again, u) | Some c \<Rightarrow> cook_char t c u) \<and>
    quiet y t u \<and> typed t u = cs \<and> line t u = line t s"
proof -
  let ?q = "read_q (tty_table s t)"
  have ok: "queue_ok ?q" using assms(1) by (simp add: quiet_def)
  then have "\<not> EMPTY ?q" using EMPTY_iff assms(2) by simp
  then have "fst (GETCH ?q) = c" "queue_list (snd (GETCH ?q)) = cs" using queue_list_GETCH [OF ok] assms(2) by simp_all
  moreover have "map_input (tty_table s t) = map_input y" using assms(1) by (intro ext) (simp add: map_input_def I_FLAG_def quiet_def)
  moreover have "map_input ((tty_table s t)\<lparr>read_q := snd (GETCH ?q)\<rparr>) = map_input (tty_table s t)"
    by (intro ext) (simp add: map_input_def I_FLAG_def)
  ultimately show ?thesis using assms(1) ok
    by (intro exI [of _ "upd_tty t (\<lambda>y. y\<lparr>read_q := snd (GETCH ?q)\<rparr>) s"])
      (simp add: cook_step_def split_beta Let_def quiet_def)
qed

lemma cooked_step:
  assumes "quiet y t s" "typed t s = c # cs" "length (line t s) < 1023"
  shows "\<exists>u. tty_run (Cooked t) s = tty_run (Cooked t) u \<and> quiet y t u \<and> typed t u = cs \<and> line t u = edit y c (line t s)"
proof -
  obtain u where u: "cook_step t s = (case map_input y c of None \<Rightarrow> (Again, u) | Some c \<Rightarrow> cook_char t c u)"
    "quiet y t u" "typed t u = cs" "line t u = line t s" using quiet_getch [OF assms(1,2)] by blast
  have "\<not> EMPTY (read_q (tty_table s t))" "\<not> FULL (secondary (tty_table s t))"
    using assms EMPTY_iff [of "read_q (tty_table s t)"] FULL_iff [of "secondary (tty_table s t)"] by (auto simp: quiet_def)
  then have run: "tty_run (Cooked t) s =
      (case cook_step t s of (Again, s) \<Rightarrow> tty_run (Cooked t) s | (Kill_line, s) \<Rightarrow> tty_run (Killing t) s
       | (Echo_erase, s) \<Rightarrow> Option.bind (tty_run (Drive t) s) (\<lambda>s. tty_run (Cooked t) (unput_secondary t s))
       | (Echo_put c, s) \<Rightarrow> Option.bind (tty_run (Drive t) s) (\<lambda>s. tty_run (Cooked t) (put_secondary t c s)))"
    by (simp add: tty_run.simps [of "Cooked t" s])
  show ?thesis
  proof (cases "map_input y c")
    case None
    then show ?thesis using run u by (auto simp: edit_def map_input_table [symmetric])
  next
    case (Some d)
    show ?thesis
    proof (cases "L_FLAG y ICANON \<and> is_cc y VKILL d")
      case True
      then have "cook_char t d u = (Kill_line, u)" using u(2) by (auto simp: cook_char_def quiet_def L_FLAG_def is_cc_def Let_def)
      then show ?thesis using run u Some True killing [OF u(2)] by (auto simp: edit_def map_input_table [symmetric] edit_mapped_def)
    next
      case False
      then show ?thesis using run u Some assms(3) cook_char_quiet [OF u(2) _ False] by (auto simp: edit_def map_input_table [symmetric])
    qed
  qed
qed

lemma wake_up_secondary:
  "tty_table (wake_up (Wtty_secondary t) s) t = (tty_table s t)\<lparr>secondary := (secondary (tty_table s t))\<lparr>q_proc_list := None\<rparr>\<rparr>"
  by (simp add: wake_up_def set_running_def split: option.split)

lemma cooked_run:
  assumes "quiet y t s" "length (line t s) + length (typed t s) \<le> 1023"
  shows "\<exists>u. tty_run (Cooked t) s = Some u \<and> quiet y t u \<and> typed t u = [] \<and> line t u = fold (edit y) (typed t s) (line t s)"
  using assms
proof (induction "typed t s" arbitrary: s)
  case Nil
  then have "EMPTY (read_q (tty_table s t))" using EMPTY_iff by (simp add: quiet_def)
  then show ?case using Nil by (simp add: tty_run.simps [of "Cooked t"] wake_up_secondary quiet_def)
next
  case (Cons c cs)
  note ty = Cons.hyps(2) [symmetric]
  have l: "length (line t s) + Suc (length cs) \<le> 1023" using Cons.prems(2) by (simp add: ty)
  then have "length (line t s) < 1023" by simp
  then obtain u where u: "tty_run (Cooked t) s = tty_run (Cooked t) u" "quiet y t u" "typed t u = cs"
    "line t u = edit y c (line t s)" using cooked_step [OF Cons.prems(1) ty] by blast
  have "length (line t u) + length (typed t u) \<le> 1023"
    using l length_edit [of y c "line t s"] by (simp add: u(3,4))
  then have "\<exists>v. tty_run (Cooked t) u = Some v \<and> quiet y t v \<and> typed t v = [] \<and> line t v = fold (edit y) cs (line t u)"
    using Cons.hyps(1) [OF u(3) [symmetric] u(2)] u(3) by simp
  then show ?case by (simp add: ty u(1,4))
qed

text \<open>
  C25: on a terminal that does not echo, \<open>copy_to_cooked\<close> comes to an end and edits the line as the reference does: the
  input flags translate or drop each byte, the erase and the kill character take back the last byte or the bytes since
  the last line end, the control characters are not stored, and every other byte is appended, in the order of typing.
\<close>

theorem copy_to_cooked_edits:
  assumes "\<not> L_FLAG (tty_table s t) ECHO" "queue_ok (read_q (tty_table s t))" "queue_ok (secondary (tty_table s t))"
    "length (line t s) + length (typed t s) \<le> 1023"
  shows "\<exists>u. copy_to_cooked t s = Some u \<and> typed t u = [] \<and>
    line t u = fold (edit (tty_table s t)) (typed t s) (line t s)"
proof -
  have "quiet (tty_table s t) t s" using assms by (simp add: quiet_def)
  then show ?thesis using cooked_run [OF _ assms(4)] by (auto simp: copy_to_cooked_def)
qed


text \<open>
  On the second serial line, set to canonical input without echo, "ab", the erase character, "c", the kill character,
  "d" and a newline are typed.
\<close>

definition typing_state :: kernel where
  "typing_state = upd_tty 2 (\<lambda>y. y\<lparr>t_termios := (t_termios y)\<lparr>c_lflag := ICANON\<rparr>,
     read_q := fold PUTCH [97, 98, 127, 99, 21, 100, 10] (read_q y)\<rparr>) boot_kernel"

theorem copy_to_cooked_edits_witness:
  "\<exists>u. copy_to_cooked 2 typing_state = Some u \<and> queue_list (secondary (tty_table u 2)) = [100, 10]"
proof -
  let ?y = "tty_table typing_state 2"
  have ok: "queue_ok (init_queue d)" "queue_list (init_queue d) = []" for d
    by (simp_all add: queue_ok_def queue_list_def init_queue_def CHARS_def)
  have y: "c_lflag (t_termios ?y) = ICANON" "c_cc (t_termios ?y) = INIT_C_CC" "c_iflag (t_termios ?y) = 0"
    "read_q ?y = fold PUTCH [97, 98, 127, 99, 21, 100, 10] (init_queue 0x2f8)" "secondary ?y = init_queue 0"
    by (simp_all add: typing_state_def init_tty_def Let_def)
  have r: "queue_ok (read_q ?y)" "typed 2 typing_state = [97, 98, 127, 99, 21, 100, 10]"
    unfolding y(4) using ttyq.put_all [OF ok(1), of _ "[97, 98, 127, 99, 21, 100, 10]"] ok(2) by simp_all
  have "\<not> L_FLAG ?y ECHO" "queue_ok (secondary ?y)" "line 2 typing_state = []" by (simp_all add: L_FLAG_def y ok)
  then obtain u where u: "copy_to_cooked 2 typing_state = Some u" "line 2 u = fold (edit ?y) [97, 98, 127, 99, 21, 100, 10] []"
    using copy_to_cooked_edits [of typing_state 2] r by auto
  have "fold (edit ?y) [97, 98, 127, 99, 21, 100, 10] [] = [100, 10]"
    by (simp add: edit_def edit_mapped_def in_byte_def L_FLAG_def is_cc_def y INIT_C_CC_def Let_def
        erase_last_def kill_last_line_def line_end_def)
  then show ?thesis using u by auto
qed

section \<open>Output processing\<close>

text \<open>
  What the output flags make of a byte, as a table: without \<open>OPOST\<close> the byte itself; a carriage return is a
  newline with \<open>OCRNL\<close>; a newline, also such a one, is a carriage return and a newline with \<open>ONLCR\<close>, but a newline
  of the program is a carriage return with \<open>ONLRET\<close>; letters are in upper case with \<open>OLCUC\<close>.
\<close>

definition newline_bytes :: "u32 \<Rightarrow> u8 list" where
  "newline_bytes fl = (if fl AND 0x4 \<noteq> 0 then [13, 10] else [10])"

definition out_bytes :: "tty_struct \<Rightarrow> u8 \<Rightarrow> u8 list" where
  "out_bytes y c =
     (let fl = c_oflag (t_termios y) in
      if fl AND 0x1 = 0 then [c]
      else if c = 13 then (if fl AND 0x8 \<noteq> 0 then newline_bytes fl else [13])
      else if c = 10 then (if fl AND 0x20 \<noteq> 0 then [13] else newline_bytes fl)
      else if fl AND 0x2 \<noteq> 0 \<and> 97 \<le> c \<and> c \<le> 122 then [c - 32]
      else [c])"

lemma out_bytes_code:
  "out_bytes y c =
     (let d = map_output y c in
      if O_FLAG y OPOST \<and> O_FLAG y ONLCR \<and> d = 10 then [13, 10]
      else if O_FLAG y OPOST \<and> O_FLAG y OLCUC then [toupper d] else [d])"
  by (auto simp: out_bytes_def newline_bytes_def map_output_def O_FLAG_def toupper_def islower_def Let_def)

abbreviation "written t s \<equiv> queue_list (write_q (tty_table s t))"

definition from_user :: "u32 \<Rightarrow> nat \<Rightarrow> kernel \<Rightarrow> u8 list" where
  "from_user b n s = map (\<lambda>k. get_fs_byte (b + of_nat k) s) [0..<n]"

lemma from_user_Suc: "from_user b (Suc n) s = get_fs_byte b s # from_user (b + 1) n s"
proof -
  have "[0..<Suc n] = 0 # map Suc [0..<n]" by (simp add: map_Suc_upt upt_conv_Cons del: upt_Suc)
  then show ?thesis by (simp add: from_user_def comp_def add.assoc del: upt_Suc)
qed

lemma put_write_eq:
  assumes "queue_ok (write_q (tty_table s t))" "length (written t s) < 1023"
  shows "queue_ok (write_q (tty_table (put_write t c s) t))" "written t (put_write t c s) = written t s @ [c]"
    "t_termios (tty_table (put_write t c s) t) = t_termios (tty_table s t)" "cr_flag (put_write t c s) = cr_flag s"
  using assms FULL_iff [of "write_q (tty_table s t)"] by (auto simp: put_write_def)

lemma put_write_user [simp]: "user (put_write t c s) = user s"
  by (simp add: put_write_def)

lemma out_flags:
  assumes "t_termios z = t_termios y"
  shows "O_FLAG z = O_FLAG y" "map_output z = map_output y" "out_bytes z = out_bytes y"
proof -
  show f: "O_FLAG z = O_FLAG y" by (simp add: fun_eq_iff O_FLAG_def assms)
  show m: "map_output z = map_output y" by (simp add: fun_eq_iff map_output_def f)
  show "out_bytes z = out_bytes y" by (simp add: fun_eq_iff out_bytes_code f m Let_def)
qed

lemma write_chars_step:
  assumes "queue_ok (write_q (tty_table s t))" "\<not> cr_flag s"
    "length (written t s) + length (out_bytes (tty_table s t) (get_fs_byte b s)) \<le> 1023"
  shows "\<exists>u. write_chars t (Suc nr) b s = (let (k, v) = write_chars t nr (b + 1) u in (Suc k, v)) \<and>
    queue_ok (write_q (tty_table u t)) \<and> \<not> cr_flag u \<and> t_termios (tty_table u t) = t_termios (tty_table s t) \<and>
    written t u = written t s @ out_bytes (tty_table s t) (get_fs_byte b s) \<and> (\<forall>a. get_fs_byte a u = get_fs_byte a s)"
proof -
  let ?y = "tty_table s t" and ?c = "get_fs_byte b s"
  let ?d = "map_output ?y ?c"
  have "out_bytes ?y ?c \<noteq> []" by (simp add: out_bytes_code Let_def)
  then have len: "length (written t s) < 1023" using assms(3) by (cases "out_bytes ?y ?c") auto
  then have full: "\<not> FULL (write_q ?y)" using FULL_iff [OF assms(1)] by simp
  show ?thesis
  proof (cases "O_FLAG ?y OPOST \<and> ?d = 10 \<and> O_FLAG ?y ONLCR")
    case True
    let ?v = "put_write t 13 (s\<lparr>cr_flag := True\<rparr>)"
    have v: "queue_ok (write_q (tty_table ?v t))" "written t ?v = written t s @ [13]"
      "t_termios (tty_table ?v t) = t_termios ?y" "cr_flag ?v" "get_fs_byte a ?v = get_fs_byte a s" for a
      using put_write_eq [of "s\<lparr>cr_flag := True\<rparr>" t 13] assms(1) len by (simp_all add: get_fs_byte_def)
    have o: "out_bytes ?y ?c = [13, 10]" using True by (simp add: out_bytes_code)
    then have len2: "length (written t ?v) < 1023" using assms(3) v(2) by simp
    note w = out_flags [OF v(3)]
    let ?u = "put_write t 10 (?v\<lparr>cr_flag := False\<rparr>)"
    have "write_chars t (Suc nr) b s = write_chars t (Suc nr) b ?v"
      using full True assms(2) by (subst write_chars.simps) (simp add: Let_def)
    also have "\<dots> = (let (k, v) = write_chars t nr (b + 1) ?u in (Suc k, v))"
      using FULL_iff [OF v(1)] len2 True v w by (subst write_chars.simps) (simp add: Let_def toupper_def islower_def)
    finally show ?thesis using put_write_eq [of "?v\<lparr>cr_flag := False\<rparr>" t 10] v len2 o
      by (intro exI [of _ ?u]) (simp add: get_fs_byte_def)
  next
    case False
    let ?e = "if O_FLAG ?y OPOST \<and> O_FLAG ?y OLCUC then toupper ?d else ?d"
    let ?u = "put_write t ?e (s\<lparr>cr_flag := False\<rparr>)"
    have "write_chars t (Suc nr) b s = (let (k, v) = write_chars t nr (b + 1) ?u in (Suc k, v))"
      using full False by (subst write_chars.simps) (auto simp: Let_def)
    moreover have "out_bytes ?y ?c = [?e]" using False by (auto simp: out_bytes_code Let_def)
    ultimately show ?thesis using put_write_eq [of "s\<lparr>cr_flag := False\<rparr>" t ?e] assms(1) len
      by (intro exI [of _ ?u]) (simp add: get_fs_byte_def)
  qed
qed

text \<open>
  C26: as long as the write queue has room, \<open>tty_write\<close> takes every byte of the caller and puts what the output flags
  make of it into the queue, in order and once: with \<open>ONLCR\<close> each newline as a carriage return and a newline, and so on as \<open>out_bytes\<close> lists.
\<close>

theorem write_chars_out:
  assumes "queue_ok (write_q (tty_table s t))" "\<not> cr_flag s"
    "length (written t s) + length (concat (map (out_bytes (tty_table s t)) (from_user b nr s))) \<le> 1023"
  shows "\<exists>u. write_chars t nr b s = (nr, u) \<and>
    written t u = written t s @ concat (map (out_bytes (tty_table s t)) (from_user b nr s)) \<and> \<not> cr_flag u"
  using assms
proof (induction nr arbitrary: b s)
  case 0
  then show ?case by (subst write_chars.simps) (simp add: from_user_def)
next
  case (Suc nr)
  let ?o = "out_bytes (tty_table s t)"
  have l: "length (written t s) + (length (?o (get_fs_byte b s)) + length (concat (map ?o (from_user (b + 1) nr s)))) \<le> 1023"
    using Suc.prems(3) by (simp add: from_user_Suc)
  then obtain u where u: "write_chars t (Suc nr) b s = (let (k, v) = write_chars t nr (b + 1) u in (Suc k, v))"
    "queue_ok (write_q (tty_table u t))" "\<not> cr_flag u" "t_termios (tty_table u t) = t_termios (tty_table s t)"
    "written t u = written t s @ ?o (get_fs_byte b s)" "\<forall>a. get_fs_byte a u = get_fs_byte a s"
    using write_chars_step [OF Suc.prems(1,2)] by (metis (no_types, lifting) add.assoc add_leD1)
  have "from_user (b + 1) nr u = from_user (b + 1) nr s" using u(6) by (simp add: from_user_def)
  then show ?case using Suc.IH [OF u(2,3), of "b + 1"] u l out_flags(3) [OF u(4)] by (auto simp: from_user_Suc)
qed

text \<open>"a" and a newline to the console, which maps a newline to a carriage return and a newline.\<close>

definition hello_state :: kernel where
  "hello_state = boot_kernel\<lparr>user := (\<lambda>_. 0)(64 := 97, 65 := 10)\<rparr>"

theorem write_chars_out_witness:
  "\<exists>u. write_chars 0 2 64 hello_state = (2, u) \<and> queue_list (write_q (tty_table u 0)) = [97, 13, 10]"
proof -
  have y: "c_oflag (t_termios (tty_table hello_state 0)) = 5" "write_q (tty_table hello_state 0) = init_queue 0"
    by (simp_all add: hello_state_def init_tty_def Let_def)
  have q: "queue_ok (init_queue 0)" "queue_list (init_queue 0) = []"
    by (simp_all add: queue_ok_def queue_list_def init_queue_def CHARS_def)
  have f: "from_user 64 2 hello_state = [97, 10]"
    by (simp add: from_user_def hello_state_def get_fs_byte_def upt_rec)
  have "map (out_bytes (tty_table hello_state 0)) [97, 10] = [[97], [13, 10]]"
    by (simp add: out_bytes_def newline_bytes_def y)
  then show ?thesis using write_chars_out [of hello_state 0 64 2] by (simp add: y q f) (auto simp: hello_state_def)
qed

section \<open>Sequences that go wrong\<close>

text \<open>
  \<open>con_write\<close> counts the bytes to write before its loop. When \<open>respond\<close> echoes in the middle of it, the inner \<open>con_write\<close>
  empties the queue, and the next \<open>GETCH\<close> of the outer loop makes the empty queue look full of old bytes.
\<close>

lemma getch_empty_overruns:
  assumes "queue_ok q" "EMPTY q"
  shows "length (queue_list (snd (GETCH q))) = 1023"
proof -
  have "unat (CHARS (snd (GETCH q))) = (unat (q_head q) + 1024 - (unat (q_head q) + 1) mod 1024) mod 1024"
    using assms unat_CHARS [OF queue_ok_GETCH [OF assms(1)]] by (simp add: GETCH_def unat_INC EMPTY_def)
  also have "\<dots> = 1023" using assms(1) by (cases "unat (q_head q) = 1023") (simp_all add: queue_ok_def)
  finally show ?thesis by (simp add: length_queue_list)
qed

text \<open>The sequence ESC 7 saves the cursor only if it happens to be in column 55.\<close>

lemma escape_7_ignored:
  assumes "con_x (console s) \<noteq> 55" "con_x (console s) \<noteq> 56"
  shows "con_escape 0x37 s = (False, upd_con (\<lambda>c. c\<lparr>con_state := 0\<rparr>) s)"
  using assms by (simp add: con_escape_def Let_def)

end
