(* ===== verification/Malloc.thy ===== *)
theory Malloc
  imports Memory
begin

text \<open>
  lib/malloc.c, the kernel's allocator of small objects. The bucket descriptors are records in a map from their addresses,
  and the links of the free objects are words of physical memory, as the page allocator of \<open>Memory\<close> has it.
  A null pointer is the address 0.
\<close>

section \<open>Definitions\<close>

record bucket_desc =
  bd_page :: u32
  bd_next :: u32
  bd_freeptr :: u32
  bd_refcnt :: u16
  bd_size :: u16

text \<open>\<open>chain\<close> gives the chains of \<open>bucket_dir\<close>, by the position of their size in the table.\<close>

record pool =
  chain :: "nat \<Rightarrow> u32"
  free_bucket_desc :: u32
  descs :: "u32 \<Rightarrow> bucket_desc"

definition bucket_sizes :: "nat list" where
  "bucket_sizes = [16, 32, 64, 128, 256, 512, 1024, 2048, 4096]"

definition zero_desc :: bucket_desc where
  "zero_desc = \<lparr>bd_page = 0, bd_next = 0, bd_freeptr = 0, bd_refcnt = 0, bd_size = 0\<rparr>"

definition upd_desc :: "u32 \<Rightarrow> (bucket_desc \<Rightarrow> bucket_desc) \<Rightarrow> pool \<Rightarrow> pool" where
  "upd_desc d f p = p\<lparr>descs := (descs p)(d := f (descs p d))\<rparr>"

text \<open>A page of 256 descriptors, zeroed by \<open>get_free_page\<close>, each linked to the next.\<close>

definition init_bucket_desc :: "pool \<Rightarrow> kernel \<Rightarrow> (pool \<times> kernel) option" where
  "init_bucket_desc p s =
     (case get_free_page s of (first, s) \<Rightarrow>
        if first = 0 then panic ''Out of memory in init_bucket_desc()''
        else
          let p = p\<lparr>descs := (\<lambda>a. if frame_of a = first then zero_desc else descs p a)\<rparr>;
              p = fold (\<lambda>k. upd_desc (first + of_nat (16 * k)) (\<lambda>d. d\<lparr>bd_next := first + of_nat (16 * Suc k)\<rparr>)) [0..<255] p;
              p = upd_desc (first + of_nat (16 * 255)) (\<lambda>d. d\<lparr>bd_next := free_bucket_desc p\<rparr>) p
          in Some (p\<lparr>free_bucket_desc := first\<rparr>, s))"

text \<open>The search of a chain for a descriptor with a free object; 0 when it ends.\<close>

partial_function (option) find_free :: "pool \<Rightarrow> u32 \<Rightarrow> u32 option" where
  "find_free p d =
     (if d = 0 then Some 0
      else if bd_freeptr (descs p d) \<noteq> 0 then Some d
      else find_free p (bd_next (descs p d)))"

text \<open>The chain of free objects in a new page.\<close>

definition link_objects :: "u32 \<Rightarrow> nat \<Rightarrow> kernel \<Rightarrow> kernel" where
  "link_objects cp B s =
     (let n = 4096 div B;
          s = fold (\<lambda>k. set_long (cp + of_nat (B * k)) (cp + of_nat (B * Suc k))) [0..<n - 1] s
      in set_long (cp + of_nat (B * (n - 1))) 0 s)"

definition new_bucket :: "nat \<Rightarrow> pool \<Rightarrow> kernel \<Rightarrow> (u32 \<times> pool \<times> kernel) option" where
  "new_bucket b p s =
     do { (p, s) \<leftarrow> (if free_bucket_desc p = 0 then init_bucket_desc p s else Some (p, s));
          let d = free_bucket_desc p;
          let p = p\<lparr>free_bucket_desc := bd_next (descs p d)\<rparr>;
          let B = bucket_sizes ! b;
          (case get_free_page s of (cp, s) \<Rightarrow>
             let p = upd_desc d (\<lambda>x. x\<lparr>bd_refcnt := 0, bd_size := of_nat B, bd_page := cp, bd_freeptr := cp\<rparr>) p in
             if cp = 0 then panic ''Out of memory in kernel malloc()''
             else
               let s = link_objects cp B s;
                   p = upd_desc d (\<lambda>x. x\<lparr>bd_next := chain p b\<rparr>) p
               in Some (d, p\<lparr>chain := (chain p)(b := d)\<rparr>, s)) }"

definition malloc :: "nat \<Rightarrow> pool \<Rightarrow> kernel \<Rightarrow> (u32 \<times> pool \<times> kernel) option" where
  "malloc len p s =
     (case find (\<lambda>b. len \<le> bucket_sizes ! b) [0..<length bucket_sizes] of
        None \<Rightarrow> panic ''malloc: bad arg''
      | Some b \<Rightarrow>
          do { d \<leftarrow> find_free p (chain p b);
               (d, p, s) \<leftarrow> (if d = 0 then new_bucket b p s else Some (d, p, s));
               let retval = bd_freeptr (descs p d);
               Some (retval, upd_desc d (\<lambda>x. x\<lparr>bd_freeptr := hw32 s retval, bd_refcnt := bd_refcnt x + 1\<rparr>) p, s) })"

text \<open>The search of a chain for a page: the descriptor, or 0, and the one before it.\<close>

partial_function (option) find_page :: "pool \<Rightarrow> u32 \<Rightarrow> u32 \<Rightarrow> u32 \<Rightarrow> (u32 \<times> u32) option" where
  "find_page p page prev d =
     (if d = 0 then Some (0, prev)
      else if bd_page (descs p d) = page then Some (d, prev)
      else find_page p page d (bd_next (descs p d)))"

fun find_object :: "int \<Rightarrow> u32 \<Rightarrow> nat list \<Rightarrow> pool \<Rightarrow> (nat \<times> u32 \<times> u32) option" where
  "find_object sz page [] p = panic ''Bad address passed to kernel free_s()''"
| "find_object sz page (b # bs) p =
     (if int (bucket_sizes ! b) < sz then find_object sz page bs p
      else
        do { (d, prev) \<leftarrow> find_page p page 0 (chain p b);
             if d \<noteq> 0 then Some (b, d, prev) else find_object sz page bs p })"

text \<open>The second search for the predecessor, when the first one is out of date.\<close>

partial_function (option) find_prev :: "pool \<Rightarrow> u32 \<Rightarrow> u32 \<Rightarrow> u32 option" where
  "find_prev p d prev =
     (if prev = 0 then Some 0
      else if bd_next (descs p prev) = d then Some prev
      else find_prev p d (bd_next (descs p prev)))"

definition unlink_bucket :: "nat \<Rightarrow> u32 \<Rightarrow> u32 \<Rightarrow> pool \<Rightarrow> pool option" where
  "unlink_bucket b d prev p =
     (if prev \<noteq> 0 then Some (upd_desc prev (\<lambda>x. x\<lparr>bd_next := bd_next (descs p d)\<rparr>) p)
      else if chain p b \<noteq> d then panic ''malloc bucket chains corrupted''
      else Some (p\<lparr>chain := (chain p)(b := bd_next (descs p d))\<rparr>))"

definition free_s :: "u32 \<Rightarrow> int \<Rightarrow> pool \<Rightarrow> kernel \<Rightarrow> (pool \<times> kernel) option" where
  "free_s obj sz p s =
     do { (b, d, prev) \<leftarrow> find_object sz (frame_of obj) [0..<length bucket_sizes] p;
          let s = set_long obj (bd_freeptr (descs p d)) s;
          let p = upd_desc d (\<lambda>x. x\<lparr>bd_freeptr := obj, bd_refcnt := bd_refcnt x - 1\<rparr>) p;
          if bd_refcnt (descs p d) \<noteq> 0 then Some (p, s)
          else do {
            prev \<leftarrow> (if prev \<noteq> 0 \<and> bd_next (descs p prev) \<noteq> d \<or> prev = 0 \<and> chain p b \<noteq> d
                     then find_prev p d (chain p b) else Some prev);
            p \<leftarrow> unlink_bucket b d prev p;
            s \<leftarrow> free_page (bd_page (descs p d)) s;
            let p = upd_desc d (\<lambda>x. x\<lparr>bd_next := free_bucket_desc p\<rparr>) p;
            Some (p\<lparr>free_bucket_desc := d\<rparr>, s) } }"

section \<open>Linked lists\<close>

text \<open>\<open>linked next q xs\<close>: from \<open>q\<close>, the pointers \<open>next\<close> lead through exactly the addresses \<open>xs\<close> to the null pointer.\<close>

fun linked :: "(u32 \<Rightarrow> u32) \<Rightarrow> u32 \<Rightarrow> u32 list \<Rightarrow> bool" where
  "linked nx q [] \<longleftrightarrow> q = 0"
| "linked nx q (d # ds) \<longleftrightarrow> q = d \<and> d \<noteq> 0 \<and> linked nx (nx d) ds"

lemma linked_cong: "(\<And>x. x \<in> set xs \<Longrightarrow> f x = g x) \<Longrightarrow> linked f q xs = linked g q xs"
  by (induction xs arbitrary: q) auto

lemma linked_null: "linked f 0 xs \<longleftrightarrow> xs = []"
  by (cases xs) auto

lemma linked_nonnull: "linked f q xs \<Longrightarrow> q \<noteq> 0 \<Longrightarrow> \<exists>ys. xs = q # ys \<and> linked f (f q) ys"
  by (cases xs) auto

lemma linked_not_null: "linked f q xs \<Longrightarrow> x \<in> set xs \<Longrightarrow> x \<noteq> 0"
  by (induction xs arbitrary: q) auto

lemma linked_steps:
  assumes "\<And>k. Suc k < n \<Longrightarrow> g (addr k) = addr (Suc k)" "\<And>k. Suc k = n \<Longrightarrow> g (addr k) = 0" "\<And>k. k < n \<Longrightarrow> addr k \<noteq> 0" "j < n"
  shows "linked g (addr j) (map addr [j..<n])"
  using assms(4)
proof (induction "n - j" arbitrary: j)
  case (Suc m)
  show ?case
  proof (cases "Suc j = n")
    case True
    then have "[j..<n] = [j]" by auto
    then show ?thesis using assms(2,3) True Suc.prems by simp
  next
    case False
    then have j: "Suc j < n" "[j..<n] = j # [Suc j..<n]" using Suc.prems by (auto simp: upt_conv_Cons)
    have "linked g (addr (Suc j)) (map addr [Suc j..<n])" using Suc.hyps(1) [of "Suc j"] Suc.hyps(2) j(1) by simp
    then show ?thesis using j assms(1,3) Suc.prems by simp
  qed
qed simp

text \<open>The loops that link the pieces of a new page.\<close>

definition links :: "(nat \<Rightarrow> u32) \<Rightarrow> nat \<Rightarrow> (u32 \<Rightarrow> u32) \<Rightarrow> u32 \<Rightarrow> u32" where
  "links addr m f = fold (\<lambda>k g. g(addr k := addr (Suc k))) [0..<m] f"

lemma links_at:
  assumes "inj_on addr {..<n}" "m \<le> n" "k < n"
  shows "links addr m f (addr k) = (if k < m then addr (Suc k) else f (addr k))"
  using assms(2)
proof (induction m)
  case (Suc m)
  then have "addr k = addr m \<longleftrightarrow> k = m" using assms(1,3) by (auto simp: inj_on_def)
  then show ?case using Suc by (auto simp: links_def)
qed (simp add: links_def)

lemma links_other: "a \<notin> addr ` {..<m} \<Longrightarrow> links addr m f a = f a"
  by (induction m) (auto simp: links_def lessThan_Suc)

lemma links_linked:
  assumes "inj_on addr {..<n}" "\<And>k. k < n \<Longrightarrow> addr k \<noteq> 0" "0 < n"
  shows "linked ((links addr (n - 1) f)(addr (n - 1) := 0)) (addr 0) (map addr [0..<n])"
proof (rule linked_steps)
  fix k assume k: "Suc k < n"
  then have "addr k \<noteq> addr (n - 1)" using inj_onD [OF assms(1), of k "n - 1"] by auto
  then show "((links addr (n - 1) f)(addr (n - 1) := 0)) (addr k) = addr (Suc k)"
    using links_at [OF assms(1), of "n - 1" k f] k by (simp add: less_diff_conv)
qed (use assms in auto)

section \<open>The pieces of a page\<close>

definition piece :: "u32 \<Rightarrow> nat \<Rightarrow> nat \<Rightarrow> u32" where
  "piece page B k = page + of_nat (B * k)"

definition objs :: "u32 \<Rightarrow> nat \<Rightarrow> u32 list" where
  "objs page B = map (piece page B) [0..<4096 div B]"

lemma unat_piece:
  assumes "i < PAGING_PAGES" "0 < B" "k < 4096 div B"
  shows "unat (piece (page_addr i) B k) = unat (page_addr i) + B * k" "B * k < 4096"
proof -
  have "B * k < B * (4096 div B)" using assms(2,3) by simp
  also have "\<dots> \<le> 4096" by (rule times_div_less_eq_dividend)
  finally show k: "B * k < 4096" .
  have "unat (of_nat (B * k) :: u32) = B * k" using k by (simp add: unat_of_nat del: of_nat_mult)
  then show "unat (piece (page_addr i) B k) = unat (page_addr i) + B * k"
    unfolding piece_def using k assms(1) by (subst unat_add_le) (simp_all add: unat_page_addr)
qed

lemma frame_of_piece:
  assumes "i < PAGING_PAGES" "0 < B" "k < 4096 div B"
  shows "frame_of (piece (page_addr i) B k) = page_addr i"
proof -
  have "unat (frame_of (piece (page_addr i) B k)) = (4096 * i + 0x100000 + B * k) div 4096 * 4096"
    using unat_piece [OF assms] assms(1) by (simp add: frame_of_unat unat_page_addr)
  also have "4096 * i + 0x100000 + B * k = B * k + (i + 256) * 4096" by simp
  also have "\<dots> div 4096 = i + 256" using unat_piece(2) [OF assms] by (subst div_mult_self1) simp_all
  also have "(i + 256) * 4096 = unat (page_addr i)" using assms(1) by (simp add: unat_page_addr)
  finally show ?thesis by (simp only: word_unat_eq_iff)
qed

lemma piece_inj:
  assumes "i < PAGING_PAGES" "0 < B"
  shows "inj_on (piece (page_addr i) B) {..<4096 div B}"
proof (rule inj_onI)
  fix k j assume "k \<in> {..<4096 div B}" "j \<in> {..<4096 div B}" "piece (page_addr i) B k = piece (page_addr i) B j"
  then have "unat (page_addr i) + B * k = unat (page_addr i) + B * j"
    using unat_piece(1) [OF assms] by (metis lessThan_iff)
  then show "k = j" using assms(2) by simp
qed

lemma piece_nonzero: "i < PAGING_PAGES \<Longrightarrow> 0 < B \<Longrightarrow> k < 4096 div B \<Longrightarrow> piece (page_addr i) B k \<noteq> 0"
  using unat_piece(1) [of i B k] unat_page_addr [of i] by (metis add_is_0 unat_0 zero_neq_numeral)

lemma objs_facts:
  assumes "i < PAGING_PAGES" "0 < B"
  shows "distinct (objs (page_addr i) B)" "\<And>x. x \<in> set (objs (page_addr i) B) \<Longrightarrow> frame_of x = page_addr i \<and> x \<noteq> 0"
    "length (objs page B) = 4096 div B"
  using assms piece_inj [OF assms] frame_of_piece [OF assms] piece_nonzero [OF assms]
  by (auto simp: objs_def distinct_map atLeast0LessThan)

lemma objs_linked:
  assumes "i < PAGING_PAGES" "0 < B" "B \<le> 4096"
  shows "linked ((links (piece (page_addr i) B) (4096 div B - 1) f)(piece (page_addr i) B (4096 div B - 1) := 0))
    (page_addr i) (objs (page_addr i) B)"
proof -
  have "0 < 4096 div B" using assms(2,3) by (simp add: div_greater_zero_iff)
  from links_linked [OF piece_inj [OF assms(1,2)] _ this, of f] show ?thesis
    using piece_nonzero [OF assms(1,2)] by (simp add: objs_def piece_def)
qed

lemma hw32_link_objects:
  "hw32 (link_objects cp B s) = (links (piece cp B) (4096 div B - 1) (hw32 s))(piece cp B (4096 div B - 1) := 0)"
proof -
  have "hw32 (fold (\<lambda>k. set_long (cp + of_nat (B * k)) (cp + of_nat (B * Suc k))) ks s) =
      fold (\<lambda>k g. g(piece cp B k := piece cp B (Suc k))) ks (hw32 s)" for ks
    by (induction ks arbitrary: s) (simp_all add: set_long_def piece_def del: of_nat_mult)
  then show ?thesis by (simp add: link_objects_def links_def Let_def set_long_def piece_def)
qed

lemma link_objects_frame [simp]:
  "mem_map (link_objects cp B s) = mem_map s" "HIGH_MEMORY (link_objects cp B s) = HIGH_MEMORY s"
proof -
  have "mem_map (fold (\<lambda>k. set_long (cp + of_nat (B * k)) (cp + of_nat (B * Suc k))) ks s) = mem_map s"
    "HIGH_MEMORY (fold (\<lambda>k. set_long (cp + of_nat (B * k)) (cp + of_nat (B * Suc k))) ks s) = HIGH_MEMORY s" for ks
    by (induction ks arbitrary: s) (simp_all add: set_long_def del: of_nat_mult)
  then show "mem_map (link_objects cp B s) = mem_map s" "HIGH_MEMORY (link_objects cp B s) = HIGH_MEMORY s"
    by (simp_all add: link_objects_def Let_def set_long_def del: of_nat_mult)
qed

section \<open>The invariant of the pool\<close>

abbreviation size_of :: "nat \<Rightarrow> nat" where
  "size_of b \<equiv> bucket_sizes ! b"

abbreviation next_of :: "pool \<Rightarrow> u32 \<Rightarrow> u32" where
  "next_of p \<equiv> (\<lambda>d. bd_next (descs p d))"

text \<open>
  A descriptor of bucket \<open>b\<close> whose free objects are \<open>xs\<close>: its page is in use, the free objects are pieces of the page, linked
  through memory, and the rest of the pieces are counted.
\<close>

definition bucket_ok :: "kernel \<Rightarrow> nat \<Rightarrow> bucket_desc \<Rightarrow> u32 list \<Rightarrow> bool" where
  "bucket_ok s b d xs \<longleftrightarrow>
     bd_size d = of_nat (size_of b) \<and> (\<exists>i<PAGING_PAGES. bd_page d = page_addr i) \<and> 0 < page_refs s (bd_page d) \<and> linked (hw32 s) (bd_freeptr d) xs \<and>
     distinct xs \<and> set xs \<subseteq> set (objs (bd_page d) (size_of b)) \<and> unat (bd_refcnt d) + length xs = 4096 div size_of b"

definition buckets :: "(nat \<Rightarrow> u32 list) \<Rightarrow> u32 set" where
  "buckets ch = (\<Union>b<9. set (ch b))"

text \<open>
  \<open>ch b\<close> are the descriptors of bucket \<open>b\<close>, \<open>fds\<close> the unused ones, \<open>fr d\<close> the free objects of \<open>d\<close>. No page holds the
  objects of two descriptors, or both descriptors and objects.
\<close>

definition pool_inv :: "pool \<Rightarrow> kernel \<Rightarrow> (nat \<Rightarrow> u32 list) \<Rightarrow> u32 list \<Rightarrow> (u32 \<Rightarrow> u32 list) \<Rightarrow> bool" where
  "pool_inv p s ch fds fr \<longleftrightarrow>
     mm_wf s \<and> (\<forall>b<9. linked (next_of p) (chain p b) (ch b)) \<and> linked (next_of p) (free_bucket_desc p) fds \<and>
     (\<forall>b<9. \<forall>c<9. b \<noteq> c \<longrightarrow> set (ch b) \<inter> set (ch c) = {}) \<and> buckets ch \<inter> set fds = {} \<and> distinct fds \<and>
     (\<forall>d\<in>buckets ch \<union> set fds. 0 < page_refs s (frame_of d)) \<and>
     (\<forall>b<9. \<forall>d\<in>set (ch b). bucket_ok s b (descs p d) (fr d)) \<and>
     inj_on (\<lambda>d. bd_page (descs p d)) (buckets ch) \<and>
     (\<forall>d\<in>buckets ch. \<forall>e\<in>buckets ch \<union> set fds. bd_page (descs p d) \<noteq> frame_of e)"

text \<open>The objects in use.\<close>

definition allocated :: "pool \<Rightarrow> (nat \<Rightarrow> u32 list) \<Rightarrow> (u32 \<Rightarrow> u32 list) \<Rightarrow> u32 set" where
  "allocated p ch fr = {x. \<exists>b<9. \<exists>d\<in>set (ch b). x \<in> set (objs (bd_page (descs p d)) (size_of b)) - set (fr d)}"

lemma allocatedI:
  "b < 9 \<Longrightarrow> d \<in> set (ch b) \<Longrightarrow> x \<in> set (objs (bd_page (descs p d)) (size_of b)) \<Longrightarrow> x \<notin> set (fr d) \<Longrightarrow> x \<in> allocated p ch fr"
  unfolding allocated_def by blast

lemma in_buckets: "b < 9 \<Longrightarrow> d \<in> set (ch b) \<Longrightarrow> d \<in> buckets ch"
  by (auto simp: buckets_def)

lemma size_of_bounds: "b < 9 \<Longrightarrow> 16 \<le> size_of b \<and> size_of b \<le> 4096"
proof -
  assume "b < 9"
  then have "b = 0 \<or> b = 1 \<or> b = 2 \<or> b = 3 \<or> b = 4 \<or> b = 5 \<or> b = 6 \<or> b = 7 \<or> b = 8" by arith
  then show ?thesis by (auto simp: bucket_sizes_def)
qed

lemma pool_bucket: "pool_inv p s ch fds fr \<Longrightarrow> b < 9 \<Longrightarrow> d \<in> set (ch b) \<Longrightarrow> bucket_ok s b (descs p d) (fr d)"
  by (simp add: pool_inv_def)

lemma pool_chain: "pool_inv p s ch fds fr \<Longrightarrow> b < 9 \<Longrightarrow> linked (next_of p) (chain p b) (ch b)"
  by (simp add: pool_inv_def)

lemma bucket_page: "bucket_ok s b d xs \<Longrightarrow> \<exists>i<PAGING_PAGES. bd_page d = page_addr i"
  by (simp add: bucket_ok_def)

text \<open>The end of \<open>malloc\<close>: an object is taken off a free list.\<close>

lemma take_object:
  assumes inv: "pool_inv p s ch fds fr" and b: "b < 9" "d \<in> set (ch b)" and x: "bd_freeptr (descs p d) = x" "x \<noteq> 0"
  defines "q \<equiv> upd_desc d (\<lambda>y. y\<lparr>bd_freeptr := hw32 s x, bd_refcnt := bd_refcnt y + 1\<rparr>) p"
  shows "pool_inv q s ch fds (fr(d := tl (fr d)))" "x \<notin> allocated p ch fr"
    "allocated q ch (fr(d := tl (fr d))) = insert x (allocated p ch fr)" "x \<in> set (objs (bd_page (descs p d)) (size_of b))"
proof -
  let ?fr = "fr(d := tl (fr d))"
  have ok: "bucket_ok s b (descs p d) (fr d)" and dis: "\<And>c. c < 9 \<Longrightarrow> d \<in> set (ch c) \<Longrightarrow> c = b"
    and inj: "inj_on (\<lambda>d. bd_page (descs p d)) (buckets ch)" and db: "d \<in> buckets ch"
    using inv b in_buckets [of b d ch] by (auto simp: pool_inv_def)
  obtain i where i: "i < PAGING_PAGES" "bd_page (descs p d) = page_addr i" using ok by (auto simp: bucket_ok_def)
  obtain ys where ys: "fr d = x # ys" "linked (hw32 s) (hw32 s x) ys" "x \<notin> set ys"
    using linked_nonnull [of "hw32 s" x "fr d"] ok x by (auto simp: bucket_ok_def)
  have page: "bd_page (descs q e) = bd_page (descs p e)" "next_of q e = next_of p e" for e by (simp_all add: q_def upd_desc_def)
  have small: "4096 div size_of b \<le> 256" using size_of_bounds [OF b(1)] div_le_mono2 [of 16 "size_of b" 4096] by simp
  have "unat (bd_refcnt (descs p d) + 1) = unat (bd_refcnt (descs p d)) + 1"
    using ok small by (auto simp: bucket_ok_def unat_word_ariths ys(1))
  then have okd: "bucket_ok s b (descs q d) (tl (fr d))"
    using ok ys by (auto simp: bucket_ok_def q_def upd_desc_def)
  have "bucket_ok s c (descs q e) (?fr e)" if "c < 9" "e \<in> set (ch c)" for c e
    using that okd dis [of c] inv by (auto simp: pool_inv_def q_def upd_desc_def)
  then show "pool_inv q s ch fds ?fr"
    using inv unfolding pool_inv_def page by (auto simp: q_def upd_desc_def)
  show xo: "x \<in> set (objs (bd_page (descs p d)) (size_of b))" using ok ys(1) by (auto simp: bucket_ok_def)
  have "e = d" if e: "c < 9" "e \<in> set (ch c)" "x \<in> set (objs (bd_page (descs p e)) (size_of c))" for c e
  proof -
    obtain j where j: "j < PAGING_PAGES" "bd_page (descs p e) = page_addr j"
      using bucket_page [OF pool_bucket [OF inv e(1,2)]] by blast
    have "page_addr j = page_addr i"
      using objs_facts(2) [OF j(1), of "size_of c" x] objs_facts(2) [OF i(1), of "size_of b" x] e(3) xo i(2) j(2)
        size_of_bounds [OF e(1)] size_of_bounds [OF b(1)] by simp
    then show ?thesis using inj_onD [OF inj, of e d] in_buckets [of c e ch] e(1,2) db i(2) j(2) by simp
  qed
  then show xn: "x \<notin> allocated p ch fr" using ys(1) by (auto simp: allocated_def)
  show "allocated q ch ?fr = insert x (allocated p ch fr)"
  proof (intro equalityI subsetI)
    fix y assume "y \<in> allocated q ch ?fr"
    then obtain c e where e: "c < 9" "e \<in> set (ch c)" "y \<in> set (objs (bd_page (descs p e)) (size_of c))" "y \<notin> set (?fr e)"
      unfolding allocated_def page by blast
    then have "y = x \<or> y \<notin> set (fr e)" using ys(1) by (cases "e = d") auto
    then show "y \<in> insert x (allocated p ch fr)" using e(1-3) unfolding allocated_def by blast
  next
    fix y assume "y \<in> insert x (allocated p ch fr)"
    moreover have "set (?fr e) \<subseteq> set (fr e)" for e using ys(1) by auto
    moreover have "x \<in> allocated q ch ?fr" unfolding allocated_def page using b xo ys(1,3) by auto
    ultimately show "y \<in> allocated q ch ?fr" unfolding allocated_def page by blast
  qed
qed

lemma find_free_linked:
  "linked (next_of p) q ds \<Longrightarrow> find_free p q = Some (case find (\<lambda>d. bd_freeptr (descs p d) \<noteq> 0) ds of None \<Rightarrow> 0 | Some d \<Rightarrow> d)"
proof (induction ds arbitrary: q)
  case Nil
  then show ?case by (subst find_free.simps) simp
next
  case (Cons d ds)
  then show ?case by (subst find_free.simps) auto
qed

section \<open>A new bucket\<close>

lemma get_free_page_fresh:
  assumes "mm_wf s" "i < PAGING_PAGES" "mem_map s i = 0"
  obtains j t where "j < PAGING_PAGES" "get_free_page s = (page_addr j, t)" "page_refs s (page_addr j) = 0"
    "page_refs t = (page_refs s)(page_addr j := 1)" "mm_wf t" "mem_map t = (mem_map s)(j := 1)" "HIGH_MEMORY t = HIGH_MEMORY s"
    "\<And>a. frame_of a \<noteq> page_addr j \<Longrightarrow> hw32 t a = hw32 s a"
proof (cases rule: get_free_page_cases [of s])
  case none
  then show ?thesis using assms by blast
next
  case (page j)
  note nz = page_addr_neq_0 [OF page(1)]
  show ?thesis
    using that [OF page(1,4) mm.alloc_fresh [OF assms(1) page(4) nz] mm.alloc_refs [OF assms(1) page(4) nz] mm.alloc_wf [OF assms(1) page(4)]]
    by (simp add: clear_page_def)
qed

text \<open>What lives on pages in use does not notice an allocation.\<close>

lemma bucket_ok_mono:
  assumes "bucket_ok s b d xs" "0 < size_of b" "\<And>q. 0 < page_refs s q \<Longrightarrow> 0 < page_refs t q"
    "\<And>a. 0 < page_refs s (frame_of a) \<Longrightarrow> hw32 t a = hw32 s a"
  shows "bucket_ok t b d xs"
proof -
  obtain i where i: "i < PAGING_PAGES" "bd_page d = page_addr i" using assms(1) by (auto simp: bucket_ok_def)
  have "linked (hw32 t) (bd_freeptr d) xs = linked (hw32 s) (bd_freeptr d) xs"
  proof (rule linked_cong)
    fix x assume "x \<in> set xs"
    then have "frame_of x = bd_page d" using assms(1,2) i objs_facts(2) [OF i(1), of "size_of b" x] by (auto simp: bucket_ok_def)
    then show "hw32 t x = hw32 s x" using assms(1,4) by (auto simp: bucket_ok_def)
  qed
  then show ?thesis using assms(1,3) by (auto simp: bucket_ok_def)
qed

text \<open>\<open>init_bucket_desc\<close> links the pieces of 16 bytes of a new page.\<close>

lemma init_bucket_desc_eq:
  assumes "get_free_page s = (page_addr i, t)" "i < PAGING_PAGES" "free_bucket_desc p = 0"
  shows "\<exists>q. init_bucket_desc p s = Some (q, t) \<and> chain q = chain p \<and> free_bucket_desc q = page_addr i \<and>
    linked (next_of q) (page_addr i) (objs (page_addr i) 16) \<and> (\<forall>a. frame_of a \<noteq> page_addr i \<longrightarrow> descs q a = descs p a)"
proof -
  let ?cp = "page_addr i"
  define p0 where "p0 = p\<lparr>descs := (\<lambda>a. if frame_of a = ?cp then zero_desc else descs p a)\<rparr>"
  define step where "step = (\<lambda>k. upd_desc (?cp + of_nat (16 * k)) (\<lambda>d. d\<lparr>bd_next := ?cp + of_nat (16 * Suc k)\<rparr>))"
  have nexts: "next_of (fold step ks r) = fold (\<lambda>k g. g(piece ?cp 16 k := piece ?cp 16 (Suc k))) ks (next_of r)" for ks r
  proof (induction ks arbitrary: r)
    case (Cons k ks)
    have "next_of (step k r) = (next_of r)(piece ?cp 16 k := piece ?cp 16 (Suc k))"
      by (auto simp: step_def upd_desc_def piece_def fun_eq_iff simp del: of_nat_mult)
    then show ?case using Cons by (simp add: fun_upd_def)
  qed simp
  have keep: "chain (fold step ks r) = chain r \<and> free_bucket_desc (fold step ks r) = free_bucket_desc r \<and>
      (\<forall>a. frame_of a \<noteq> ?cp \<longrightarrow> descs (fold step ks r) a = descs r a)" if "\<forall>k\<in>set ks. k < 256" for ks r
    using that
  proof (induction ks arbitrary: r)
    case (Cons k ks)
    then have "frame_of (piece ?cp 16 k) = ?cp" using frame_of_piece [OF assms(2), of 16 k] by simp
    then show ?case using Cons by (auto simp: step_def upd_desc_def piece_def simp del: of_nat_mult)
  qed simp
  define p1 where "p1 = fold step [0..<255] p0"
  have p1: "next_of p1 = links (piece ?cp 16) 255 (next_of p0)" unfolding p1_def nexts links_def ..
  have k1: "chain p1 = chain p" "free_bucket_desc p1 = 0" "\<And>a. frame_of a \<noteq> ?cp \<Longrightarrow> descs p1 a = descs p a"
    using keep [of "[0..<255]" p0] assms(3) by (auto simp: p1_def p0_def)
  let ?q = "(upd_desc (?cp + of_nat (16 * 255)) (\<lambda>d. d\<lparr>bd_next := 0\<rparr>) p1)\<lparr>free_bucket_desc := ?cp\<rparr>"
  have "init_bucket_desc p s = Some (?q, t)"
    using page_addr_neq_0 [OF assms(2)] k1(2) unfolding init_bucket_desc_def assms(1) prod.case Let_def
    by (simp only: p0_def [symmetric] step_def [symmetric] p1_def [symmetric]) simp
  moreover have "next_of ?q = (links (piece ?cp 16) 255 (next_of p0))(piece ?cp 16 255 := 0)"
    unfolding p1 [symmetric] by (auto simp: upd_desc_def piece_def fun_eq_iff)
  moreover have "frame_of (piece ?cp 16 255) = ?cp" using frame_of_piece [OF assms(2), of 16 255] by simp
  ultimately show ?thesis
    using objs_linked [OF assms(2), of 16 "next_of p0"] k1 by (auto simp: upd_desc_def piece_def)
qed

text \<open>Allocation of pages only adds to the memory in use.\<close>

definition extends :: "kernel \<Rightarrow> kernel \<Rightarrow> bool" where
  "extends s t \<longleftrightarrow> (\<forall>q. 0 < page_refs s q \<longrightarrow> 0 < page_refs t q) \<and> (\<forall>a. 0 < page_refs s (frame_of a) \<longrightarrow> hw32 t a = hw32 s a)"

lemma extends_refl: "extends s s"
  by (simp add: extends_def)

lemma extends_trans: "extends s t \<Longrightarrow> extends t u \<Longrightarrow> extends s u"
  by (auto simp: extends_def)

lemma extends_fresh:
  assumes "page_refs s P = 0" "page_refs t = (page_refs s)(P := 1)" "\<And>a. frame_of a \<noteq> P \<Longrightarrow> hw32 t a = hw32 s a"
  shows "extends s t"
proof -
  have "hw32 t a = hw32 s a" if "0 < page_refs s (frame_of a)" for a using that assms(1) by (intro assms(3)) auto
  then show ?thesis using assms(2) by (simp add: extends_def)
qed

lemma pool_buckets_extend:
  assumes "pool_inv p s ch fds fr" "extends s t" "b < 9" "d \<in> set (ch b)"
  shows "bucket_ok t b (descs p d) (fr d)"
  using bucket_ok_mono [OF pool_bucket [OF assms(1,3,4)]] assms(2) size_of_bounds [OF assms(3)] by (auto simp: extends_def)

lemma init_bucket_desc_inv:
  assumes inv: "pool_inv p s ch [] fr" and i: "i < PAGING_PAGES" "mem_map s i = 0"
  shows "\<exists>q t fds j. init_bucket_desc p s = Some (q, t) \<and> fds \<noteq> [] \<and> pool_inv q t ch fds fr \<and>
    allocated q ch fr = allocated p ch fr \<and> extends s t \<and> mem_map t = (mem_map s)(j := 1) \<and> chain q = chain p"
proof -
  have wf: "mm_wf s" and z: "free_bucket_desc p = 0" using inv by (auto simp: pool_inv_def)
  obtain j t where j: "j < PAGING_PAGES" "get_free_page s = (page_addr j, t)" "page_refs s (page_addr j) = 0"
    "page_refs t = (page_refs s)(page_addr j := 1)" "mm_wf t" "mem_map t = (mem_map s)(j := 1)"
    "\<And>a. frame_of a \<noteq> page_addr j \<Longrightarrow> hw32 t a = hw32 s a"
    using get_free_page_fresh [OF wf i] by metis
  let ?fds = "objs (page_addr j) 16"
  obtain q where q: "init_bucket_desc p s = Some (q, t)" "chain q = chain p" "free_bucket_desc q = page_addr j"
    "linked (next_of q) (page_addr j) ?fds" "\<And>a. frame_of a \<noteq> page_addr j \<Longrightarrow> descs q a = descs p a"
    using init_bucket_desc_eq [OF j(2,1) z] by blast
  have ext: "extends s t" by (rule extends_fresh [OF j(3,4,7)])
  have live: "frame_of d \<noteq> page_addr j" "descs q d = descs p d" if "d \<in> buckets ch" for d
  proof -
    show f: "frame_of d \<noteq> page_addr j" using inv that j(3) by (auto simp: pool_inv_def)
    then show "descs q d = descs p d" by (rule q(5))
  qed
  have fds: "distinct ?fds" "\<And>x. x \<in> set ?fds \<Longrightarrow> frame_of x = page_addr j" "?fds \<noteq> []"
    using objs_facts [OF j(1), of 16] by (auto simp: objs_def)
  have pg: "bd_page (descs p d) \<noteq> page_addr j" if "d \<in> buckets ch" for d
    using that inv j(3) by (force simp: pool_inv_def buckets_def bucket_ok_def)
  have "pool_inv q t ch ?fds fr"
    unfolding pool_inv_def
  proof (intro conjI allI impI ballI)
    show "linked (next_of q) (chain q b) (ch b)" if "b < 9" for b
    proof -
      have "linked (next_of q) (chain p b) (ch b) = linked (next_of p) (chain p b) (ch b)"
        using live(2) in_buckets [of b _ ch] that by (intro linked_cong) simp
      then show ?thesis using inv that q(2) by (simp add: pool_inv_def)
    qed
    show "buckets ch \<inter> set ?fds = {}" using live(1) fds(2) by blast
    show "0 < page_refs t (frame_of d)" if "d \<in> buckets ch \<union> set ?fds" for d
      using that fds(2) j(4) inv by (auto simp: pool_inv_def)
    show "bucket_ok t b (descs q d) (fr d)" if "b < 9" "d \<in> set (ch b)" for b d
      using pool_buckets_extend [OF inv ext that] live(2) in_buckets [OF that(1), of d ch] that(2) by simp
    show "inj_on (\<lambda>d. bd_page (descs q d)) (buckets ch)"
      using inv live(2) by (auto simp: pool_inv_def inj_on_def)
    show "bd_page (descs q d) \<noteq> frame_of e" if "d \<in> buckets ch" "e \<in> buckets ch \<union> set ?fds" for d e
      using that inv live(2) pg fds(2) by (auto simp: pool_inv_def)
    show "set (ch b) \<inter> set (ch c) = {}" if "b < 9" "c < 9" "b \<noteq> c" for b c using that inv by (simp add: pool_inv_def)
  qed (use j(5) q(3,4) fds(1) in simp_all)
  moreover have "allocated q ch fr = allocated p ch fr"
    using live(2) in_buckets [of _ _ ch] by (force simp: allocated_def)
  ultimately show ?thesis using q(1,2) fds(3) ext j(6) by blast
qed

lemma link_objects_refs: "page_refs (link_objects cp B s) = page_refs s" "mm_wf (link_objects cp B s) = mm_wf s"
  by (simp_all add: page_refs_def mm_wf_def fun_eq_iff)

text \<open>An unused descriptor \<open>d\<close> with a new page of free objects is put in front of the chain of bucket \<open>b\<close>.\<close>

lemma add_bucket_allocated:
  assumes d: "d \<notin> buckets ch" and b: "b < 9" and other: "\<And>e. e \<noteq> d \<Longrightarrow> descs q e = descs p e" and page: "bd_page (descs q d) = cp"
  shows "allocated q (ch(b := d # ch b)) (fr(d := objs cp (size_of b))) = allocated p ch fr" (is "allocated q ?ch ?fr = _")
proof -
  have "x \<in> allocated q ?ch ?fr \<longleftrightarrow> x \<in> allocated p ch fr" for x
  proof
    assume "x \<in> allocated q ?ch ?fr"
    then obtain c e where e: "c < 9" "e \<in> set (?ch c)" "x \<in> set (objs (bd_page (descs q e)) (size_of c))" "x \<notin> set (?fr e)"
      unfolding allocated_def by blast
    have "e \<noteq> d"
    proof
      assume "e = d"
      then have "c = b" using e d in_buckets [of c d ch] by (auto split: if_splits)
      then show False using e(3,4) \<open>e = d\<close> page by simp
    qed
    then have "e \<in> set (ch c)" "descs q e = descs p e" "?fr e = fr e" using e(2) other by (auto split: if_splits)
    then show "x \<in> allocated p ch fr" using e by (intro allocatedI [of c e]) simp_all
  next
    assume "x \<in> allocated p ch fr"
    then obtain c e where e: "c < 9" "e \<in> set (ch c)" "x \<in> set (objs (bd_page (descs p e)) (size_of c))" "x \<notin> set (fr e)"
      unfolding allocated_def by blast
    then have "e \<noteq> d" using d in_buckets [of c e ch] by blast
    then have "e \<in> set (?ch c)" "descs q e = descs p e" "?fr e = fr e" using e(2) other by auto
    then show "x \<in> allocated q ?ch ?fr" using e by (intro allocatedI [of c e]) simp_all
  qed
  then show ?thesis by blast
qed

lemma add_bucket_inv:
  assumes inv: "pool_inv p s ch (d # ds) fr" and b: "b < 9" and other: "\<And>e. e \<noteq> d \<Longrightarrow> descs q e = descs p e"
    and cq: "chain q = (chain p)(b := d)" "free_bucket_desc q = next_of p d" "next_of q d = chain p b"
    and okd: "bucket_ok t b (descs q d) (objs cp (size_of b))" and dq: "bd_page (descs q d) = cp"
    and mem: "extends s t" "mm_wf t" "page_refs s cp = 0"
  shows "pool_inv q t (ch(b := d # ch b)) ds (fr(d := objs cp (size_of b)))" (is "pool_inv q t ?ch ds ?fr")
proof -
  have d: "free_bucket_desc p = d" "d \<noteq> 0" "d \<notin> buckets ch" "d \<notin> set ds" "0 < page_refs s (frame_of d)"
    using inv by (auto simp: pool_inv_def)
  have bk: "buckets ?ch = insert d (buckets ch)" using b by (auto simp: buckets_def split: if_splits)
  have pg: "bd_page (descs p e) \<noteq> cp" if "e \<in> buckets ch" for e
    using that inv mem(3) by (force simp: pool_inv_def buckets_def bucket_ok_def)
  have same: "descs q e = descs p e" if "e \<in> buckets ch" for e using that d(3) other [of e] by auto
  show ?thesis
    unfolding pool_inv_def bk
  proof (intro conjI allI impI ballI)
    show "linked (next_of q) (chain q c) (?ch c)" if c: "c < 9" for c
    proof -
      have "linked (next_of q) (chain p c) (ch c) = linked (next_of p) (chain p c) (ch c)"
        using d(3) other in_buckets [of c _ ch] c by (intro linked_cong) metis
      then show ?thesis using pool_chain [OF inv c] cq d(2) by (cases "c = b") simp_all
    qed
    have "linked (next_of q) (next_of p d) ds = linked (next_of p) (next_of p d) ds"
      using d(4) other by (intro linked_cong) metis
    then show "linked (next_of q) (free_bucket_desc q) ds" using inv cq(2) by (simp add: pool_inv_def)
    show "set (?ch c) \<inter> set (?ch e) = {}" if "c < 9" "e < 9" "c \<noteq> e" for c e
      using that inv d(3) in_buckets [of _ d ch] by (auto simp: pool_inv_def)
    show "insert d (buckets ch) \<inter> set ds = {}" "distinct ds" using inv d(4) by (auto simp: pool_inv_def)
    show "0 < page_refs t (frame_of e)" if "e \<in> insert d (buckets ch) \<union> set ds" for e
      using that inv mem(1) d(5) by (auto simp: pool_inv_def extends_def)
    show "bucket_ok t c (descs q e) (?fr e)" if e: "c < 9" "e \<in> set (?ch c)" for c e
    proof (cases "e = d")
      case True
      then have "c = b" using e d(3) in_buckets [of c d ch] by (auto split: if_splits)
      then show ?thesis using True okd by simp
    next
      case False
      then have "e \<in> set (ch c)" using e by (auto split: if_splits)
      then show ?thesis using pool_buckets_extend [OF inv mem(1) e(1)] other [OF False] False by simp
    qed
    have "inj_on (\<lambda>d. bd_page (descs q d)) (buckets ch)" using inv same by (simp add: pool_inv_def inj_on_def)
    then show "inj_on (\<lambda>d. bd_page (descs q d)) (insert d (buckets ch))" using dq pg same by (fastforce simp: inj_on_insert)
    show "bd_page (descs q e) \<noteq> frame_of f" if "e \<in> insert d (buckets ch)" "f \<in> insert d (buckets ch) \<union> set ds" for e f
    proof (cases "e = d")
      case True
      have "0 < page_refs s (frame_of f)" using that(2) inv by (auto simp: pool_inv_def)
      then show ?thesis using True dq mem(3) by auto
    next
      case False
      then show ?thesis using that inv other [OF False] by (auto simp: pool_inv_def)
    qed
  qed (rule mem(2))
qed

lemma new_bucket_inv:
  assumes inv: "pool_inv p s ch (d # ds) fr" and b: "b < 9" and i: "i < PAGING_PAGES" "mem_map s i = 0"
  shows "\<exists>q t ch' fr'. new_bucket b p s = Some (d, q, t) \<and> pool_inv q t ch' ds fr' \<and> d \<in> set (ch' b) \<and>
    bd_freeptr (descs q d) \<noteq> 0 \<and> allocated q ch' fr' = allocated p ch fr \<and> extends s t"
proof -
  have wf: "mm_wf s" and d: "free_bucket_desc p = d" "d \<noteq> 0" "d \<notin> buckets ch"
    using inv by (auto simp: pool_inv_def)
  obtain j u where j: "j < PAGING_PAGES" "get_free_page s = (page_addr j, u)" "page_refs s (page_addr j) = 0"
    "page_refs u = (page_refs s)(page_addr j := 1)" "mm_wf u" "mem_map u = (mem_map s)(j := 1)" "HIGH_MEMORY u = HIGH_MEMORY s"
    "\<And>a. frame_of a \<noteq> page_addr j \<Longrightarrow> hw32 u a = hw32 s a"
    using get_free_page_fresh [OF wf i] by metis
  let ?cp = "page_addr j" and ?B = "size_of b"
  define t where "t = link_objects ?cp ?B u"
  define q where "q = (upd_desc d (\<lambda>x. x\<lparr>bd_refcnt := 0, bd_size := of_nat ?B, bd_page := ?cp, bd_freeptr := ?cp, bd_next := chain p b\<rparr>) p)
    \<lparr>free_bucket_desc := next_of p d, chain := (chain p)(b := d)\<rparr>"
  have run: "new_bucket b p s = Some (d, q, t)"
    using d(1,2) page_addr_neq_0 [OF j(1)] by (simp add: new_bucket_def j(2) q_def t_def upd_desc_def Let_def)
  have B: "0 < ?B" "?B \<le> 4096" "0 < 4096 div ?B" using size_of_bounds [OF b] by (auto simp: div_greater_zero_iff)
  have refs: "page_refs t = (page_refs s)(?cp := 1)" using j(4) by (simp add: t_def link_objects_refs)
  have mem: "hw32 t a = hw32 s a" if "frame_of a \<noteq> ?cp" for a
  proof -
    have ne: "a \<noteq> piece ?cp ?B k" if "k < 4096 div ?B" for k using frame_of_piece [OF j(1) B(1) that] \<open>frame_of a \<noteq> ?cp\<close> by blast
    moreover have "k < 4096 div ?B" if "k < 4096 div ?B - 1" for k using that by linarith
    ultimately have "a \<notin> piece ?cp ?B ` {..<4096 div ?B - 1}" by blast
    then show ?thesis using j(8) [OF that] ne [of "4096 div ?B - 1"] B(3) by (simp add: t_def hw32_link_objects links_other)
  qed
  have ext: "extends s t" using extends_fresh [OF j(3) refs mem] by blast
  have other: "descs q e = descs p e" if "e \<noteq> d" for e using that by (simp add: q_def upd_desc_def)
  have cq: "chain q = (chain p)(b := d)" "free_bucket_desc q = next_of p d" "next_of q d = chain p b"
    and dq: "bd_page (descs q d) = ?cp" "bd_freeptr (descs q d) = ?cp" "bd_refcnt (descs q d) = 0" "bd_size (descs q d) = of_nat ?B"
    by (simp_all add: q_def upd_desc_def)
  have okd: "bucket_ok t b (descs q d) (objs ?cp ?B)"
    unfolding bucket_ok_def dq using j(1) refs objs_linked [OF j(1) B(1,2), of "hw32 u"] objs_facts [OF j(1) B(1)]
    by (auto simp: t_def hw32_link_objects)
  have "mm_wf t" using j(5) by (simp add: t_def link_objects_refs)
  note facts = add_bucket_inv [OF inv b other cq okd dq(1) ext this j(3)] add_bucket_allocated [OF d(3) b other dq(1)]
  have "d \<in> set ((ch(b := d # ch b)) b)" "bd_freeptr (descs q d) \<noteq> 0" using dq(2) page_addr_neq_0 [OF j(1)] by auto
  then show ?thesis using run ext facts by blast
qed

section \<open>Allocation\<close>

lemma bucket_for:
  assumes "len \<le> 4096"
  obtains b where "find (\<lambda>b. len \<le> size_of b) [0..<length bucket_sizes] = Some b" "b < 9" "len \<le> size_of b" "\<forall>c<b. size_of c < len"
proof (cases "find (\<lambda>b. len \<le> size_of b) [0..<length bucket_sizes]")
  case None
  have "8 \<in> set [0..<length bucket_sizes]" by (simp add: bucket_sizes_def)
  then have "\<not> len \<le> size_of 8" using None unfolding find_None_iff by blast
  then show ?thesis using assms by (simp add: bucket_sizes_def)
next
  case (Some b)
  then have "b < length bucket_sizes" "len \<le> size_of b" "\<forall>c<b. size_of c < len" by (auto simp: find_Some_iff not_le)
  moreover have "length bucket_sizes = 9" by (simp add: bucket_sizes_def)
  ultimately show ?thesis using that Some by simp
qed

text \<open>
  A descriptor with a free object is there, in the chain or new.
\<close>

lemma bucket_available:
  assumes inv: "pool_inv p s ch fds fr" and b: "b < 9"
    and pages: "i < PAGING_PAGES" "j < PAGING_PAGES" "i \<noteq> j" "mem_map s i = 0" "mem_map s j = 0"
  shows "\<exists>d q t ch' fds' fr'. Option.bind (find_free p (chain p b)) (\<lambda>d. if d = 0 then new_bucket b p s else Some (d, p, s)) = Some (d, q, t) \<and>
    pool_inv q t ch' fds' fr' \<and> d \<in> set (ch' b) \<and> bd_freeptr (descs q d) \<noteq> 0 \<and> allocated q ch' fr' = allocated p ch fr \<and> extends s t"
proof (cases "find (\<lambda>d. bd_freeptr (descs p d) \<noteq> 0) (ch b)")
  case (Some d)
  then have "d \<in> set (ch b)" "bd_freeptr (descs p d) \<noteq> 0" by (auto simp: find_Some_iff)
  moreover have "linked (next_of p) (chain p b) (ch b)" using inv b by (simp add: pool_inv_def)
  then have "find_free p (chain p b) = Some d" "d \<noteq> 0" using Some \<open>d \<in> set (ch b)\<close>
    by (simp_all add: find_free_linked linked_not_null)
  ultimately show ?thesis using inv extends_refl [of s] by auto
next
  case None
  have "linked (next_of p) (chain p b) (ch b)" using inv b by (simp add: pool_inv_def)
  then have find: "find_free p (chain p b) = Some 0" using None by (simp add: find_free_linked)
  show ?thesis
  proof (cases fds)
    case (Cons d ds)
    then show ?thesis using new_bucket_inv [OF inv [unfolded Cons] b pages(1,4)] find by (auto simp: Cons) metis
  next
    case Nil
    have z: "free_bucket_desc p = 0" using inv Nil by (simp add: pool_inv_def)
    obtain p1 s1 ds k where 1: "init_bucket_desc p s = Some (p1, s1)" "ds \<noteq> []" "pool_inv p1 s1 ch ds fr"
      "allocated p1 ch fr = allocated p ch fr" "extends s s1" "mem_map s1 = (mem_map s)(k := 1)"
      using init_bucket_desc_inv [OF inv [unfolded Nil] pages(1,4)] by blast
    obtain d es where ds: "ds = d # es" using 1(2) by (cases ds) auto
    obtain l where l: "l < PAGING_PAGES" "mem_map s1 l = 0"
      using pages 1(6) by (cases "k = i") auto
    have "free_bucket_desc p1 \<noteq> 0" using 1(3) ds by (auto simp: pool_inv_def)
    then have "new_bucket b p s = new_bucket b p1 s1" using z 1(1) by (simp add: new_bucket_def)
    then show ?thesis
      using new_bucket_inv [OF 1(3) [unfolded ds] b l] find 1(4) extends_trans [OF 1(5)] by (auto simp: ds) metis
  qed
qed

lemma malloc_takes:
  assumes "pool_inv p s ch fds fr" "len \<le> 4096"
    "i < PAGING_PAGES" "j < PAGING_PAGES" "i \<noteq> j" "mem_map s i = 0" "mem_map s j = 0"
  shows "\<exists>x q t ch' fds' fr' b d. malloc len p s = Some (x, q, t) \<and> pool_inv q t ch' fds' fr' \<and>
    b < 9 \<and> len \<le> size_of b \<and> (\<forall>c<b. size_of c < len) \<and>
    d \<in> set (ch' b) \<and> x \<in> set (objs (bd_page (descs q d)) (size_of b)) \<and> x \<notin> set (fr' d) \<and>
    x \<notin> allocated p ch fr \<and> allocated q ch' fr' = insert x (allocated p ch fr) \<and> extends s t"
proof -
  obtain b where b: "find (\<lambda>b. len \<le> size_of b) [0..<length bucket_sizes] = Some b" "b < 9" "len \<le> size_of b" "\<forall>c<b. size_of c < len"
    using bucket_for [OF assms(2)] by blast
  obtain d q t ch' fds' fr' where d: "Option.bind (find_free p (chain p b)) (\<lambda>d. if d = 0 then new_bucket b p s else Some (d, p, s)) = Some (d, q, t)"
    "pool_inv q t ch' fds' fr'" "d \<in> set (ch' b)" "bd_freeptr (descs q d) \<noteq> 0" "allocated q ch' fr' = allocated p ch fr" "extends s t"
    using bucket_available [OF assms(1) b(2) assms(3-7)] by blast
  let ?x = "bd_freeptr (descs q d)"
  let ?r = "upd_desc d (\<lambda>y. y\<lparr>bd_freeptr := hw32 t ?x, bd_refcnt := bd_refcnt y + 1\<rparr>) q"
  note taken = take_object [OF d(2) b(2) d(3) refl d(4)]
  have run: "malloc len p s = Some (?x, ?r, t)"
    using d(1) by (cases "find_free p (chain p b)") (auto simp: malloc_def b(1) Let_def split: if_splits)
  have "linked (hw32 t) ?x (fr' d)" "distinct (fr' d)" using pool_bucket [OF d(2) b(2) d(3)] by (simp_all add: bucket_ok_def)
  then have free: "?x \<notin> set ((fr'(d := tl (fr' d))) d)" using d(4) linked_nonnull by fastforce
  have x: "?x \<in> set (objs (bd_page (descs ?r d)) (size_of b))" using taken(4) by (simp add: upd_desc_def)
  show ?thesis
    by (intro exI conjI) (rule run taken(1) b(2) b(3) b(4) d(3) x free taken(2) [unfolded d(5)] taken(3) [unfolded d(5)] d(6))+
qed

text \<open>
  C36: \<open>malloc\<close> hands out fresh memory. For a request of at most a page, and while two pages are free, it returns an object of
  the smallest bucket size that fits: a descriptor in the chain of that size owns the object's page, and the object lies at a
  multiple of the size in it. The object was not in use; exactly it is in use afterwards, no memory that was in use changes, and
  the pool's invariant is kept.
\<close>

theorem malloc_fresh:
  assumes "pool_inv p s ch fds fr" "len \<le> 4096"
    "i < PAGING_PAGES" "j < PAGING_PAGES" "i \<noteq> j" "mem_map s i = 0" "mem_map s j = 0"
  shows "\<exists>x q t ch' fds' fr' b d k m. malloc len p s = Some (x, q, t) \<and> pool_inv q t ch' fds' fr' \<and>
    b < 9 \<and> len \<le> bucket_sizes ! b \<and> (\<forall>c<b. bucket_sizes ! c < len) \<and>
    linked (next_of q) (chain q b) (ch' b) \<and> d \<in> set (ch' b) \<and>
    bd_size (descs q d) = of_nat (bucket_sizes ! b) \<and> bd_page (descs q d) = page_addr k \<and>
    k < PAGING_PAGES \<and> m < 4096 div bucket_sizes ! b \<and> x = page_addr k + of_nat (bucket_sizes ! b * m) \<and>
    x \<notin> allocated p ch fr \<and> allocated q ch' fr' = insert x (allocated p ch fr) \<and>
    (\<forall>a. 0 < page_refs s (frame_of a) \<longrightarrow> hw32 t a = hw32 s a)"
proof -
  obtain x q t ch' fds' fr' b d where r: "malloc len p s = Some (x, q, t)" "pool_inv q t ch' fds' fr'"
    "b < 9" "len \<le> size_of b" "\<forall>c<b. size_of c < len" "d \<in> set (ch' b)" "x \<in> set (objs (bd_page (descs q d)) (size_of b))"
    "x \<notin> allocated p ch fr" "allocated q ch' fr' = insert x (allocated p ch fr)" "extends s t"
    using malloc_takes [OF assms] by blast
  note ok = pool_bucket [OF r(2,3,6)]
  obtain k where k: "k < PAGING_PAGES" "bd_page (descs q d) = page_addr k" using bucket_page [OF ok] by blast
  obtain m where m: "m < 4096 div size_of b" "x = page_addr k + of_nat (size_of b * m)"
    using r(7) k(2) by (auto simp: objs_def piece_def)
  have sz: "bd_size (descs q d) = of_nat (size_of b)" using ok by (simp add: bucket_ok_def)
  have mem: "\<forall>a. 0 < page_refs s (frame_of a) \<longrightarrow> hw32 t a = hw32 s a" using r(10) by (simp add: extends_def)
  show ?thesis
    by (intro exI conjI) (rule r(1-5) pool_chain [OF r(2,3)] r(6) sz k m r(8,9) mem)+
qed

text \<open>An empty pool, on a machine with 16 MB.\<close>

definition empty_pool :: pool where
  "empty_pool = \<lparr>chain = (\<lambda>_. 0), free_bucket_desc = 0, descs = (\<lambda>_. zero_desc)\<rparr>"

lemma empty_pool_inv: "mm_wf s \<Longrightarrow> pool_inv empty_pool s (\<lambda>_. []) [] (\<lambda>_. [])"
  by (simp add: pool_inv_def empty_pool_def buckets_def)

lemma empty_allocated: "allocated p (\<lambda>_. []) fr = {}"
  by (simp add: allocated_def)

theorem malloc_fresh_witness:
  "\<exists>x q t ch fds fr. malloc 100 empty_pool (boot_kernel\<lparr>HIGH_MEMORY := 0x1000000\<rparr>) = Some (x, q, t) \<and>
     pool_inv q t ch fds fr \<and> allocated q ch fr = {x}"
proof -
  have "mem_map (boot_kernel\<lparr>HIGH_MEMORY := 0x1000000\<rparr>) k = 0" for k by (simp add: boot_kernel_def)
  then show ?thesis
    using malloc_fresh [OF empty_pool_inv [OF boot_mm_wf], of 100 2 3] by (simp add: empty_allocated) blast
qed

section \<open>Release\<close>

lemma linked_unique: "linked f q xs \<Longrightarrow> linked f q ys \<Longrightarrow> xs = ys"
proof (induction xs arbitrary: q ys)
  case (Cons x xs)
  then show ?case by (cases ys) auto
qed (auto simp: linked_null)

lemma linked_tail: "linked f q (xs @ d # ys) \<Longrightarrow> linked f d (d # ys)"
  by (induction xs arbitrary: q) auto

lemma linked_distinct: "linked f q xs \<Longrightarrow> distinct xs"
proof (induction xs arbitrary: q)
  case (Cons x xs)
  have "x \<notin> set xs"
  proof
    assume "x \<in> set xs"
    then obtain us vs where xs: "xs = us @ x # vs" by (meson split_list)
    then have "linked f x (x # vs)" using Cons.prems linked_tail [of f q "x # us" x vs] by simp
    then have "x # vs = x # xs" using Cons.prems linked_unique [of f x "x # vs" "x # xs"] by simp
    then show False using xs by (metis append_Cons append_self_conv2 length_append length_Cons lessI less_add_same_cancel2 less_irrefl list.inject not_add_less2)
  qed
  then show ?case using Cons by auto
qed simp

lemma linked_remove:
  assumes "linked f q (xs @ d # ys)"
  shows "if xs = [] then q = d \<and> linked f (f d) ys else linked (f(last xs := f d)) q (xs @ ys)"
proof (cases xs rule: rev_cases)
  case Nil
  then show ?thesis using assms by simp
next
  case (snoc us u)
  have dis: "distinct (us @ u # d # ys)" using linked_distinct [OF assms] snoc by simp
  let ?g = "f(u := f d)"
  have "linked ?g q (us @ u # ys)" if "linked f q (us @ u # d # ys)" "distinct (us @ u # d # ys)" for us q
    using that
  proof (induction us arbitrary: q)
    case Nil
    then have "linked ?g (f d) ys = linked f (f d) ys" by (intro linked_cong) auto
    then show ?case using Nil by (simp add: fun_upd_def)
  next
    case (Cons v us)
    then show ?case by auto
  qed
  then show ?thesis using assms dis snoc by simp
qed

lemma linked_prev:
  "linked f q (xs @ d # ys) \<Longrightarrow> \<not> (last (0 # xs) \<noteq> 0 \<and> f (last (0 # xs)) \<noteq> d \<or> last (0 # xs) = 0 \<and> q \<noteq> d)"
proof (cases xs rule: rev_cases)
  case (snoc us u)
  assume "linked f q (xs @ d # ys)"
  then have "linked f u (u # d # ys)" using linked_tail [of f q us u "d # ys"] snoc by simp
  then show ?thesis using snoc by simp
qed simp

lemma find_page_missing:
  "linked (next_of p) q ds \<Longrightarrow> (\<And>d. d \<in> set ds \<Longrightarrow> bd_page (descs p d) \<noteq> page) \<Longrightarrow> \<exists>r. find_page p page prev q = Some (0, r)"
proof (induction ds arbitrary: q prev)
  case Nil
  then show ?case by (subst find_page.simps) simp
next
  case (Cons d ds)
  then show ?case by (subst find_page.simps) auto
qed

lemma find_page_found:
  "linked (next_of p) q (as @ d # bs) \<Longrightarrow> (\<And>e. e \<in> set as \<Longrightarrow> bd_page (descs p e) \<noteq> page) \<Longrightarrow> bd_page (descs p d) = page \<Longrightarrow>
     find_page p page prev q = Some (d, last (prev # as))"
proof (induction as arbitrary: q prev)
  case Nil
  then show ?case by (subst find_page.simps) simp
next
  case (Cons e as)
  then show ?case by (subst find_page.simps) auto
qed

lemma find_object_found:
  assumes "\<And>c. c \<in> set cs \<Longrightarrow> \<exists>ds. linked (next_of p) (chain p c) ds \<and> (\<forall>e\<in>set ds. bd_page (descs p e) \<noteq> page)"
    "linked (next_of p) (chain p b) (as @ d # bs)" "\<And>e. e \<in> set as \<Longrightarrow> bd_page (descs p e) \<noteq> page" "bd_page (descs p d) = page"
    "sz \<le> int (size_of b)"
  shows "find_object sz page (cs @ b # rest) p = Some (b, d, last (0 # as))"
  using assms(1)
proof (induction cs)
  case Nil
  have "d \<noteq> 0" using linked_not_null [OF assms(2), of d] by simp
  then show ?case using find_page_found [OF assms(2-4), of 0] assms(5) by simp
next
  case (Cons c cs)
  then obtain r where "find_page p page 0 (chain p c) = Some (0, r)" using find_page_missing [of p "chain p c"] by (metis list.set_intros(1))
  then show ?case using Cons by simp
qed

text \<open>The object goes back to the front of its free list.\<close>

lemma put_object:
  assumes inv: "pool_inv p s ch fds fr" and b: "b < 9" "d \<in> set (ch b)"
    and x: "x \<in> set (objs (bd_page (descs p d)) (size_of b))" "x \<notin> set (fr d)"
  defines "q \<equiv> upd_desc d (\<lambda>y. y\<lparr>bd_freeptr := x, bd_refcnt := bd_refcnt y - 1\<rparr>) p"
    and "t \<equiv> set_long x (bd_freeptr (descs p d)) s"
  shows "pool_inv q t ch fds (fr(d := x # fr d))" "allocated q ch (fr(d := x # fr d)) = allocated p ch fr - {x}"
proof -
  let ?fr = "fr(d := x # fr d)"
  have ok: "bucket_ok s b (descs p d) (fr d)" and dis: "\<And>c. c < 9 \<Longrightarrow> d \<in> set (ch c) \<Longrightarrow> c = b"
    and inj: "inj_on (\<lambda>d. bd_page (descs p d)) (buckets ch)" and db: "d \<in> buckets ch"
    using inv b in_buckets [of b d ch] by (auto simp: pool_inv_def)
  have B: "0 < size_of b" using size_of_bounds [OF b(1)] by simp
  obtain i where i: "i < PAGING_PAGES" "bd_page (descs p d) = page_addr i" using bucket_page [OF ok] by blast
  have fx: "frame_of x = page_addr i" "x \<noteq> 0" using objs_facts(2) [OF i(1) B] x(1) i(2) by auto
  have page: "bd_page (descs q e) = bd_page (descs p e)" "next_of q e = next_of p e" for e by (simp_all add: q_def upd_desc_def)
  have refs: "page_refs t = page_refs s" "mm_wf t = mm_wf s" by (simp_all add: t_def set_long_def page_refs_def mm_wf_def fun_eq_iff)
  have own: "e = d" if e: "c < 9" "e \<in> set (ch c)" "x \<in> set (objs (bd_page (descs p e)) (size_of c))" for c e
  proof -
    obtain j where j: "j < PAGING_PAGES" "bd_page (descs p e) = page_addr j" using bucket_page [OF pool_bucket [OF inv e(1,2)]] by blast
    have "page_addr j = page_addr i" using objs_facts(2) [OF j(1), of "size_of c" x] e(3) fx(1) j(2) size_of_bounds [OF e(1)] by simp
    then show ?thesis using inj_onD [OF inj, of e d] in_buckets [of c e ch] e(1,2) db i(2) j(2) by simp
  qed
  have "length (fr d) < 4096 div size_of b"
  proof -
    have "card (set (fr d)) < card (set (objs (bd_page (descs p d)) (size_of b)))"
      using ok x by (intro psubset_card_mono) (auto simp: bucket_ok_def)
    then show ?thesis using ok objs_facts(1,3) [OF i(1) B] i(2) by (simp add: bucket_ok_def distinct_card)
  qed
  then have "bd_refcnt (descs p d) \<noteq> 0" using ok by (auto simp: bucket_ok_def)
  then have r: "Suc (unat (bd_refcnt (descs p d) - 1)) = unat (bd_refcnt (descs p d))" by (metis Suc_pred' unat_gt_0 unat_minus_one)
  have keep: "linked (hw32 t) y xs = linked (hw32 s) y xs" if "x \<notin> set xs" for y xs
    using that by (intro linked_cong) (auto simp: t_def set_long_def)
  have okd: "bucket_ok t b (descs q d) (x # fr d)"
    using ok x fx(2) r keep [OF x(2), of "bd_freeptr (descs p d)"] refs
    by (auto simp: bucket_ok_def q_def upd_desc_def) (simp_all add: t_def set_long_def)
  have "bucket_ok t c (descs q e) (?fr e)" if e: "c < 9" "e \<in> set (ch c)" for c e
  proof (cases "e = d")
    case True
    then show ?thesis using okd dis e by auto
  next
    case False
    note oke = pool_bucket [OF inv e]
    have "x \<notin> set (fr e)" using own [OF e] False oke by (auto simp: bucket_ok_def)
    then show ?thesis using oke False keep refs by (simp add: bucket_ok_def q_def upd_desc_def)
  qed
  then show "pool_inv q t ch fds ?fr"
    using inv unfolding pool_inv_def page refs by (auto simp: q_def upd_desc_def)
  show "allocated q ch ?fr = allocated p ch fr - {x}"
  proof (intro equalityI subsetI)
    fix y assume "y \<in> allocated q ch ?fr"
    then obtain c e where e: "c < 9" "e \<in> set (ch c)" "y \<in> set (objs (bd_page (descs p e)) (size_of c))" "y \<notin> set (?fr e)"
      unfolding allocated_def page by blast
    then have "y \<noteq> x" "y \<notin> set (fr e)" using own [OF e(1,2)] by (auto split: if_splits)
    then show "y \<in> allocated p ch fr - {x}" using allocatedI [of c e ch y p fr] e(1-3) by blast
  next
    fix y assume y: "y \<in> allocated p ch fr - {x}"
    then obtain c e where e: "c < 9" "e \<in> set (ch c)" "y \<in> set (objs (bd_page (descs p e)) (size_of c))" "y \<notin> set (fr e)"
      unfolding allocated_def by blast
    then show "y \<in> allocated q ch ?fr" using y page(1) by (intro allocatedI [of c e]) (auto split: if_splits)
  qed
qed

lemma free_page_memory: "free_page a s = Some t \<Longrightarrow> hw32 t = hw32 s"
  by (auto simp: free_page_def Let_def halts split: if_splits)

text \<open>A descriptor \<open>d\<close> in the middle of its chain.\<close>

lemma chain_split:
  assumes inv: "pool_inv p s ch fds fr" and b: "b < 9" "ch b = xs @ d # ys"
  shows "distinct (xs @ d # ys)" "e \<in> set (xs @ d # ys) \<Longrightarrow> e \<noteq> 0" "d \<in> buckets ch" "d \<notin> set fds"
    "c < 9 \<Longrightarrow> c \<noteq> b \<Longrightarrow> e \<in> set (xs @ d # ys) \<Longrightarrow> e \<notin> set (ch c)" "buckets (ch(b := xs @ ys)) = buckets ch - {d}"
proof -
  have lb: "linked (next_of p) (chain p b) (xs @ d # ys)" using pool_chain [OF inv b(1)] b(2) by simp
  show dis: "distinct (xs @ d # ys)" by (rule linked_distinct [OF lb])
  show "e \<in> set (xs @ d # ys) \<Longrightarrow> e \<noteq> 0" using linked_not_null [OF lb] by blast
  show "d \<in> buckets ch" using b in_buckets [of b d ch] by auto
  then show "d \<notin> set fds" using inv by (auto simp: pool_inv_def)
  have "set (ch b) \<inter> set (ch c) = {}" if "c < 9" "c \<noteq> b" for c using inv b(1) that by (simp add: pool_inv_def)
  then have apart: "e \<notin> set (ch c)" if "c < 9" "c \<noteq> b" "e \<in> set (xs @ d # ys)" for c e using that b(2) by fastforce
  then show "c < 9 \<Longrightarrow> c \<noteq> b \<Longrightarrow> e \<in> set (xs @ d # ys) \<Longrightarrow> e \<notin> set (ch c)" by blast
  have "d \<notin> set (ch c)" if "c < 9" "c \<noteq> b" for c using apart [OF that] by simp
  then show "buckets (ch(b := xs @ ys)) = buckets ch - {d}" using b dis by (force simp: buckets_def split: if_splits)
qed

text \<open>It leaves its chain for the chain of unused descriptors.\<close>

lemma drop_links:
  assumes inv: "pool_inv p s ch fds fr" and b: "b < 9" "ch b = xs @ d # ys"
    and nq: "\<And>e. next_of q e = (if e = d then free_bucket_desc p else if xs \<noteq> [] \<and> e = last xs then next_of p d else next_of p e)"
    and cq: "chain q = (if xs = [] then (chain p)(b := next_of p d) else chain p)"
  shows "c < 9 \<Longrightarrow> linked (next_of q) (chain q c) ((ch(b := xs @ ys)) c)" "linked (next_of q) d (d # fds)"
proof -
  note split = chain_split [OF inv b]
  have lb: "linked (next_of p) (chain p b) (xs @ d # ys)" using pool_chain [OF inv b(1)] b(2) by simp
  have lastxs: "last xs \<in> buckets ch" if "xs \<noteq> []" using that b in_buckets [of b "last xs" ch] by simp
  show "linked (next_of q) (chain q c) ((ch(b := xs @ ys)) c)" if c: "c < 9"
  proof (cases "c = b")
    case True
    show ?thesis
    proof (cases "xs = []")
      case Nil: True
      then have "linked (next_of q) (next_of p d) ys = linked (next_of p) (next_of p d) ys" using split(1) nq by (intro linked_cong) auto
      then show ?thesis using linked_remove [OF lb] True Nil cq by simp
    next
      case False
      then have "linked (next_of q) (chain p b) (xs @ ys) = linked ((next_of p)(last xs := next_of p d)) (chain p b) (xs @ ys)"
        using split(1) nq by (intro linked_cong) auto
      then show ?thesis using linked_remove [OF lb] True False cq by simp
    qed
  next
    case False
    then have "d \<notin> set (ch c)" "xs \<noteq> [] \<longrightarrow> last xs \<notin> set (ch c)" using split(5) [OF c False] by simp_all
    then have "linked (next_of q) (chain p c) (ch c) = linked (next_of p) (chain p c) (ch c)" using nq by (intro linked_cong) auto
    then show ?thesis using pool_chain [OF inv c] False cq by simp
  qed
  have "linked (next_of q) (free_bucket_desc p) fds = linked (next_of p) (free_bucket_desc p) fds"
    using inv split(4) lastxs nq by (intro linked_cong) (auto simp: pool_inv_def)
  then have "linked (next_of q) (free_bucket_desc p) fds" using inv by (simp add: pool_inv_def)
  then show "linked (next_of q) d (d # fds)" using split(2) [of d] nq by simp
qed

lemma drop_allocated:
  assumes inv: "pool_inv p s ch fds fr" and b: "b < 9" "ch b = xs @ d # ys" and z: "bd_refcnt (descs p d) = 0"
    and dq: "\<And>e. bd_page (descs q e) = bd_page (descs p e)"
  shows "allocated q (ch(b := xs @ ys)) fr = allocated p ch fr"
proof -
  have ok: "bucket_ok s b (descs p d) (fr d)" using pool_bucket [OF inv b(1), of d] b(2) by simp
  obtain i where i: "i < PAGING_PAGES" "bd_page (descs p d) = page_addr i" using bucket_page [OF ok] by blast
  have "set (fr d) = set (objs (bd_page (descs p d)) (size_of b))"
    using ok z objs_facts(1,3) [OF i(1), of "size_of b"] i(2) size_of_bounds [OF b(1)]
    by (intro card_subset_eq) (auto simp: bucket_ok_def distinct_card)
  moreover have "c = b" if "c < 9" "d \<in> set (ch c)" for c using chain_split(5) [OF inv b, of c d] that by auto
  ultimately have "e \<noteq> d" if "c < 9" "e \<in> set (ch c)" "x \<in> set (objs (bd_page (descs p e)) (size_of c))" "x \<notin> set (fr e)" for c e x
    using that by blast
  moreover have "e \<in> set ((ch(b := xs @ ys)) c)" if "c < 9" "e \<in> set (ch c)" "e \<noteq> d" for c e using that b(2) by auto
  moreover have "set ((ch(b := xs @ ys)) c) \<subseteq> set (ch c)" for c using b(2) by auto
  ultimately show ?thesis unfolding allocated_def dq by blast
qed

lemma drop_inv:
  assumes inv: "pool_inv p s ch fds fr" and b: "b < 9" "ch b = xs @ d # ys"
    and links: "\<And>c. c < 9 \<Longrightarrow> linked (next_of q) (chain q c) ((ch(b := xs @ ys)) c)" "linked (next_of q) d (d # fds)" "free_bucket_desc q = d"
    and dq: "\<And>e. bd_page (descs q e) = bd_page (descs p e)" "\<And>e. bd_freeptr (descs q e) = bd_freeptr (descs p e)"
      "\<And>e. bd_refcnt (descs q e) = bd_refcnt (descs p e)" "\<And>e. bd_size (descs q e) = bd_size (descs p e)"
    and t: "\<And>q'. q' \<noteq> bd_page (descs p d) \<Longrightarrow> page_refs t q' = page_refs s q'" "mm_wf t" "hw32 t = hw32 s"
  shows "pool_inv q t (ch(b := xs @ ys)) (d # fds) fr" (is "pool_inv q t ?ch _ _")
  unfolding pool_inv_def chain_split(6) [OF inv b]
proof (intro conjI allI impI ballI)
  note split = chain_split [OF inv b]
  have sub: "set (?ch c) \<subseteq> set (ch c)" for c using b(2) by auto
  show "linked (next_of q) (free_bucket_desc q) (d # fds)" using links(2,3) by simp
  show "set (?ch c) \<inter> set (?ch e) = {}" if "c < 9" "e < 9" "c \<noteq> e" for c e
    using that inv sub [of c] sub [of e] unfolding pool_inv_def by blast
  show "(buckets ch - {d}) \<inter> set (d # fds) = {}" "distinct (d # fds)" using inv split(4) by (auto simp: pool_inv_def)
  show "0 < page_refs t (frame_of e)" if "e \<in> buckets ch - {d} \<union> set (d # fds)" for e
  proof -
    have "e \<in> buckets ch \<union> set fds" using that split(3) by auto
    then have "0 < page_refs s (frame_of e)" "bd_page (descs p d) \<noteq> frame_of e" using inv split(3) unfolding pool_inv_def by blast+
    then show ?thesis using t(1) by metis
  qed
  show "bucket_ok t c (descs q e) (fr e)" if e: "c < 9" "e \<in> set (?ch c)" for c e
  proof -
    have ec: "e \<in> set (ch c)" "e \<in> buckets ch - {d}" using sub e in_buckets [of c e ?ch] split(6) by blast+
    then have "bd_page (descs p e) \<noteq> bd_page (descs p d)" using inv split(3) unfolding pool_inv_def inj_on_def by blast
    then show ?thesis using pool_bucket [OF inv e(1) ec(1)] t(1,3) by (simp add: bucket_ok_def dq)
  qed
  show "inj_on (\<lambda>d. bd_page (descs q d)) (buckets ch - {d})"
    using inv unfolding pool_inv_def dq by (blast intro: inj_on_subset)
  show "bd_page (descs q e) \<noteq> frame_of f" if "e \<in> buckets ch - {d}" "f \<in> buckets ch - {d} \<union> set (d # fds)" for e f
    using that inv split(3) unfolding pool_inv_def dq by auto
qed (rule links(1) t(2), assumption?)+

text \<open>So a descriptor whose objects are all free leaves its bucket, and its page goes back.\<close>

lemma drop_bucket:
  assumes inv: "pool_inv p s ch fds fr" and b: "b < 9" "ch b = xs @ d # ys" and z: "bd_refcnt (descs p d) = 0"
  shows "\<exists>p1 t. unlink_bucket b d (last (0 # xs)) p = Some p1 \<and> free_page (bd_page (descs p1 d)) s = Some t \<and>
    pool_inv ((upd_desc d (\<lambda>x. x\<lparr>bd_next := free_bucket_desc p1\<rparr>) p1)\<lparr>free_bucket_desc := d\<rparr>) t (ch(b := xs @ ys)) (d # fds) fr \<and>
    allocated ((upd_desc d (\<lambda>x. x\<lparr>bd_next := free_bucket_desc p1\<rparr>) p1)\<lparr>free_bucket_desc := d\<rparr>) (ch(b := xs @ ys)) fr = allocated p ch fr \<and>
    hw32 t = hw32 s"
proof -
  have lb: "linked (next_of p) (chain p b) (xs @ d # ys)" using pool_chain [OF inv b(1)] b(2) by simp
  have ok: "bucket_ok s b (descs p d) (fr d)" using pool_bucket [OF inv b(1), of d] b(2) by simp
  define p1 where "p1 = (if xs = [] then p\<lparr>chain := (chain p)(b := next_of p d)\<rparr>
    else upd_desc (last xs) (\<lambda>x. x\<lparr>bd_next := next_of p d\<rparr>) p)"
  have un: "unlink_bucket b d (last (0 # xs)) p = Some p1"
    using linked_remove [OF lb] chain_split(2) [OF inv b, of "last xs"] by (auto simp: unlink_bucket_def p1_def)
  have p1: "bd_page (descs p1 e) = bd_page (descs p e)" "free_bucket_desc p1 = free_bucket_desc p" for e
    by (simp_all add: p1_def upd_desc_def)
  define q where "q = (upd_desc d (\<lambda>x. x\<lparr>bd_next := free_bucket_desc p1\<rparr>) p1)\<lparr>free_bucket_desc := d\<rparr>"
  have refs: "0 < page_refs s (bd_page (descs p d))" and wf: "mm_wf s" using ok inv by (auto simp: bucket_ok_def pool_inv_def)
  obtain t where t: "free_page (bd_page (descs p d)) s = Some t" using mm.release_some [OF wf refs] by blast
  have tr: "mm_wf t" "hw32 t = hw32 s" "\<And>q'. q' \<noteq> bd_page (descs p d) \<Longrightarrow> page_refs t q' = page_refs s q'"
    using mm.release_refs [OF wf refs t] mm.release_wf [OF wf t] free_page_memory [OF t] by auto
  have nq: "next_of q e = (if e = d then free_bucket_desc p else if xs \<noteq> [] \<and> e = last xs then next_of p d else next_of p e)" for e
    by (auto simp: q_def p1_def upd_desc_def)
  have cq: "chain q = (if xs = [] then (chain p)(b := next_of p d) else chain p)" "free_bucket_desc q = d"
    by (simp_all add: q_def p1_def upd_desc_def)
  have dq: "bd_page (descs q e) = bd_page (descs p e)" "bd_freeptr (descs q e) = bd_freeptr (descs p e)"
    "bd_refcnt (descs q e) = bd_refcnt (descs p e)" "bd_size (descs q e) = bd_size (descs p e)" for e by (simp_all add: q_def p1_def upd_desc_def)
  have "pool_inv q t (ch(b := xs @ ys)) (d # fds) fr"
    using drop_inv [OF inv b drop_links [OF inv b nq cq(1)] cq(2) dq tr(3,1,2)] by blast
  then show ?thesis using un t tr(2) p1(1) drop_allocated [OF inv b z dq(1)] unfolding q_def by auto
qed

text \<open>The search of \<open>free_s\<close> finds the descriptor of the object's page.\<close>

lemma find_owner:
  assumes inv: "pool_inv p s ch fds fr" and b: "b < 9" "ch b = xs @ d # ys"
    and x: "x \<in> set (objs (bd_page (descs p d)) (size_of b))" and sz: "sz \<le> int (size_of b)"
  shows "find_object sz (frame_of x) [0..<length bucket_sizes] p = Some (b, d, last (0 # xs))"
proof -
  have d: "d \<in> set (ch b)" using b(2) by simp
  have lb: "linked (next_of p) (chain p b) (xs @ d # ys)" using pool_chain [OF inv b(1)] b(2) by simp
  have dis: "distinct (xs @ d # ys)" by (rule linked_distinct [OF lb])
  obtain i where i: "i < PAGING_PAGES" "bd_page (descs p d) = page_addr i"
    using bucket_page [OF pool_bucket [OF inv b(1) d]] by blast
  have fx: "frame_of x = bd_page (descs p d)"
    using objs_facts(2) [OF i(1), of "size_of b" x] x i(2) size_of_bounds [OF b(1)] by simp
  have other: "bd_page (descs p e) \<noteq> frame_of x" if "c < 9" "e \<in> set (ch c)" "e \<noteq> d" for c e
    using that inv in_buckets [of c e ch] in_buckets [of b d ch] b(1) d fx by (auto simp: pool_inv_def inj_on_def)
  have apart: "d \<notin> set (ch c)" if "c < 9" "c \<noteq> b" for c using inv b(1) d that by (fastforce simp: pool_inv_def)
  have "[0..<9] = [0..<b] @ b # [Suc b..<9]"
    using upt_add_eq_append [of 0 b "9 - b"] upt_conv_Cons [OF b(1)] b(1) by (simp del: upt_rec_numeral)
  moreover have "find_object sz (frame_of x) ([0..<b] @ b # [Suc b..<9]) p = Some (b, d, last (0 # xs))"
  proof (rule find_object_found [OF _ lb _ fx [symmetric] sz])
    show "\<exists>ds. linked (next_of p) (chain p c) ds \<and> (\<forall>e\<in>set ds. bd_page (descs p e) \<noteq> frame_of x)" if "c \<in> set [0..<b]" for c
      using that b(1) pool_chain [OF inv, of c] other [of c] apart [of c] by (intro exI [of _ "ch c"]) auto
    show "bd_page (descs p e) \<noteq> frame_of x" if "e \<in> set xs" for e using that other [OF b(1), of e] b(2) dis by auto
  qed
  moreover have "length bucket_sizes = 9" by (simp add: bucket_sizes_def)
  ultimately show ?thesis by metis
qed

text \<open>
  C37: \<open>free_s\<close> takes back what \<open>malloc\<close> handed out. For an object in use, and a size that is 0 or at most that of its bucket, it
  returns; exactly that object is no longer in use, no other word of memory changes, and the pool's invariant is kept, also when
  the last object of a page is freed and the page goes back to the page allocator.
\<close>

theorem free_s_releases:
  assumes "pool_inv p s ch fds fr" "b < 9" "d \<in> set (ch b)"
    "x \<in> set (objs (bd_page (descs p d)) (bucket_sizes ! b))" "x \<notin> set (fr d)" "sz \<le> int (bucket_sizes ! b)"
  shows "\<exists>q t ch' fds' fr'. free_s x sz p s = Some (q, t) \<and> pool_inv q t ch' fds' fr' \<and>
    allocated q ch' fr' = allocated p ch fr - {x} \<and> (\<forall>a. a \<noteq> x \<longrightarrow> hw32 t a = hw32 s a)"
proof -
  note inv = assms(1)
  obtain xs ys where ch: "ch b = xs @ d # ys" using assms(3) by (meson split_list)
  note find = find_owner [OF inv assms(2) ch assms(4,6)]
  define p1 where "p1 = upd_desc d (\<lambda>y. y\<lparr>bd_freeptr := x, bd_refcnt := bd_refcnt y - 1\<rparr>) p"
  define s1 where "s1 = set_long x (bd_freeptr (descs p d)) s"
  let ?fr = "fr(d := x # fr d)"
  have 1: "pool_inv p1 s1 ch fds ?fr" "allocated p1 ch ?fr = allocated p ch fr - {x}"
    unfolding p1_def s1_def by (rule put_object [OF inv assms(2-5)])+
  have mem: "\<forall>a. a \<noteq> x \<longrightarrow> hw32 s1 a = hw32 s a" by (simp add: s1_def set_long_def)
  show ?thesis
  proof (cases "bd_refcnt (descs p1 d) = 0")
    case False
    then have "free_s x sz p s = Some (p1, s1)" by (simp add: free_s_def find p1_def s1_def Let_def)
    then show ?thesis using 1 mem by blast
  next
    case True
    obtain p2 t where 2: "unlink_bucket b d (last (0 # xs)) p1 = Some p2" "free_page (bd_page (descs p2 d)) s1 = Some t"
      "pool_inv ((upd_desc d (\<lambda>x. x\<lparr>bd_next := free_bucket_desc p2\<rparr>) p2)\<lparr>free_bucket_desc := d\<rparr>) t (ch(b := xs @ ys)) (d # fds) ?fr"
      "allocated ((upd_desc d (\<lambda>x. x\<lparr>bd_next := free_bucket_desc p2\<rparr>) p2)\<lparr>free_bucket_desc := d\<rparr>) (ch(b := xs @ ys)) ?fr = allocated p1 ch ?fr"
      "hw32 t = hw32 s1"
      using drop_bucket [OF 1(1) assms(2) ch True] by blast
    have "linked (next_of p1) (chain p1 b) (xs @ d # ys)" using pool_chain [OF 1(1) assms(2)] ch by simp
    then have prev: "\<not> (last (0 # xs) \<noteq> 0 \<and> next_of p1 (last (0 # xs)) \<noteq> d \<or> last (0 # xs) = 0 \<and> chain p1 b \<noteq> d)"
      by (rule linked_prev)
    have "free_s x sz p s = Some ((upd_desc d (\<lambda>x. x\<lparr>bd_next := free_bucket_desc p2\<rparr>) p2)\<lparr>free_bucket_desc := d\<rparr>, t)"
      unfolding free_s_def find Option.bind_lunit prod.case Let_def p1_def [symmetric] s1_def [symmetric] if_not_P [OF prev]
      using True 2(1,2) by simp
    then show ?thesis using 2(3-5) 1(2) mem by (intro exI conjI) (assumption | simp)+
  qed
qed

theorem free_s_releases_witness:
  "\<exists>x p s q t ch fds fr. malloc 100 empty_pool (boot_kernel\<lparr>HIGH_MEMORY := 0x1000000\<rparr>) = Some (x, p, s) \<and>
     free_s x 100 p s = Some (q, t) \<and> pool_inv q t ch fds fr \<and> allocated q ch fr = {}"
proof -
  have "mem_map (boot_kernel\<lparr>HIGH_MEMORY := 0x1000000\<rparr>) k = 0" for k by (simp add: boot_kernel_def)
  then obtain x p s ch fds fr b d where r: "malloc 100 empty_pool (boot_kernel\<lparr>HIGH_MEMORY := 0x1000000\<rparr>) = Some (x, p, s)"
    "pool_inv p s ch fds fr" "b < 9" "100 \<le> size_of b" "d \<in> set (ch b)" "x \<in> set (objs (bd_page (descs p d)) (size_of b))"
    "x \<notin> set (fr d)" "allocated p ch fr = {x}"
    using malloc_takes [OF empty_pool_inv [OF boot_mm_wf], of 100 2 3] by (simp add: empty_allocated) blast
  have "(100 :: int) \<le> int (size_of b)" using r(4) by linarith
  then obtain q t ch fds fr where "free_s x 100 p s = Some (q, t)" "pool_inv q t ch fds fr" "allocated q ch fr = {x} - {x}"
    using free_s_releases [OF r(2,3,5-7)] unfolding r(8) by metis
  then show ?thesis using r(1) unfolding Diff_cancel by blast
qed

end
