(* ===== verification/Strings.thy ===== *)
theory Strings
  imports Prelude
begin

text \<open>
  include/string.h: the string routines, each a few instructions on the registers. Memory is a function from addresses; the
  routines that write to it return the memory they leave. A loop that only the end of a string stops is a
  \<open>partial_function\<close>, since strings may run into themselves.
\<close>

type_synonym memory = "u32 \<Rightarrow> u8"

section \<open>The repeated instructions\<close>

text \<open>
  \<open>ecx\<close> counts the repetitions. A comparison leaves the zero flag, which keeps its value when nothing is repeated; \<open>movsb\<close>
  goes up or, after \<open>std\<close>, down.
\<close>

function repne_scasb :: "memory \<Rightarrow> u8 \<Rightarrow> u32 \<Rightarrow> u32 \<Rightarrow> bool \<Rightarrow> bool \<times> u32 \<times> u32" where
  "repne_scasb m al ecx edi zf =
     (if ecx = 0 then (zf, ecx, edi)
      else if m edi = al then (True, ecx - 1, edi + 1)
      else repne_scasb m al (ecx - 1) (edi + 1) False)"
  by pat_completeness auto
termination by (relation "measure (\<lambda>(m, al, ecx, edi, zf). unat ecx)") (auto simp: word_pos_dec unat_gt_0 split: if_splits)

function repe_cmpsb :: "memory \<Rightarrow> u32 \<Rightarrow> u32 \<Rightarrow> u32 \<Rightarrow> bool \<times> bool \<Rightarrow> bool \<times> bool \<times> u32 \<times> u32" where
  "repe_cmpsb m ecx esi edi flags =
     (case flags of (zf, lt) \<Rightarrow>
        if ecx = 0 then (zf, lt, esi, edi)
        else
          let zf = (m esi = m edi); lt = (sint (m esi) < sint (m edi)) in
          if \<not> zf then (zf, lt, esi + 1, edi + 1)
          else repe_cmpsb m (ecx - 1) (esi + 1) (edi + 1) (zf, lt))"
  by pat_completeness auto
termination by (relation "measure (\<lambda>(m, ecx, esi, edi, flags). unat ecx)") (auto simp: word_pos_dec unat_gt_0 split: if_splits)

function rep_stosb :: "u8 \<Rightarrow> u32 \<Rightarrow> u32 \<Rightarrow> memory \<Rightarrow> memory" where
  "rep_stosb al ecx edi m = (if ecx = 0 then m else rep_stosb al (ecx - 1) (edi + 1) (m(edi := al)))"
  by pat_completeness auto
termination by (relation "measure (\<lambda>(al, ecx, edi, m). unat ecx)") (auto simp: word_pos_dec unat_gt_0 split: if_splits)

function rep_movsb :: "u32 \<Rightarrow> u32 \<Rightarrow> u32 \<Rightarrow> u32 \<Rightarrow> memory \<Rightarrow> memory" where
  "rep_movsb step ecx esi edi m =
     (if ecx = 0 then m else rep_movsb step (ecx - 1) (esi + step) (edi + step) (m(edi := m esi)))"
  by pat_completeness auto
termination by (relation "measure (\<lambda>(step, ecx, esi, edi, m). unat ecx)") (auto simp: word_pos_dec unat_gt_0 split: if_splits)

declare repne_scasb.simps [simp del] repe_cmpsb.simps [simp del] rep_stosb.simps [simp del] rep_movsb.simps [simp del]

section \<open>Copying\<close>

text \<open>The loop of \<open>lodsb\<close> and \<open>stosb\<close> up to the end of the string.\<close>

partial_function (option) copy_string :: "u32 \<Rightarrow> u32 \<Rightarrow> memory \<Rightarrow> memory option" where
  "copy_string esi edi m =
     (let al = m esi; m = m(edi := al)
      in if al = 0 then Some m else copy_string (esi + 1) (edi + 1) m)"

definition strcpy :: "u32 \<Rightarrow> u32 \<Rightarrow> memory \<Rightarrow> (u32 \<times> memory) option" where
  "strcpy dest src m = map_option (Pair dest) (copy_string src dest m)"

lemma count_down:
  assumes "\<not> sint ((count :: u32) - 1) < 0"
  shows "unat (count - 1) < unat count"
proof -
  have "count \<noteq> 0" using assms by auto
  then show ?thesis by (simp add: word_pos_dec unat_gt_0)
qed

function strncpy_loop :: "u32 \<Rightarrow> u32 \<Rightarrow> u32 \<Rightarrow> memory \<Rightarrow> memory" where
  "strncpy_loop count esi edi m =
     (if sint (count - 1) < 0 then m
      else
        let al = m esi; m = m(edi := al)
        in if al \<noteq> 0 then strncpy_loop (count - 1) (esi + 1) (edi + 1) m
           else rep_stosb al (count - 1) (edi + 1) m)"
  by pat_completeness auto
termination by (relation "measure (\<lambda>(count, esi, edi, m). unat count)") (auto simp: count_down)

definition strncpy :: "u32 \<Rightarrow> u32 \<Rightarrow> int \<Rightarrow> memory \<Rightarrow> u32 \<times> memory" where
  "strncpy dest src count m = (dest, strncpy_loop (word_of_int count) src dest m)"

text \<open>The address of the end of a string: \<open>scasb\<close> for 0 with the largest count, and one back.\<close>

definition string_end :: "u32 \<Rightarrow> memory \<Rightarrow> u32" where
  "string_end s m = (case repne_scasb m 0 0xffffffff s False of (zf, ecx, edi) \<Rightarrow> edi - 1)"

definition strcat :: "u32 \<Rightarrow> u32 \<Rightarrow> memory \<Rightarrow> (u32 \<times> memory) option" where
  "strcat dest src m = map_option (Pair dest) (copy_string src (string_end dest m) m)"

text \<open>After the loop, also after one that ends with the end of the string, a zero is stored at \<open>edi\<close>.\<close>

function strncat_loop :: "u32 \<Rightarrow> u32 \<Rightarrow> u32 \<Rightarrow> memory \<Rightarrow> memory" where
  "strncat_loop count esi edi m =
     (if sint (count - 1) < 0 then m(edi := 0)
      else
        let al = m esi; m = m(edi := al)
        in if al \<noteq> 0 then strncat_loop (count - 1) (esi + 1) (edi + 1) m
           else m(edi + 1 := 0))"
  by pat_completeness auto
termination by (relation "measure (\<lambda>(count, esi, edi, m). unat count)") (auto simp: count_down)

declare strncpy_loop.simps [simp del] strncat_loop.simps [simp del]

definition strncat :: "u32 \<Rightarrow> u32 \<Rightarrow> int \<Rightarrow> memory \<Rightarrow> u32 \<times> memory" where
  "strncat dest src count m = (dest, strncat_loop (word_of_int count) src (string_end dest m) m)"

section \<open>Comparing\<close>

text \<open>\<open>scasb\<close> compares the byte of \<open>ct\<close>, which is in \<open>al\<close>, with the one of \<open>cs\<close>, as signed bytes.\<close>

partial_function (option) strcmp_loop :: "u32 \<Rightarrow> u32 \<Rightarrow> memory \<Rightarrow> int option" where
  "strcmp_loop edi esi m =
     (let al = m esi
      in if al \<noteq> m edi then Some (if sint al < sint (m edi) then 1 else - 1)
         else if al \<noteq> 0 then strcmp_loop (edi + 1) (esi + 1) m
         else Some 0)"

definition strcmp :: "u32 \<Rightarrow> u32 \<Rightarrow> memory \<Rightarrow> int option" where
  "strcmp cs ct m = strcmp_loop cs ct m"

function strncmp_loop :: "u32 \<Rightarrow> u32 \<Rightarrow> u32 \<Rightarrow> memory \<Rightarrow> int" where
  "strncmp_loop count edi esi m =
     (if sint (count - 1) < 0 then 0
      else
        let al = m esi
        in if al \<noteq> m edi then (if sint al < sint (m edi) then 1 else - 1)
           else if al \<noteq> 0 then strncmp_loop (count - 1) (edi + 1) (esi + 1) m
           else 0)"
  by pat_completeness auto
termination by (relation "measure (\<lambda>(count, edi, esi, m). unat count)") (auto simp: count_down)

definition strncmp :: "u32 \<Rightarrow> u32 \<Rightarrow> int \<Rightarrow> memory \<Rightarrow> int" where
  "strncmp cs ct count m = strncmp_loop (word_of_int count) cs ct m"

text \<open>
  \<open>memcmp\<close> tests the flags of the last comparison; without one they are those that the code before left behind.
\<close>

definition memcmp :: "bool \<times> bool \<Rightarrow> u32 \<Rightarrow> u32 \<Rightarrow> int \<Rightarrow> memory \<Rightarrow> int" where
  "memcmp flags cs ct count m =
     (case repe_cmpsb m (word_of_int count) ct cs flags of (zf, lt, _) \<Rightarrow>
        if zf then 0 else if lt then 1 else - 1)"

section \<open>Searching\<close>

definition strlen :: "u32 \<Rightarrow> memory \<Rightarrow> u32" where
  "strlen s m = (case repne_scasb m 0 0xffffffff s False of (zf, ecx, edi) \<Rightarrow> NOT ecx - 1)"

partial_function (option) strchr_loop :: "u8 \<Rightarrow> u32 \<Rightarrow> memory \<Rightarrow> u32 option" where
  "strchr_loop c esi m =
     (let al = m esi; esi = esi + 1
      in if al = c then Some (esi - 1)
         else if al \<noteq> 0 then strchr_loop c esi m
         else Some (1 - 1))"

definition strchr :: "u32 \<Rightarrow> u8 \<Rightarrow> memory \<Rightarrow> u32 option" where
  "strchr s c m = strchr_loop c s m"

partial_function (option) strrchr_loop :: "u8 \<Rightarrow> u32 \<Rightarrow> u32 \<Rightarrow> memory \<Rightarrow> u32 option" where
  "strrchr_loop c res esi m =
     (let al = m esi; esi = esi + 1; res = (if al = c then esi - 1 else res)
      in if al \<noteq> 0 then strrchr_loop c res esi m else Some res)"

definition strrchr :: "u32 \<Rightarrow> u8 \<Rightarrow> memory \<Rightarrow> u32 option" where
  "strrchr s c m = strrchr_loop c 0 s m"

text \<open>
  The loop of \<open>strspn\<close>, \<open>strcspn\<close>, \<open>strpbrk\<close> and \<open>strtok\<close>: it takes bytes as long as the scan of the string \<open>ct\<close> of
  length \<open>edx\<close> finds them (or, for \<open>on = False\<close>, does not find them). The results are the last byte and the address after
  it. The test of the byte has cleared the zero flag, which counts when \<open>ct\<close> is empty.
\<close>

partial_function (option) scan_string :: "bool \<Rightarrow> u32 \<Rightarrow> u32 \<Rightarrow> u32 \<Rightarrow> memory \<Rightarrow> (u8 \<times> u32) option" where
  "scan_string on ct edx esi m =
     (let al = m esi; esi = esi + 1
      in if al = 0 then Some (al, esi)
         else if fst (repne_scasb m al edx ct False) = on then scan_string on ct edx esi m
         else Some (al, esi))"

definition strspn :: "u32 \<Rightarrow> u32 \<Rightarrow> memory \<Rightarrow> u32 option" where
  "strspn cs ct m = map_option (\<lambda>(al, esi). esi - 1 - cs) (scan_string True ct (strlen ct m) cs m)"

definition strcspn :: "u32 \<Rightarrow> u32 \<Rightarrow> memory \<Rightarrow> u32 option" where
  "strcspn cs ct m = map_option (\<lambda>(al, esi). esi - 1 - cs) (scan_string False ct (strlen ct m) cs m)"

definition strpbrk :: "u32 \<Rightarrow> u32 \<Rightarrow> memory \<Rightarrow> u32 option" where
  "strpbrk cs ct m = map_option (\<lambda>(al, esi). if al = 0 then 0 else esi - 1) (scan_string False ct (strlen ct m) cs m)"

text \<open>For an empty \<open>ct\<close> the zero flag is set by the \<open>decl\<close> that computes the length.\<close>

partial_function (option) strstr_loop :: "u32 \<Rightarrow> u32 \<Rightarrow> u32 \<Rightarrow> memory \<Rightarrow> u32 option" where
  "strstr_loop ct edx esi m =
     (case repe_cmpsb m edx esi ct (edx = 0, False) of (zf, _, end_, _) \<Rightarrow>
        if zf then Some esi
        else if m (end_ - 1) \<noteq> 0 then strstr_loop ct edx (esi + 1) m
        else Some 0)"

definition strstr :: "u32 \<Rightarrow> u32 \<Rightarrow> memory \<Rightarrow> u32 option" where
  "strstr cs ct m = strstr_loop ct (strlen ct m) cs m"

definition memchr :: "u32 \<Rightarrow> u8 \<Rightarrow> int \<Rightarrow> memory \<Rightarrow> u32" where
  "memchr cs c count m =
     (if count = 0 then 0
      else case repne_scasb m c (word_of_int count) cs False of (zf, _, edi) \<Rightarrow> (if zf then edi else 1) - 1)"

section \<open>Tokens\<close>

text \<open>\<open>strtok\<close> keeps where it stopped in \<open>___strtok\<close>, which is returned with the token and the memory.\<close>

definition strtok_from :: "u32 \<Rightarrow> u32 \<Rightarrow> memory \<Rightarrow> (u32 \<times> u32 \<times> memory) option" where
  "strtok_from esi ct m =
     (let edx = strlen ct m
      in if edx = 0 then Some (0, esi, m)
         else do {
           (al, esi) \<leftarrow> scan_string True ct edx esi m;
           if al = 0 \<or> m (esi - 1) = 0 then Some (0, if al = 0 then esi else esi - 1, m)
           else do {
             let token = esi - 1;
             (al, esi) \<leftarrow> scan_string False ct edx token m;
             let (esi, m) = (if al = 0 \<or> m (esi - 1) = 0 then (0, m) else (esi - 1 + 1, m(esi - 1 := 0)));
             Some (if m token \<noteq> 0 then token else 0, esi, m) } })"

definition strtok :: "u32 \<Rightarrow> u32 \<Rightarrow> u32 \<Rightarrow> memory \<Rightarrow> (u32 \<times> u32 \<times> memory) option" where
  "strtok s ct next_token m =
     (if s = 0 \<and> next_token = 0 then Some (next_token, s, m)
      else
        do { (res, esi, m) \<leftarrow> strtok_from (if s \<noteq> 0 then s else next_token) ct m;
             Some (res, if res = 0 then res else esi, m) })"

section \<open>Blocks of memory\<close>

definition memcpy :: "u32 \<Rightarrow> u32 \<Rightarrow> int \<Rightarrow> memory \<Rightarrow> u32 \<times> memory" where
  "memcpy dest src n m = (dest, rep_movsb 1 (word_of_int n) src dest m)"

definition memmove :: "u32 \<Rightarrow> u32 \<Rightarrow> int \<Rightarrow> memory \<Rightarrow> u32 \<times> memory" where
  "memmove dest src n m =
     (dest,
      if dest < src then rep_movsb 1 (word_of_int n) src dest m
      else rep_movsb (- 1) (word_of_int n) (src + word_of_int n - 1) (dest + word_of_int n - 1) m)"

definition memset :: "u32 \<Rightarrow> u8 \<Rightarrow> int \<Rightarrow> memory \<Rightarrow> u32 \<times> memory" where
  "memset s c count m = (s, rep_stosb c (word_of_int count) s m)"

declare strncmp_loop.simps [simp del]

section \<open>Strings in memory\<close>

text \<open>The bytes \<open>xs\<close> are at \<open>a\<close>, and a string with a terminating zero.\<close>

fun bytes_at :: "memory \<Rightarrow> u32 \<Rightarrow> u8 list \<Rightarrow> bool" where
  "bytes_at m a [] \<longleftrightarrow> True"
| "bytes_at m a (x # xs) \<longleftrightarrow> m a = x \<and> bytes_at m (a + 1) xs"

definition cstr :: "memory \<Rightarrow> u32 \<Rightarrow> u8 list \<Rightarrow> bool" where
  "cstr m a xs \<longleftrightarrow> bytes_at m a (xs @ [0]) \<and> 0 \<notin> set xs"

lemma cstr_simps [simp]:
  "cstr m a [] \<longleftrightarrow> m a = 0"
  "cstr m a (x # xs) \<longleftrightarrow> m a = x \<and> x \<noteq> 0 \<and> cstr m (a + 1) xs"
  by (auto simp: cstr_def)

lemma bytes_at_iff: "bytes_at m a xs \<longleftrightarrow> (\<forall>i<length xs. m (a + of_nat i) = xs ! i)"
proof (induction xs arbitrary: a)
  case (Cons x xs)
  then show ?case by (auto simp: less_Suc_eq_0_disj ac_simps)
qed simp

lemma bytes_at_append: "bytes_at m a (xs @ ys) \<longleftrightarrow> bytes_at m a xs \<and> bytes_at m (a + of_nat (length xs)) ys"
  by (induction xs arbitrary: a) (auto simp: algebra_simps)

lemma cstr_byte: "cstr m a xs \<Longrightarrow> i \<le> length xs \<Longrightarrow> m (a + of_nat i) = (xs @ [0]) ! i"
  unfolding cstr_def bytes_at_iff by auto

lemma cstr_drop: "cstr m a xs \<Longrightarrow> i \<le> length xs \<Longrightarrow> cstr m (a + of_nat i) (drop i xs)"
proof (induction xs arbitrary: a i)
  case (Cons x xs)
  then show ?case by (cases i) (auto simp: add.assoc [symmetric])
qed simp

text \<open>A string does not fill the whole of memory.\<close>

lemma cstr_length:
  assumes "cstr m a xs"
  shows "length xs < 2 ^ 32"
proof (rule ccontr)
  assume n: "\<not> length xs < 2 ^ 32"
  have "m (a + of_nat (length xs)) = 0" using cstr_byte [OF assms, of "length xs"] by simp
  moreover have "m (a + of_nat (length xs - 2 ^ 32)) = (xs @ [0]) ! (length xs - 2 ^ 32)" using cstr_byte [OF assms] by simp
  moreover have "(of_nat (length xs - 2 ^ 32) :: u32) = of_nat (length xs)" using n by (simp add: of_nat_diff)
  moreover have "xs ! (length xs - 2 ^ 32) \<in> set xs" using n by (intro nth_mem) simp
  moreover have "length xs - 2 ^ 32 < length xs" using n by simp
  ultimately show False using assms unfolding cstr_def nth_append by metis
qed

lemma cstr_unique: "cstr m a xs \<Longrightarrow> cstr m a ys \<Longrightarrow> xs = ys"
proof (induction xs arbitrary: a ys)
  case Nil
  then show ?case by (cases ys) auto
next
  case (Cons x xs)
  then show ?case by (cases ys) auto
qed

section \<open>The scans\<close>

lemma unat_small32: "unat (n :: u32) < 2 ^ 32"
proof -
  have "unat n < 2 ^ LENGTH(32)" by (rule unsigned_less)
  then show ?thesis by simp
qed

lemma unat_of_nat32: "n < 2 ^ 32 \<Longrightarrow> unat (of_nat n :: u32) = n"
  by (simp add: unat_of_nat)

lemma unat_dec: "n \<noteq> 0 \<Longrightarrow> unat (n :: u32) = Suc (unat (n - 1))"
  using unat_gt_0 [of n] by (simp add: word_pos_dec)

lemma scan_hit:
  "bytes_at m a (xs @ [al]) \<Longrightarrow> al \<notin> set xs \<Longrightarrow> length xs < unat n \<Longrightarrow>
     repne_scasb m al n a zf = (True, n - of_nat (length xs) - 1, a + of_nat (length xs) + 1)"
proof (induction xs arbitrary: a n zf)
  case Nil
  then have "n \<noteq> 0" by auto
  then show ?case using Nil by (subst repne_scasb.simps) simp
next
  case (Cons x xs)
  then have n: "n \<noteq> 0" by auto
  have "repne_scasb m al n a zf = repne_scasb m al (n - 1) (a + 1) False"
    using Cons.prems n by (subst repne_scasb.simps) auto
  also have "\<dots> = (True, (n - 1) - of_nat (length xs) - 1, (a + 1) + of_nat (length xs) + 1)"
    using Cons.prems unat_dec [OF n] by (intro Cons.IH) auto
  finally show ?case by (simp add: algebra_simps)
qed

lemma scan_mem:
  "bytes_at m a xs \<Longrightarrow> unat n = length xs \<Longrightarrow> fst (repne_scasb m al n a zf) = (if xs = [] then zf else al \<in> set xs)"
proof (induction xs arbitrary: a n zf)
  case Nil
  then have "n = 0" by (simp add: unat_eq_zero)
  then show ?case by (simp add: repne_scasb.simps)
next
  case (Cons x xs)
  then have n: "n \<noteq> 0" by auto
  have "fst (repne_scasb m al (n - 1) (a + 1) False) = (if xs = [] then False else al \<in> set xs)"
    using Cons.prems unat_dec [OF n] by (intro Cons.IH) auto
  then show ?case using Cons.prems n by (subst repne_scasb.simps) auto
qed

lemma strlen_cstr:
  assumes "cstr m s xs" "length xs < 0xffffffff"
  shows "strlen s m = of_nat (length xs)" "string_end s m = s + of_nat (length xs)"
proof -
  have "repne_scasb m 0 0xffffffff s False = (True, 0xffffffff - of_nat (length xs) - 1, s + of_nat (length xs) + 1)"
    using assms by (intro scan_hit) (auto simp: cstr_def)
  then show "strlen s m = of_nat (length xs)" "string_end s m = s + of_nat (length xs)"
    by (simp_all add: strlen_def string_end_def not_eq_complement)
qed

lemma delimiter_scan:
  assumes "cstr m ct ys" "length ys < 0xffffffff"
  shows "fst (repne_scasb m al (strlen ct m) ct False) \<longleftrightarrow> al \<in> set ys"
proof -
  have "bytes_at m ct ys" using assms(1) by (auto simp: cstr_def bytes_at_iff nth_append)
  then have "fst (repne_scasb m al (strlen ct m) ct False) = (if ys = [] then False else al \<in> set ys)"
    using assms by (intro scan_mem) (simp_all add: strlen_cstr unat_of_nat)
  then show ?thesis by auto
qed

lemma scan_string_cstr:
  assumes "cstr m ct ys" "length ys < 0xffffffff"
  shows "cstr m a xs \<Longrightarrow> scan_string on ct (strlen ct m) a m =
    (let k = length (takeWhile (\<lambda>x. (x \<in> set ys) = on) xs) in Some ((xs @ [0]) ! k, a + of_nat k + 1))"
proof (induction xs arbitrary: a)
  case Nil
  then show ?case by (subst scan_string.simps) simp
next
  case (Cons x xs)
  then show ?case
    by (subst scan_string.simps) (auto simp: Let_def delimiter_scan [OF assms] algebra_simps)
qed

section \<open>Searches\<close>

lemma strspn_cstr:
  assumes "cstr m cs xs" "cstr m ct ys" "length ys < 0xffffffff"
  shows "strspn cs ct m = Some (of_nat (length (takeWhile (\<lambda>x. x \<in> set ys) xs)))"
    "strcspn cs ct m = Some (of_nat (length (takeWhile (\<lambda>x. x \<notin> set ys) xs)))"
  by (simp_all add: strspn_def strcspn_def Let_def scan_string_cstr [OF assms(2,3,1)])

lemma strpbrk_cstr:
  assumes "cstr m cs xs" "cstr m ct ys" "length ys < 0xffffffff"
  shows "strpbrk cs ct m =
    Some (if set xs \<inter> set ys = {} then 0 else cs + of_nat (length (takeWhile (\<lambda>x. x \<notin> set ys) xs)))"
proof (cases "set xs \<inter> set ys = {}")
  case True
  then have "takeWhile (\<lambda>x. x \<notin> set ys) xs = xs" by auto
  then show ?thesis using True
    by (simp add: strpbrk_def Let_def scan_string_cstr [OF assms(2,3,1)] del: takeWhile_eq_all_conv)
next
  case False
  then have k: "length (takeWhile (\<lambda>x. x \<notin> set ys) xs) < length xs"
    using takeWhile_eq_take [of "\<lambda>x. x \<notin> set ys" xs] length_takeWhile_le [of "\<lambda>x. x \<notin> set ys" xs]
    by (auto simp: le_less)
  then have "xs ! length (takeWhile (\<lambda>x. x \<notin> set ys) xs) \<noteq> 0" using assms(1) nth_mem unfolding cstr_def by metis
  then show ?thesis using k False by (simp add: strpbrk_def Let_def scan_string_cstr [OF assms(2,3,1)] nth_append)
qed

lemma strchr_cstr:
  "cstr m s xs \<Longrightarrow> strchr s c m = Some (if c \<in> set xs \<or> c = 0 then s + of_nat (length (takeWhile (\<lambda>x. x \<noteq> c) xs)) else 0)"
  unfolding strchr_def
proof (induction xs arbitrary: s)
  case Nil
  then show ?case by (subst strchr_loop.simps) simp
next
  case (Cons x xs)
  then show ?case by (subst strchr_loop.simps) (auto simp: Let_def algebra_simps)
qed

lemma strrchr_from:
  "cstr m s xs \<Longrightarrow> xs @ [0] = ps @ c # qs \<Longrightarrow> c \<notin> set qs \<Longrightarrow> strrchr_loop c res s m = Some (s + of_nat (length ps))"
  "cstr m s xs \<Longrightarrow> c \<notin> set xs \<Longrightarrow> c \<noteq> 0 \<Longrightarrow> strrchr_loop c res s m = Some res"
proof (induction xs arbitrary: s ps res)
  case Nil
  {
    case 1
    then show ?case by (subst strrchr_loop.simps) (auto simp: Cons_eq_append_conv)
  next
    case 2
    then show ?case by (subst strrchr_loop.simps) auto
  }
next
  case (Cons x xs)
  {
    case 1
    show ?case
    proof (cases ps)
      case Nil
      then have "c = x" "c \<notin> set xs" "c \<noteq> 0" using 1 by auto
      then show ?thesis using 1 Nil Cons.IH(2) [of "s + 1"] by (subst strrchr_loop.simps) simp
    next
      case (Cons p qs')
      then show ?thesis using 1 Cons.IH(1) [of "s + 1" qs'] by (subst strrchr_loop.simps) (simp add: algebra_simps)
    qed
  next
    case 2
    then show ?case using Cons.IH(2) [of "s + 1"] by (subst strrchr_loop.simps) auto
  }
qed

lemma strrchr_cstr:
  "cstr m s xs \<Longrightarrow> xs @ [0] = ps @ c # qs \<Longrightarrow> c \<notin> set qs \<Longrightarrow> strrchr s c m = Some (s + of_nat (length ps))"
  "cstr m s xs \<Longrightarrow> c \<notin> set xs \<Longrightarrow> c \<noteq> 0 \<Longrightarrow> strrchr s c m = Some 0"
  unfolding strrchr_def by (fact strrchr_from)+

section \<open>Comparisons\<close>

text \<open>The order of strings with their terminating zeros, by signed bytes.\<close>

fun byte_order :: "u8 list \<Rightarrow> u8 list \<Rightarrow> int" where
  "byte_order (x # xs) (y # ys) = (if x = y then byte_order xs ys else if sint y < sint x then 1 else - 1)"
| "byte_order _ _ = 0"

lemma strcmp_cstr: "cstr m cs xs \<Longrightarrow> cstr m ct ys \<Longrightarrow> strcmp cs ct m = Some (byte_order (xs @ [0]) (ys @ [0]))"
  unfolding strcmp_def
proof (induction xs arbitrary: cs ct ys)
  case Nil
  then show ?case by (subst strcmp_loop.simps, cases ys) (auto simp: Let_def)
next
  case (Cons x xs)
  then show ?case by (subst strcmp_loop.simps, cases ys) (auto simp: Let_def)
qed

lemma byte_order_eq: "0 \<notin> set xs \<Longrightarrow> 0 \<notin> set ys \<Longrightarrow> byte_order (xs @ [0]) (ys @ [0]) = 0 \<longleftrightarrow> xs = ys"
proof (induction xs arbitrary: ys)
  case Nil
  then show ?case by (cases ys) auto
next
  case (Cons x xs)
  then show ?case by (cases ys) auto
qed

lemma strcmp_equal: "cstr m cs xs \<Longrightarrow> cstr m ct ys \<Longrightarrow> strcmp cs ct m = Some 0 \<longleftrightarrow> xs = ys"
  by (simp add: strcmp_cstr byte_order_eq cstr_def)

text \<open>With a count, the strings are compared as far as the count goes.\<close>

lemma strncmp_cstr:
  assumes "cstr m cs xs" "cstr m ct ys" "n < 2 ^ 31"
  shows "strncmp cs ct (int n) m = byte_order (take n (xs @ [0])) (take n (ys @ [0]))"
proof -
  have "strncmp_loop (of_nat n) cs ct m = byte_order (take n (xs @ [0])) (take n (ys @ [0]))"
    using assms
  proof (induction n arbitrary: cs ct xs ys)
    case 0
    then show ?case by (simp add: strncmp_loop.simps)
  next
    case (Suc n)
    have s: "sint (of_nat (Suc n) - 1 :: u32) = int n"
      using Suc.prems(3) by (simp add: signed_of_nat signed_take_bit_int_eq_self)
    have w: "(of_nat (Suc n) :: u32) - 1 = of_nat n" by simp
    show ?case
      using Suc.prems Suc.IH [of "cs + 1" _ "ct + 1"] s
      by (subst strncmp_loop.simps, cases xs; cases ys) (auto simp: Let_def w)
  qed
  then show ?thesis by (simp add: strncmp_def)
qed

section \<open>Copies\<close>

text \<open>\<open>m\<close> with the bytes \<open>bs\<close> at \<open>a\<close>.\<close>

definition overwrite :: "u32 \<Rightarrow> u8 list \<Rightarrow> memory \<Rightarrow> memory" where
  "overwrite a bs m = (\<lambda>x. if unat (x - a) < length bs then bs ! unat (x - a) else m x)"

lemma overwrite_Nil [simp]: "overwrite a [] m = m"
  by (simp add: overwrite_def)

lemma overwrite_Cons:
  assumes "length bs < 2 ^ 32"
  shows "overwrite a (b # bs) m = overwrite (a + 1) bs (m(a := b))"
proof
  fix x
  show "overwrite a (b # bs) m x = overwrite (a + 1) bs (m(a := b)) x"
  proof (cases "x = a")
    case True
    have "unat (a - (a + 1)) = 2 ^ 32 - 1" by (simp add: unsigned_minus_1_eq_mask mask_eq_exp_minus_1)
    then show ?thesis using True assms by (simp add: overwrite_def)
  next
    case False
    then have "unat (x - a) = Suc (unat (x - (a + 1)))" using unat_dec [of "x - a"] by (simp add: algebra_simps)
    then show ?thesis using False by (simp add: overwrite_def)
  qed
qed

lemma overwrite_snoc:
  assumes "length bs < 2 ^ 32"
  shows "overwrite a (bs @ [b]) m = overwrite a bs (m(a + of_nat (length bs) := b))"
proof
  fix x
  have "unat (x - a) = length bs" if "x = a + of_nat (length bs)"
    unfolding that add_diff_cancel_left' by (rule unat_of_nat32 [OF assms])
  moreover have "x = a + of_nat (unat (x - a))" by simp
  ultimately have "unat (x - a) = length bs \<longleftrightarrow> x = a + of_nat (length bs)" by metis
  then show "overwrite a (bs @ [b]) m x = overwrite a bs (m(a + of_nat (length bs) := b)) x"
    by (auto simp: overwrite_def nth_append less_Suc_eq)
qed

lemma rep_stosb_eq: "rep_stosb al n a m = overwrite a (replicate (unat n) al) m"
proof (induction "unat n" arbitrary: n a m)
  case 0
  then have "n = 0" by (simp add: unat_eq_zero)
  then show ?case by (simp add: rep_stosb.simps)
next
  case (Suc u)
  have n: "n \<noteq> 0" using Suc.hyps(2) by auto
  have u: "u = unat (n - 1)" using unat_dec [OF n] Suc.hyps(2) by simp
  have "unat (n - 1) < 2 ^ 32" by (rule unat_small32)
  then show ?case
    using Suc.hyps(1) [OF u, of "a + 1" "m(a := al)"] n
    by (subst rep_stosb.simps) (simp add: unat_dec [OF n] overwrite_Cons)
qed

text \<open>\<open>movsb\<close> copies the bytes as they were, if it does not overwrite what it has yet to read.\<close>

lemma rep_movsb_up:
  assumes "\<And>i j. i < j \<Longrightarrow> j < unat n \<Longrightarrow> dest + of_nat i \<noteq> src + of_nat j"
  shows "rep_movsb 1 n src dest m = overwrite dest (map (\<lambda>i. m (src + of_nat i)) [0..<unat n]) m"
  using assms
proof (induction "unat n" arbitrary: n src dest m)
  case 0
  then have "n = 0" by (simp add: unat_eq_zero)
  then show ?case by (simp add: rep_movsb.simps)
next
  case (Suc u)
  have n: "n \<noteq> 0" using Suc.hyps(2) by auto
  have u: "u = unat (n - 1)" using unat_dec [OF n] Suc.hyps(2) by simp
  have small: "unat (n - 1) < 2 ^ 32" by (rule unat_small32)
  let ?m = "m(dest := m src)"
  have apart: "(dest + 1) + of_nat i \<noteq> (src + 1) + of_nat j" if "i < j" "j < unat (n - 1)" for i j
    using Suc.prems [of "Suc i" "Suc j"] that unat_dec [OF n] by (simp add: ac_simps)
  have same: "?m ((src + 1) + of_nat i) = m (src + of_nat (Suc i))" if "i < unat (n - 1)" for i
    using Suc.prems [of 0 "Suc i"] that unat_dec [OF n] by (auto simp: ac_simps)
  have "rep_movsb 1 n src dest m = rep_movsb 1 (n - 1) (src + 1) (dest + 1) ?m"
    using n by (subst rep_movsb.simps) simp
  also have "\<dots> = overwrite (dest + 1) (map (\<lambda>i. ?m ((src + 1) + of_nat i)) [0..<unat (n - 1)]) ?m"
    by (rule Suc.hyps(1) [OF u]) (rule apart)
  also have "map (\<lambda>i. ?m ((src + 1) + of_nat i)) [0..<unat (n - 1)] = map (\<lambda>i. m (src + of_nat (Suc i))) [0..<unat (n - 1)]"
    using same by (intro map_cong) auto
  also have "overwrite (dest + 1) \<dots> ?m = overwrite dest (m src # map (\<lambda>i. m (src + of_nat (Suc i))) [0..<unat (n - 1)]) m"
    using small by (simp add: overwrite_Cons del: fun_upd_apply)
  also have "m src # map (\<lambda>i. m (src + of_nat (Suc i))) [0..<unat (n - 1)] = map (\<lambda>i. m (src + of_nat i)) [0..<unat n]"
    by (simp add: unat_dec [OF n] map_upt_Suc del: upt_Suc)
  finally show ?case .
qed

lemma rep_movsb_down:
  assumes "\<And>i j. j < i \<Longrightarrow> i < unat n \<Longrightarrow> dest + of_nat i \<noteq> src + of_nat j"
  shows "rep_movsb (- 1) n (src + n - 1) (dest + n - 1) m = overwrite dest (map (\<lambda>i. m (src + of_nat i)) [0..<unat n]) m"
  using assms
proof (induction "unat n" arbitrary: n m)
  case 0
  then have "n = 0" by (simp add: unat_eq_zero)
  then show ?case by (simp add: rep_movsb.simps)
next
  case (Suc u)
  have n: "n \<noteq> 0" using Suc.hyps(2) by auto
  have u: "u = unat (n - 1)" using unat_dec [OF n] Suc.hyps(2) by simp
  have small: "unat (n - 1) < 2 ^ 32" by (rule unat_small32)
  let ?k = "n - 1"
  let ?m = "m(dest + ?k := m (src + ?k))"
  have same: "?m (src + of_nat i) = m (src + of_nat i)" if "i < unat ?k" for i
    using Suc.prems [of i "unat ?k"] that unat_dec [OF n] by auto
  have "rep_movsb (- 1) n (src + n - 1) (dest + n - 1) m = rep_movsb (- 1) ?k (src + ?k - 1) (dest + ?k - 1) ?m"
    using n by (subst rep_movsb.simps) (simp add: algebra_simps)
  also have "\<dots> = overwrite dest (map (\<lambda>i. ?m (src + of_nat i)) [0..<unat ?k]) ?m"
    using Suc.prems unat_dec [OF n] by (intro Suc.hyps(1) [OF u]) auto
  also have "map (\<lambda>i. ?m (src + of_nat i)) [0..<unat ?k] = map (\<lambda>i. m (src + of_nat i)) [0..<unat ?k]"
    using same by (intro map_cong) auto
  also have "overwrite dest \<dots> ?m = overwrite dest (map (\<lambda>i. m (src + of_nat i)) [0..<unat ?k] @ [m (src + ?k)]) m"
    using small by (simp add: overwrite_snoc del: fun_upd_apply)
  also have "map (\<lambda>i. m (src + of_nat i)) [0..<unat ?k] @ [m (src + ?k)] = map (\<lambda>i. m (src + of_nat i)) [0..<unat n]"
    by (simp add: unat_dec [OF n])
  finally show ?case .
qed

lemma unat_count: "n < 2 ^ 31 \<Longrightarrow> unat (word_of_int (int n) :: u32) = n"
  by (simp add: unat_of_nat32)

lemma memset_eq: "n < 2 ^ 31 \<Longrightarrow> memset a c (int n) m = (a, overwrite a (replicate n c) m)"
  by (simp add: memset_def rep_stosb_eq unat_count del: of_int_of_nat_eq)

lemma memcpy_eq:
  assumes "n < 2 ^ 31" "\<And>i j. i < j \<Longrightarrow> j < n \<Longrightarrow> dest + of_nat i \<noteq> src + of_nat j"
  shows "memcpy dest src (int n) m = (dest, overwrite dest (map (\<lambda>i. m (src + of_nat i)) [0..<n]) m)"
proof -
  have "unat (word_of_int (int n) :: u32) = n" using assms(1) by (rule unat_count)
  then show ?thesis using rep_movsb_up [of "word_of_int (int n)" dest src m] assms(2) by (simp add: memcpy_def)
qed

text \<open>
  C34: \<open>memmove\<close> moves a block of memory wherever it goes. Whether the two blocks overlap or not, the destination holds
  afterwards what the source held before, and no other byte has changed.
\<close>

theorem memmove_moves:
  assumes "n < 2 ^ 31" "unat src + n \<le> 2 ^ 32" "unat dest + n \<le> 2 ^ 32"
  shows "snd (memmove dest src (int n) m) x =
    (if unat dest \<le> unat x \<and> unat x < unat dest + n then m (src + (x - dest)) else m x)"
proof -
  define w where "w = (word_of_int (int n) :: u32)"
  have n: "unat w = n" unfolding w_def using assms(1) by (rule unat_count)
  have run: "snd (memmove dest src (int n) m) =
    (if dest < src then rep_movsb 1 w src dest m else rep_movsb (- 1) w (src + w - 1) (dest + w - 1) m)"
    by (simp only: memmove_def snd_conv w_def)
  have at: "unat (a + of_nat i) = unat a + i" if "i < n" "unat a + n \<le> 2 ^ 32" for a :: u32 and i
    using that assms(1) by (subst unat_add_le) (simp_all add: unat_of_nat32)
  have "snd (memmove dest src (int n) m) = overwrite dest (map (\<lambda>i. m (src + of_nat i)) [0..<n]) m"
  proof (cases "dest < src")
    case True
    have "dest + of_nat i \<noteq> src + of_nat j" if "i < j" "j < unat w" for i j
    proof
      assume "dest + of_nat i = src + of_nat j"
      moreover have "i < n" "j < n" using that n by simp_all
      ultimately have "unat dest + i = unat src + j" using at [OF _ assms(3)] at [OF _ assms(2)] by metis
      then show False using True that(1) by (simp add: word_less_nat_alt)
    qed
    then have "rep_movsb 1 w src dest m = overwrite dest (map (\<lambda>i. m (src + of_nat i)) [0..<unat w]) m" by (rule rep_movsb_up)
    then show ?thesis unfolding run n using True by simp
  next
    case False
    have "dest + of_nat i \<noteq> src + of_nat j" if "j < i" "i < unat w" for i j
    proof
      assume "dest + of_nat i = src + of_nat j"
      moreover have "i < n" "j < n" using that n by simp_all
      ultimately have "unat dest + i = unat src + j" using at [OF _ assms(3)] at [OF _ assms(2)] by metis
      then show False using False that(1) by (simp add: word_less_nat_alt)
    qed
    then have "rep_movsb (- 1) w (src + w - 1) (dest + w - 1) m = overwrite dest (map (\<lambda>i. m (src + of_nat i)) [0..<unat w]) m"
      by (rule rep_movsb_down)
    then show ?thesis unfolding run n using False by simp
  qed
  moreover have "unat (x - dest) < n \<longleftrightarrow> unat dest \<le> unat x \<and> unat x < unat dest + n"
  proof
    assume k: "unat (x - dest) < n"
    have "x = dest + of_nat (unat (x - dest))" by simp
    then have "unat x = unat dest + unat (x - dest)" using at [OF k assms(3)] by metis
    then show "unat dest \<le> unat x \<and> unat x < unat dest + n" using k by simp
  next
    assume "unat dest \<le> unat x \<and> unat x < unat dest + n"
    then show "unat (x - dest) < n" by (auto simp: unat_sub_le)
  qed
  ultimately show ?thesis by (simp add: overwrite_def)
qed

theorem memmove_moves_witness:
  "snd (memmove 0x1002 0x1000 10 (\<lambda>a. ucast a)) 0x1005 = 3 \<and> snd (memmove 0x1000 0x1002 10 (\<lambda>a. ucast a)) 0x1005 = 7 \<and>
   snd (memmove 0x1002 0x1000 10 (\<lambda>a. ucast a)) 0x100c = 12"
  using memmove_moves [of 10 "0x1000" "0x1002" "\<lambda>a. ucast a" "0x1005"]
    memmove_moves [of 10 "0x1002" "0x1000" "\<lambda>a. ucast a" "0x1005"]
    memmove_moves [of 10 "0x1000" "0x1002" "\<lambda>a. ucast a" "0x100c"]
  by simp

lemma cstr_cong: "cstr m a xs \<Longrightarrow> (\<And>i. i \<le> length xs \<Longrightarrow> m' (a + of_nat i) = m (a + of_nat i)) \<Longrightarrow> cstr m' a xs"
  by (simp add: cstr_def bytes_at_iff)

lemma cstr_upd: "cstr m a xs \<Longrightarrow> (\<And>i. i \<le> length xs \<Longrightarrow> b \<noteq> a + of_nat i) \<Longrightarrow> cstr (m(b := c)) a xs"
  by (erule cstr_cong) (metis fun_upd_other)

lemma copy_string_cstr:
  "cstr m src xs \<Longrightarrow> (\<And>i j. i < j \<Longrightarrow> j \<le> length xs \<Longrightarrow> dest + of_nat i \<noteq> src + of_nat j) \<Longrightarrow>
     copy_string src dest m = Some (overwrite dest (xs @ [0]) m)"
proof (induction xs arbitrary: src dest m)
  case Nil
  then show ?case by (subst copy_string.simps) (simp add: overwrite_Cons)
next
  case (Cons x xs)
  have len: "length xs + 1 < 2 ^ 32" using cstr_length [OF Cons.prems(1)] by simp
  have "cstr (m(dest := x)) (src + 1) xs"
    using Cons.prems(1) Cons.prems(2) [of 0 "Suc i" for i] by (intro cstr_upd) (auto simp: ac_simps)
  moreover have "(dest + 1) + of_nat i \<noteq> (src + 1) + of_nat j" if "i < j" "j \<le> length xs" for i j
    using Cons.prems(2) [of "Suc i" "Suc j"] that by (simp add: ac_simps)
  ultimately have "copy_string (src + 1) (dest + 1) (m(dest := x)) = Some (overwrite (dest + 1) (xs @ [0]) (m(dest := x)))"
    by (rule Cons.IH)
  then show ?case using Cons.prems(1) len
    by (subst copy_string.simps) (simp add: overwrite_Cons del: fun_upd_apply)
qed

lemma strcpy_cstr:
  assumes "cstr m src xs" "\<And>i j. i < j \<Longrightarrow> j \<le> length xs \<Longrightarrow> dest + of_nat i \<noteq> src + of_nat j"
  shows "strcpy dest src m = Some (dest, overwrite dest (xs @ [0]) m)"
  using copy_string_cstr [OF assms] by (simp add: strcpy_def)

text \<open>\<open>strncpy\<close> fills up with zeros, and leaves no zero when the string is too long.\<close>

lemma strncpy_cstr:
  assumes "cstr m src xs" "n < 2 ^ 31" "\<And>i j. i < j \<Longrightarrow> j \<le> length xs \<Longrightarrow> dest + of_nat i \<noteq> src + of_nat j"
  shows "strncpy dest src (int n) m = (dest, overwrite dest (take n xs @ replicate (n - length xs) 0) m)"
proof -
  have "strncpy_loop (of_nat n) src dest m = overwrite dest (take n xs @ replicate (n - length xs) 0) m"
    using assms
  proof (induction n arbitrary: src dest xs m)
    case 0
    then show ?case by (simp add: strncpy_loop.simps)
  next
    case (Suc n)
    have s: "\<not> sint (of_nat (Suc n) - 1 :: u32) < 0"
      using Suc.prems(2) by (simp add: signed_of_nat signed_take_bit_int_eq_self)
    have w: "(of_nat (Suc n) :: u32) - 1 = of_nat n" "unat (of_nat n :: u32) = n" using Suc.prems(2) by (simp_all add: unat_of_nat32)
    show ?case
    proof (cases xs)
      case Nil
      then show ?thesis using Suc.prems(1,2) s
        by (subst strncpy_loop.simps) (simp add: w rep_stosb_eq overwrite_Cons Let_def del: of_nat_Suc fun_upd_apply)
    next
      case (Cons x ys)
      have "cstr (m(dest := x)) (src + 1) ys"
        using Suc.prems(1) Suc.prems(3) [of 0 "Suc i" for i] Cons by (intro cstr_upd) (auto simp: ac_simps)
      moreover have "(dest + 1) + of_nat i \<noteq> (src + 1) + of_nat j" if "i < j" "j \<le> length ys" for i j
        using Suc.prems(3) [of "Suc i" "Suc j"] that Cons by (simp add: ac_simps)
      ultimately have "strncpy_loop (of_nat n) (src + 1) (dest + 1) (m(dest := x)) =
          overwrite (dest + 1) (take n ys @ replicate (n - length ys) 0) (m(dest := x))"
        using Suc.prems(2) by (intro Suc.IH) (simp_all del: fun_upd_apply)
      moreover have "length (take n ys @ replicate (n - length ys) 0) < 2 ^ 32" using Suc.prems(2) by simp
      ultimately show ?thesis using Suc.prems(1) Cons s
        by (subst strncpy_loop.simps) (simp add: w overwrite_Cons Let_def del: of_nat_Suc fun_upd_apply)
    qed
  qed
  then show ?thesis by (simp add: strncpy_def)
qed

lemma strcat_cstr:
  assumes "cstr m dest xs" "cstr m src ys" "length xs < 0xffffffff"
    "\<And>i j. i < j \<Longrightarrow> j \<le> length ys \<Longrightarrow> dest + of_nat (length xs + i) \<noteq> src + of_nat j"
  shows "strcat dest src m = Some (dest, overwrite (dest + of_nat (length xs)) (ys @ [0]) m)"
  using copy_string_cstr [OF assms(2), of "dest + of_nat (length xs)"] assms(4)
  by (simp add: strcat_def strlen_cstr [OF assms(1,3)] ac_simps)

text \<open>
  C35: \<open>strncat\<close> writes one byte too many. When the appended string is shorter than the count, the code stores the terminating
  zero with the string and then, at the label that the exhausted count jumps to, another one after it.
\<close>

theorem strncat_extra_zero:
  assumes "cstr m dest xs" "cstr m src ys" "length xs < 0xffffffff" "length ys < n" "n < 2 ^ 31"
    "\<And>i j. i < j \<Longrightarrow> j \<le> length ys \<Longrightarrow> dest + of_nat (length xs + i) \<noteq> src + of_nat j"
  shows "snd (strncat dest src (int n) m) = overwrite (dest + of_nat (length xs)) (ys @ [0, 0]) m"
proof -
  have "strncat_loop (of_nat n) src a m = overwrite a (ys @ [0, 0]) m"
    if "cstr m src ys" "length ys < n" "n < 2 ^ 31" "\<And>i j. i < j \<Longrightarrow> j \<le> length ys \<Longrightarrow> a + of_nat i \<noteq> src + of_nat j" for a src m ys n
    using that
  proof (induction ys arbitrary: a src m n)
    case Nil
    then obtain k where k: "n = Suc k" "k < 2 ^ 31 - 1" by (cases n) auto
    then show ?case using Nil.prems(1)
      by (subst strncat_loop.simps) (simp add: signed_of_nat signed_take_bit_int_eq_self overwrite_Cons)
  next
    case (Cons y ys)
    obtain k where k: "n = Suc k" "k < 2 ^ 31 - 1" "length ys < k" using Cons.prems by (cases n) auto
    have s: "(of_nat n :: u32) - 1 = of_nat k" "\<not> sint (of_nat k :: u32) < 0"
      using k by (simp_all add: signed_of_nat signed_take_bit_int_eq_self)
    have "cstr (m(a := y)) (src + 1) ys"
      using Cons.prems(1) Cons.prems(4) [of 0 "Suc i" for i] by (intro cstr_upd) (auto simp: ac_simps)
    moreover have "(a + 1) + of_nat i \<noteq> (src + 1) + of_nat j" if "i < j" "j \<le> length ys" for i j
      using Cons.prems(4) [of "Suc i" "Suc j"] that by (simp add: ac_simps)
    ultimately have "strncat_loop (of_nat k) (src + 1) (a + 1) (m(a := y)) = overwrite (a + 1) (ys @ [0, 0]) (m(a := y))"
      using k by (intro Cons.IH) (simp_all del: fun_upd_apply)
    moreover have "length (ys @ [0, 0]) < 2 ^ 32" using k by simp
    ultimately show ?case using Cons.prems(1) s
      by (subst strncat_loop.simps) (simp add: overwrite_Cons Let_def del: fun_upd_apply)
  qed
  from this [OF assms(2,4,5), of "dest + of_nat (length xs)"] assms(6) show ?thesis
    by (simp add: strncat_def strlen_cstr [OF assms(1,3)] ac_simps)
qed

text \<open>"ab" is appended to "x" with a count of 5; the byte after the terminating zero is overwritten.\<close>

theorem strncat_extra_zero_witness:
  "snd (strncat 0x1000 0x2000 5 (\<lambda>a. if a = 0x1000 then 120 else if a = 0x1001 then 0 else if a = 0x2000 then 97
     else if a = 0x2001 then 98 else if a = 0x2002 then 0 else 255)) 0x1004 = 0"
proof -
  let ?m = "\<lambda>a :: u32. if a = 0x1000 then 120 else if a = 0x1001 then 0 else if a = 0x2000 then 97
     else if a = 0x2001 then 98 else if a = 0x2002 then 0 else 255 :: u8"
  have "0x1000 + of_nat (length [120 :: u8] + i) \<noteq> (0x2000 :: u32) + of_nat j" if "i < j" "j \<le> length [97 :: u8, 98]" for i j
  proof -
    have "i = 0 \<and> j = 1 \<or> i = 0 \<and> j = 2 \<or> i = 1 \<and> j = 2" using that by auto
    then show ?thesis by auto
  qed
  then have "snd (strncat 0x1000 0x2000 (int 5) ?m) = overwrite (0x1000 + of_nat (length [120 :: u8])) ([97, 98] @ [0, 0]) ?m"
    by (intro strncat_extra_zero) simp_all
  then show ?thesis by (simp add: overwrite_def)
qed

section \<open>Blocks\<close>

lemma scan_miss: "bytes_at m a xs \<Longrightarrow> unat n = length xs \<Longrightarrow> al \<notin> set xs \<Longrightarrow> xs \<noteq> [] \<Longrightarrow> fst (repne_scasb m al n a zf) = False"
  by (simp add: scan_mem)

lemma memchr_block:
  assumes "bytes_at m cs xs" "length xs < 2 ^ 31"
  shows "memchr cs c (int (length xs)) m = (if c \<in> set xs then cs + of_nat (length (takeWhile (\<lambda>x. x \<noteq> c) xs)) else 0)"
proof (cases "c \<in> set xs")
  case True
  then obtain ys zs where xs: "xs = ys @ c # zs" "c \<notin> set ys" by (meson split_list_first)
  have len: "length ys < length xs" using xs(1) by simp
  have "takeWhile (\<lambda>x. x \<noteq> c) xs = ys" using xs by (auto simp: takeWhile_append)
  moreover have "bytes_at m cs (ys @ [c])" using assms(1) xs(1) by (simp add: bytes_at_append)
  then have "repne_scasb m c (word_of_int (int (length xs))) cs False =
      (True, word_of_int (int (length xs)) - of_nat (length ys) - 1, cs + of_nat (length ys) + 1)"
    using xs(2) len by (intro scan_hit) (simp_all only: unat_count [OF assms(2)] not_False_eq_True)
  ultimately show ?thesis using True by (auto simp: memchr_def)
next
  case False
  show ?thesis
  proof (cases "xs = []")
    case True
    then show ?thesis by (simp add: memchr_def)
  next
    case ne: False
    then have "fst (repne_scasb m c (word_of_int (int (length xs))) cs False) = False"
      using assms False by (intro scan_miss) (simp_all add: unat_count del: of_int_of_nat_eq)
    then show ?thesis using False ne by (auto simp: memchr_def split: prod.split)
  qed
qed

text \<open>The comparison of two blocks, and the place where it stops.\<close>

lemma cmpsb_equal:
  "bytes_at m a xs \<Longrightarrow> bytes_at m b xs \<Longrightarrow> unat n = length xs \<Longrightarrow>
     fst (repe_cmpsb m n a b flags) = (if xs = [] then fst flags else True)"
proof (induction xs arbitrary: a b n flags)
  case Nil
  then have "n = 0" by (simp add: unat_eq_zero)
  then show ?case by (cases flags) (simp add: repe_cmpsb.simps)
next
  case (Cons x xs)
  then have n: "n \<noteq> 0" by auto
  have "fst (repe_cmpsb m (n - 1) (a + 1) (b + 1) (True, False)) = (if xs = [] then True else True)"
    using Cons.IH [of "a + 1" "b + 1" "n - 1" "(True, False)"] Cons.prems unat_dec [OF n] by simp
  then show ?case using Cons.prems n by (cases flags, subst repe_cmpsb.simps) (simp add: Let_def)
qed

lemma cmpsb_differ:
  "bytes_at m a (ps @ [x]) \<Longrightarrow> bytes_at m b (ps @ [y]) \<Longrightarrow> x \<noteq> y \<Longrightarrow> length ps < unat n \<Longrightarrow>
     repe_cmpsb m n a b flags = (False, sint x < sint y, a + of_nat (length ps) + 1, b + of_nat (length ps) + 1)"
proof (induction ps arbitrary: a b n flags)
  case Nil
  then have "n \<noteq> 0" by auto
  then show ?case using Nil by (cases flags, subst repe_cmpsb.simps) (simp add: Let_def)
next
  case (Cons p ps)
  then have n: "n \<noteq> 0" by auto
  have "repe_cmpsb m (n - 1) (a + 1) (b + 1) (True, False) =
      (False, sint x < sint y, a + 1 + of_nat (length ps) + 1, b + 1 + of_nat (length ps) + 1)"
    using Cons.prems unat_dec [OF n] by (intro Cons.IH) auto
  then show ?case using Cons.prems n by (cases flags, subst repe_cmpsb.simps) (simp add: Let_def algebra_simps)
qed

lemma memcmp_equal:
  assumes "bytes_at m cs xs" "bytes_at m ct ys" "length ys = length xs" "length xs < 2 ^ 31" "xs \<noteq> []"
  shows "memcmp flags cs ct (int (length xs)) m = 0 \<longleftrightarrow> xs = ys"
proof (cases "xs = ys")
  case True
  have "fst (repe_cmpsb m (word_of_int (int (length xs))) ct cs flags) = True"
    using cmpsb_equal [OF assms(2) [folded True] assms(1) unat_count [OF assms(4)], of flags] assms(5) by (simp only: if_False)
  then show ?thesis using True unfolding memcmp_def by (cases "repe_cmpsb m (word_of_int (int (length xs))) ct cs flags") simp
next
  case False
  obtain ps x xs' y ys' where d: "xs = ps @ x # xs'" "ys = ps @ y # ys'" "x \<noteq> y"
    using same_length_different [OF False assms(3) [symmetric]] unfolding append_Cons append_Nil by blast
  have len: "length ps < length xs" using d(1) by simp
  have "bytes_at m cs (ps @ [x])" "bytes_at m ct (ps @ [y])"
    using assms(1,2) d by (simp_all add: bytes_at_append)
  then have "repe_cmpsb m (word_of_int (int (length xs))) ct cs flags =
      (False, sint y < sint x, ct + of_nat (length ps) + 1, cs + of_nat (length ps) + 1)"
    using d(3) len by (intro cmpsb_differ) (simp_all only: unat_count [OF assms(4)] not_False_eq_True)
  then show ?thesis using False unfolding memcmp_def by (simp only: prod.case) simp
qed

section \<open>The first occurrence of a string\<close>

lemma find_upt_shift:
  "find P [0..<Suc n] = (if P 0 then Some 0 else map_option Suc (find (\<lambda>i. P (Suc i)) [0..<n]))"
proof -
  have "find P (map Suc is) = map_option Suc (find (\<lambda>i. P (Suc i)) is)" for "is"
    by (induction "is") auto
  then show ?thesis by (simp add: upt_conv_Cons map_Suc_upt [symmetric] del: upt_Suc)
qed

lemma take_differs:
  assumes "take (length ys) xs \<noteq> ys"
  obtains ps y ys' where "ys = ps @ y # ys'" "take (length ps) xs = ps" "length ps \<le> length xs" "length ps < length xs \<Longrightarrow> xs ! length ps \<noteq> y"
  using assms
proof (induction ys arbitrary: xs thesis)
  case (Cons y ys)
  show ?case
  proof (cases "xs \<noteq> [] \<and> hd xs = y")
    case True
    then obtain xs' where xs: "xs = y # xs'" by (cases xs) auto
    then have "take (length ys) xs' \<noteq> ys" using Cons.prems(2) by simp
    then obtain ps z zs where "ys = ps @ z # zs" "take (length ps) xs' = ps" "length ps \<le> length xs'" "length ps < length xs' \<Longrightarrow> xs' ! length ps \<noteq> z"
      by (rule Cons.IH [rotated]) blast
    then show ?thesis using Cons.prems(1) [of "y # ps" z zs] xs by simp
  next
    case False
    then show ?thesis using Cons.prems(1) [of "[]" y ys] by (cases xs) auto
  qed
qed simp

text \<open>One comparison: it finds the string, or stops at a byte that is zero exactly when the rest is a prefix of the string.\<close>

lemma strstr_step:
  assumes ct: "cstr m ct ys" "length ys < 0xffffffff" and cs: "cstr m a xs"
  shows "strstr_loop ct (of_nat (length ys)) a m =
    (if take (length ys) xs = ys then Some a
     else if length xs < length ys \<and> take (length xs) ys = xs then Some 0
     else strstr_loop ct (of_nat (length ys)) (a + 1) m)"
proof -
  let ?n = "of_nat (length ys) :: u32"
  have n: "unat ?n = length ys" using ct(2) by (simp add: unat_of_nat32)
  then have z: "?n = 0 \<longleftrightarrow> ys = []" by (metis length_0_conv unat_eq_zero)
  have bct: "bytes_at m ct (ys @ [0])" "0 \<notin> set ys" and bcs: "bytes_at m a (xs @ [0])" using ct(1) cs by (simp_all add: cstr_def)
  show ?thesis
  proof (cases "take (length ys) xs = ys")
    case True
    then have "xs = ys @ drop (length ys) xs" by (metis append_take_drop_id)
    then have "bytes_at m a ys" using bcs by (metis append_assoc bytes_at_append)
    moreover have "bytes_at m ct ys" using bct(1) by (simp add: bytes_at_append)
    ultimately have "fst (repe_cmpsb m ?n a ct (?n = 0, False)) = True" using cmpsb_equal [OF _ _ n] z by auto
    then show ?thesis using True
      by (subst strstr_loop.simps, cases "repe_cmpsb m ?n a ct (?n = 0, False)") simp
  next
    case False
    obtain ps y ys' where d: "ys = ps @ y # ys'" "take (length ps) xs = ps" "length ps \<le> length xs"
      "length ps < length xs \<Longrightarrow> xs ! length ps \<noteq> y" using False by (rule take_differs) blast
    let ?x = "(xs @ [0]) ! length ps"
    have y: "y \<noteq> 0" using bct(2) d(1) by auto
    have "length ps < length xs \<Longrightarrow> xs ! length ps \<noteq> 0" using cs nth_mem unfolding cstr_def by metis
    then have x: "?x \<noteq> y" "?x \<noteq> 0 \<longleftrightarrow> length ps < length xs"
      using d(3,4) y by (auto simp: nth_append)
    have "take (Suc (length ps)) (xs @ [0]) = ps @ [?x]" using d(2,3) take_Suc_conv_app_nth [of "length ps" "xs @ [0]"] by simp
    then have "xs @ [0] = (ps @ [?x]) @ drop (Suc (length ps)) (xs @ [0])" by (metis append_take_drop_id)
    then have "bytes_at m a (ps @ [?x])" using bcs by (metis bytes_at_append)
    moreover have "bytes_at m ct (ps @ [y])" using bct(1) d(1) by (simp add: bytes_at_append)
    ultimately have r: "repe_cmpsb m ?n a ct (?n = 0, False) = (False, sint ?x < sint y, a + of_nat (length ps) + 1, ct + of_nat (length ps) + 1)"
      using x(1) n d(1) by (intro cmpsb_differ) simp_all
    have "m (a + of_nat (length ps)) = ?x" using cstr_byte [OF cs d(3)] .
    moreover have "length ps < length xs \<longleftrightarrow> \<not> (length xs < length ys \<and> take (length xs) ys = xs)"
    proof
      assume "length ps < length xs"
      then show "\<not> (length xs < length ys \<and> take (length xs) ys = xs)"
        using d(1,4) by (metis append_eq_conv_conj nth_append_length nth_take)
    next
      assume "\<not> (length xs < length ys \<and> take (length xs) ys = xs)"
      then show "length ps < length xs" using d(1-3) by (cases "length ps = length xs") auto
    qed
    ultimately show ?thesis using False r x(2) by (subst strstr_loop.simps) simp
  qed
qed

lemma strstr_loop_eq:
  assumes ct: "cstr m ct ys" "length ys < 0xffffffff"
  shows "cstr m a xs \<Longrightarrow> strstr_loop ct (of_nat (length ys)) a m =
    Some (case find (\<lambda>k. take (length ys) (drop k xs) = ys) [0..<Suc (length xs)] of None \<Rightarrow> 0 | Some k \<Rightarrow> a + of_nat k)"
proof (induction xs arbitrary: a)
  case Nil
  show ?case unfolding strstr_step [OF ct Nil] by auto
next
  case (Cons x xs)
  have rest: "cstr m (a + 1) xs" using Cons.prems by simp
  have none: "find (\<lambda>k. take (length ys) (drop k (x # xs)) = ys) [0..<Suc (length (x # xs))] = None" if "length (x # xs) < length ys"
  proof -
    have "length (take (length ys) (drop k (x # xs))) < length ys" for k using that by simp
    then have "take (length ys) (drop k (x # xs)) \<noteq> ys" for k by (metis order_less_irrefl)
    then show ?thesis by (simp add: find_None_iff)
  qed
  show ?case
  proof (cases "take (length ys) (x # xs) = ys")
    case True
    then show ?thesis unfolding strstr_step [OF ct Cons.prems] by (simp add: find_upt_shift del: upt_Suc)
  next
    case False
    show ?thesis
    proof (cases "length (x # xs) < length ys \<and> take (length (x # xs)) ys = x # xs")
      case True
      then show ?thesis using False none unfolding strstr_step [OF ct Cons.prems] by (simp only: if_False if_True option.case conj_assoc) simp
    next
      case more: False
      have "strstr_loop ct (of_nat (length ys)) a m = strstr_loop ct (of_nat (length ys)) (a + 1) m"
        unfolding strstr_step [OF ct Cons.prems] using False more by (simp only: if_False)
      also have "\<dots> = Some (case find (\<lambda>k. take (length ys) (drop k xs) = ys) [0..<Suc (length xs)] of None \<Rightarrow> 0 | Some k \<Rightarrow> a + 1 + of_nat k)"
        by (rule Cons.IH [OF rest])
      finally show ?thesis
        using False unfolding find_upt_shift [of _ "Suc (length xs)"] length_Cons drop_Suc_Cons
        by (simp add: ac_simps split: option.split del: upt_Suc)
    qed
  qed
qed

text \<open>
  C32: \<open>strstr\<close> finds the first occurrence. It returns the address where the string \<open>ct\<close> first occurs in \<open>cs\<close>, that of \<open>cs\<close> itself
  for an empty \<open>ct\<close>, and the null pointer when there is none; the hand-written loop gives up early only where no occurrence is left.
\<close>

theorem strstr_first:
  assumes "cstr m cs xs" "cstr m ct ys" "length ys < 0xffffffff"
  shows "strstr cs ct m =
    Some (case find (\<lambda>k. take (length ys) (drop k xs) = ys) [0..<Suc (length xs)] of None \<Rightarrow> 0 | Some k \<Rightarrow> cs + of_nat k)"
  unfolding strstr_def strlen_cstr [OF assms(2,3)] by (rule strstr_loop_eq [OF assms(2,3,1)])

text \<open>"na" in "banana".\<close>

theorem strstr_first_witness:
  "strstr 0x1000 0x2000 (\<lambda>a. if a = 0x1000 then 98 else if a \<in> {0x1001, 0x1003, 0x1005, 0x2001} then 97
     else if a \<in> {0x1002, 0x1004, 0x2000} then 110 else 0) = Some 0x1002"
proof -
  let ?m = "\<lambda>a :: u32. if a = 0x1000 then 98 else if a \<in> {0x1001, 0x1003, 0x1005, 0x2001} then 97
     else if a \<in> {0x1002, 0x1004, 0x2000} then 110 else 0 :: u8"
  have "cstr ?m 0x1000 [98, 97, 110, 97, 110, 97]" "cstr ?m 0x2000 [110, 97]" by simp_all
  from strstr_first [OF this] show ?thesis by (simp add: upt_conv_Cons)
qed

section \<open>Tokens\<close>

lemma offset_neq: "i \<noteq> j \<Longrightarrow> i < 2 ^ 32 \<Longrightarrow> j < 2 ^ 32 \<Longrightarrow> (a :: u32) + of_nat i \<noteq> a + of_nat j"
  by (metis add_left_cancel unat_of_nat32)

text \<open>A zero at the end of the word makes two strings of one.\<close>

lemma cstr_cut:
  assumes "cstr m a (word @ r # rs)"
  defines "stop \<equiv> a + of_nat (length word)"
  shows "cstr (m(stop := 0)) a word" "cstr (m(stop := 0)) (stop + 1) rs"
proof -
  have len: "length word + length rs + 1 < 2 ^ 32" using cstr_length [OF assms(1)] by simp
  have b: "bytes_at m a word" "0 \<notin> set word" using assms(1) by (simp_all add: cstr_def bytes_at_append)
  have "a + of_nat i \<noteq> stop" if "i < length word" for i
    unfolding stop_def using that len by (intro offset_neq) simp_all
  then have "bytes_at (m(stop := 0)) a word" using b(1) by (simp add: bytes_at_iff)
  then show "cstr (m(stop := 0)) a word" using b(2) by (simp add: cstr_def bytes_at_append stop_def)
  have "cstr m (stop + 1) rs" using cstr_drop [OF assms(1), of "length word"] by (simp add: stop_def)
  moreover have "stop \<noteq> stop + 1 + of_nat i" if "i \<le> length rs" for i
    using offset_neq [of 0 "Suc i" stop] that len by (simp add: ac_simps)
  ultimately show "cstr (m(stop := 0)) (stop + 1) rs" by (rule cstr_upd)
qed

lemma strtok_words:
  assumes "cstr m s (seps @ word @ rest)" "cstr m ct ys" "length ys < 0xffffffff" "ys \<noteq> []"
    "set seps \<subseteq> set ys" "set word \<inter> set ys = {}" "rest = [] \<or> hd rest \<in> set ys" "word = [] \<Longrightarrow> rest = []"
  shows "strtok_from s ct m =
    (if word = [] then Some (0, s + of_nat (length seps) + 1, m)
     else if rest = [] then Some (s + of_nat (length seps), 0, m)
     else Some (s + of_nat (length seps), s + of_nat (length seps) + of_nat (length word) + 1,
       m(s + of_nat (length seps) + of_nat (length word) := 0)))"
proof -
  have "unat (of_nat (length ys) :: u32) = length ys" using assms(3) by (intro unat_of_nat32) simp
  then have edx: "strlen ct m \<noteq> 0" unfolding strlen_cstr [OF assms(2,3)] using assms(4) by (metis length_0_conv unat_0)
  have seps: "takeWhile (\<lambda>x. (x \<in> set ys) = True) (seps @ word @ rest) = seps"
    using assms(5,6,8) by (cases word) (auto simp: takeWhile_append2 subset_iff)
  note scan1 = scan_string_cstr [OF assms(2,3,1), of True, unfolded seps Let_def]
  let ?t = "s + of_nat (length seps)"
  show ?thesis
  proof (cases word)
    case Nil
    then have "rest = []" using assms(8) by simp
    then show ?thesis using Nil edx scan1 by (simp add: strtok_from_def)
  next
    case (Cons w ws)
    have tok: "cstr m ?t (word @ rest)" using cstr_drop [OF assms(1), of "length seps"] by simp
    then have w: "m ?t = w" "w \<noteq> 0" using Cons by simp_all
    have word: "takeWhile (\<lambda>x. (x \<in> set ys) = False) (word @ rest) = word"
      using assms(6,7) by (cases rest) (auto simp: takeWhile_append2 disjoint_iff)
    note scan2 = scan_string_cstr [OF assms(2,3) tok, of False, unfolded word Let_def]
    show ?thesis
    proof (cases rest)
      case Nil
      then show ?thesis using Cons w edx scan1 scan2 by (simp add: strtok_from_def)
    next
      case (Cons r rs)
      have "cstr m (?t + of_nat (length word)) rest" using cstr_drop [OF tok, of "length word"] by simp
      then have r: "m (?t + of_nat (length word)) = r" "r \<noteq> 0" using Cons by simp_all
      have "unat (of_nat (length word) :: u32) = length word" using cstr_length [OF tok] by (intro unat_of_nat32) simp
      then have "(of_nat (length word) :: u32) \<noteq> 0" using \<open>word = w # ws\<close> by (metis length_0_conv list.distinct(1) unat_0)
      then show ?thesis using \<open>word = w # ws\<close> Cons w r edx scan1 scan2
        by (simp add: strtok_from_def algebra_simps)
    qed
  qed
qed
text \<open>
  C33: \<open>strtok\<close> cuts the next word off. It skips the bytes of \<open>ct\<close>; the token is the address of the longest piece without such
  bytes, which is a string of its own afterwards, and the address it keeps is that of the rest after the one separator that was
  overwritten, or null at the end of the string. Without a word left both are null. Nothing else in memory changes.
\<close>

theorem strtok_next:
  assumes "cstr m s (seps @ word @ rest)" "cstr m ct ys" "length ys < 0xffffffff" "ys \<noteq> []"
    "set seps \<subseteq> set ys" "set word \<inter> set ys = {}" "rest = [] \<or> hd rest \<in> set ys" "word = [] \<Longrightarrow> rest = []"
    "\<And>i. i \<le> length (seps @ word @ rest) \<Longrightarrow> s + of_nat i \<noteq> 0" "(if a = 0 then saved else a) = s"
  shows "let token = s + of_nat (length seps); stop = token + of_nat (length word) in
    strtok a ct saved m =
      Some (if word = [] then (0, 0, m) else if rest = [] then (token, 0, m) else (token, stop + 1, m(stop := 0))) \<and>
    (rest \<noteq> [] \<longrightarrow> cstr (m(stop := 0)) token word \<and> cstr (m(stop := 0)) (stop + 1) (tl rest))"
proof -
  let ?token = "s + of_nat (length seps)"
  have s: "s \<noteq> 0" "?token \<noteq> 0" using assms(9) [of 0] assms(9) [of "length seps"] by simp_all
  then have "strtok a ct saved m = map_option (\<lambda>(res, esi, m). (res, if res = 0 then res else esi, m)) (strtok_from s ct m)"
    using assms(10) by (cases "strtok_from s ct m") (auto simp: strtok_def)
  moreover have "cstr (m(?token + of_nat (length word) := 0)) ?token word \<and>
      cstr (m(?token + of_nat (length word) := 0)) (?token + of_nat (length word) + 1) (tl rest)" if "rest \<noteq> []"
  proof -
    have "cstr m ?token (word @ hd rest # tl rest)" using cstr_drop [OF assms(1), of "length seps"] that by simp
    then show ?thesis using cstr_cut by blast
  qed
  ultimately show ?thesis
    using strtok_words [OF assms(1-8)] s(2) by (simp add: Let_def)
qed

text \<open>The first word of "ab c", with the blank as separator.\<close>

theorem strtok_next_witness:
  "\<exists>m'. strtok 0x1000 0x2000 0 (\<lambda>a. if a = 0x1000 then 97 else if a = 0x1001 then 98 else if a = 0x1002 \<or> a = 0x2000 then 32
     else if a = 0x1003 then 99 else 0) = Some (0x1000, 0x1003, m') \<and> cstr m' 0x1000 [97, 98] \<and> cstr m' 0x1003 [99]"
proof -
  let ?m = "\<lambda>a :: u32. if a = 0x1000 then 97 else if a = 0x1001 then 98 else if a = 0x1002 \<or> a = 0x2000 then 32
     else if a = 0x1003 then 99 else 0 :: u8"
  have nz: "0x1000 + of_nat i \<noteq> (0 :: u32)" if "i \<le> length ([] @ [97, 98] @ [32, 99 :: u8])" for i
  proof -
    have "i = 0 \<or> i = 1 \<or> i = 2 \<or> i = 3 \<or> i = 4" using that by auto
    then show ?thesis by auto
  qed
  have "let token = 0x1000 + of_nat (length ([] :: u8 list)); stop = token + of_nat (length [97, 98 :: u8]) in
    strtok 0x1000 0x2000 0 ?m =
      Some (if [97, 98 :: u8] = [] then (0, 0, ?m) else if [32, 99 :: u8] = [] then (token, 0, ?m) else (token, stop + 1, ?m(stop := 0))) \<and>
    ([32, 99 :: u8] \<noteq> [] \<longrightarrow> cstr (?m(stop := 0)) token [97, 98] \<and> cstr (?m(stop := 0)) (stop + 1) (tl [32, 99]))"
    by (rule strtok_next [where ys = "[32]" and s = "0x1000"]) (use nz in simp_all)
  then show ?thesis by (simp add: Let_def del: fun_upd_apply)
qed

end
