(* ===== verification/Vsprintf.thy ===== *)
theory Vsprintf
  imports Prelude
begin

text \<open>
  kernel/vsprintf.c, the formatter behind \<open>printk\<close>. A format is the list of its bytes up to the terminating zero, the result
  the list of the bytes written to the buffer. An argument is a number or a pointer to a string; \<open>%n\<close> stores a number
  through a pointer, and the stores are part of the result. An argument of another kind than its conversion asks for, or a
  missing one, has no meaning in C (\<open>None\<close>).
\<close>

section \<open>Definitions\<close>

datatype vararg = Int_arg u32 | Str_arg "u8 list" | Loc_arg nat

definition is_digit :: "u8 \<Rightarrow> bool" where
  "is_digit c \<longleftrightarrow> 48 \<le> c \<and> c \<le> 57"

fun skip_atoi_from :: "u32 \<Rightarrow> u8 list \<Rightarrow> u32 \<times> u8 list" where
  "skip_atoi_from i [] = (i, [])"
| "skip_atoi_from i (c # s) = (if is_digit c then skip_atoi_from (i * 10 + ucast c - 48) s else (i, c # s))"

definition skip_atoi :: "u8 list \<Rightarrow> u32 \<times> u8 list" where
  "skip_atoi s = skip_atoi_from 0 s"

abbreviation "ZEROPAD \<equiv> (1 :: u32)"
abbreviation "SIGN \<equiv> (2 :: u32)"
abbreviation "PLUS \<equiv> (4 :: u32)"
abbreviation "SPACE \<equiv> (8 :: u32)"
abbreviation "LEFT_FLAG \<equiv> (16 :: u32)"
abbreviation "SPECIAL \<equiv> (32 :: u32)"
abbreviation "SMALL \<equiv> (64 :: u32)"

abbreviation has :: "u32 \<Rightarrow> u32 \<Rightarrow> bool" where
  "has flags f \<equiv> flags AND f \<noteq> 0"

definition digits :: "bool \<Rightarrow> u8 list" where
  "digits small = map of_nat ([48..<58] @ (if small then [97..<123] else [65..<91]))"

text \<open>The digits that \<open>do_div\<close> delivers, the last one first.\<close>

function do_digits :: "bool \<Rightarrow> u32 \<Rightarrow> u32 \<Rightarrow> u8 list" where
  "do_digits small base num =
     (if base < 2 \<or> num = 0 then [] else digits small ! unat (num mod base) # do_digits small base (num div base))"
  by auto
termination
proof (relation "measure (\<lambda>(_, _, num). unat num)", goal_cases)
  case (2 small base num)
  then have "1 < unat base" "0 < unat num" by (auto simp: word_less_nat_alt not_less word_le_nat_alt unat_gt_0)
  then show ?case by (simp add: unat_div)
qed simp

declare do_digits.simps [simp del]

text \<open>A loop \<open>while (size-- > 0) *str++ = c\<close>: what it writes and what is left of \<open>size\<close>.\<close>

definition pad :: "int \<Rightarrow> u8 \<Rightarrow> u8 list" where
  "pad sz c = replicate (nat sz) c"

definition padded :: "int \<Rightarrow> int" where
  "padded sz = (if sz > 0 then -1 else sz - 1)"

definition number :: "u32 \<Rightarrow> u32 \<Rightarrow> int \<Rightarrow> int \<Rightarrow> u32 \<Rightarrow> u8 list option" where
  "number num base sz precision type =
     (let small = has type SMALL;
          type = (if has type LEFT_FLAG then type AND NOT ZEROPAD else type)
      in if base < 2 \<or> base > 36 then None
      else
        let c = (if has type ZEROPAD then 48 else 32);
            minus = has type SIGN \<and> sint num < 0;
            num = (if minus then - num else num);
            sign = (if minus then [45] else if has type PLUS then [43] else if has type SPACE then [32] else []);
            sz = (if sign \<noteq> [] then sz - 1 else sz);
            sz = (if has type SPECIAL then if base = 16 then sz - 2 else if base = 8 then sz - 1 else sz else sz);
            tmp = (if num = 0 then [48] else do_digits small base num);
            i = int (length tmp);
            precision = (if i > precision then i else precision);
            sz = sz - precision;
            first = (if \<not> has type (ZEROPAD + LEFT_FLAG) then pad sz 32 else []);
            sz = (if \<not> has type (ZEROPAD + LEFT_FLAG) then padded sz else sz);
            special = (if has type SPECIAL then if base = 8 then [48] else if base = 16 then [48, digits small ! 33] else [] else []);
            mid = (if \<not> has type LEFT_FLAG then pad sz c else []);
            sz = (if \<not> has type LEFT_FLAG then padded sz else sz)
        in Some (first @ sign @ special @ mid @ pad (precision - i) 48 @ rev tmp @ pad sz 32))"

fun get_flags :: "u32 \<Rightarrow> u8 list \<Rightarrow> u32 \<times> u8 list" where
  "get_flags flags [] = (flags, [])"
| "get_flags flags (c # fmt) =
     (if c = 45 then get_flags (flags OR LEFT_FLAG) fmt
      else if c = 43 then get_flags (flags OR PLUS) fmt
      else if c = 32 then get_flags (flags OR SPACE) fmt
      else if c = 35 then get_flags (flags OR SPECIAL) fmt
      else if c = 48 then get_flags (flags OR ZEROPAD) fmt
      else (flags, c # fmt))"

fun int_arg :: "vararg list \<Rightarrow> (u32 \<times> vararg list) option" where
  "int_arg (Int_arg n # args) = Some (n, args)"
| "int_arg _ = None"

text \<open>After a \<open>*\<close> the pointer into the format is not moved on.\<close>

definition get_number :: "u8 list \<Rightarrow> vararg list \<Rightarrow> int \<Rightarrow> (int \<times> u8 list \<times> vararg list) option" where
  "get_number fmt args none =
     (case fmt of
        [] \<Rightarrow> Some (none, fmt, args)
      | c # _ \<Rightarrow>
          if is_digit c then (case skip_atoi fmt of (n, fmt) \<Rightarrow> Some (sint n, fmt, args))
          else if c = 42 then do { (n, args) \<leftarrow> int_arg args; Some (sint n, fmt, args) }
          else Some (none, fmt, args))"

definition get_width :: "u32 \<Rightarrow> u8 list \<Rightarrow> vararg list \<Rightarrow> (int \<times> u32 \<times> u8 list \<times> vararg list) option" where
  "get_width flags fmt args =
     do { (w, rest, more) \<leftarrow> get_number fmt args (-1);
          if fmt \<noteq> [] \<and> hd fmt = 42 \<and> w < 0 then Some (sint (- (word_of_int w :: u32)), flags OR LEFT_FLAG, rest, more)
          else Some (w, flags, rest, more) }"

definition get_precision :: "u8 list \<Rightarrow> vararg list \<Rightarrow> (int \<times> u8 list \<times> vararg list) option" where
  "get_precision fmt args =
     (case fmt of
        [] \<Rightarrow> Some (-1, fmt, args)
      | c # rest \<Rightarrow>
          if c = 46 then do { (p, fmt, args) \<leftarrow> get_number rest args (-1); Some (if p < 0 then 0 else p, fmt, args) }
          else Some (-1, fmt, args))"

definition skip_qualifier :: "u8 list \<Rightarrow> u8 list" where
  "skip_qualifier fmt = (case fmt of [] \<Rightarrow> [] | c # rest \<Rightarrow> if c = 104 \<or> c = 108 \<or> c = 76 then rest else fmt)"

definition put_c :: "int \<Rightarrow> u32 \<Rightarrow> u8 \<Rightarrow> u8 list" where
  "put_c width flags c = (if has flags LEFT_FLAG then [c] @ pad (width - 1) 32 else pad (width - 1) 32 @ [c])"

definition put_s :: "int \<Rightarrow> int \<Rightarrow> u32 \<Rightarrow> u8 list \<Rightarrow> u8 list" where
  "put_s width precision flags s =
     (let len = (if precision < 0 then int (length s) else min (int (length s)) precision);
          t = take (nat len) s
      in if has flags LEFT_FLAG then t @ pad (width - len) 32 else pad (width - len) 32 @ t)"

text \<open>
  The conversion character. \<open>n\<close> is the number of bytes written so far; the result is what is written, the stores, and what is
  left of the format and the arguments.
\<close>

definition put_conversion ::
  "nat \<Rightarrow> u32 \<Rightarrow> int \<Rightarrow> int \<Rightarrow> u8 list \<Rightarrow> vararg list \<Rightarrow> (u8 list \<times> (nat \<times> nat) list \<times> u8 list \<times> vararg list) option" where
  "put_conversion n flags width precision fmt args =
     (case fmt of
        [] \<Rightarrow> Some ([37], [], [], args)
      | c # rest \<Rightarrow>
          if c = 99 then do { (v, args) \<leftarrow> int_arg args; Some (put_c width flags (ucast v), [], rest, args) }
          else if c = 115 then
            (case args of Str_arg s # args \<Rightarrow> Some (put_s width precision flags s, [], rest, args) | _ \<Rightarrow> None)
          else if c = 111 then do { (v, args) \<leftarrow> int_arg args; t \<leftarrow> number v 8 width precision flags; Some (t, [], rest, args) }
          else if c = 112 then
            do { (v, args) \<leftarrow> int_arg args;
                 t \<leftarrow> (if width = -1 then number v 16 8 precision (flags OR ZEROPAD) else number v 16 width precision flags);
                 Some (t, [], rest, args) }
          else if c = 120 \<or> c = 88 then
            do { (v, args) \<leftarrow> int_arg args;
                 t \<leftarrow> number v 16 width precision (if c = 120 then flags OR SMALL else flags);
                 Some (t, [], rest, args) }
          else if c = 100 \<or> c = 105 \<or> c = 117 then
            do { (v, args) \<leftarrow> int_arg args;
                 t \<leftarrow> number v 10 width precision (if c = 117 then flags else flags OR SIGN);
                 Some (t, [], rest, args) }
          else if c = 110 then (case args of Loc_arg l # args \<Rightarrow> Some ([], [(l, n)], rest, args) | _ \<Rightarrow> None)
          else if c = 37 then Some ([37], [], rest, args)
          else Some ([37, c], [], rest, args))"

definition convert :: "nat \<Rightarrow> u8 list \<Rightarrow> vararg list \<Rightarrow> (u8 list \<times> (nat \<times> nat) list \<times> u8 list \<times> vararg list) option" where
  "convert n fmt args =
     (case get_flags 0 fmt of (flags, fmt) \<Rightarrow>
        do { (width, flags, fmt, args) \<leftarrow> get_width flags fmt args;
             (precision, fmt, args) \<leftarrow> get_precision fmt args;
             put_conversion n flags width precision (skip_qualifier fmt) args })"

text \<open>Every part of a conversion moves forward in the format, so the main loop ends.\<close>

lemma skip_atoi_from_length: "length (snd (skip_atoi_from i s)) \<le> length s"
  by (induction i s rule: skip_atoi_from.induct) auto

lemma get_flags_length: "length (snd (get_flags flags fmt)) \<le> length fmt"
  by (induction flags fmt rule: get_flags.induct) auto

lemma get_number_length: "get_number fmt args d = Some (n, rest, more) \<Longrightarrow> length rest \<le> length fmt"
  using skip_atoi_from_length [of 0 fmt]
  by (auto simp: get_number_def skip_atoi_def Option.bind_eq_Some_conv split: list.splits if_splits prod.splits)

lemma get_width_length: "get_width flags fmt args = Some (n, flags', rest, more) \<Longrightarrow> length rest \<le> length fmt"
  by (auto simp: get_width_def Option.bind_eq_Some_conv split: if_splits dest: get_number_length)

lemma get_precision_length: "get_precision fmt args = Some (n, rest, more) \<Longrightarrow> length rest \<le> length fmt"
  by (auto simp: get_precision_def Option.bind_eq_Some_conv split: list.splits if_splits dest!: get_number_length)

lemma skip_qualifier_length: "length (skip_qualifier fmt) \<le> length fmt"
  by (auto simp: skip_qualifier_def split: list.splits)

lemma put_conversion_length: "put_conversion n flags w p fmt args = Some (out, st, rest, more) \<Longrightarrow> length rest \<le> length fmt"
  by (auto simp: put_conversion_def Option.bind_eq_Some_conv split: list.splits if_splits vararg.splits)

lemma convert_length:
  assumes "convert n fmt args = Some (out, st, rest, more)"
  shows "length rest \<le> length fmt"
proof -
  obtain flags f1 where 1: "get_flags 0 fmt = (flags, f1)" by fastforce
  then obtain w flags' f2 a2 p f3 a3 where "get_width flags f1 args = Some (w, flags', f2, a2)"
    "get_precision f2 a2 = Some (p, f3, a3)" "put_conversion n flags' w p (skip_qualifier f3) a3 = Some (out, st, rest, more)"
    using assms by (auto simp: convert_def Option.bind_eq_Some_conv)
  then show ?thesis
    using get_flags_length [of 0 fmt] get_width_length get_precision_length put_conversion_length skip_qualifier_length [of f3] 1
    by fastforce
qed

function vsprintf_from :: "nat \<Rightarrow> u8 list \<Rightarrow> vararg list \<Rightarrow> (u8 list \<times> (nat \<times> nat) list) option" where
  "vsprintf_from n fmt args =
     (case fmt of
        [] \<Rightarrow> Some ([], [])
      | c # rest \<Rightarrow>
          if c \<noteq> 37 then do { (out, st) \<leftarrow> vsprintf_from (n + 1) rest args; Some (c # out, st) }
          else
            (case convert n rest args of
               None \<Rightarrow> None
             | Some (txt, st1, rest, args) \<Rightarrow>
                 do { (out, st2) \<leftarrow> vsprintf_from (n + length txt) rest args; Some (txt @ out, st1 @ st2) }))"
  by auto
termination
  by (relation "measure (\<lambda>(_, fmt, _). length fmt)") (auto dest!: convert_length)

declare vsprintf_from.simps [simp del]

definition vsprintf :: "u8 list \<Rightarrow> vararg list \<Rightarrow> (u8 list \<times> (nat \<times> nat) list) option" where
  "vsprintf fmt args = vsprintf_from 0 fmt args"


section \<open>Printed numbers\<close>

lemma digit_at:
  assumes "k < 10"
  shows "is_digit (digits small ! k)" "(ucast (digits small ! k) :: u32) = of_nat k + 48"
proof -
  have "k \<in> {0, 1, 2, 3, 4, 5, 6, 7, 8, 9}" using assms by auto
  then show "is_digit (digits small ! k)" "(ucast (digits small ! k) :: u32) = of_nat k + 48"
    by (auto simp: digits_def is_digit_def)
qed

lemma skip_atoi_from_snoc:
  "list_all is_digit s \<Longrightarrow> is_digit c \<Longrightarrow>
     skip_atoi_from i (s @ [c]) = (fst (skip_atoi_from i s) * 10 + ucast c - 48, [])"
  by (induction i s rule: skip_atoi_from.induct) auto

lemma do_digits_digits: "list_all is_digit (do_digits small 10 num)"
proof (induction small "10 :: u32" num rule: do_digits.induct)
  case (1 small num)
  have "unat (num mod 10) < 10" by (simp add: unat_mod)
  then show ?case using 1 by (subst do_digits.simps) (auto simp: digit_at(1))
qed

lemma do_digits_value: "fst (skip_atoi_from 0 (rev (do_digits small 10 num))) = num"
proof (induction small "10 :: u32" num rule: do_digits.induct)
  case (1 small num)
  show ?case
  proof (cases "num = 0")
    case False
    let ?k = "unat (num mod 10)"
    have k: "?k < 10" by (simp add: unat_mod)
    have "do_digits small 10 num = digits small ! ?k # do_digits small 10 (num div 10)"
      using False by (subst do_digits.simps) simp
    then have "fst (skip_atoi_from 0 (rev (do_digits small 10 num))) = num div 10 * 10 + (of_nat ?k + 48) - 48"
      using 1 False do_digits_digits [of small "num div 10"] digit_at [OF k, of small]
      by (simp add: skip_atoi_from_snoc list_all_rev)
    also have "\<dots> = num div 10 * 10 + num mod 10" by simp
    also have "\<dots> = num" by (rule div_mult_mod_eq)
    finally show ?thesis .
  qed (simp add: do_digits.simps)
qed

text \<open>The digits of a number in base ten, as \<open>number\<close> writes them.\<close>

definition decimal :: "u32 \<Rightarrow> u8 list" where
  "decimal num = (if num = 0 then [48] else rev (do_digits False 10 num))"

lemma skip_atoi_digits: "list_all is_digit s \<Longrightarrow> snd (skip_atoi_from i s) = []"
  by (induction i s rule: skip_atoi_from.induct) auto

lemma skip_atoi_decimal: "skip_atoi (decimal num) = (num, [])"
proof (cases "num = 0")
  case False
  have "snd (skip_atoi_from 0 (rev (do_digits False 10 num))) = []"
    using do_digits_digits [of False num] by (intro skip_atoi_digits) (simp add: list_all_rev)
  then show ?thesis using False do_digits_value [of False num] by (simp add: skip_atoi_def decimal_def prod_eq_iff)
qed (simp add: skip_atoi_def decimal_def is_digit_def)

lemma decimal_not_empty: "decimal num \<noteq> []"
  by (subst decimal_def, subst do_digits.simps) simp

lemma number_decimal:
  "number num 10 (-1) (-1) 0 = Some (decimal num)"
  "number num 10 (-1) (-1) SIGN = Some (if sint num < 0 then 45 # decimal (- num) else decimal num)"
  by (auto simp: number_def Let_def pad_def padded_def decimal_def)

text \<open>
  C40: what \<open>vsprintf\<close> prints for a number is read back as that number by the decimal reader of the same file: \<open>%u\<close>
  gives the digits of the unsigned number, \<open>%d\<close> those of its absolute value, behind a minus sign when it is negative. There is
  at least one digit.
\<close>

theorem printed_number_reads_back:
  "\<exists>t v. vsprintf [37, 117] [Int_arg n] = Some (t, []) \<and> t \<noteq> [] \<and> skip_atoi t = (n, []) \<and>
     vsprintf [37, 100] [Int_arg n] = Some (if sint n < 0 then 45 # v else v, []) \<and>
     v \<noteq> [] \<and> skip_atoi v = (if sint n < 0 then - n else n, [])"
proof -
  note conv = vsprintf_def vsprintf_from.simps convert_def get_width_def get_number_def get_precision_def skip_qualifier_def
    put_conversion_def is_digit_def
  have "vsprintf [37, 117] [Int_arg n] = Some (decimal n, [])" by (simp add: conv number_decimal)
  moreover have "vsprintf [37, 100] [Int_arg n] = Some (if sint n < 0 then 45 # decimal (- n) else decimal n, [])"
    by (simp add: conv number_decimal)
  ultimately show ?thesis
    using skip_atoi_decimal [of n] skip_atoi_decimal [of "- n"] decimal_not_empty [of n] decimal_not_empty [of "- n"]
    by (auto split: if_splits)
qed

text \<open>
  a field width given by \<open>*\<close> does not work. The width is taken from the arguments, but the \<open>*\<close> is not skipped and
  becomes the conversion character: the format \<open>%*d\<close> prints itself and not the number.
\<close>

lemma star_width_prints_format: "vsprintf [37, 42, 100] (Int_arg w # args) = Some ([37, 42, 100], [])"
  by (simp add: vsprintf_def vsprintf_from.simps convert_def get_width_def get_number_def get_precision_def skip_qualifier_def
      put_conversion_def is_digit_def)

end
