(* ===== verification/Traps.thy ===== *)
theory Traps
  imports Vsprintf Exit
begin

text \<open>
  kernel/printk.c and kernel/traps.c: messages of the kernel and the handlers of processor exceptions. Elsewhere in the
  development the messages of the kernel are left out of the model; here, where a handler does little else, they are part of it.
\<close>

section \<open>Kernel messages\<close>

definition bytes :: "string \<Rightarrow> u8 list" where
  "bytes str = map of_char str"

text \<open>
  \<open>printk\<close> formats into \<open>buf\<close>, 1024 bytes, and writes it to the console with \<open>fs\<close> set to the kernel's data segment: what
  \<open>tty_write\<close> reads as the user's memory is \<open>buf\<close>. A longer text overruns the buffer (\<open>None\<close>).
\<close>

definition printk :: "u8 list \<Rightarrow> vararg list \<Rightarrow> kernel \<Rightarrow> (int \<times> kernel) option" where
  "printk fmt args s =
     do { (txt, st) \<leftarrow> vsprintf fmt args;
          if length txt \<ge> 1024 then None
          else do {
            (n, t) \<leftarrow> tty_write 0 0 (int (length txt)) (s\<lparr>user := (\<lambda>a. if unat a < length txt then txt ! unat a else 0)\<rparr>);
            Some (int (length txt), t\<lparr>user := user s\<rparr>) } }"

section \<open>Exceptions\<close>

text \<open>
  What a handler prints of the processor: the registers \<open>fs\<close> and \<open>tr\<close>, and the memory that a segment selector and an address give.
\<close>

record cpu_view =
  reg_fs :: u32
  reg_tr :: u32
  get_seg_long :: "u32 \<Rightarrow> u32 \<Rightarrow> u32"
  get_seg_byte :: "u32 \<Rightarrow> u32 \<Rightarrow> u8"

definition print :: "u8 list \<Rightarrow> u32 list \<Rightarrow> kernel \<Rightarrow> kernel option" where
  "print fmt args s = do { (n, s) \<leftarrow> printk fmt (map Int_arg args) s; Some s }"

definition die :: "cpu_view \<Rightarrow> u8 list \<Rightarrow> (nat \<Rightarrow> u32) \<Rightarrow> u32 \<Rightarrow> kernel \<Rightarrow> kernel option" where
  "die c str esp nr s =
     do { (n, s) \<leftarrow> printk (bytes ''%s: %04x'' @ [10, 13]) [Str_arg str, Int_arg (nr AND 0xffff)] s;
          s \<leftarrow> print (bytes ''EIP:'' @ [9] @ bytes ''%04x:%p'' @ [10] @ bytes ''EFLAGS:'' @ [9] @ bytes ''%p'' @ [10] @
                       bytes ''ESP:'' @ [9] @ bytes ''%04x:%p'' @ [10]) [esp 1, esp 0, esp 2, esp 4, esp 3] s;
          s \<leftarrow> print (bytes ''fs: %04x'' @ [10]) [reg_fs c] s;
          s \<leftarrow> print (bytes ''base: %p, limit: %p'' @ [10]) [ldt_base (cur s) 1, ldt_limit (cur s) 2] s;
          s \<leftarrow> (if esp 4 = 0x17
                then do { s \<leftarrow> print (bytes ''Stack: '') [] s;
                          s \<leftarrow> for_each [0..<4] (\<lambda>i. print (bytes ''%p '') [get_seg_long c 0x17 (esp 3 + 4 * of_nat i)]) s;
                          print [10] [] s }
                else Some s);
          s \<leftarrow> print (bytes ''Pid: %d, process nr: %d'' @ [10, 13]) [word_of_int (pid (cur s)), 0xffff AND reg_tr c] s;
          s \<leftarrow> for_each [0..<10] (\<lambda>i. print (bytes ''%02x '') [0xff AND ucast (get_seg_byte c (esp 1) (esp 0 + of_nat i))]) s;
          s \<leftarrow> print [10, 13] [] s;
          do_exit 11 s }"

definition do_double_fault :: "cpu_view \<Rightarrow> (nat \<Rightarrow> u32) \<Rightarrow> u32 \<Rightarrow> kernel \<Rightarrow> kernel option" where
  "do_double_fault c esp error_code = die c (bytes ''double fault'') esp error_code"

definition do_general_protection :: "cpu_view \<Rightarrow> (nat \<Rightarrow> u32) \<Rightarrow> u32 \<Rightarrow> kernel \<Rightarrow> kernel option" where
  "do_general_protection c esp error_code = die c (bytes ''general protection'') esp error_code"

definition do_divide_error :: "cpu_view \<Rightarrow> (nat \<Rightarrow> u32) \<Rightarrow> u32 \<Rightarrow> kernel \<Rightarrow> kernel option" where
  "do_divide_error c esp error_code = die c (bytes ''divide error'') esp error_code"

text \<open>The arguments of \<open>do_int3\<close>: the place of the saved frame, the frame, and the registers that asm.s pushed.\<close>

definition do_int3 :: "cpu_view \<Rightarrow> u32 \<Rightarrow> (nat \<Rightarrow> u32) \<Rightarrow> u32 \<Rightarrow> u32 \<Rightarrow> u32 \<Rightarrow> u32 \<Rightarrow> u32 \<Rightarrow> u32 \<Rightarrow> u32 \<Rightarrow> u32 \<Rightarrow> u32 \<Rightarrow> u32 \<Rightarrow>
    kernel \<Rightarrow> kernel option" where
  "do_int3 c esp_ptr esp fs es ds ebp esi edi edx ecx ebx eax s =
     do { let e8 = bytes ''%8x'';
          let e4 = bytes ''%4x'';
          s \<leftarrow> print (bytes ''eax'' @ [9, 9] @ bytes ''ebx'' @ [9, 9] @ bytes ''ecx'' @ [9, 9] @ bytes ''edx'' @ [10, 13] @
                       e8 @ [9] @ e8 @ [9] @ e8 @ [9] @ e8 @ [10, 13]) [eax, ebx, ecx, edx] s;
          s \<leftarrow> print (bytes ''esi'' @ [9, 9] @ bytes ''edi'' @ [9, 9] @ bytes ''ebp'' @ [9, 9] @ bytes ''esp'' @ [10, 13] @
                       e8 @ [9] @ e8 @ [9] @ e8 @ [9] @ e8 @ [10, 13]) [esi, edi, ebp, esp_ptr] s;
          s \<leftarrow> print ([10, 13] @ bytes ''ds'' @ [9] @ bytes ''es'' @ [9] @ bytes ''fs'' @ [9] @ bytes ''tr'' @ [10, 13] @
                       e4 @ [9] @ e4 @ [9] @ e4 @ [9] @ e4 @ [10, 13]) [ds, es, fs, reg_tr c] s;
          print (bytes ''EIP: %8x   CS: %4x  EFLAGS: %8x'' @ [10, 13]) [esp 0, esp 1, esp 2] s }"

definition do_nmi :: "cpu_view \<Rightarrow> (nat \<Rightarrow> u32) \<Rightarrow> u32 \<Rightarrow> kernel \<Rightarrow> kernel option" where
  "do_nmi c esp error_code = die c (bytes ''nmi'') esp error_code"

definition do_debug :: "cpu_view \<Rightarrow> (nat \<Rightarrow> u32) \<Rightarrow> u32 \<Rightarrow> kernel \<Rightarrow> kernel option" where
  "do_debug c esp error_code = die c (bytes ''debug'') esp error_code"

definition do_overflow :: "cpu_view \<Rightarrow> (nat \<Rightarrow> u32) \<Rightarrow> u32 \<Rightarrow> kernel \<Rightarrow> kernel option" where
  "do_overflow c esp error_code = die c (bytes ''overflow'') esp error_code"

definition do_bounds :: "cpu_view \<Rightarrow> (nat \<Rightarrow> u32) \<Rightarrow> u32 \<Rightarrow> kernel \<Rightarrow> kernel option" where
  "do_bounds c esp error_code = die c (bytes ''bounds'') esp error_code"

definition do_invalid_op :: "cpu_view \<Rightarrow> (nat \<Rightarrow> u32) \<Rightarrow> u32 \<Rightarrow> kernel \<Rightarrow> kernel option" where
  "do_invalid_op c esp error_code = die c (bytes ''invalid operand'') esp error_code"

definition do_device_not_available :: "cpu_view \<Rightarrow> (nat \<Rightarrow> u32) \<Rightarrow> u32 \<Rightarrow> kernel \<Rightarrow> kernel option" where
  "do_device_not_available c esp error_code = die c (bytes ''device not available'') esp error_code"

definition do_coprocessor_segment_overrun :: "cpu_view \<Rightarrow> (nat \<Rightarrow> u32) \<Rightarrow> u32 \<Rightarrow> kernel \<Rightarrow> kernel option" where
  "do_coprocessor_segment_overrun c esp error_code = die c (bytes ''coprocessor segment overrun'') esp error_code"

definition do_invalid_TSS :: "cpu_view \<Rightarrow> (nat \<Rightarrow> u32) \<Rightarrow> u32 \<Rightarrow> kernel \<Rightarrow> kernel option" where
  "do_invalid_TSS c esp error_code = die c (bytes ''invalid TSS'') esp error_code"

definition do_segment_not_present :: "cpu_view \<Rightarrow> (nat \<Rightarrow> u32) \<Rightarrow> u32 \<Rightarrow> kernel \<Rightarrow> kernel option" where
  "do_segment_not_present c esp error_code = die c (bytes ''segment not present'') esp error_code"

definition do_stack_segment :: "cpu_view \<Rightarrow> (nat \<Rightarrow> u32) \<Rightarrow> u32 \<Rightarrow> kernel \<Rightarrow> kernel option" where
  "do_stack_segment c esp error_code = die c (bytes ''stack segment'') esp error_code"

definition do_coprocessor_error :: "cpu_view \<Rightarrow> (nat \<Rightarrow> u32) \<Rightarrow> u32 \<Rightarrow> kernel \<Rightarrow> kernel option" where
  "do_coprocessor_error c esp error_code s =
     (if last_task_used_math s \<noteq> Some (current s) then Some s else die c (bytes ''coprocessor error'') esp error_code s)"

definition do_reserved :: "cpu_view \<Rightarrow> (nat \<Rightarrow> u32) \<Rightarrow> u32 \<Rightarrow> kernel \<Rightarrow> kernel option" where
  "do_reserved c esp error_code = die c (bytes ''reserved (15,17-47) error'') esp error_code"

section \<open>The gates\<close>

definition trap_init :: "kernel \<Rightarrow> kernel" where
  "trap_init s =
     (let s = set_trap_gate 0 ''divide_error'' s;
          s = set_trap_gate 1 ''debug'' s;
          s = set_trap_gate 2 ''nmi'' s;
          s = set_system_gate 3 ''int3'' s;
          s = set_system_gate 4 ''overflow'' s;
          s = set_system_gate 5 ''bounds'' s;
          s = set_trap_gate 6 ''invalid_op'' s;
          s = set_trap_gate 7 ''device_not_available'' s;
          s = set_trap_gate 8 ''double_fault'' s;
          s = set_trap_gate 9 ''coprocessor_segment_overrun'' s;
          s = set_trap_gate 10 ''invalid_TSS'' s;
          s = set_trap_gate 11 ''segment_not_present'' s;
          s = set_trap_gate 12 ''stack_segment'' s;
          s = set_trap_gate 13 ''general_protection'' s;
          s = set_trap_gate 14 ''page_fault'' s;
          s = set_trap_gate 15 ''reserved'' s;
          s = set_trap_gate 16 ''coprocessor_error'' s;
          s = fold (\<lambda>i. set_trap_gate i ''reserved'') [17..<48] s;
          s = set_trap_gate 45 ''irq13'' s;
          (v, s) = inb 0x21 s;
          s = outb (v AND 0xfb) 0x21 s;
          (v, s) = inb 0xA1 s;
          s = outb (v AND 0xdf) 0xA1 s
      in set_trap_gate 39 ''parallel_interrupt'' s)"

text \<open>The interrupts that a program may raise itself.\<close>

definition user_gates :: "kernel \<Rightarrow> nat set" where
  "user_gates s = {n. \<exists>g. idt s n = Some g \<and> g_dpl g = 3}"

lemmas gate_defs = set_trap_gate_def set_system_gate_def set_intr_gate_def set_gate_def

lemma idt_set:
  "idt (set_trap_gate n a s) = (idt s)(n \<mapsto> \<lparr>g_type = 15, g_dpl = 0, g_addr = a\<rparr>)"
  "idt (set_intr_gate n a s) = (idt s)(n \<mapsto> \<lparr>g_type = 14, g_dpl = 0, g_addr = a\<rparr>)"
  "idt (set_system_gate n a s) = (idt s)(n \<mapsto> \<lparr>g_type = 15, g_dpl = 3, g_addr = a\<rparr>)"
  by (simp_all add: gate_defs)

lemma user_gates_set [simp]:
  "user_gates (set_trap_gate n a s) = user_gates s - {n}" "user_gates (set_intr_gate n a s) = user_gates s - {n}"
  "user_gates (set_system_gate n a s) = insert n (user_gates s)"
  by (auto simp: user_gates_def gate_defs)

lemma dom_gates_set [simp]:
  "dom (idt (set_trap_gate n a s)) = insert n (dom (idt s))" "dom (idt (set_intr_gate n a s)) = insert n (dom (idt s))"
  "dom (idt (set_system_gate n a s)) = insert n (dom (idt s))"
  by (auto simp: gate_defs)

lemma fold_trap_gates:
  "idt (fold (\<lambda>i. set_trap_gate i a) ns s) = (\<lambda>n. if n \<in> set ns then Some \<lparr>g_type = 15, g_dpl = 0, g_addr = a\<rparr> else idt s n)"
  by (induction ns arbitrary: s) (auto simp: gate_defs)

lemma user_gates_ports [simp]: "user_gates (outb v port s) = user_gates s" "user_gates (s\<lparr>inputs := f\<rparr>) = user_gates s"
  by (auto simp: user_gates_def)

lemma trap_init_low:
  assumes "n < 48"
  shows "\<exists>g. idt (trap_init s) n = Some g \<and> (g_dpl g = 3 \<longleftrightarrow> n \<in> {3, 4, 5})"
proof -
  have "17 \<le> n \<or> n = 0 \<or> n = 1 \<or> n = 2 \<or> n = 3 \<or> n = 4 \<or> n = 5 \<or> n = 6 \<or> n = 7 \<or> n = 8 \<or> n = 9 \<or> n = 10 \<or> n = 11 \<or>
    n = 12 \<or> n = 13 \<or> n = 14 \<or> n = 15 \<or> n = 16" by arith
  then show ?thesis
    using assms unfolding trap_init_def Let_def inb_def prod.case
    by (elim disjE) (simp_all add: idt_set fold_trap_gates del: upt_rec_numeral)
qed

lemma trap_init_high: "48 \<le> n \<Longrightarrow> idt (trap_init s) n = idt s n"
  unfolding trap_init_def Let_def inb_def prod.case
  by (simp add: idt_set fold_trap_gates del: upt_rec_numeral)

lemma trap_init_gates:
  "user_gates (trap_init s) = user_gates s - {..<48} \<union> {3, 4, 5}" "dom (idt (trap_init s)) = dom (idt s) \<union> {..<48}"
proof -
  have "n \<in> user_gates (trap_init s) \<longleftrightarrow> n \<in> user_gates s - {..<48} \<union> {3, 4, 5}" for n
    using trap_init_low [of n s] trap_init_high [of n s] by (cases "n < 48") (auto simp: user_gates_def)
  then show "user_gates (trap_init s) = user_gates s - {..<48} \<union> {3, 4, 5}" by blast
  have "n \<in> dom (idt (trap_init s)) \<longleftrightarrow> n \<in> dom (idt s) \<union> {..<48}" for n
    using trap_init_low [of n s] trap_init_high [of n s] by (cases "n < 48") (auto simp: dom_def)
  then show "dom (idt (trap_init s)) = dom (idt s) \<union> {..<48}" by blast
qed

end
