(* ===== verification/Hd.thy ===== *)
theory Hd
  imports Mount
begin

text \<open>
  kernel/blk_drv/hd.c, the hard disk driver. Its static variables are the record \<open>hd_vars\<close>; the handler
  that the next interrupt of the controller calls, \<open>do_hd\<close>, is one of three. The status and the data of the controller
  are the bytes read from its ports.
\<close>

section \<open>Definitions\<close>

record hd_i_struct =
  hi_head :: u32
  hi_sect :: u32
  hi_cyl :: u32
  hi_wpcom :: u32
  hi_lzone :: u32
  hi_ctl :: u32

record hd_struct =
  start_sect :: u32
  nr_sects :: u32

datatype hd_handler = read_intr_fn | write_intr_fn | recal_intr_fn

record hd_vars =
  hd_recalibrate :: bool
  hd_reset :: bool
  hd_info :: "nat \<Rightarrow> hd_i_struct"
  NR_HD :: nat
  hd_part :: "nat \<Rightarrow> hd_struct"
  do_hd :: "hd_handler option"
  callable :: bool

abbreviation "HD_DATA \<equiv> (0x1f0 :: u16)"
abbreviation "HD_ERROR \<equiv> (0x1f1 :: u16)"
abbreviation "HD_STATUS \<equiv> (0x1f7 :: u16)"
abbreviation "HD_CMD \<equiv> (0x3f6 :: u16)"
abbreviation "MAX_ERRORS \<equiv> (7 :: int)"

text \<open>\<open>insw\<close> and \<open>outsw\<close> move the bytes of a sector; \<open>off\<close> is the position in the buffer's block.\<close>

fun port_read :: "nat \<Rightarrow> nat \<Rightarrow> nat \<Rightarrow> kernel \<Rightarrow> kernel" where
  "port_read 0 bh off s = s"
| "port_read (Suc n) bh off s =
     (case inb HD_DATA s of (v, s) \<Rightarrow>
        port_read n bh (off + 1) (upd_buf bh (\<lambda>b. b\<lparr>b_data := (b_data b)(off := v)\<rparr>) s))"

fun port_write :: "nat \<Rightarrow> nat \<Rightarrow> nat \<Rightarrow> kernel \<Rightarrow> kernel" where
  "port_write 0 bh off s = s"
| "port_write (Suc n) bh off s = port_write n bh (off + 1) (outb (b_data (bufs s bh) off) HD_DATA s)"

text \<open>The loop reads the status at most 99999 times.\<close>

fun ready_loop :: "nat \<Rightarrow> kernel \<Rightarrow> bool \<times> kernel" where
  "ready_loop 0 s = (False, s)"
| "ready_loop (Suc n) s =
     (case inb HD_STATUS s of (v, s) \<Rightarrow> if v AND 0x80 \<noteq> 0 then ready_loop n s else (True, s))"

definition controller_ready :: "kernel \<Rightarrow> bool \<times> kernel" where
  "controller_ready s = ready_loop 99999 s"

definition win_result :: "kernel \<Rightarrow> bool \<times> kernel" where
  "win_result s =
     (case inb HD_STATUS s of (i, s) \<Rightarrow>
        if i AND 0xf1 = 0x50 then (False, s)
        else if i AND 1 \<noteq> 0 then (True, snd (inb HD_ERROR s))
        else (True, s))"

definition hd_out :: "nat \<Rightarrow> u32 \<Rightarrow> u32 \<Rightarrow> u32 \<Rightarrow> u32 \<Rightarrow> u8 \<Rightarrow> hd_handler \<Rightarrow> hd_vars \<Rightarrow> kernel \<Rightarrow> (hd_vars \<times> kernel) option" where
  "hd_out drive nsect sect head cyl cmd intr_addr h s =
     (if drive > 1 \<or> head > 15 then panic ''Trying to write bad sector''
      else
        case controller_ready s of (ok, s) \<Rightarrow>
          if \<not> ok then panic ''HD controller not ready''
          else
            let h = h\<lparr>do_hd := Some intr_addr\<rparr>;
                s = outb (ucast (hi_ctl (hd_info h drive))) HD_CMD s;
                s = outb (ucast (drop_bit 2 (hi_wpcom (hd_info h drive)))) (HD_DATA + 1) s;
                s = outb (ucast nsect) (HD_DATA + 2) s;
                s = outb (ucast sect) (HD_DATA + 3) s;
                s = outb (ucast cyl) (HD_DATA + 4) s;
                s = outb (ucast (drop_bit 8 cyl)) (HD_DATA + 5) s;
                s = outb (ucast (0xA0 OR push_bit 4 (of_nat drive) OR head)) (HD_DATA + 6) s
            in Some (h, outb cmd (HD_DATA + 7) s))"

fun busy_loop :: "nat \<Rightarrow> kernel \<Rightarrow> kernel" where
  "busy_loop 0 s = s"
| "busy_loop (Suc n) s = (case inb HD_STATUS s of (v, s) \<Rightarrow> if v AND 0xc0 = 0x40 then s else busy_loop n s)"

definition drive_busy :: "kernel \<Rightarrow> bool \<times> kernel" where
  "drive_busy s = (case inb HD_STATUS (busy_loop 10000 s) of (i, s) \<Rightarrow> (i AND 0xd0 \<noteq> 0x50, s))"

text \<open>The results of the tests in \<open>reset_controller\<close> are only printed.\<close>

definition reset_controller :: "hd_vars \<Rightarrow> kernel \<Rightarrow> kernel" where
  "reset_controller h s =
     (let s = outb 4 HD_CMD s;
          s = outb (ucast (hi_ctl (hd_info h 0) AND 0x0f)) HD_CMD s
      in snd (inb HD_ERROR (snd (drive_busy s))))"

definition reset_hd :: "nat \<Rightarrow> hd_vars \<Rightarrow> kernel \<Rightarrow> (hd_vars \<times> kernel) option" where
  "reset_hd nr h s =
     (let i = hd_info h nr
      in hd_out nr (hi_sect i) (hi_sect i) (hi_head i - 1) (hi_cyl i) 0x91 recal_intr_fn h (reset_controller h s))"

definition unexpected_hd_interrupt :: "kernel \<Rightarrow> kernel" where
  "unexpected_hd_interrupt s = s"

text \<open>After the last error the request is gone; \<open>CURRENT\<close> is then the next one, or a null pointer that is followed.\<close>

definition bad_rw_intr :: "hd_vars \<Rightarrow> kernel \<Rightarrow> (hd_vars \<times> kernel) option" where
  "bad_rw_intr h s =
     (case current_request s 3 of
        None \<Rightarrow> null_deref
      | Some r \<Rightarrow>
          let s = upd_req r (\<lambda>q. q\<lparr>r_errors := r_errors q + 1\<rparr>) s;
              s = (if r_errors (requests s r) \<ge> MAX_ERRORS then end_request 3 False r s else s)
          in case current_request s 3 of
               None \<Rightarrow> null_deref
             | Some r \<Rightarrow> Some (if r_errors (requests s r) > MAX_ERRORS div 2 then h\<lparr>hd_reset := True\<rparr> else h, s))"

text \<open>The loop of \<open>do_hd_request\<close> that waits for the controller to ask for data.\<close>

fun drq_loop :: "nat \<Rightarrow> kernel \<Rightarrow> bool \<times> kernel" where
  "drq_loop 0 s = (False, s)"
| "drq_loop (Suc n) s =
     (case inb HD_STATUS s of (v, s) \<Rightarrow> if v AND 0x08 \<noteq> 0 then (True, s) else drq_loop n s)"

text \<open>The place of a block on a disk: sector (from 1), head and cylinder. \<open>divl\<close> by zero is a trap.\<close>

definition chs :: "hd_i_struct \<Rightarrow> u32 \<Rightarrow> (u32 \<times> u32 \<times> u32) option" where
  "chs i block =
     (if hi_sect i = 0 \<or> hi_head i = 0 then None
      else Some (block mod hi_sect i + 1, block div hi_sect i mod hi_head i, block div hi_sect i div hi_head i))"

partial_function (option) do_hd_request :: "hd_vars \<Rightarrow> kernel \<Rightarrow> (hd_vars \<times> kernel) option" where
  "do_hd_request h s =
     (case current_request s 3 of
        None \<Rightarrow> Some (h, s)
      | Some r \<Rightarrow>
          if MAJOR (r_dev (requests s r)) \<noteq> 3 then panic ''harddisk: request list destroyed''
          else if (case r_bh (requests s r) of None \<Rightarrow> False | Some bh \<Rightarrow> \<not> b_lock (bufs s bh))
          then panic ''harddisk: block not locked''
          else
            let part = nat (MINOR (r_dev (requests s r))); block = r_sector (requests s r) in
            if part \<ge> 5 * NR_HD h \<or> block + 2 > nr_sects (hd_part h part)
            then do_hd_request h (end_request 3 False r s)
            else
              let block = block + start_sect (hd_part h part); dev = part div 5 in
              (case chs (hd_info h dev) block of
                 None \<Rightarrow> None
               | Some (sec, head, cyl) \<Rightarrow>
                   let nsect = r_nr_sectors (requests s r) in
                   if hd_reset h
                   then reset_hd dev (h\<lparr>hd_reset := False, hd_recalibrate := True\<rparr>) s
                   else if hd_recalibrate h
                   then hd_out dev (hi_sect (hd_info h dev)) 0 0 0 0x10 recal_intr_fn (h\<lparr>hd_recalibrate := False\<rparr>) s
                   else if r_cmd (requests s r) = WRITE
                   then
                     (case hd_out dev nsect sec head cyl 0x30 write_intr_fn h s of
                        None \<Rightarrow> None
                      | Some (h, s) \<Rightarrow>
                          (case drq_loop 3000 s of (ok, s) \<Rightarrow>
                             if \<not> ok
                             then (case bad_rw_intr h s of None \<Rightarrow> None | Some (h, s) \<Rightarrow> do_hd_request h s)
                             else
                               (case r_buffer (requests s r) of
                                  None \<Rightarrow> null_deref
                                | Some bh \<Rightarrow> Some (h, port_write 512 bh (r_off (requests s r)) s))))
                   else if r_cmd (requests s r) = READ
                   then hd_out dev nsect sec head cyl 0x20 read_intr_fn h s
                   else panic ''unknown hd-command''))"

subsection \<open>Interrupts\<close>

definition read_intr :: "hd_vars \<Rightarrow> kernel \<Rightarrow> (hd_vars \<times> kernel) option" where
  "read_intr h s =
     (case win_result s of (bad, s) \<Rightarrow>
        if bad then do { (h, s) \<leftarrow> bad_rw_intr h s; do_hd_request h s }
        else
          (case current_request s 3 of
             None \<Rightarrow> null_deref
           | Some r \<Rightarrow>
               (case r_buffer (requests s r) of
                  None \<Rightarrow> null_deref
                | Some bh \<Rightarrow>
                    let s = port_read 512 bh (r_off (requests s r)) s;
                        s = upd_req r (\<lambda>q. q\<lparr>r_errors := 0, r_off := r_off q + 512, r_sector := r_sector q + 1,
                                             r_nr_sectors := r_nr_sectors q - 1\<rparr>) s
                    in if r_nr_sectors (requests s r) \<noteq> 0 then Some (h\<lparr>do_hd := Some read_intr_fn\<rparr>, s)
                       else do_hd_request h (end_request 3 True r s))))"

definition write_intr :: "hd_vars \<Rightarrow> kernel \<Rightarrow> (hd_vars \<times> kernel) option" where
  "write_intr h s =
     (case win_result s of (bad, s) \<Rightarrow>
        if bad then do { (h, s) \<leftarrow> bad_rw_intr h s; do_hd_request h s }
        else
          (case current_request s 3 of
             None \<Rightarrow> null_deref
           | Some r \<Rightarrow>
               let s = upd_req r (\<lambda>q. q\<lparr>r_nr_sectors := r_nr_sectors q - 1\<rparr>) s in
               if r_nr_sectors (requests s r) \<noteq> 0
               then
                 let s = upd_req r (\<lambda>q. q\<lparr>r_sector := r_sector q + 1, r_off := r_off q + 512\<rparr>) s in
                 (case r_buffer (requests s r) of
                    None \<Rightarrow> null_deref
                  | Some bh \<Rightarrow> Some (h\<lparr>do_hd := Some write_intr_fn\<rparr>, port_write 512 bh (r_off (requests s r)) s))
               else do_hd_request h (end_request 3 True r s)))"

definition recal_intr :: "hd_vars \<Rightarrow> kernel \<Rightarrow> (hd_vars \<times> kernel) option" where
  "recal_intr h s =
     (case win_result s of (bad, s) \<Rightarrow>
        do { (h, s) \<leftarrow> (if bad then bad_rw_intr h s else Some (h, s)); do_hd_request h s })"

text \<open>The interrupt routine (kernel/system_call.s) acknowledges and clears \<open>do_hd\<close> before it calls the handler.\<close>

definition hd_interrupt :: "hd_vars \<Rightarrow> kernel \<Rightarrow> (hd_vars \<times> kernel) option" where
  "hd_interrupt h s =
     (let s = outb 0x20 0x20 (outb 0x20 0xA0 s); k = h\<lparr>do_hd := None\<rparr> in
      case do_hd h of
        None \<Rightarrow> Some (k, unexpected_hd_interrupt s)
      | Some read_intr_fn \<Rightarrow> read_intr k s
      | Some write_intr_fn \<Rightarrow> write_intr k s
      | Some recal_intr_fn \<Rightarrow> recal_intr k s)"

definition hd_init :: "kernel \<Rightarrow> kernel" where
  "hd_init s =
     (let s = s\<lparr>request_fn := (request_fn s)(3 := Some controller_fn)\<rparr>;
          (v, s) = inb 0x21 (set_intr_gate 0x2E ''hd_interrupt'' s);
          s = outb (v AND 0xfb) 0x21 s;
          (v, s) = inb 0xA1 s
      in outb (v AND 0xbf) 0xA1 s)"

subsection \<open>Set-up\<close>

definition bios_disk :: "u32 \<Rightarrow> kernel \<Rightarrow> hd_i_struct" where
  "bios_disk a s =
     \<lparr>hi_head = ucast (hw8 s (a + 2)), hi_sect = ucast (hw8 s (a + 14)), hi_cyl = ucast (load16 a s),
      hi_wpcom = ucast (load16 (a + 5) s), hi_lzone = ucast (load16 (a + 12) s), hi_ctl = ucast (hw8 s (a + 8))\<rparr>"

definition set_part :: "nat \<Rightarrow> hd_struct \<Rightarrow> hd_vars \<Rightarrow> hd_vars" where
  "set_part i p h = h\<lparr>hd_part := (hd_part h)(i := p)\<rparr>"

definition whole_disk :: "nat \<Rightarrow> hd_vars \<Rightarrow> hd_vars" where
  "whole_disk i h =
     (let d = hd_info h i in set_part (5 * i) \<lparr>start_sect = 0, nr_sects = hi_head d * hi_sect d * hi_cyl d\<rparr> h)"

text \<open>The partition table of a disk is at position 446 of its first block, 16 bytes an entry.\<close>

definition read_partitions :: "nat \<Rightarrow> hd_vars \<times> kernel \<Rightarrow> (hd_vars \<times> kernel) option" where
  "read_partitions drive = (\<lambda>(h, s).
     do { (p, s) \<leftarrow> bread (0x300 + int drive * 5) 0 s;
          (case p of
             None \<Rightarrow> panic ''''
           | Some bh \<Rightarrow>
               let d = b_data (bufs s bh) in
               if d 510 \<noteq> 0x55 \<or> d 511 \<noteq> 0xAA then panic ''''
               else do {
                 let h = fold (\<lambda>i. set_part (i + 5 * drive)
                           \<lparr>start_sect = rd32 d (0x1BE + 16 * (i - 1) + 8), nr_sects = rd32 d (0x1BE + 16 * (i - 1) + 12)\<rparr>)
                           [1..<5] h;
                 s \<leftarrow> brelse p s;
                 Some (h, s) }) })"

definition sys_setup :: "u32 \<Rightarrow> hd_vars \<Rightarrow> kernel \<Rightarrow> (int \<times> hd_vars \<times> kernel) option" where
  "sys_setup BIOS h s =
     (if \<not> callable h then Some (-1, h, s)
      else
        let h = h\<lparr>callable := False, hd_info := (hd_info h)(0 := bios_disk BIOS s, 1 := bios_disk (BIOS + 16) s)\<rparr>;
            h = h\<lparr>NR_HD := (if hi_cyl (hd_info h 1) \<noteq> 0 then 2 else 1)\<rparr>;
            h = fold whole_disk [0..<NR_HD h] h;
            s = outb (0x80 OR 0x12) 0x70 s;
            (cmos, s) = inb 0x71 s;
            h = h\<lparr>NR_HD := (if cmos AND 0xf0 \<noteq> 0 then if cmos AND 0x0f \<noteq> 0 then 2 else 1 else 0)\<rparr>;
            h = fold (\<lambda>i. set_part (5 * i) \<lparr>start_sect = 0, nr_sects = 0\<rparr>) [NR_HD h..<2] h
        in do {
          (h, s) \<leftarrow> for_each [0..<NR_HD h] read_partitions (h, s);
          s \<leftarrow> rd_load s;
          (b, i, s) \<leftarrow> mount_root s;
          Some (0, h, s) })"

section \<open>The place of a block\<close>

lemma chs_place:
  assumes "chs i block = Some (sec, head, cyl)" "unat (hi_sect i) < 2 ^ 31"
  shows "1 \<le> unat sec" "unat sec \<le> unat (hi_sect i)" "unat head < unat (hi_head i)"
    "(unat cyl * unat (hi_head i) + unat head) * unat (hi_sect i) + (unat sec - 1) = unat block"
proof -
  have nz: "0 < unat (hi_sect i)" "0 < unat (hi_head i)"
    and eq: "sec = block mod hi_sect i + 1" "head = block div hi_sect i mod hi_head i" "cyl = block div hi_sect i div hi_head i"
    using assms(1) by (auto simp: chs_def unat_gt_0 split: if_splits)
  have "unat block mod unat (hi_sect i) < unat (hi_sect i)" using nz by simp
  then have sec: "unat sec = unat block mod unat (hi_sect i) + 1"
    using assms(2) eq(1) unat_add_le [of "block mod hi_sect i" 1] by (simp add: unat_mod)
  then show "1 \<le> unat sec" "unat sec \<le> unat (hi_sect i)" using nz by (simp_all add: Suc_le_eq)
  show "unat head < unat (hi_head i)" using nz eq by (simp add: unat_mod)
  have "(unat cyl * unat (hi_head i) + unat head) = unat block div unat (hi_sect i)"
    using eq by (simp add: unat_mod unat_div)
  then show "(unat cyl * unat (hi_head i) + unat head) * unat (hi_sect i) + (unat sec - 1) = unat block"
    using sec by simp
qed

section \<open>A read of two sectors\<close>

lemma port_read_eq:
  "port_read n bh off s =
     upd_buf bh (\<lambda>b. b\<lparr>b_data := (\<lambda>k. if off \<le> k \<and> k < off + n then inputs s (k - off) else b_data b k)\<rparr>)
       (s\<lparr>inputs := (\<lambda>k. inputs s (n + k))\<rparr>)"
proof (induction n arbitrary: off s)
  case 0
  have "(\<lambda>k. if off \<le> k \<and> k < off then inputs s (k - off) else d k) = d" for d :: "nat \<Rightarrow> u8"
    by (auto simp: fun_eq_iff)
  then show ?case by (simp add: upd_buf_def)
next
  case (Suc n)
  have "(\<lambda>k. if Suc off \<le> k \<and> k < Suc (off + n) then inputs s (Suc (k - Suc off))
         else if k = off then inputs s 0 else d k) =
        (\<lambda>k. if off \<le> k \<and> k < Suc (off + n) then inputs s (k - off) else d k)" for d :: "nat \<Rightarrow> u8"
    by (auto simp: fun_eq_iff Suc_diff_Suc)
  then show ?case by (simp add: Suc.IH inb_def upd_buf_def fun_upd_def cong: if_cong)
qed

lemma win_result_ok: "inputs s 0 AND 0xf1 = 0x50 \<Longrightarrow> win_result s = (False, s\<lparr>inputs := (\<lambda>k. inputs s (Suc k))\<rparr>)"
  by (simp add: win_result_def inb_def)

lemma outb_inputs: "inputs (outb v p s) = inputs s"
  by simp

text \<open>The first interrupt of a read moves 512 bytes and waits for the next.\<close>

lemma hd_first_sector:
  assumes "do_hd h = Some read_intr_fn" "current_request s 3 = Some r" "r_buffer (requests s r) = Some bh"
    "inputs s 0 AND 0xf1 = 0x50" "r_nr_sectors (requests s r) = 2"
  shows "\<exists>t. hd_interrupt h s = Some (h, t) \<and> current_request t = current_request s \<and> inputs t = (\<lambda>k. inputs s (513 + k)) \<and>
    requests t = (requests s)(r := (requests s r)\<lparr>r_errors := 0, r_off := r_off (requests s r) + 512,
      r_sector := r_sector (requests s r) + 1, r_nr_sectors := 1\<rparr>) \<and>
    bufs t = (bufs s)(bh := (bufs s bh)\<lparr>b_data := (\<lambda>k. if r_off (requests s r) \<le> k \<and> k < r_off (requests s r) + 512
      then inputs s (k - r_off (requests s r) + 1) else b_data (bufs s bh) k)\<rparr>)"
proof -
  let ?s = "outb 0x20 0x20 (outb 0x20 0xA0 s)"
  have h: "h\<lparr>do_hd := None, do_hd := Some read_intr_fn\<rparr> = h" using assms(1) by simp
  have w: "win_result ?s = (False, ?s\<lparr>inputs := (\<lambda>k. inputs s (Suc k))\<rparr>)" using win_result_ok [of ?s] assms(4) by simp
  show ?thesis
    unfolding hd_interrupt_def Let_def assms(1) option.case hd_handler.case read_intr_def w prod.case
    using assms h by (simp add: port_read_eq cong: if_cong)
qed

text \<open>The last interrupt of a read moves 512 bytes and ends the request.\<close>

lemma hd_last_sector:
  assumes "do_hd h = Some read_intr_fn" "current_request s 3 = Some r" "r_buffer (requests s r) = Some bh"
    "r_bh (requests s r) = Some bh" "inputs s 0 AND 0xf1 = 0x50" "r_nr_sectors (requests s r) = 1" "r_next (requests s r) = None"
  shows "\<exists>t. hd_interrupt h s = Some (h\<lparr>do_hd := None\<rparr>, t) \<and> current_request t 3 = None \<and> r_dev (requests t r) = -1 \<and>
    b_uptodate (bufs t bh) \<and> \<not> b_lock (bufs t bh) \<and>
    b_data (bufs t bh) = (\<lambda>k. if r_off (requests s r) \<le> k \<and> k < r_off (requests s r) + 512
      then inputs s (k - r_off (requests s r) + 1) else b_data (bufs s bh) k)"
proof -
  let ?s = "outb 0x20 0x20 (outb 0x20 0xA0 s)"
  have w: "win_result ?s = (False, ?s\<lparr>inputs := (\<lambda>k. inputs s (Suc k))\<rparr>)" using win_result_ok [of ?s] assms(5) by simp
  define u where "u = upd_req r (\<lambda>q. q\<lparr>r_errors := 0, r_off := r_off q + 512, r_sector := r_sector q + 1,
      r_nr_sectors := r_nr_sectors q - 1\<rparr>) (port_read 512 bh (r_off (requests s r)) (?s\<lparr>inputs := (\<lambda>k. inputs s (Suc k))\<rparr>))"
  have u: "r_bh (requests u r) = Some bh" "r_next (requests u r) = None" "r_nr_sectors (requests u r) = 0"
    "current_request u = current_request s"
    "b_data (bufs u bh) = (\<lambda>k. if r_off (requests s r) \<le> k \<and> k < r_off (requests s r) + 512
      then inputs s (k - r_off (requests s r) + 1) else b_data (bufs s bh) k)"
    using assms by (simp_all add: u_def port_read_eq cong: if_cong)
  have "do_hd_request k (end_request 3 True r u) = Some (k, end_request 3 True r u)" for k
    using u by (subst do_hd_request.simps) (simp add: end_request_simps [OF u(1)])
  then have "hd_interrupt h s = Some (h\<lparr>do_hd := None\<rparr>, end_request 3 True r u)"
    unfolding hd_interrupt_def Let_def assms(1) option.case hd_handler.case read_intr_def w prod.case
    using assms u(3) by (simp add: u_def)
  then show ?thesis using u by (simp add: end_request_simps [OF u(1)])
qed

text \<open>
  C27: a read request for a block is carried out by two interrupts of the controller: when it reports success both
  times, the buffer holds the 1024 bytes that were read from the data port, in order, it is up to date and unlocked, and
  the request is free and off the queue.
\<close>

theorem hd_read_completes:
  assumes "do_hd h = Some read_intr_fn" "current_request s 3 = Some r" "r_buffer (requests s r) = Some bh"
    "r_bh (requests s r) = Some bh" "r_off (requests s r) = 0" "r_nr_sectors (requests s r) = 2" "r_next (requests s r) = None"
    "inputs s 0 AND 0xf1 = 0x50" "inputs s 513 AND 0xf1 = 0x50"
  shows "\<exists>h1 s1 h2 s2. hd_interrupt h s = Some (h1, s1) \<and> hd_interrupt h1 s1 = Some (h2, s2) \<and>
    (\<forall>k<1024. b_data (bufs s2 bh) k = inputs s (k + (if k < 512 then 1 else 2))) \<and>
    b_uptodate (bufs s2 bh) \<and> \<not> b_lock (bufs s2 bh) \<and> current_request s2 3 = None \<and> r_dev (requests s2 r) = -1"
proof -
  obtain t where t: "hd_interrupt h s = Some (h, t)" "current_request t = current_request s" "inputs t = (\<lambda>k. inputs s (513 + k))"
    "requests t = (requests s)(r := (requests s r)\<lparr>r_errors := 0, r_off := r_off (requests s r) + 512,
      r_sector := r_sector (requests s r) + 1, r_nr_sectors := 1\<rparr>)"
    "bufs t = (bufs s)(bh := (bufs s bh)\<lparr>b_data := (\<lambda>k. if r_off (requests s r) \<le> k \<and> k < r_off (requests s r) + 512
      then inputs s (k - r_off (requests s r) + 1) else b_data (bufs s bh) k)\<rparr>)"
    using hd_first_sector [OF assms(1-3,8,6)] by blast
  obtain u where u: "hd_interrupt h t = Some (h\<lparr>do_hd := None\<rparr>, u)" "current_request u 3 = None" "r_dev (requests u r) = -1"
    "b_uptodate (bufs u bh)" "\<not> b_lock (bufs u bh)"
    "b_data (bufs u bh) = (\<lambda>k. if r_off (requests t r) \<le> k \<and> k < r_off (requests t r) + 512
      then inputs t (k - r_off (requests t r) + 1) else b_data (bufs t bh) k)"
    using hd_last_sector [of h t r bh] assms t(2-4) by auto
  have "b_data (bufs u bh) k = inputs s (k + (if k < 512 then 1 else 2))" if "k < 1024" for k
  proof (cases "k < 512")
    case True
    then show ?thesis using u(6) t(4,5) assms(5) by simp
  next
    case False
    then have "513 + (k - 512 + 1) = k + 2" by simp
    then show ?thesis using False that u(6) t(3,4) assms(5) by simp
  qed
  then show ?thesis using t(1) u by blast
qed


section \<open>Starting a read\<close>

lemma hd_out_ready:
  assumes "drive \<le> 1" "head \<le> 15" "inputs s 0 AND 0x80 = 0"
  shows "hd_out drive nsect sect head cyl cmd f h s =
    Some (h\<lparr>do_hd := Some f\<rparr>, s\<lparr>inputs := (\<lambda>k. inputs s (Suc k)), outputs := outputs s @
      [(0x3f6, ucast (hi_ctl (hd_info h drive))), (0x1f1, ucast (drop_bit 2 (hi_wpcom (hd_info h drive)))), (0x1f2, ucast nsect),
       (0x1f3, ucast sect), (0x1f4, ucast cyl), (0x1f5, ucast (drop_bit 8 cyl)),
       (0x1f6, ucast (0xA0 OR push_bit 4 (of_nat drive) OR head)), (0x1f7, cmd)]\<rparr>)"
proof -
  have "ready_loop (Suc 99998) s = (True, s\<lparr>inputs := (\<lambda>k. inputs s (Suc k))\<rparr>)"
    unfolding ready_loop.simps by (simp add: inb_def assms(3))
  then have "controller_ready s = (True, s\<lparr>inputs := (\<lambda>k. inputs s (Suc k))\<rparr>)" by (simp add: controller_ready_def)
  moreover have "\<not> (drive > 1 \<or> head > 15)" using assms(1,2) by auto
  ultimately show ?thesis by (simp add: hd_out_def outb_def)
qed

text \<open>
  C28: a read request inside its partition is started by telling the controller the place of the block. For a disk with
  at most 255 sectors a track and 16 heads, and blocks below cylinder 65536, the values fit into the registers: they name a
  sector from 1, a head and a cylinder of that disk, and counted from the start of the disk they are the partition's first
  sector plus the sector of the request. The next interrupt is for \<open>read_intr\<close>.
\<close>

theorem hd_request_programs:
  assumes "current_request s 3 = Some r" "MAJOR (r_dev (requests s r)) = 3" "r_bh (requests s r) = Some bh" "b_lock (bufs s bh)"
    "part = nat (MINOR (r_dev (requests s r)))" "part < 5 * NR_HD h" "NR_HD h \<le> 2" "d = hd_info h (part div 5)"
    "unat (r_sector (requests s r)) + 2 \<le> unat (nr_sects (hd_part h part))"
    "unat (start_sect (hd_part h part)) + unat (nr_sects (hd_part h part)) \<le> 65536 * (unat (hi_head d) * unat (hi_sect d))"
    "0 < unat (hi_sect d)" "unat (hi_sect d) < 256" "0 < unat (hi_head d)" "unat (hi_head d) \<le> 16"
    "r_cmd (requests s r) = READ" "\<not> hd_reset h" "\<not> hd_recalibrate h" "inputs s 0 AND 0x80 = 0"
  shows "\<exists>(sec :: u32) (head :: u32) (cyl :: u32). do_hd_request h s =
      Some (h\<lparr>do_hd := Some read_intr_fn\<rparr>, s\<lparr>inputs := (\<lambda>k. inputs s (Suc k)), outputs := outputs s @
        [(0x3f6, ucast (hi_ctl d)), (0x1f1, ucast (drop_bit 2 (hi_wpcom d))), (0x1f2, ucast (r_nr_sectors (requests s r))),
         (0x1f3, ucast sec), (0x1f4, ucast cyl), (0x1f5, ucast (drop_bit 8 cyl)),
         (0x1f6, ucast (0xA0 OR push_bit 4 (of_nat (part div 5)) OR head)), (0x1f7, 0x20)]\<rparr>) \<and>
    1 \<le> unat sec \<and> unat sec \<le> unat (hi_sect d) \<and> unat head < unat (hi_head d) \<and> unat cyl < 65536 \<and>
    (unat cyl * unat (hi_head d) + unat head) * unat (hi_sect d) + (unat sec - 1) =
      unat (start_sect (hd_part h part)) + unat (r_sector (requests s r))"
proof -
  let ?b = "r_sector (requests s r)" and ?p = "hd_part h part"
  have size: "unat (hi_head d) * unat (hi_sect d) \<le> 16 * 255" using assms(12,14) by (intro mult_le_mono) auto
  have b: "unat (?b + 2) = unat ?b + 2" "unat (?b + start_sect ?p) = unat (start_sect ?p) + unat ?b"
    using unat_add_le [of ?b 2] unat_add_le [of ?b "start_sect ?p"] assms(9,10) size by auto
  have fits: "\<not> ?b + 2 > nr_sects ?p" using b(1) assms(9) by (simp add: word_less_nat_alt not_less)
  obtain sec head cyl where c: "chs d (?b + start_sect ?p) = Some (sec, head, cyl)"
    using assms(11,13) by (auto simp: chs_def unat_gt_0)
  note place = chs_place [OF c, unfolded b]
  have sect: "unat (hi_sect d) < 2 ^ 31" using assms(12) by simp
  have "unat cyl * (unat (hi_head d) * unat (hi_sect d)) < 65536 * (unat (hi_head d) * unat (hi_sect d))"
    using place(4) [OF sect] assms(9,10) unfolding add_mult_distrib mult.assoc by linarith
  then have cyl: "unat cyl < 65536" by simp
  have h15: "head \<le> 15" using place(3) [OF sect] assms(14) by (simp add: word_le_nat_alt)
  have d1: "part div 5 \<le> 1" using assms(6,7) by simp
  have "do_hd_request h s = hd_out (part div 5) (r_nr_sectors (requests s r)) sec head cyl 0x20 read_intr_fn h s"
    using assms c fits by (subst do_hd_request.simps) simp
  then show ?thesis
    unfolding hd_out_ready [OF d1 h15 assms(18)] assms(8) [symmetric]
    using place [OF sect] cyl by blast
qed


text \<open>A disk of 4 heads and 17 sectors with one partition that starts at sector 100, and a read of its block 3.\<close>

definition hd_example :: hd_vars where
  "hd_example =
     \<lparr>hd_recalibrate = False, hd_reset = False,
      hd_info = (\<lambda>_. \<lparr>hi_head = 4, hi_sect = 17, hi_cyl = 615, hi_wpcom = 300, hi_lzone = 663, hi_ctl = 8\<rparr>),
      NR_HD = 1, hd_part = (\<lambda>i. \<lparr>start_sect = 100, nr_sects = 4000\<rparr>), do_hd = Some read_intr_fn, callable = False\<rparr>"

definition hd_request_example :: kernel where
  "hd_request_example =
     boot_kernel\<lparr>requests := (requests boot_kernel)(2 := free_request\<lparr>r_dev := 0x302, r_cmd := READ, r_sector := 6,
                    r_nr_sectors := 2, r_buffer := Some 2, r_bh := Some 2\<rparr>),
                 current_request := (current_request boot_kernel)(3 := Some 2),
                 bufs := (bufs boot_kernel)(2 := zero_buf\<lparr>b_lock := True\<rparr>), inputs := (\<lambda>_. 0x50)\<rparr>"

theorem hd_request_programs_witness:
  "\<exists>h t. do_hd_request hd_example hd_request_example = Some (h, t) \<and> do_hd h = Some read_intr_fn"
proof -
  have e: "MAJOR 0x302 = 3" "MINOR 0x302 = 2" by (simp_all add: MAJOR_def MINOR_def)
  show ?thesis
    using hd_request_programs [of hd_request_example 2 2 2 hd_example "hd_info hd_example 0"]
    by (auto simp: hd_example_def hd_request_example_def e)
qed

theorem hd_read_completes_witness:
  "\<exists>h1 s1 h2 s2. hd_interrupt hd_example hd_request_example = Some (h1, s1) \<and> hd_interrupt h1 s1 = Some (h2, s2) \<and>
    b_data (bufs s2 2) 700 = 0x50 \<and> b_uptodate (bufs s2 2) \<and> current_request s2 3 = None"
proof -
  obtain h1 s1 h2 s2 where "hd_interrupt hd_example hd_request_example = Some (h1, s1)" "hd_interrupt h1 s1 = Some (h2, s2)"
    "\<forall>k<1024. b_data (bufs s2 2) k = inputs hd_request_example (k + (if k < 512 then 1 else 2))"
    "b_uptodate (bufs s2 2)" "current_request s2 3 = None"
    using hd_read_completes [of hd_example hd_request_example 2 2]
    by (auto simp: hd_example_def hd_request_example_def free_request_def)
  moreover have "inputs hd_request_example k = 0x50" for k by (simp add: hd_request_example_def)
  ultimately show ?thesis by (intro exI conjI) (assumption | simp)+
qed

end
