(* ===== verification/Floppy.thy ===== *)
theory Floppy
  imports Buffer
begin

text \<open>
  kernel/blk_drv/floppy.c, the floppy disk driver. Its static variables are the record \<open>fd_vars\<close>; \<open>current_DOR\<close>,
  \<open>selected\<close> and the motor timers are in the kernel state, with kernel/sched.c. The handler that the next interrupt
  calls, \<open>do_floppy\<close>, is one of four, and the timers call \<open>floppy_on_interrupt\<close> (number 1) and \<open>transfer\<close>
  (number 2). The status and the results of the controller are the bytes read from its ports.
\<close>

section \<open>Definitions\<close>

record floppy_struct =
  fl_size :: u32
  fl_sect :: u32
  fl_head :: u32
  fl_track :: u32
  fl_stretch :: nat
  fl_gap :: u8
  fl_rate :: u8
  fl_spec1 :: u8

definition floppy_type :: "floppy_struct list" where
  "floppy_type =
     [\<lparr>fl_size = 0, fl_sect = 0, fl_head = 0, fl_track = 0, fl_stretch = 0, fl_gap = 0x00, fl_rate = 0x00, fl_spec1 = 0x00\<rparr>,
      \<lparr>fl_size = 720, fl_sect = 9, fl_head = 2, fl_track = 40, fl_stretch = 0, fl_gap = 0x2A, fl_rate = 0x02, fl_spec1 = 0xDF\<rparr>,
      \<lparr>fl_size = 2400, fl_sect = 15, fl_head = 2, fl_track = 80, fl_stretch = 0, fl_gap = 0x1B, fl_rate = 0x00, fl_spec1 = 0xDF\<rparr>,
      \<lparr>fl_size = 720, fl_sect = 9, fl_head = 2, fl_track = 40, fl_stretch = 1, fl_gap = 0x2A, fl_rate = 0x02, fl_spec1 = 0xDF\<rparr>,
      \<lparr>fl_size = 1440, fl_sect = 9, fl_head = 2, fl_track = 80, fl_stretch = 0, fl_gap = 0x2A, fl_rate = 0x02, fl_spec1 = 0xDF\<rparr>,
      \<lparr>fl_size = 720, fl_sect = 9, fl_head = 2, fl_track = 40, fl_stretch = 1, fl_gap = 0x23, fl_rate = 0x01, fl_spec1 = 0xDF\<rparr>,
      \<lparr>fl_size = 1440, fl_sect = 9, fl_head = 2, fl_track = 80, fl_stretch = 0, fl_gap = 0x23, fl_rate = 0x01, fl_spec1 = 0xDF\<rparr>,
      \<lparr>fl_size = 2880, fl_sect = 18, fl_head = 2, fl_track = 80, fl_stretch = 0, fl_gap = 0x1B, fl_rate = 0x00, fl_spec1 = 0xCF\<rparr>]"

datatype fd_handler = rw_fn | seek_fn | recal_fn | reset_fn

text \<open>
  \<open>fd_floppy\<close> is the type the pointer \<open>floppy\<close> points to. \<open>b_addr\<close> gives the address of a buffer's block, as
  \<open>buffer_init\<close> laid the buffers out; DMA reaches the first megabyte only, and \<open>tmp_floppy_area\<close> is there.
\<close>

record fd_vars =
  fd_recalibrate :: bool
  fd_reset :: bool
  fd_seek :: bool
  reply_buffer :: "nat \<Rightarrow> u8"
  cur_spec1 :: int
  cur_rate :: int
  fd_floppy :: floppy_struct
  current_drive :: u8
  fd_sector :: u8
  fd_head :: u8
  fd_track :: u8
  seek_track :: u8
  current_track :: u8
  fd_command :: u8
  do_floppy :: "fd_handler option"
  b_addr :: "nat \<Rightarrow> u32"
  tmp_floppy_addr :: u32
  tmp_floppy_area :: "nat \<Rightarrow> u8"

abbreviation "FD_STATUS \<equiv> (0x3f4 :: u16)"
abbreviation "FD_DATA \<equiv> (0x3f5 :: u16)"
abbreviation "FD_DOR \<equiv> (0x3f2 :: u16)"
abbreviation "FD_DCR \<equiv> (0x3f7 :: u16)"
abbreviation "FD_RECALIBRATE \<equiv> (0x07 :: u8)"
abbreviation "FD_SEEK \<equiv> (0x0F :: u8)"
abbreviation "FD_READ \<equiv> (0xE6 :: u8)"
abbreviation "FD_WRITE \<equiv> (0xC5 :: u8)"
abbreviation "FD_SENSEI \<equiv> (0x08 :: u8)"
abbreviation "FD_SPECIFY \<equiv> (0x03 :: u8)"
abbreviation "DMA_READ \<equiv> (0x46 :: u8)"
abbreviation "DMA_WRITE \<equiv> (0x4A :: u8)"
abbreviation "floppy_on_interrupt_fn \<equiv> (1 :: nat)"
abbreviation "transfer_fn \<equiv> (2 :: nat)"

text \<open>When the drive is not the selected one, \<open>floppy_deselect\<close> also prints a message.\<close>

definition floppy_deselect :: "u8 \<Rightarrow> kernel \<Rightarrow> kernel" where
  "floppy_deselect nr s = wake_up Wselect (s\<lparr>floppy := (floppy s)\<lparr>selected := False\<rparr>\<rparr>)"

text \<open>\<open>end_request\<close> with the \<open>DEVICE_OFF\<close> of the floppy: the motor is to stop in three seconds.\<close>

definition end_fd_request :: "bool \<Rightarrow> nat \<Rightarrow> kernel \<Rightarrow> kernel" where
  "end_fd_request uptodate r s = end_request 2 uptodate r (floppy_off (nat (r_dev (requests s r) mod 4)) s)"

text \<open>\<open>copy_buffer\<close> in its two directions.\<close>

definition copy_to_area :: "nat \<Rightarrow> nat \<Rightarrow> fd_vars \<Rightarrow> kernel \<Rightarrow> fd_vars" where
  "copy_to_area bh off h s = h\<lparr>tmp_floppy_area := (\<lambda>k. if k < 1024 then b_data (bufs s bh) (off + k) else tmp_floppy_area h k)\<rparr>"

definition copy_from_area :: "nat \<Rightarrow> nat \<Rightarrow> fd_vars \<Rightarrow> kernel \<Rightarrow> kernel" where
  "copy_from_area bh off h s =
     upd_buf bh (\<lambda>b. b\<lparr>b_data := (\<lambda>k. if off \<le> k \<and> k < off + 1024 then tmp_floppy_area h (k - off) else b_data b k)\<rparr>) s"

definition setup_DMA :: "fd_vars \<Rightarrow> kernel \<Rightarrow> (fd_vars \<times> kernel) option" where
  "setup_DMA h s =
     (case current_request s 2 of
        None \<Rightarrow> null_deref
      | Some r \<Rightarrow>
          (case r_buffer (requests s r) of
             None \<Rightarrow> null_deref
           | Some bh \<Rightarrow>
               let a = b_addr h bh + of_nat (r_off (requests s r));
                   high = \<not> a <s 0x100000;
                   addr = (if high then tmp_floppy_addr h else a);
                   h = (if high \<and> fd_command h = FD_WRITE then copy_to_area bh (r_off (requests s r)) h s else h);
                   dir = (if fd_command h = FD_READ then DMA_READ else DMA_WRITE);
                   s = outb (4 OR 2) 10 s;
                   s = outb dir 12 s;
                   s = outb dir 11 s;
                   s = outb (ucast addr) 4 s;
                   s = outb (ucast (drop_bit 8 addr)) 4 s;
                   s = outb (ucast (drop_bit 16 addr)) 0x81 s;
                   s = outb 0xff 5 s;
                   s = outb 3 5 s
               in Some (h, outb (0 OR 2) 10 s)))"

text \<open>The controller is asked up to 10000 times whether it takes a byte.\<close>

fun output_loop :: "nat \<Rightarrow> u8 \<Rightarrow> fd_vars \<Rightarrow> kernel \<Rightarrow> fd_vars \<times> kernel" where
  "output_loop 0 byte h s = (h\<lparr>fd_reset := True\<rparr>, s)"
| "output_loop (Suc n) byte h s =
     (case inb FD_STATUS s of (v, s) \<Rightarrow>
        if v AND 0xC0 = 0x80 then (h, outb byte FD_DATA s) else output_loop n byte h s)"

definition output_byte :: "u8 \<Rightarrow> fd_vars \<times> kernel \<Rightarrow> fd_vars \<times> kernel" where
  "output_byte byte = (\<lambda>(h, s). if fd_reset h then (h, s) else output_loop 10000 byte h s)"

fun result_loop :: "nat \<Rightarrow> nat \<Rightarrow> fd_vars \<Rightarrow> kernel \<Rightarrow> int \<times> fd_vars \<times> kernel" where
  "result_loop 0 i h s = (-1, h\<lparr>fd_reset := True\<rparr>, s)"
| "result_loop (Suc n) i h s =
     (case inb FD_STATUS s of (v, s) \<Rightarrow>
        if v AND 0xD0 = 0x80 then (int i, h, s)
        else if v AND 0xD0 = 0xD0
        then
          if i \<ge> 7 then (-1, h\<lparr>fd_reset := True\<rparr>, s)
          else (case inb FD_DATA s of (d, s) \<Rightarrow> result_loop n (i + 1) (h\<lparr>reply_buffer := (reply_buffer h)(i := d)\<rparr>) s)
        else result_loop n i h s)"

definition result :: "fd_vars \<times> kernel \<Rightarrow> int \<times> fd_vars \<times> kernel" where
  "result = (\<lambda>(h, s). if fd_reset h then (-1, h, s) else result_loop 10000 0 h s)"

text \<open>After the last error the request is gone; \<open>CURRENT\<close> is then the next one, or a null pointer that is followed.\<close>

definition bad_flp_intr :: "fd_vars \<Rightarrow> kernel \<Rightarrow> (fd_vars \<times> kernel) option" where
  "bad_flp_intr h s =
     (case current_request s 2 of
        None \<Rightarrow> null_deref
      | Some r \<Rightarrow>
          let s = upd_req r (\<lambda>q. q\<lparr>r_errors := r_errors q + 1\<rparr>) s;
              s = (if r_errors (requests s r) > 8 then end_fd_request False r (floppy_deselect (current_drive h) s) else s)
          in case current_request s 2 of
               None \<Rightarrow> null_deref
             | Some r \<Rightarrow> Some (if r_errors (requests s r) > 4 then h\<lparr>fd_reset := True\<rparr> else h\<lparr>fd_recalibrate := True\<rparr>, s))"

definition reset_floppy :: "fd_vars \<Rightarrow> kernel \<Rightarrow> fd_vars \<times> kernel" where
  "reset_floppy h s =
     (h\<lparr>fd_reset := False, cur_spec1 := -1, cur_rate := -1, fd_recalibrate := True, do_floppy := Some reset_fn\<rparr>,
      outb (current_DOR (floppy s)) FD_DOR (outb (current_DOR (floppy s) AND NOT 0x04) FD_DOR s))"

text \<open>
  Several routines end with a call of \<open>do_fd_request\<close> when the controller has to be reset. Their bodies up to that call
  are definitions of their own, because \<open>do_fd_request\<close> calls them.
\<close>

definition recalibrate_body :: "fd_vars \<Rightarrow> kernel \<Rightarrow> fd_vars \<times> kernel" where
  "recalibrate_body h s =
     (let h = h\<lparr>fd_recalibrate := False, current_track := 0, do_floppy := Some recal_fn\<rparr>;
          c = output_byte FD_RECALIBRATE (h, s)
      in output_byte (push_bit 2 (fd_head h) OR current_drive h) c)"

definition setup_rw_body :: "fd_vars \<Rightarrow> kernel \<Rightarrow> (fd_vars \<times> kernel) option" where
  "setup_rw_body h s =
     do { (h, s) \<leftarrow> setup_DMA h s;
          let h = h\<lparr>do_floppy := Some rw_fn\<rparr>;
          Some (fold output_byte
            [fd_command h, push_bit 2 (fd_head h) OR current_drive h, fd_track h, fd_head h, fd_sector h, 2,
             ucast (fl_sect (fd_floppy h)), fl_gap (fd_floppy h), 0xFF] (h, s)) }"

definition transfer_body :: "fd_vars \<Rightarrow> kernel \<Rightarrow> (fd_vars \<times> kernel) option" where
  "transfer_body h s =
     (let f = fd_floppy h;
          (h, s) = (if cur_spec1 h \<noteq> uint (fl_spec1 f)
                    then fold output_byte [FD_SPECIFY, fl_spec1 f, 6] (h\<lparr>cur_spec1 := uint (fl_spec1 f)\<rparr>, s)
                    else (h, s));
          (h, s) = (if cur_rate h \<noteq> uint (fl_rate f)
                    then (h\<lparr>cur_rate := uint (fl_rate f)\<rparr>, outb (fl_rate f) FD_DCR s)
                    else (h, s))
      in if fd_reset h then Some (h, s)
         else if \<not> fd_seek h then setup_rw_body h s
         else
           let h = h\<lparr>do_floppy := Some seek_fn\<rparr>; where_to = push_bit 2 (fd_head h) OR current_drive h in
           Some (fold output_byte
                  (if seek_track h \<noteq> 0 then [FD_SEEK, where_to, seek_track h] else [FD_RECALIBRATE, where_to]) (h, s)))"

text \<open>The result tells whether \<open>transfer\<close> was called.\<close>

definition floppy_on_body :: "fd_vars \<Rightarrow> kernel \<Rightarrow> (bool \<times> fd_vars \<times> kernel) option" where
  "floppy_on_body h s =
     (let s = s\<lparr>floppy := (floppy s)\<lparr>selected := True\<rparr>\<rparr> in
      if current_drive h \<noteq> current_DOR (floppy s) AND 3
      then
        let dor = (current_DOR (floppy s) AND 0xFC) OR current_drive h in
        do { (fns, s) \<leftarrow> add_timer 2 transfer_fn (outb dor FD_DOR (s\<lparr>floppy := (floppy s)\<lparr>current_DOR := dor\<rparr>\<rparr>));
             Some (False, h, s) }
      else do { (h, s) \<leftarrow> transfer_body h s; Some (True, h, s) })"

text \<open>The part of \<open>do_fd_request\<close> that finds the place of a block. \<open>divl\<close> by zero is a trap.\<close>

definition fd_place :: "u32 \<Rightarrow> fd_vars \<Rightarrow> fd_vars option" where
  "fd_place block h =
     (let f = fd_floppy h in
      if fl_sect f = 0 \<or> fl_head f = 0 then None
      else
        let trk = ucast (block div fl_sect f div fl_head f);
            h = h\<lparr>fd_sector := ucast (block mod fl_sect f), fd_head := ucast (block div fl_sect f mod fl_head f),
                  fd_track := trk, seek_track := push_bit (fl_stretch f) trk\<rparr>;
            h = (if seek_track h \<noteq> current_track h then h\<lparr>fd_seek := True\<rparr> else h)
        in Some (h\<lparr>fd_sector := fd_sector h + 1\<rparr>))"

text \<open>The minor number selects the type without a check; beyond the table there is none.\<close>

partial_function (option) fd_repeat :: "fd_vars \<Rightarrow> kernel \<Rightarrow> (bool \<times> fd_vars \<times> kernel) option" where
  "fd_repeat h s =
     (case current_request s 2 of
        None \<Rightarrow> Some (False, h, s)
      | Some r \<Rightarrow>
          if MAJOR (r_dev (requests s r)) \<noteq> 2 then panic ''floppy: request list destroyed''
          else if (case r_bh (requests s r) of None \<Rightarrow> False | Some bh \<Rightarrow> \<not> b_lock (bufs s bh))
          then panic ''floppy: block not locked''
          else
            let ty = nat (MINOR (r_dev (requests s r)) div 4); drive = nat (r_dev (requests s r) mod 4) in
            if ty \<ge> length floppy_type then None
            else
              let h = h\<lparr>fd_floppy := floppy_type ! ty, fd_seek := (fd_seek h \<or> unat (current_drive h) \<noteq> drive),
                        current_drive := of_nat drive\<rparr>;
                  block = r_sector (requests s r)
              in if block + 2 > fl_size (fd_floppy h) then fd_repeat h (end_fd_request False r s)
                 else
                   (case fd_place block h of
                      None \<Rightarrow> None
                    | Some h \<Rightarrow>
                        if r_cmd (requests s r) \<noteq> READ \<and> r_cmd (requests s r) \<noteq> WRITE
                        then panic ''do_fd_request: unknown command''
                        else
                          let h = h\<lparr>fd_command := (if r_cmd (requests s r) = READ then FD_READ else FD_WRITE)\<rparr> in
                          do { (ticks, s) \<leftarrow> ticks_to_floppy_on drive s;
                               (fns, s) \<leftarrow> add_timer ticks floppy_on_interrupt_fn s;
                               if fns = [] then Some (False, h, s)
                               else do { (called, h, s) \<leftarrow> floppy_on_body h s; Some (called \<and> fd_reset h, h, s) } }))"

text \<open>
  The label \<open>repeat\<close> is behind the tests for a reset and a recalibration. The first component of the result of \<open>fd_repeat\<close>
  tells that \<open>transfer\<close> was reached and calls \<open>do_fd_request\<close> again.
\<close>

partial_function (option) do_fd_request :: "fd_vars \<Rightarrow> kernel \<Rightarrow> (fd_vars \<times> kernel) option" where
  "do_fd_request h s =
     (let h = h\<lparr>fd_seek := False\<rparr> in
      if fd_reset h then Some (reset_floppy h s)
      else if fd_recalibrate h
      then (case recalibrate_body h s of (h, s) \<Rightarrow> if fd_reset h then do_fd_request h s else Some (h, s))
      else
        (case fd_repeat h s of
           None \<Rightarrow> None
         | Some (again, h, s) \<Rightarrow> if again then do_fd_request h s else Some (h, s)))"

definition after_reset :: "fd_vars \<times> kernel \<Rightarrow> (fd_vars \<times> kernel) option" where
  "after_reset = (\<lambda>(h, s). if fd_reset h then do_fd_request h s else Some (h, s))"

definition recalibrate_floppy :: "fd_vars \<Rightarrow> kernel \<Rightarrow> (fd_vars \<times> kernel) option" where
  "recalibrate_floppy h s = after_reset (recalibrate_body h s)"

definition setup_rw_floppy :: "fd_vars \<Rightarrow> kernel \<Rightarrow> (fd_vars \<times> kernel) option" where
  "setup_rw_floppy h s = Option.bind (setup_rw_body h s) after_reset"

definition transfer :: "fd_vars \<Rightarrow> kernel \<Rightarrow> (fd_vars \<times> kernel) option" where
  "transfer h s = Option.bind (transfer_body h s) after_reset"

definition floppy_on_interrupt :: "fd_vars \<Rightarrow> kernel \<Rightarrow> (fd_vars \<times> kernel) option" where
  "floppy_on_interrupt h s =
     do { (called, c) \<leftarrow> floppy_on_body h s; if called then after_reset c else Some c }"

subsection \<open>Interrupts\<close>

definition rw_interrupt :: "fd_vars \<Rightarrow> kernel \<Rightarrow> (fd_vars \<times> kernel) option" where
  "rw_interrupt h s =
     (case result (h, s) of (n, h, s) \<Rightarrow>
        case current_request s 2 of
          None \<Rightarrow> null_deref
        | Some r \<Rightarrow>
            if n \<noteq> 7 \<or> reply_buffer h 0 AND 0xf8 \<noteq> 0 \<or> reply_buffer h 1 AND 0xbf \<noteq> 0 \<or> reply_buffer h 2 AND 0x73 \<noteq> 0
            then
              if reply_buffer h 1 AND 0x02 \<noteq> 0
              then do_fd_request h (end_fd_request False r (floppy_deselect (current_drive h) s))
              else do { (h, s) \<leftarrow> bad_flp_intr h s; do_fd_request h s }
            else
              (case r_buffer (requests s r) of
                 None \<Rightarrow> null_deref
               | Some bh \<Rightarrow>
                   let off = r_off (requests s r);
                       s = (if fd_command h = FD_READ \<and> b_addr h bh + of_nat off \<ge> 0x100000 then copy_from_area bh off h s else s)
                   in do_fd_request h (end_fd_request True r (floppy_deselect (current_drive h) s))))"

definition seek_interrupt :: "fd_vars \<Rightarrow> kernel \<Rightarrow> (fd_vars \<times> kernel) option" where
  "seek_interrupt h s =
     (case result (output_byte FD_SENSEI (h, s)) of (n, h, s) \<Rightarrow>
        if n \<noteq> 2 \<or> reply_buffer h 0 AND 0xF8 \<noteq> 0x20 \<or> reply_buffer h 1 \<noteq> seek_track h
        then do { (h, s) \<leftarrow> bad_flp_intr h s; do_fd_request h s }
        else setup_rw_floppy (h\<lparr>current_track := reply_buffer h 1\<rparr>) s)"

definition recal_interrupt :: "fd_vars \<Rightarrow> kernel \<Rightarrow> (fd_vars \<times> kernel) option" where
  "recal_interrupt h s =
     (case result (output_byte FD_SENSEI (h, s)) of (n, h, s) \<Rightarrow>
        do_fd_request (if n \<noteq> 2 \<or> reply_buffer h 0 AND 0xE0 = 0x60 then h\<lparr>fd_reset := True\<rparr> else h\<lparr>fd_recalibrate := False\<rparr>) s)"

definition unexpected_floppy_interrupt :: "fd_vars \<Rightarrow> kernel \<Rightarrow> fd_vars \<times> kernel" where
  "unexpected_floppy_interrupt h s =
     (case result (output_byte FD_SENSEI (h, s)) of (n, h, s) \<Rightarrow>
        (if n \<noteq> 2 \<or> reply_buffer h 0 AND 0xE0 = 0x60 then h\<lparr>fd_reset := True\<rparr> else h\<lparr>fd_recalibrate := True\<rparr>, s))"

definition reset_interrupt :: "fd_vars \<Rightarrow> kernel \<Rightarrow> (fd_vars \<times> kernel) option" where
  "reset_interrupt h s =
     (case result (output_byte FD_SENSEI (h, s)) of (n, c) \<Rightarrow>
        case fold output_byte [FD_SPECIFY, word_of_int (cur_spec1 (fst c)), 6] c of (h, s) \<Rightarrow> do_fd_request h s)"

text \<open>The interrupt routine (kernel/system_call.s) acknowledges and clears \<open>do_floppy\<close> before it calls the handler.\<close>

definition floppy_interrupt :: "fd_vars \<Rightarrow> kernel \<Rightarrow> (fd_vars \<times> kernel) option" where
  "floppy_interrupt h s =
     (let s = outb 0x20 0x20 s; k = h\<lparr>do_floppy := None\<rparr> in
      case do_floppy h of
        None \<Rightarrow> Some (unexpected_floppy_interrupt k s)
      | Some rw_fn \<Rightarrow> rw_interrupt k s
      | Some seek_fn \<Rightarrow> seek_interrupt k s
      | Some recal_fn \<Rightarrow> recal_interrupt k s
      | Some reset_fn \<Rightarrow> reset_interrupt k s)"

definition floppy_init :: "kernel \<Rightarrow> kernel" where
  "floppy_init s =
     (case inb 0x21 (set_trap_gate 0x26 ''floppy_interrupt'' (s\<lparr>request_fn := (request_fn s)(2 := Some controller_fn)\<rparr>)) of (v, s) \<Rightarrow> outb (v AND NOT 0x40) 0x21 s)"


section \<open>The place of a block\<close>

text \<open>In every row of the table the size is the number of sectors of all tracks, and all numbers fit into a byte.\<close>

lemma floppy_type_fits:
  assumes "ty < length floppy_type" "f = floppy_type ! ty" "0 < unat (fl_size f)"
  shows "unat (fl_size f) = unat (fl_track f) * (unat (fl_head f) * unat (fl_sect f))" "0 < unat (fl_sect f)" "unat (fl_sect f) \<le> 18"
    "unat (fl_head f) = 2" "unat (fl_track f) * 2 ^ fl_stretch f \<le> 80"
proof -
  have "ty \<in> {0, 1, 2, 3, 4, 5, 6, 7}" using assms(1) by (auto simp: floppy_type_def less_Suc_eq numeral_2_eq_2 numeral_eq_Suc)
  then show "unat (fl_size f) = unat (fl_track f) * (unat (fl_head f) * unat (fl_sect f))" "0 < unat (fl_sect f)"
    "unat (fl_sect f) \<le> 18" "unat (fl_head f) = 2" "unat (fl_track f) * 2 ^ fl_stretch f \<le> 80"
    using assms(2,3) by (auto simp: floppy_type_def)
qed

lemma unat_ucast8: "unat (w :: u32) < 256 \<Longrightarrow> unat (ucast w :: u8) = unat w"
  by (simp add: unsigned_ucast_eq take_bit_eq_mod)

lemma div_less_tracks: "(b :: nat) < t * (h * c) \<Longrightarrow> b div c div h < t"
  by (metis div_mult2_eq less_mult_imp_div_less mult.commute)

lemma fd_place_found:
  assumes "ty < length floppy_type" "fd_floppy h = floppy_type ! ty" "unat block < unat (fl_size (fd_floppy h))"
  defines "f \<equiv> fd_floppy h"
  shows "\<exists>g. fd_place block h = Some g \<and> 1 \<le> unat (fd_sector g) \<and> unat (fd_sector g) \<le> unat (fl_sect f) \<and>
    unat (fd_head g) < unat (fl_head f) \<and> unat (fd_track g) < unat (fl_track f) \<and>
    (unat (fd_track g) * unat (fl_head f) + unat (fd_head g)) * unat (fl_sect f) + (unat (fd_sector g) - 1) = unat block \<and>
    unat (seek_track g) = unat (fd_track g) * 2 ^ fl_stretch f \<and>
    g = h\<lparr>fd_sector := fd_sector g, fd_head := fd_head g, fd_track := fd_track g, seek_track := seek_track g,
          fd_seek := (fd_seek h \<or> seek_track g \<noteq> current_track h)\<rparr>"
proof -
  note f = floppy_type_fits [OF assms(1,2), folded f_def] and lt = assms(3) [folded f_def]
  have sz: "0 < unat (fl_size f)" using lt by simp
  note f = f [OF sz]
  let ?t = "unat block div unat (fl_sect f) div unat (fl_head f)"
  have t: "?t < unat (fl_track f)" using lt f(1) by (intro div_less_tracks) simp
  then have t2: "?t * 2 ^ fl_stretch f < unat (fl_track f) * 2 ^ fl_stretch f" by simp
  have t80: "?t \<le> ?t * 2 ^ fl_stretch f" by simp
  have m: "unat block mod unat (fl_sect f) < unat (fl_sect f)" using f(2) by simp
  define g where "g = the (fd_place block h)"
  have nz: "fl_sect f \<noteq> 0" "fl_head f \<noteq> 0" using f(2,4) by auto
  then have g: "fd_place block h = Some g" "fd_sector g = ucast (block mod fl_sect f) + 1"
    "fd_head g = ucast (block div fl_sect f mod fl_head f)" "fd_track g = ucast (block div fl_sect f div fl_head f)"
    "seek_track g = push_bit (fl_stretch f) (fd_track g)"
    "g = h\<lparr>fd_sector := fd_sector g, fd_head := fd_head g, fd_track := fd_track g, seek_track := seek_track g,
          fd_seek := (fd_seek h \<or> seek_track g \<noteq> current_track h)\<rparr>"
    by (simp_all add: g_def fd_place_def f_def [symmetric] Let_def)
  have "unat (ucast (block mod fl_sect f) :: u8) = unat block mod unat (fl_sect f)"
    using m f(3) by (subst unat_ucast8) (simp_all add: unat_mod)
  then have sec: "unat (fd_sector g) = unat block mod unat (fl_sect f) + 1" using m f(3) g(2) by (simp add: unat_word_ariths)
  have hd: "unat (fd_head g) = unat block div unat (fl_sect f) mod unat (fl_head f)"
    unfolding g(3) using f(4) by (subst unat_ucast8) (simp_all add: unat_mod unat_div)
  have small: "?t * 2 ^ fl_stretch f < 80" using t2 f(5) by linarith
  then have "?t < 256" using t80 by linarith
  then have trk: "unat (fd_track g) = ?t" unfolding g(4) by (subst unat_ucast8) (simp_all add: unat_div)
  have seek: "unat (seek_track g) = ?t * 2 ^ fl_stretch f" unfolding g(5)
    by (subst unsigned_push_bit_eq) (use trk small in \<open>simp add: take_bit_eq_mod push_bit_eq_mult\<close>)
  have "(unat (fd_track g) * unat (fl_head f) + unat (fd_head g)) * unat (fl_sect f) + (unat (fd_sector g) - 1) = unat block"
    unfolding sec hd trk by simp
  moreover have "unat (fd_head g) < unat (fl_head f)" using hd f(4) by simp
  moreover have "1 \<le> unat (fd_sector g)" "unat (fd_sector g) \<le> unat (fl_sect f)" using sec m by simp_all
  moreover have "unat (fd_track g) < unat (fl_track f)" using trk t by simp
  moreover have "unat (seek_track g) = unat (fd_track g) * 2 ^ fl_stretch f" using trk seek by simp
  ultimately show ?thesis using g(1,6) by blast
qed


text \<open>
  C29: a request that fits on the diskette is prepared with the right place. For every type of the table, the sector
  (from 1), the head and the track are in range and, counted from the start of the diskette, name the requested sector; the
  track to seek is the track, doubled where the drive steps twice as fine; a seek is wanted exactly when the drive changes
  or its head is elsewhere; the command is that of the request; and \<open>floppy_on_interrupt\<close> is called when the motor is up to speed.
\<close>

theorem fd_request_place:
  assumes "\<not> fd_reset h" "\<not> fd_recalibrate h" "current_request s 2 = Some r" "MAJOR (r_dev (requests s r)) = 2"
    "r_bh (requests s r) = Some bh" "b_lock (bufs s bh)" "ty = nat (MINOR (r_dev (requests s r)) div 4)" "ty < length floppy_type"
    "f = floppy_type ! ty" "unat (r_sector (requests s r)) + 2 \<le> unat (fl_size f)" "r_cmd (requests s r) \<in> {READ, WRITE}"
    "drive = nat (r_dev (requests s r) mod 4)"
    "ticks_to_floppy_on drive s = Some (ticks, t)" "add_timer ticks floppy_on_interrupt_fn t = Some ([], u)"
  shows "\<exists>g. do_fd_request h s = Some (g, u) \<and> 1 \<le> unat (fd_sector g) \<and> unat (fd_sector g) \<le> unat (fl_sect f) \<and>
    unat (fd_head g) < unat (fl_head f) \<and> unat (fd_track g) < unat (fl_track f) \<and>
    (unat (fd_track g) * unat (fl_head f) + unat (fd_head g)) * unat (fl_sect f) + (unat (fd_sector g) - 1) =
      unat (r_sector (requests s r)) \<and>
    unat (seek_track g) = unat (fd_track g) * 2 ^ fl_stretch f \<and>
    (fd_seek g \<longleftrightarrow> unat (current_drive h) \<noteq> drive \<or> seek_track g \<noteq> current_track h) \<and>
    unat (current_drive g) = drive \<and> fd_command g = (if r_cmd (requests s r) = READ then FD_READ else FD_WRITE)"
proof -
  let ?b = "r_sector (requests s r)"
  let ?k = "h\<lparr>fd_floppy := f, fd_seek := (unat (current_drive h) \<noteq> drive), current_drive := of_nat drive\<rparr>"
  have "unat (fl_size f) < 2 ^ 32" using unsigned_less [of "fl_size f", where ?'a = nat] by simp
  then have "unat (?b + 2) = unat ?b + 2" using unat_add_le [of ?b 2] assms(10) by simp
  then have fits: "\<not> ?b + 2 > fl_size f" using assms(10) by (simp add: word_less_nat_alt not_less)
  have lt: "unat ?b < unat (fl_size (fd_floppy ?k))" using assms(10) by simp
  obtain g where g: "fd_place ?b ?k = Some g" "1 \<le> unat (fd_sector g)" "unat (fd_sector g) \<le> unat (fl_sect f)"
    "unat (fd_head g) < unat (fl_head f)" "unat (fd_track g) < unat (fl_track f)"
    "(unat (fd_track g) * unat (fl_head f) + unat (fd_head g)) * unat (fl_sect f) + (unat (fd_sector g) - 1) = unat ?b"
    "unat (seek_track g) = unat (fd_track g) * 2 ^ fl_stretch f"
    "g = ?k\<lparr>fd_sector := fd_sector g, fd_head := fd_head g, fd_track := fd_track g, seek_track := seek_track g,
            fd_seek := (fd_seek ?k \<or> seek_track g \<noteq> current_track ?k)\<rparr>"
    using fd_place_found [OF assms(8) _ lt] assms(9) by auto
  let ?c = "if r_cmd (requests s r) = READ then FD_READ else FD_WRITE"
  have "fd_repeat (h\<lparr>fd_seek := False\<rparr>) s = Some (False, g\<lparr>fd_command := ?c\<rparr>, u)"
    using assms(3-6,8,11,13,14) fits g(1)
    by (subst fd_repeat.simps) (auto simp: Let_def assms(7,9,12) [symmetric])
  then have run: "do_fd_request h s = Some (g\<lparr>fd_command := ?c\<rparr>, u)"
    using assms(1,2) by (subst do_fd_request.simps) simp
  have "drive < 4" using assms(12) by simp
  then have "unat (current_drive g) = drive" by (subst g(8)) (simp add: unat_of_nat)
  moreover have "fd_seek g \<longleftrightarrow> unat (current_drive h) \<noteq> drive \<or> seek_track g \<noteq> current_track h" by (subst g(8)) simp
  ultimately show ?thesis using run g(2-7) by (intro exI [of _ "g\<lparr>fd_command := ?c\<rparr>"]) simp
qed

text \<open>A 1.44 MB diskette in drive 2, and a read of its block 50.\<close>

definition fd_example :: fd_vars where
  "fd_example =
     \<lparr>fd_recalibrate = False, fd_reset = False, fd_seek = False, reply_buffer = (\<lambda>_. 0), cur_spec1 = -1, cur_rate = -1,
      fd_floppy = floppy_type ! 0, current_drive = 0, fd_sector = 0, fd_head = 0, fd_track = 0, seek_track = 0,
      current_track = 255, fd_command = 0, do_floppy = None, b_addr = (\<lambda>_. 0x200000), tmp_floppy_addr = 0x5000,
      tmp_floppy_area = (\<lambda>_. 0)\<rparr>"

definition fd_request_example :: kernel where
  "fd_request_example =
     boot_kernel\<lparr>requests := (requests boot_kernel)(2 := free_request\<lparr>r_dev := 0x21e, r_cmd := READ, r_sector := 100,
                    r_nr_sectors := 2, r_buffer := Some 2, r_bh := Some 2\<rparr>),
                 current_request := (current_request boot_kernel)(2 := Some 2),
                 bufs := (bufs boot_kernel)(2 := zero_buf\<lparr>b_lock := True\<rparr>)\<rparr>"


theorem fd_request_place_witness:
  "\<exists>g u. do_fd_request fd_example fd_request_example = Some (g, u) \<and> fd_seek g \<and> fd_command g = FD_READ"
proof -
  have e: "MAJOR 0x21e = 2" "MINOR 0x21e = 30" by (simp_all add: MAJOR_def MINOR_def)
  have f: "floppy boot_kernel = \<lparr>wait_motor = (\<lambda>_. None), mon_timer = (\<lambda>_. 0), moff_timer = (\<lambda>_. 0), current_DOR = 0x0c, selected = False\<rparr>"
    by (simp add: boot_kernel_def)
  obtain ticks t where t: "ticks_to_floppy_on 2 fd_request_example = Some (ticks, t)" "ticks = 50" "timers_wf t []"
    by (auto simp: ticks_to_floppy_on_def fd_request_example_def timers_wf_def f boot_kernel_def)
  moreover obtain u where "add_timer 50 floppy_on_interrupt_fn t = Some ([], u)"
    using add_timer_insert [OF t(3), of 50 1] by auto
  ultimately show ?thesis
    using fd_request_place [of fd_example fd_request_example 2 2 7 "floppy_type ! 7" 2 50 t u]
    by (auto simp: fd_example_def fd_request_example_def e floppy_type_def)
qed

end
