(* ===== verification/Start_Up.thy ===== *)
theory Start_Up
  imports Traps Hd Floppy
begin

text \<open>
  kernel/mktime.c and init/main.c: the clock at start-up and the order in which \<open>main\<close> sets up memory, traps and devices, up
  to the point where it becomes a user process.
\<close>

section \<open>The clock\<close>

record tm =
  tm_sec :: int
  tm_min :: int
  tm_hour :: int
  tm_mday :: int
  tm_mon :: int
  tm_year :: int

abbreviation "MINUTE \<equiv> (60 :: int)"
abbreviation "HOUR \<equiv> 60 * MINUTE"
abbreviation "DAY \<equiv> 24 * HOUR"
abbreviation "YEAR \<equiv> 365 * DAY"

definition month :: "int list" where
  "month =
     [0,
      DAY * 31,
      DAY * (31 + 29),
      DAY * (31 + 29 + 31),
      DAY * (31 + 29 + 31 + 30),
      DAY * (31 + 29 + 31 + 30 + 31),
      DAY * (31 + 29 + 31 + 30 + 31 + 30),
      DAY * (31 + 29 + 31 + 30 + 31 + 30 + 31),
      DAY * (31 + 29 + 31 + 30 + 31 + 30 + 31 + 31),
      DAY * (31 + 29 + 31 + 30 + 31 + 30 + 31 + 31 + 30),
      DAY * (31 + 29 + 31 + 30 + 31 + 30 + 31 + 31 + 30 + 31),
      DAY * (31 + 29 + 31 + 30 + 31 + 30 + 31 + 31 + 30 + 31 + 30)]"

text \<open>A month outside the table has no value (\<open>None\<close>). The result is a 32-bit \<open>long\<close>.\<close>

definition kernel_mktime :: "tm \<Rightarrow> int option" where
  "kernel_mktime tm =
     (let year = (if tm_year tm \<ge> 70 then tm_year tm - 70 else tm_year tm + 100 - 70);
          res = YEAR * year + DAY * ((year + 1) sdiv 4)
      in if tm_mon tm < 0 \<or> tm_mon tm > 11 then None
         else
           let res = res + month ! nat (tm_mon tm);
               res = (if tm_mon tm > 1 \<and> (year + 2) smod 4 \<noteq> 0 then res - DAY else res);
               res = res + DAY * (tm_mday tm - 1);
               res = res + HOUR * tm_hour tm;
               res = res + MINUTE * tm_min tm;
               res = res + tm_sec tm
           in Some (wrap32 res))"

definition CMOS_READ :: "u8 \<Rightarrow> kernel \<Rightarrow> int \<times> kernel" where
  "CMOS_READ addr s = (case inb 0x71 (outb (0x80 OR addr) 0x70 s) of (v, s) \<Rightarrow> (uint v, s))"

definition BCD_TO_BIN :: "int \<Rightarrow> int" where
  "BCD_TO_BIN val = (val AND 15) + drop_bit 4 val * 10"

text \<open>The loop repeats until the second has not changed while the other values were read.\<close>

partial_function (option) read_clock :: "kernel \<Rightarrow> (tm \<times> kernel) option" where
  "read_clock s =
     (let (sec, s) = CMOS_READ 0 s;
          (min, s) = CMOS_READ 2 s;
          (hour, s) = CMOS_READ 4 s;
          (mday, s) = CMOS_READ 7 s;
          (mon, s) = CMOS_READ 8 s;
          (year, s) = CMOS_READ 9 s;
          (again, s) = CMOS_READ 0 s
      in if sec \<noteq> again then read_clock s
         else Some (\<lparr>tm_sec = sec, tm_min = min, tm_hour = hour, tm_mday = mday, tm_mon = mon, tm_year = year\<rparr>, s))"

definition time_init :: "kernel \<Rightarrow> kernel option" where
  "time_init s =
     do { (t, s) \<leftarrow> read_clock s;
          r \<leftarrow> kernel_mktime
                 \<lparr>tm_sec = BCD_TO_BIN (tm_sec t), tm_min = BCD_TO_BIN (tm_min t), tm_hour = BCD_TO_BIN (tm_hour t),
                  tm_mday = BCD_TO_BIN (tm_mday t), tm_mon = BCD_TO_BIN (tm_mon t) - 1, tm_year = BCD_TO_BIN (tm_year t)\<rparr>;
          Some (s\<lparr>startup_time := r\<rparr>) }"

section \<open>The start of the kernel\<close>

text \<open>The sizes that \<open>main\<close> derives from the extended memory the set-up program found, in kilobytes.\<close>

definition memory_end_of :: "u16 \<Rightarrow> u32" where
  "memory_end_of ext_mem_k =
     (let memory_end = (0x100000 + push_bit 10 (ucast ext_mem_k)) AND 0xfffff000
      in if memory_end > 16 * 1024 * 1024 then 16 * 1024 * 1024 else memory_end)"

definition buffer_memory_end_of :: "u32 \<Rightarrow> u32" where
  "buffer_memory_end_of memory_end =
     (if memory_end > 12 * 1024 * 1024 then 4 * 1024 * 1024
      else if memory_end > 6 * 1024 * 1024 then 2 * 1024 * 1024
      else 1 * 1024 * 1024)"

text \<open>
  \<open>main\<close> up to \<open>move_to_user_mode\<close>, without a RAM disk, which the Makefile does not configure, and without \<open>chr_dev_init\<close>, which is empty. The result also has the
  addresses of the buffers' blocks. The drive parameters stay where the set-up program left them, at 0x90080.
\<close>

definition main :: "kernel \<Rightarrow> (u32 list \<times> kernel) option" where
  "main s =
     (let s = s\<lparr>ROOT_DEV := uint (load16 0x901FC s)\<rparr>;
          memory_end = memory_end_of (load16 0x90002 s);
          buffer_memory_end = buffer_memory_end_of memory_end;
          main_memory_start = buffer_memory_end;
          s = mem_init main_memory_start memory_end s;
          s = trap_init s;
          s = blk_dev_init s;
          s = tty_init s
      in do { s \<leftarrow> time_init s;
              let s = sched_init s;
              (bs, s) \<leftarrow> buffer_init buffer_memory_end s;
              let s = hd_init s;
              Some (bs, floppy_init s) })"


section \<open>The calendar\<close>

text \<open>The reference: the days of the Gregorian calendar, added up year by year and month by month.\<close>

definition is_leap :: "nat \<Rightarrow> bool" where
  "is_leap y \<longleftrightarrow> 4 dvd y \<and> (\<not> 100 dvd y \<or> 400 dvd y)"

definition days_of_month :: "nat \<Rightarrow> nat \<Rightarrow> nat" where
  "days_of_month y m = [31, if is_leap y then 29 else 28, 31, 30, 31, 30, 31, 31, 30, 31, 30, 31] ! m"

definition days_of_year :: "nat \<Rightarrow> nat" where
  "days_of_year y = (\<Sum>m<12. days_of_month y m)"

definition seconds_since_1970 :: "nat \<Rightarrow> tm \<Rightarrow> int" where
  "seconds_since_1970 y tm =
     86400 * (int ((\<Sum>k<y - 1970. days_of_year (1970 + k)) + (\<Sum>m<nat (tm_mon tm). days_of_month y m)) + (tm_mday tm - 1)) +
     3600 * tm_hour tm + 60 * tm_min tm + tm_sec tm"

lemma is_leap_near:
  assumes "k < 130"
  shows "is_leap (1970 + k) \<longleftrightarrow> (k + 2) mod 4 = 0"
proof (cases "k = 30")
  case False
  have "\<not> 100 dvd 1970 + k"
  proof
    assume "100 dvd 1970 + k"
    then obtain q where "1970 + k = 100 * q" unfolding dvd_def by blast
    then show False using assms False by arith
  qed
  moreover have "4 dvd 1970 + k \<longleftrightarrow> (k + 2) mod 4 = 0" by presburger
  ultimately show ?thesis unfolding is_leap_def by (simp only: simp_thms)
qed (simp add: is_leap_def)

lemma days_of_year_eq: "days_of_year y = (if is_leap y then 366 else 365)"
  by (simp add: days_of_year_def days_of_month_def lessThan_nat_numeral)

lemma days_of_years: "k \<le> 130 \<Longrightarrow> (\<Sum>j<k. days_of_year (1970 + j)) = 365 * k + (k + 1) div 4"
proof (induction k)
  case (Suc k)
  then have "(\<Sum>j<Suc k. days_of_year (1970 + j)) = 365 * k + (k + 1) div 4 + days_of_year (1970 + k)" by simp
  also have "\<dots> = 365 * Suc k + (Suc k + 1) div 4"
    using is_leap_near [of k] Suc.prems unfolding days_of_year_eq by simp presburger
  finally show ?case .
qed simp

lemma days_of_months:
  assumes "m < 12"
  shows "DAY * int (\<Sum>j<m. days_of_month y j) = month ! m - (if 1 < m \<and> \<not> is_leap y then DAY else 0)"
proof -
  have "m \<in> {0, 1, 2, 3, 4, 5, 6, 7, 8, 9, 10, 11}" using assms unfolding insert_iff empty_iff by arith
  then show ?thesis by (auto simp: days_of_month_def month_def lessThan_nat_numeral)
qed

text \<open>
  C39: for every date from 1970 to 2069, given with a two-digit year, \<open>kernel_mktime\<close> is the number of seconds since the
  start of 1970 in the Gregorian calendar, as a 32-bit number; its table of a leap year and its offsets agree with the
  calendar's rules, the year 2000 included.
\<close>

theorem kernel_mktime_calendar:
  assumes "0 \<le> tm_year tm" "tm_year tm \<le> 99" "0 \<le> tm_mon tm" "tm_mon tm \<le> 11"
  shows "kernel_mktime tm =
    Some (wrap32 (seconds_since_1970 (nat (tm_year tm) + (if tm_year tm \<ge> 70 then 1900 else 2000)) tm))"
proof -
  define k where "k = nat (if tm_year tm \<ge> 70 then tm_year tm - 70 else tm_year tm + 30)"
  let ?y = "nat (tm_year tm) + (if tm_year tm \<ge> 70 then 1900 else 2000)" and ?m = "nat (tm_mon tm)"
  have k: "k < 130" "?y = 1970 + k" "(if tm_year tm \<ge> 70 then tm_year tm - 70 else tm_year tm + 100 - 70) = int k"
    using assms(1,2) by (auto simp: k_def)
  have m: "?m < 12" "tm_mon tm > 1 \<longleftrightarrow> 1 < ?m" "\<not> (tm_mon tm < 0 \<or> tm_mon tm > 11)" using assms(3,4) by auto
  have years: "86400 * int (\<Sum>j<?y - 1970. days_of_year (1970 + j)) = YEAR * int k + DAY * ((int k + 1) div 4)"
    unfolding k(2) diff_add_inverse days_of_years [OF less_imp_le [OF k(1)]] by (simp add: zdiv_int)
  have months: "86400 * int (\<Sum>j<?m. days_of_month ?y j) = month ! ?m - (if 1 < ?m \<and> (int k + 2) mod 4 \<noteq> 0 then DAY else 0)"
  proof -
    have "(int k + 2) mod 4 = int ((k + 2) mod 4)" by (simp add: zmod_int add.commute)
    then show ?thesis using days_of_months [OF m(1), of ?y] is_leap_near [OF k(1)] unfolding k(2) by simp
  qed
  have sd: "(int k + 1) sdiv 4 = (int k + 1) div 4" "(int k + 2) smod 4 = (int k + 2) mod 4"
    by (simp_all add: signed_divide_int_def signed_modulo_int_def)
  show ?thesis
    unfolding kernel_mktime_def Let_def k(3) sd m(2) if_not_P [OF m(3)] option.inject seconds_since_1970_def
    using years months by (intro arg_cong [of _ _ wrap32]) (auto simp: algebra_simps)
qed

theorem kernel_mktime_calendar_witness:
  "kernel_mktime \<lparr>tm_sec = 40, tm_min = 46, tm_hour = 1, tm_mday = 9, tm_mon = 8, tm_year = 1\<rparr> = Some 1000000000"
proof -
  let ?tm = "\<lparr>tm_sec = 40, tm_min = 46, tm_hour = 1, tm_mday = 9, tm_mon = 8, tm_year = 1\<rparr>"
  have "\<not> is_leap 2001" by (simp add: is_leap_def)
  then have "int (\<Sum>j<8. days_of_month 2001 j) = 243" using days_of_months [of 8 2001] by (simp add: month_def)
  moreover have "(\<Sum>j<31. days_of_year (1970 + j)) = 11323" using days_of_years [of 31] by simp
  ultimately have "seconds_since_1970 2001 ?tm = 1000000000" by (simp add: seconds_since_1970_def)
  then show ?thesis using kernel_mktime_calendar [of ?tm] by (simp add: wrap32_def)
qed


section \<open>The state that \<open>main\<close> leaves\<close>

text \<open>
  The set-up routines of traps and devices leave the page map alone, and the gates they set are not open to programs:
  \<open>kept X n s t\<close> says that the user's gates of \<open>t\<close> are those of \<open>s\<close> without \<open>X\<close>, and that \<open>n\<close> bytes have been read from ports.
\<close>

definition kept :: "nat set \<Rightarrow> nat \<Rightarrow> kernel \<Rightarrow> kernel \<Rightarrow> bool" where
  "kept X n s t \<longleftrightarrow> mem_map t = mem_map s \<and> HIGH_MEMORY t = HIGH_MEMORY s \<and> start_buffer t = start_buffer s \<and>
     user_gates t = user_gates s - X \<and> inputs t = (\<lambda>k. inputs s (k + n))"

lemma kept_refl: "kept {} 0 s s"
  by (simp add: kept_def)

lemma kept_outb: "kept X n s t \<Longrightarrow> kept X n s (outb v port t)"
  by (simp add: kept_def)

lemma kept_inputs: "kept X n s t \<Longrightarrow> kept X (Suc n) s (t\<lparr>inputs := (\<lambda>k. inputs t (Suc k))\<rparr>)"
  by (simp add: kept_def)

lemma kept_upd_con: "kept X n s t \<Longrightarrow> kept X n s (upd_con f t)"
  by (simp add: kept_def user_gates_def)

lemma kept_gotoxy: "kept X n s t \<Longrightarrow> kept X n s (gotoxy x y t)"
  by (simp add: gotoxy_def kept_upd_con)

lemma kept_gate: "kept X n s t \<Longrightarrow> kept (insert g X) n s (set_trap_gate g a t)" "kept X n s t \<Longrightarrow> kept (insert g X) n s (set_intr_gate g a t)"
  by (auto simp: kept_def gate_defs user_gates_def)

lemma kept_store8: "kept X n s t \<Longrightarrow> kept X n s (fold (\<lambda>k. store8 (a k) (v k)) ns t)"
  by (induction ns arbitrary: t) (simp_all add: kept_def store8_def user_gates_def)

lemma kept_requests: "kept X n s t \<Longrightarrow> kept X n s (fold (\<lambda>i. upd_req i f) ns t)"
  by (induction ns arbitrary: t) (simp_all add: kept_def user_gates_def)

lemma kept_fields: "kept X n s t \<Longrightarrow> kept X n s (t\<lparr>request_fn := f\<rparr>)" "kept X n s t \<Longrightarrow> kept X n s (t\<lparr>task := g\<rparr>)"
  "kept X n s t \<Longrightarrow> kept X n s (t\<lparr>startup_time := r\<rparr>)"
  by (simp_all add: kept_def user_gates_def)

lemmas kept_rules = kept_outb kept_inputs kept_upd_con kept_gotoxy kept_gate kept_store8 kept_requests kept_fields

lemma kept_trans: "kept X n s t \<Longrightarrow> kept Y m t u \<Longrightarrow> kept (X \<union> Y) (m + n) s u"
  by (auto simp: kept_def add.assoc)

text \<open>The same through the bindings of a routine, state by state.\<close>

lemma kept_let_inb:
  "kept X n s t \<Longrightarrow> (\<And>v u. kept X (Suc n) s u \<Longrightarrow> kept Y m s (f v u)) \<Longrightarrow> kept Y m s (let (v, u) = inb port t in f v u)"
  by (simp add: inb_def kept_inputs)

lemma kept_case_inb:
  "kept X n s t \<Longrightarrow> (\<And>v u. kept X (Suc n) s u \<Longrightarrow> kept Y m s (f v u)) \<Longrightarrow> kept Y m s (case inb port t of (v, u) \<Rightarrow> f v u)"
  by (simp add: inb_def kept_inputs)

lemma kept_snd_inb: "kept X n s t \<Longrightarrow> kept X (Suc n) s (snd (inb port t))"
  by (simp add: inb_def kept_inputs)

lemma kept_let_state: "kept X n s e \<Longrightarrow> (\<And>u. kept X n s u \<Longrightarrow> kept Y m s (f u)) \<Longrightarrow> kept Y m s (let u = e in f u)" for e :: kernel
  by (simp add: Let_def)

lemma kept_let_value: "(\<And>x. kept Y m s (f x)) \<Longrightarrow> kept Y m s (let x = e in f x)"
  by (simp add: Let_def)

lemma kept_serial_init: "kept X n s t \<Longrightarrow> kept X (Suc n) s (serial_init port t)"
  by (simp add: serial_init_def Let_def kept_rules kept_snd_inb)

lemmas kept_steps = kept_let_inb kept_case_inb kept_let_state kept_let_value kept_serial_init kept_rules kept_refl

lemma rs_init_kept: "kept {0x24, 0x23} (Suc (Suc (Suc 0))) s (rs_init s)"
  unfolding rs_init_def by (rule subst [OF insert_commute]) (assumption | rule kept_steps)+

lemma con_init_kept: "kept {0x21} (Suc (Suc 0)) s (con_init s)"
  unfolding con_init_def by (assumption | rule kept_steps)+

lemma disks_init_kept: "kept {0x2E} (Suc (Suc 0)) s (hd_init s)" "kept {0x26} (Suc 0) s (floppy_init s)" "kept {} 0 s (blk_dev_init s)"
  unfolding hd_init_def floppy_init_def blk_dev_init_def by (assumption | rule kept_steps)+

text \<open>The buffers: the loop ends, because the block address falls by 1024 until it meets the buffer heads.\<close>

lemma buffer_loop_ends:
  assumes "1024 \<le> unat b" "unat b + 1024 * h \<le> 0x400000" "1024 \<le> unat (start_buffer s)" "unat (start_buffer s) < 0x100000"
  shows "\<exists>bs k t. buffer_loop b h s = Some (bs, k, t) \<and> h \<le> k \<and> kept {} 0 s t \<and>
    (unat (start_buffer s) + 36 * (h + 1) + 1024 \<le> unat b \<longrightarrow> h < k)"
  using assms
proof (induction "unat b" arbitrary: b h s rule: less_induct)
  case less
  let ?b = "b - 1024" and ?e = "start_buffer s + 36 * of_nat (h + 1)"
  have b: "unat ?b = unat b - 1024" using less.prems(1) by (simp add: unat_sub_le)
  have h: "h \<le> 4096" using less.prems(2) by simp
  then have "unat (36 * of_nat (h + 1) :: u32) = 36 * (h + 1)" by (simp add: unat_word_ariths unat_of_nat)
  then have e: "unat ?e = unat (start_buffer s) + 36 * (h + 1)" using h less.prems(4) by (subst unat_add_le) simp_all
  show ?case
  proof (cases "?b \<ge> ?e")
    case False
    then have "buffer_loop b h s = Some ([], h, s)" by (subst buffer_loop.simps) (simp add: Let_def)
    then show ?thesis using False b e by (auto simp: kept_def word_le_nat_alt)
  next
    case True
    define c where "c = (if ?b = 0x100000 then 0xA0000 else ?b)"
    define f where "f = (\<lambda>x :: buffer_head. x\<lparr>b_dev := 0, b_dirt := False, b_count := 0, b_lock := False, b_uptodate := False,
                  b_wait := None, b_next := None, b_prev := None,
                  b_prev_free := (if h = 0 then None else Some (h - 1)), b_next_free := Some (h + 1)\<rparr>)"
    define u where "u = (upd_buf h f s)\<lparr>nr_buffers := nr_buffers s + 1\<rparr>"
    have u: "kept {} 0 s u" by (auto simp: u_def kept_def user_gates_def)
    have ge: "unat ?e \<le> unat ?b" using True by (simp add: word_le_nat_alt)
    have c: "unat c < unat b" "1024 \<le> unat c" "unat c + 1024 * (h + 1) \<le> 0x400000"
      using ge b e less.prems by (auto simp: c_def)
    have su: "1024 \<le> unat (start_buffer u)" "unat (start_buffer u) < 0x100000"
      using less.prems(3,4) by (auto simp: u_def)
    obtain bs k t where r: "buffer_loop c (h + 1) u = Some (bs, k, t)" "h + 1 \<le> k" "kept {} 0 u t"
      using less.hyps [OF c su] by blast
    have "buffer_loop b h s = Some (?b # bs, k, t)"
      using True r(1) by (subst buffer_loop.simps) (simp add: Let_def c_def u_def f_def)
    then show ?thesis using r(2,3) u by (auto simp: kept_def)
  qed
qed

lemma buffer_init_returns:
  assumes "e = 0x100000 \<or> e = 0x200000 \<or> e = 0x400000" "1024 \<le> unat (start_buffer s)" "unat (start_buffer s) + 1060 \<le> 0xA0000"
  shows "\<exists>bs t. buffer_init e s = Some (bs, t) \<and> kept {} 0 s t"
proof -
  let ?b = "if e = 0x100000 then 640 * 1024 else e"
  have b: "1024 \<le> unat ?b" "unat ?b + 1024 * 0 \<le> 0x400000" "unat (start_buffer s) + 36 * (0 + 1) + 1024 \<le> unat ?b"
    using assms(1,3) by auto
  obtain bs k t where "buffer_loop ?b 0 s = Some (bs, k, t)" "0 < k" "kept {} 0 s t"
    using buffer_loop_ends [OF b(1,2) assms(2)] assms(3) b(3) by auto
  then show ?thesis by (auto simp: buffer_init_def kept_def user_gates_def Let_def)
qed


lemma trap_init_memory: "mem_map (trap_init s) = mem_map s" "HIGH_MEMORY (trap_init s) = HIGH_MEMORY s"
  "start_buffer (trap_init s) = start_buffer s" "inputs (trap_init s) = (\<lambda>k. inputs s (k + 2))"
proof -
  have f: "mem_map (fold (\<lambda>i. set_trap_gate i a) ns t) = mem_map t" "HIGH_MEMORY (fold (\<lambda>i. set_trap_gate i a) ns t) = HIGH_MEMORY t"
    "start_buffer (fold (\<lambda>i. set_trap_gate i a) ns t) = start_buffer t" "inputs (fold (\<lambda>i. set_trap_gate i a) ns t) = inputs t" for a ns t
    by (induction ns arbitrary: t) (simp_all add: gate_defs)
  have g: "mem_map (set_trap_gate n a t) = mem_map t" "HIGH_MEMORY (set_trap_gate n a t) = HIGH_MEMORY t"
    "start_buffer (set_trap_gate n a t) = start_buffer t" "inputs (set_trap_gate n a t) = inputs t"
    "mem_map (set_system_gate n a t) = mem_map t" "HIGH_MEMORY (set_system_gate n a t) = HIGH_MEMORY t"
    "start_buffer (set_system_gate n a t) = start_buffer t" "inputs (set_system_gate n a t) = inputs t" for n a t
    by (simp_all add: gate_defs)
  show "mem_map (trap_init s) = mem_map s" "HIGH_MEMORY (trap_init s) = HIGH_MEMORY s"
    "start_buffer (trap_init s) = start_buffer s" "inputs (trap_init s) = (\<lambda>k. inputs s (k + 2))"
    by (simp_all add: trap_init_def inb_def f g del: upt_rec_numeral)
qed

lemma sched_init_kept:
  "mem_map (sched_init s) = mem_map s" "HIGH_MEMORY (sched_init s) = HIGH_MEMORY s" "start_buffer (sched_init s) = start_buffer s"
  "user_gates (sched_init s) = insert 0x80 (user_gates s - {0x20})"
  by (auto simp: sched_init_def Let_def inb_def gate_defs user_gates_def split: if_splits)

text \<open>The clock is read once when the second does not change meanwhile.\<close>

lemma time_init_returns:
  assumes "inputs s 0 = inputs s 6" "BCD_TO_BIN (uint (inputs s 4)) \<in> {1..12}"
  shows "\<exists>t. time_init s = Some t \<and> kept {} 7 s t"
proof -
  have read: "CMOS_READ a t = (uint (inputs t 0), (outb (0x80 OR a) 0x70 t)\<lparr>inputs := (\<lambda>k. inputs t (Suc k))\<rparr>)" for a t
    by (simp add: CMOS_READ_def inb_def)
  have "\<exists>u. read_clock s = Some (\<lparr>tm_sec = uint (inputs s 0), tm_min = uint (inputs s 1), tm_hour = uint (inputs s 2),
      tm_mday = uint (inputs s 3), tm_mon = uint (inputs s 4), tm_year = uint (inputs s 5)\<rparr>, u) \<and> kept {} 7 s u"
    using assms(1) by (subst read_clock.simps) (simp add: read kept_def user_gates_def numeral_eq_Suc)
  then obtain u where u: "read_clock s = Some (\<lparr>tm_sec = uint (inputs s 0), tm_min = uint (inputs s 1), tm_hour = uint (inputs s 2),
      tm_mday = uint (inputs s 3), tm_mon = uint (inputs s 4), tm_year = uint (inputs s 5)\<rparr>, u)" "kept {} 7 s u" by blast
  then show ?thesis
    using assms(2) kept_fields(3) [OF u(2)] by (auto simp: time_init_def kernel_mktime_def Let_def)
qed

lemma memory_end_pages:
  "\<exists>j\<le>PAGING_PAGES. memory_end_of k = page_addr j"
proof -
  let ?m = "0x100000 + push_bit 10 (ucast k) :: u32"
  have k: "unat k < 65536" using unsigned_less [of k, where ?'a = nat] by simp
  have m: "unat ?m = 0x100000 + 1024 * unat k"
    using k by (simp add: push_bit_eq_mult unat_word_ariths unsigned_ucast_eq take_bit_eq_mod)
  have f: "?m AND 0xfffff000 = page_addr (unat k div 4)"
  proof (rule word_unat_eq_iff [THEN iffD2])
    have "unat (?m AND 0xfffff000) = unat ?m div 4096 * 4096"
      using frame_of_unat [of ?m] by (simp add: frame_of_def)
    also have "\<dots> = 4096 * (unat k div 4) + 0x100000" 
    proof -
      have "(0x100000 + 1024 * unat k) div 4096 = (1024 * (1024 + unat k)) div (1024 * 4)" by simp
      also have "\<dots> = (4 * 256 + unat k) div 4" by simp
      also have "\<dots> = 256 + unat k div 4" by (rule div_mult_self4) simp
      finally show ?thesis unfolding m by simp
    qed
    also have "\<dots> = unat (page_addr (unat k div 4))"
      using k by (simp add: page_addr_def push_bit_eq_mult unat_word_ariths unat_of_nat)
    finally show "unat (?m AND 0xfffff000) = unat (page_addr (unat k div 4))" .
  qed
  have top: "(16 * 1024 * 1024 :: u32) = page_addr PAGING_PAGES" by (simp add: page_addr_def push_bit_eq_mult)
  show ?thesis
  proof (cases "page_addr (unat k div 4) > 16 * 1024 * 1024")
    case True
    then have "memory_end_of k = page_addr PAGING_PAGES" using top by (simp add: memory_end_of_def f)
    then show ?thesis by blast
  next
    case False
    then have "unat (page_addr (unat k div 4)) \<le> 16 * 1024 * 1024" by (simp add: word_less_nat_alt not_less)
    moreover have "unat (page_addr (unat k div 4)) = 4096 * (unat k div 4) + 0x100000"
      using k by (simp add: page_addr_def push_bit_eq_mult unat_word_ariths unat_of_nat)
    ultimately have "unat k div 4 \<le> PAGING_PAGES" by simp
    moreover have "memory_end_of k = page_addr (unat k div 4)" using False by (simp add: memory_end_of_def f)
    ultimately show ?thesis by blast
  qed
qed

lemma buffer_end_pages:
  assumes "j \<le> PAGING_PAGES"
  shows "\<exists>i\<in>{0, 256, 768}. i \<le> j \<and> buffer_memory_end_of (page_addr j) = page_addr i"
proof -
  have j: "unat (page_addr j) = 4096 * j + 0x100000" using assms by (rule unat_page_addr_le)
  have a: "page_addr 0 = 0x100000" "page_addr 256 = 0x200000" "page_addr 768 = 0x400000" by (simp_all add: page_addr_def push_bit_eq_mult)
  consider "page_addr j > 12 * 1024 * 1024" | "\<not> page_addr j > 12 * 1024 * 1024" "page_addr j > 6 * 1024 * 1024"
    | "\<not> page_addr j > 12 * 1024 * 1024" "\<not> page_addr j > 6 * 1024 * 1024" by blast
  then show ?thesis
  proof cases
    case 1
    then have "768 \<le> j" using j by (simp add: word_less_nat_alt)
    then show ?thesis using 1 a by (simp add: buffer_memory_end_of_def)
  next
    case 2
    then have "256 \<le> j" using j by (simp add: word_less_nat_alt)
    then show ?thesis using 2 a by (simp add: buffer_memory_end_of_def)
  next
    case 3
    then show ?thesis using a by (simp add: buffer_memory_end_of_def)
  qed
qed

text \<open>
  C38: the kernel starts. When the clock's second does not change while it is read, its month is valid and the kernel's image
  ends below 640 KB, \<open>main\<close> gets through all its set-up calls and leaves the machine as the rest of the kernel needs it. Exactly the pages from the end of the
  buffer memory (1, 2 or 4 MB, by the size of the memory) to the end of memory (at most 16 MB) are free, so the page allocator's invariant holds.
  And the only interrupts that a program may raise itself are breakpoint, overflow, bounds and the system call.
\<close>

theorem main_sets_up:
  assumes "user_gates s = {}" "1024 \<le> unat (start_buffer s)" "unat (start_buffer s) + 1060 \<le> 0xA0000"
    "inputs s 7 = inputs s 13" "BCD_TO_BIN (uint (inputs s 11)) \<in> {1..12}"
  shows "\<exists>bs t i j. main s = Some (bs, t) \<and>
    memory_end_of (load16 0x90002 s) = page_addr j \<and> buffer_memory_end_of (page_addr j) = page_addr i \<and> i \<le> j \<and> j \<le> PAGING_PAGES \<and>
    (\<forall>k<PAGING_PAGES. mem_map t k = (if i \<le> k \<and> k < j then 0 else USED)) \<and> HIGH_MEMORY t = page_addr j \<and> mm_wf t \<and>
    user_gates t = {3, 4, 5, 0x80}"
proof -
  obtain j where j: "j \<le> PAGING_PAGES" "memory_end_of (load16 0x90002 s) = page_addr j" using memory_end_pages by blast
  obtain i where i: "i \<in> {0, 256, 768}" "i \<le> j" "buffer_memory_end_of (page_addr j) = page_addr i"
    using buffer_end_pages [OF j(1)] by blast
  have e: "page_addr i = 0x100000 \<or> page_addr i = 0x200000 \<or> page_addr i = 0x400000"
    using i(1) by (auto simp: page_addr_def push_bit_eq_mult)
  define s1 where "s1 = mem_init (page_addr i) (page_addr j) (s\<lparr>ROOT_DEV := uint (load16 0x901FC s)\<rparr>)"
  define s2 where "s2 = tty_init (blk_dev_init (trap_init s1))"
  have s1: "\<forall>k<PAGING_PAGES. mem_map s1 k = (if i \<le> k \<and> k < j then 0 else USED)" "mm_wf s1" "HIGH_MEMORY s1 = page_addr j"
    "start_buffer s1 = start_buffer s" "inputs s1 = inputs s" "user_gates s1 = {}"
    using mem_init_pages [OF i(2) j(1), of "s\<lparr>ROOT_DEV := uint (load16 0x901FC s)\<rparr>"] assms(1)
    by (auto simp: s1_def mem_init_def Let_def user_gates_def)
  have "kept ({} \<union> ({0x24, 0x23} \<union> {0x21})) (Suc (Suc 0) + Suc (Suc (Suc 0)) + 0) (trap_init s1) s2"
    unfolding s2_def tty_init_def by (rule kept_trans [OF disks_init_kept(3) kept_trans [OF rs_init_kept con_init_kept]])
  then have s2: "mem_map s2 = mem_map s1" "HIGH_MEMORY s2 = HIGH_MEMORY s1" "start_buffer s2 = start_buffer s1"
    "user_gates s2 = {3, 4, 5}" "inputs s2 = (\<lambda>k. inputs s (k + 7))"
    using s1(5,6) by (auto simp: kept_def trap_init_memory trap_init_gates numeral_eq_Suc)
  obtain s3 where s3: "time_init s2 = Some s3" "kept {} 7 s2 s3"
    using time_init_returns [of s2] assms(4,5) s2(5) by auto
  define s4 where "s4 = sched_init s3"
  have s4: "mem_map s4 = mem_map s1" "HIGH_MEMORY s4 = HIGH_MEMORY s1" "start_buffer s4 = start_buffer s" "user_gates s4 = {3, 4, 5, 0x80}"
    using s2 s3(2) s1(4) by (auto simp: s4_def sched_init_kept kept_def)
  obtain bs s5 where s5: "buffer_init (page_addr i) s4 = Some (bs, s5)" "kept {} 0 s4 s5"
    using buffer_init_returns [OF e, of s4] assms(2,3) s4(3) by auto
  define t where "t = floppy_init (hd_init s5)"
  have "kept ({} \<union> ({0x2E} \<union> {0x26})) ((Suc 0 + Suc (Suc 0)) + 0) s4 t"
    unfolding t_def by (rule kept_trans [OF s5(2) kept_trans [OF disks_init_kept(1,2)]])
  then have t: "mem_map t = mem_map s1" "HIGH_MEMORY t = HIGH_MEMORY s1" "user_gates t = {3, 4, 5, 0x80}"
    using s4 by (auto simp: kept_def)
  have "load16 a (s\<lparr>ROOT_DEV := r\<rparr>) = load16 a s" for a r by (simp add: load16_def)
  then have "main s = Some (bs, t)"
    using s3(1) s5(1) by (simp add: main_def j(2) i(3) s1_def [symmetric] s2_def [symmetric] s4_def [symmetric] t_def [symmetric] Let_def)
  moreover have "mm_wf t" using s1(2) t(1,2) by (simp add: mm_wf_def)
  ultimately show ?thesis using j i(2,3) s1(1,3) t by auto
qed

theorem main_sets_up_witness:
  "\<exists>bs t. main (boot_kernel\<lparr>start_buffer := 0x20000, inputs := (\<lambda>_. 1)\<rparr>) = Some (bs, t) \<and> user_gates t = {3, 4, 5, 0x80}"
  using main_sets_up [of "boot_kernel\<lparr>start_buffer := 0x20000, inputs := (\<lambda>_. 1)\<rparr>"]
  by (auto simp: user_gates_def BCD_TO_BIN_def)

end
