(* ===== verification/System_Call.thy ===== *)
theory System_Call
  imports Dir_Calls Fork Sys Signals Exec Start_Up
begin

text \<open>
  How a program reaches the kernel: the macros of include/unistd.h put a number and up to three arguments into registers
  and raise interrupt 0x80, kernel/system_call.s calls the function that include/linux/sys.h has at that number, and on the way
  back gives up the processor or delivers a signal when it is time to. The number after a call is the value of \<open>eax\<close>.
\<close>

section \<open>Definitions\<close>

record cpu = regs +
  eax :: u32

text \<open>What the calls take from memory that the model does not have: see \<open>Exec\<close>, \<open>File_Calls\<close> and \<open>Tty_Ioctl\<close>.\<close>

record unseen =
  absent :: "u32 \<Rightarrow> u8"
  stat_pad :: "nat \<Rightarrow> u8"
  termio_pad :: u8

text \<open>A call returns a value, and the registers, which \<open>execve\<close> changes; or the process is gone.\<close>

datatype called = Returned int cpu hd_vars kernel | Ended kernel

type_synonym handler = "cpu \<Rightarrow> hd_vars \<Rightarrow> kernel \<Rightarrow> called option"

definition fixed :: "int \<Rightarrow> handler" where
  "fixed v r h s = Some (Returned v r h s)"

definition reads :: "(kernel \<Rightarrow> int) \<Rightarrow> handler" where
  "reads f r h s = Some (Returned (f s) r h s)"

definition returns :: "(cpu \<Rightarrow> kernel \<Rightarrow> int \<times> kernel) \<Rightarrow> handler" where
  "returns f r h s = (case f r s of (v, s) \<Rightarrow> Some (Returned v r h s))"

definition performs :: "(cpu \<Rightarrow> kernel \<Rightarrow> (int \<times> kernel) option) \<Rightarrow> handler" where
  "performs f r h s = map_option (\<lambda>(v, s). Returned v r h s) (f r s)"

subsection \<open>The functions of kernel/system_call.s\<close>

definition sys_fork :: "cpu \<Rightarrow> kernel \<Rightarrow> (int \<times> kernel) option" where
  "sys_fork r s =
     do { (nr, s) \<leftarrow> find_empty_process s;
          if nr < 0 then Some (nr, s) else copy_process (nat nr) (regs.truncate r) s }"

definition sys_execve :: "unseen \<Rightarrow> handler" where
  "sys_execve u r h s =
     map_option
       (\<lambda>(result, s). case result of
            Inl e \<Rightarrow> Returned e r h s
          | Inr (ip, sp) \<Rightarrow> Returned 0 (r\<lparr>eip := ip, esp := sp\<rparr>) h s)
       (do_execve (absent u) (cs r) (ebx r) (ecx r) (edx r) s)"

subsection \<open>include/linux/sys.h\<close>

definition sys_call_table :: "unseen \<Rightarrow> (string \<times> handler) list" where
  "sys_call_table u =
     [(''setup'', \<lambda>r h s. map_option (\<lambda>(v, h, s). Returned v r h s) (sys_setup (ebx r) h s)),
      (''exit'', \<lambda>r h s. map_option Ended (sys_exit (sint (ebx r)) s)),
      (''fork'', performs sys_fork),
      (''read'', performs (\<lambda>r. sys_read (unat (ebx r)) (ecx r) (sint (edx r)))),
      (''write'', performs (\<lambda>r. sys_write (unat (ebx r)) (ecx r) (sint (edx r)))),
      (''open'', performs (\<lambda>r. sys_open (ebx r) (sint (ecx r)) (sint (edx r)))),
      (''close'', performs (\<lambda>r. sys_close (unat (ebx r)))),
      (''waitpid'', performs (\<lambda>r. sys_waitpid (sint (ebx r)) (ecx r) (sint (edx r)))),
      (''creat'', performs (\<lambda>r. sys_creat (ebx r) (sint (ecx r)))),
      (''link'', performs (\<lambda>r. sys_link (ebx r) (ecx r))),
      (''unlink'', performs (\<lambda>r. sys_unlink (ebx r))),
      (''execve'', sys_execve u),
      (''chdir'', performs (\<lambda>r. sys_chdir (ebx r))),
      (''time'', performs (\<lambda>r. sys_time (ebx r))),
      (''mknod'', performs (\<lambda>r. sys_mknod (ebx r) (sint (ecx r)) (sint (edx r)))),
      (''chmod'', performs (\<lambda>r. sys_chmod (ebx r) (sint (ecx r)))),
      (''chown'', performs (\<lambda>r. sys_chown (ebx r) (sint (ecx r)) (sint (edx r)))),
      (''break'', fixed sys_break),
      (''stat'', performs (\<lambda>r. sys_stat (stat_pad u) (ebx r) (ecx r))),
      (''lseek'', returns (\<lambda>r. sys_lseek (unat (ebx r)) (sint (ecx r)) (sint (edx r)))),
      (''getpid'', reads sys_getpid),
      (''mount'', performs (\<lambda>r. sys_mount (ebx r) (ecx r))),
      (''umount'', performs (\<lambda>r. sys_umount (ebx r))),
      (''setuid'', returns (\<lambda>r. sys_setuid (sint (ebx r)))),
      (''getuid'', reads sys_getuid),
      (''stime'', returns (\<lambda>r. sys_stime (ebx r))),
      (''ptrace'', fixed sys_ptrace),
      (''alarm'', returns (\<lambda>r. sys_alarm (sint (ebx r)))),
      (''fstat'', performs (\<lambda>r. sys_fstat (stat_pad u) (unat (ebx r)) (ecx r))),
      (''pause'', performs (\<lambda>r. sys_pause)),
      (''utime'', performs (\<lambda>r. sys_utime (ebx r) (ecx r))),
      (''stty'', fixed sys_stty),
      (''gtty'', fixed sys_gtty),
      (''access'', performs (\<lambda>r. sys_access (ebx r) (sint (ecx r)))),
      (''nice'', returns (\<lambda>r. sys_nice (sint (ebx r)))),
      (''ftime'', fixed sys_ftime),
      (''sync'', performs (\<lambda>r. sys_sync)),
      (''kill'', returns (\<lambda>r. sys_kill (sint (ebx r)) (sint (ecx r)))),
      (''rename'', fixed sys_rename),
      (''mkdir'', performs (\<lambda>r. sys_mkdir (ebx r) (sint (ecx r)))),
      (''rmdir'', performs (\<lambda>r. sys_rmdir (ebx r))),
      (''dup'', returns (\<lambda>r. sys_dup (unat (ebx r)))),
      (''pipe'', performs (\<lambda>r. sys_pipe (ebx r))),
      (''times'', performs (\<lambda>r. sys_times (ebx r))),
      (''prof'', fixed sys_prof),
      (''brk'', returns (\<lambda>r. sys_brk (ebx r))),
      (''setgid'', returns (\<lambda>r. sys_setgid (sint (ebx r)))),
      (''getgid'', reads sys_getgid),
      (''signal'', returns (\<lambda>r. sys_signal (sint (ebx r)) (ecx r) (edx r))),
      (''geteuid'', reads sys_geteuid),
      (''getegid'', reads sys_getegid),
      (''acct'', fixed sys_acct),
      (''phys'', fixed sys_phys),
      (''lock'', fixed sys_lock),
      (''ioctl'', performs (\<lambda>r. sys_ioctl (termio_pad u) (unat (ebx r)) (unat (ecx r)) (edx r))),
      (''fcntl'', returns (\<lambda>r. sys_fcntl (unat (ebx r)) (unat (ecx r)) (edx r))),
      (''mpx'', fixed sys_mpx),
      (''setpgid'', returns (\<lambda>r. sys_setpgid (sint (ebx r)) (sint (ecx r)))),
      (''ulimit'', fixed sys_ulimit),
      (''uname'', performs (\<lambda>r. sys_uname (ebx r))),
      (''umask'', returns (\<lambda>r. sys_umask (sint (ebx r)))),
      (''chroot'', performs (\<lambda>r. sys_chroot (ebx r))),
      (''ustat'', fixed sys_ustat),
      (''dup2'', performs (\<lambda>r. sys_dup2 (unat (ebx r)) (unat (ecx r)))),
      (''getppid'', reads sys_getppid),
      (''getpgrp'', reads sys_getpgrp),
      (''setsid'', returns (\<lambda>r. sys_setsid)),
      (''sigaction'', performs (\<lambda>r. sys_sigaction (sint (ebx r)) (ecx r) (edx r))),
      (''sgetmask'', reads sys_sgetmask),
      (''ssetmask'', returns (\<lambda>r. sys_ssetmask (sint (ebx r)))),
      (''setreuid'', returns (\<lambda>r. sys_setreuid (sint (ebx r)) (sint (ecx r)))),
      (''setregid'', returns (\<lambda>r. sys_setregid (sint (ebx r)) (sint (ecx r))))]"

subsection \<open>include/unistd.h\<close>

definition system_call_numbers :: "(string \<times> nat) list" where
  "system_call_numbers =
     [(''setup'', 0), (''exit'', 1), (''fork'', 2), (''read'', 3), (''write'', 4), (''open'', 5),
      (''close'', 6), (''waitpid'', 7), (''creat'', 8), (''link'', 9), (''unlink'', 10), (''execve'', 11),
      (''chdir'', 12), (''time'', 13), (''mknod'', 14), (''chmod'', 15), (''chown'', 16), (''break'', 17),
      (''stat'', 18), (''lseek'', 19), (''getpid'', 20), (''mount'', 21), (''umount'', 22), (''setuid'', 23),
      (''getuid'', 24), (''stime'', 25), (''ptrace'', 26), (''alarm'', 27), (''fstat'', 28), (''pause'', 29),
      (''utime'', 30), (''stty'', 31), (''gtty'', 32), (''access'', 33), (''nice'', 34), (''ftime'', 35),
      (''sync'', 36), (''kill'', 37), (''rename'', 38), (''mkdir'', 39), (''rmdir'', 40), (''dup'', 41),
      (''pipe'', 42), (''times'', 43), (''prof'', 44), (''brk'', 45), (''setgid'', 46), (''getgid'', 47),
      (''signal'', 48), (''geteuid'', 49), (''getegid'', 50), (''acct'', 51), (''phys'', 52), (''lock'', 53),
      (''ioctl'', 54), (''fcntl'', 55), (''mpx'', 56), (''setpgid'', 57), (''ulimit'', 58), (''uname'', 59),
      (''umask'', 60), (''chroot'', 61), (''ustat'', 62), (''dup2'', 63), (''getppid'', 64), (''getpgrp'', 65),
      (''setsid'', 66), (''sigaction'', 67), (''sgetmask'', 68), (''ssetmask'', 69), (''setreuid'', 70),
      (''setregid'', 71)]"

definition NR :: "string \<Rightarrow> nat" where
  "NR name = the (map_of system_call_numbers name)"

subsection \<open>The entry and the return\<close>

text \<open>
  Before it returns to a program, but not to task 0 or to the kernel itself, \<open>ret_from_sys_call\<close> delivers the lowest
  signal that is pending and not blocked.
\<close>

definition ret_from_sys_call :: "cpu \<Rightarrow> kernel \<Rightarrow> (kernel + cpu \<times> kernel) option" where
  "ret_from_sys_call r s =
     (let pending = signal (cur s) AND NOT (blocked (cur s)) in
      if current s = 0 \<or> cs r AND 0xffff \<noteq> 0x0f \<or> ss r AND 0xffff \<noteq> 0x17 \<or> pending = 0 then Some (Inr (r, s))
      else
        let n = bsf pending;
            s = upd_cur (\<lambda>p. p\<lparr>signal := signal p AND NOT (push_bit n 1)\<rparr>) s;
            f = \<lparr>sf_eax = eax r, sf_ecx = ecx r, sf_edx = edx r, sf_eip = eip r, sf_eflags = eflags r, sf_esp = esp r\<rparr>
        in map_option (map_sum id (\<lambda>(f, s). (r\<lparr>eip := sf_eip f, esp := sf_esp f\<rparr>, s))) (do_signal (n + 1) f s))"

definition system_call :: "unseen \<Rightarrow> cpu \<Rightarrow> hd_vars \<Rightarrow> kernel \<Rightarrow> (kernel + cpu \<times> hd_vars \<times> kernel) option" where
  "system_call u r h s =
     (if eax r > 71 then Some (Inr (r\<lparr>eax := -1\<rparr>, h, s))
      else
        case snd (sys_call_table u ! unat (eax r)) r h s of
          None \<Rightarrow> None
        | Some (Ended s) \<Rightarrow> Some (Inl s)
        | Some (Returned v r h s) \<Rightarrow>
            do { s \<leftarrow> (if state (cur s) \<noteq> TASK_RUNNING \<or> counter (cur s) = 0 then schedule s else Some s);
                 map_option (map_sum id (\<lambda>(r, s). (r, h, s))) (ret_from_sys_call (r\<lparr>eax := word_of_int v\<rparr>) s) })"

text \<open>The clock interrupt; the result also has the timer functions that \<open>do_timer\<close> called.\<close>

definition timer_interrupt :: "cpu \<Rightarrow> kernel \<Rightarrow> (nat list \<times> (kernel + cpu \<times> kernel)) option" where
  "timer_interrupt r s =
     do { let s = outb 0x20 0x20 (s\<lparr>jiffies := jiffies s + 1\<rparr>);
          (fns, s) \<leftarrow> do_timer (uint (cs r AND 3)) s;
          map_option (Pair fns) (ret_from_sys_call r s) }"

subsection \<open>The coprocessor and page faults\<close>

text \<open>\<open>math_emulate\<close> of kernel/math/math_emulate.c emulates nothing: it reads two bytes of the program, steps over them and sends \<open>SIGFPE\<close>.\<close>

definition math_emulate :: "cpu \<Rightarrow> kernel \<Rightarrow> (cpu \<times> kernel) option" where
  "math_emulate r s =
     (if cs r AND 0xffff \<noteq> 0x0f then panic ''Math emulation needed in kernel''
      else Some (r\<lparr>eip := eip r + 2\<rparr>, upd_cur (\<lambda>p. p\<lparr>signal := signal p OR S_bit 8\<rparr>) s))"

definition math_error :: "kernel \<Rightarrow> kernel" where
  "math_error s =
     (case last_task_used_math s of
        None \<Rightarrow> s
      | Some t \<Rightarrow> upd_task t (\<lambda>p. p\<lparr>signal := signal p OR S_bit 8\<rparr>) s)"

definition coprocessor_error :: "cpu \<Rightarrow> kernel \<Rightarrow> (kernel + cpu \<times> kernel) option" where
  "coprocessor_error r s = ret_from_sys_call r (math_error s)"

text \<open>\<open>em\<close> is the emulation bit of \<open>cr0\<close>; the state of the coprocessor is as in \<open>Sched\<close>.\<close>

definition device_not_available ::
    "bool \<Rightarrow> 'f \<Rightarrow> 'f \<Rightarrow> (nat \<Rightarrow> 'f) \<Rightarrow> cpu \<Rightarrow> kernel \<Rightarrow> ('f \<times> (nat \<Rightarrow> 'f) \<times> (kernel + cpu \<times> kernel)) option" where
  "device_not_available em initial fpu i387 r s =
     (if em then
        do { (r, s) \<leftarrow> math_emulate r s;
             map_option (\<lambda>x. (fpu, i387, x)) (ret_from_sys_call r s) }
      else
        case math_state_restore initial fpu i387 s of (fpu, i387, s) \<Rightarrow>
          map_option (\<lambda>x. (fpu, i387, x)) (ret_from_sys_call r s))"

text \<open>mm/page.s: the lowest bit of the error code tells a missing page from a protected one.\<close>

definition page_fault :: "u32 \<Rightarrow> u32 \<Rightarrow> kernel \<Rightarrow> kernel option" where
  "page_fault error_code address s =
     (if error_code AND 1 = 0 then do_no_page address s else do_wp_page error_code address s)"

definition parallel_interrupt :: "kernel \<Rightarrow> kernel" where
  "parallel_interrupt s = outb 0x20 0x20 s"

subsection \<open>The library\<close>

text \<open>The macros \<open>_syscall0\<close> to \<open>_syscall3\<close>: what is not an argument stays in its register. The result has the new \<open>errno\<close>.\<close>

definition library_result :: "int \<Rightarrow> kernel + cpu \<times> hd_vars \<times> kernel \<Rightarrow> kernel + int \<times> int \<times> cpu \<times> hd_vars \<times> kernel" where
  "library_result errno = map_sum id (\<lambda>(r, h, s).
     let res = sint (eax r) in if res \<ge> 0 then (res, errno, r, h, s) else (-1, - res, r, h, s))"

type_synonym stub = "unseen \<Rightarrow> int \<Rightarrow> cpu \<Rightarrow> hd_vars \<Rightarrow> kernel \<Rightarrow> (kernel + int \<times> int \<times> cpu \<times> hd_vars \<times> kernel) option"

definition syscall0 :: "string \<Rightarrow> stub" where
  "syscall0 name u errno r h s =
     map_option (library_result errno) (system_call u (r\<lparr>eax := of_nat (NR name)\<rparr>) h s)"

definition syscall1 :: "string \<Rightarrow> u32 \<Rightarrow> stub" where
  "syscall1 name a u errno r h s =
     map_option (library_result errno) (system_call u (r\<lparr>eax := of_nat (NR name), ebx := a\<rparr>) h s)"

definition syscall2 :: "string \<Rightarrow> u32 \<Rightarrow> u32 \<Rightarrow> stub" where
  "syscall2 name a b u errno r h s =
     map_option (library_result errno) (system_call u (r\<lparr>eax := of_nat (NR name), ebx := a, ecx := b\<rparr>) h s)"

definition syscall3 :: "string \<Rightarrow> u32 \<Rightarrow> u32 \<Rightarrow> u32 \<Rightarrow> stub" where
  "syscall3 name a b c u errno r h s =
     map_option (library_result errno) (system_call u (r\<lparr>eax := of_nat (NR name), ebx := a, ecx := b, edx := c\<rparr>) h s)"

text \<open>The functions of lib/.\<close>

definition lib_close :: "int \<Rightarrow> stub" where
  "lib_close fd = syscall1 ''close'' (word_of_int fd)"

definition lib_dup :: "int \<Rightarrow> stub" where
  "lib_dup fd = syscall1 ''dup'' (word_of_int fd)"

definition lib_execve :: "u32 \<Rightarrow> u32 \<Rightarrow> u32 \<Rightarrow> stub" where
  "lib_execve file argv envp = syscall3 ''execve'' file argv envp"

definition lib_open :: "u32 \<Rightarrow> int \<Rightarrow> int \<Rightarrow> stub" where
  "lib_open filename flag mode u errno r h s =
     map_option (library_result errno)
       (system_call u (r\<lparr>eax := of_nat (NR ''open''), ebx := filename, ecx := word_of_int flag, edx := word_of_int mode\<rparr>) h s)"

definition lib_setsid :: stub where
  "lib_setsid = syscall0 ''setsid''"

definition lib_waitpid :: "int \<Rightarrow> u32 \<Rightarrow> int \<Rightarrow> stub" where
  "lib_waitpid child wait_stat options = syscall3 ''waitpid'' (word_of_int child) wait_stat (word_of_int options)"

definition lib_wait :: "u32 \<Rightarrow> stub" where
  "lib_wait wait_stat = lib_waitpid (-1) wait_stat 0"

definition lib_write :: "int \<Rightarrow> u32 \<Rightarrow> int \<Rightarrow> stub" where
  "lib_write fd buf n = syscall3 ''write'' (word_of_int fd) buf (word_of_int n)"

definition lib_exit :: "int \<Rightarrow> unseen \<Rightarrow> cpu \<Rightarrow> hd_vars \<Rightarrow> kernel \<Rightarrow> (kernel + cpu \<times> hd_vars \<times> kernel) option" where
  "lib_exit status u r h s = system_call u (r\<lparr>eax := of_nat (NR ''exit''), ebx := word_of_int status\<rparr>) h s"

text \<open>The calls that init/main.c compiles into itself.\<close>

definition init_fork :: stub where
  "init_fork = syscall0 ''fork''"

definition init_pause :: stub where
  "init_pause = syscall0 ''pause''"

definition init_setup :: "u32 \<Rightarrow> stub" where
  "init_setup BIOS = syscall1 ''setup'' BIOS"

definition init_sync :: stub where
  "init_sync = syscall0 ''sync''"

section \<open>From the library to the kernel and back\<close>

lemma length_sys_call_table: "length (sys_call_table u) = 72"
  by (simp add: sys_call_table_def)

text \<open>The number of a call is the place of the function of that name, and a name has one place.\<close>

lemma numbers_in_order: "system_call_numbers = zip (map fst (sys_call_table u)) [0..<72]"
  by (simp add: system_call_numbers_def sys_call_table_def upt_conv_Cons)

lemma distinct_calls: "distinct (map fst (sys_call_table u))"
  by (simp add: sys_call_table_def)

lemma table_at_number:
  assumes "(name, f) \<in> set (sys_call_table u)"
  shows "sys_call_table u ! NR name = (name, f)" "NR name < 72"
proof -
  obtain k where k: "k < 72" "sys_call_table u ! k = (name, f)"
    using assms unfolding in_set_conv_nth length_sys_call_table by blast
  have "map fst (sys_call_table u) ! k = name" using k by (simp add: length_sys_call_table)
  then have "map_of (zip (map fst (sys_call_table u)) [0..<72]) name = Some ([0..<72] ! k)"
    using map_of_zip_nth [of "map fst (sys_call_table u)" "[0..<72]" k] distinct_calls k(1) by (simp add: length_sys_call_table)
  then have "NR name = k" unfolding NR_def numbers_in_order [of u, symmetric] using k(1) by simp
  then show "sys_call_table u ! NR name = (name, f)" "NR name < 72" using k by simp_all
qed

lemma ret_undisturbed:
  "current s = 0 \<or> signal (cur s) AND NOT (blocked (cur s)) = 0 \<Longrightarrow> ret_from_sys_call r s = Some (Inr (r, s))"
  by (auto simp: ret_from_sys_call_def Let_def)

lemma system_call_returns:
  assumes "(name, f) \<in> set (sys_call_table u)" "eax r = of_nat (NR name)"
    "f r h s = Some (Returned v r' h' t)" "state (cur t) = TASK_RUNNING" "counter (cur t) \<noteq> 0"
  shows "system_call u r h s = map_option (map_sum id (\<lambda>(r, s). (r, h', s))) (ret_from_sys_call (r'\<lparr>eax := word_of_int v\<rparr>) t)"
proof -
  note nr = table_at_number [OF assms(1)]
  have "unat (eax r) = NR name" using nr(2) assms(2) by (simp add: unat_of_nat)
  moreover from this have "\<not> eax r > 71" using nr(2) by (simp add: word_less_nat_alt)
  ultimately show ?thesis using assms nr(1) by (simp add: system_call_def)
qed

text \<open>
  C30: A library call reaches the function of its name and hands its result to the program. For every call of
  include/linux/sys.h, if the function of that name returns a value on the arguments in the registers, and the process may go
  on - it is runnable, has time left and no signal to take - then the macro with the number of include/unistd.h gives exactly the
  state that the function left, the value itself when it is not negative, and otherwise -1 and the negated value as \<open>errno\<close>.
\<close>

theorem library_call_result:
  assumes "(name, f) \<in> set (sys_call_table u)"
    "f (r\<lparr>eax := of_nat (NR name), ebx := a, ecx := b, edx := c\<rparr>) h s = Some (Returned v r' h' t)"
    "- (2 ^ 31) \<le> v" "v < 2 ^ 31" "state (cur t) = TASK_RUNNING" "counter (cur t) \<noteq> 0"
    "current t = 0 \<or> signal (cur t) AND NOT (blocked (cur t)) = 0"
  shows "syscall3 name a b c u errno r h s =
    Some (Inr (if v \<ge> 0 then (v, errno, r'\<lparr>eax := word_of_int v\<rparr>, h', t) else (-1, - v, r'\<lparr>eax := word_of_int v\<rparr>, h', t)))"
proof -
  have "sint (word_of_int v :: u32) = v" using assms(3,4) by (simp add: signed_of_int signed_take_bit_int_eq_self)
  moreover have "system_call u (r\<lparr>eax := of_nat (NR name), ebx := a, ecx := b, edx := c\<rparr>) h s =
      Some (Inr (r'\<lparr>eax := word_of_int v\<rparr>, h', t))"
    using system_call_returns [OF assms(1) _ assms(2,5,6)] ret_undisturbed [OF assms(7)] by simp
  ultimately show ?thesis by (simp add: syscall3_def library_result_def Let_def)
qed

theorem library_call_result_witness:
  "\<forall>u h. syscall3 ''ptrace'' 1 2 3 u 0 (regs.extend zero_regs \<lparr>eax = 7\<rparr>) h boot_kernel =
     Some (Inr (-1, 38, (regs.extend zero_regs \<lparr>eax = 7\<rparr>)\<lparr>eax := -38, ebx := 1, ecx := 2, edx := 3\<rparr>, h, boot_kernel))"
proof (intro allI)
  fix u h
  let ?r = "regs.extend zero_regs \<lparr>eax = 7\<rparr>"
  have f: "(''ptrace'', fixed (-38)) \<in> set (sys_call_table u)" by (simp add: sys_call_table_def sys_ptrace_def)
  have "fixed (-38) (?r\<lparr>eax := of_nat (NR ''ptrace''), ebx := 1, ecx := 2, edx := 3\<rparr>) h boot_kernel =
      Some (Returned (-38) (?r\<lparr>eax := of_nat (NR ''ptrace''), ebx := 1, ecx := 2, edx := 3\<rparr>) h boot_kernel)"
    by (simp add: fixed_def)
  then show "syscall3 ''ptrace'' 1 2 3 u 0 ?r h boot_kernel =
      Some (Inr (-1, 38, ?r\<lparr>eax := -38, ebx := 1, ecx := 2, edx := 3\<rparr>, h, boot_kernel))"
    using library_call_result [OF f, where r = ?r and a = 1 and b = 2 and c = 3 and v = "-38" and t = boot_kernel and h = h and h' = h]
    by (simp add: init_task_def)
qed

text \<open>A number that is not in the table changes nothing but \<open>eax\<close>.\<close>

lemma bad_sys_call: "72 \<le> unat (eax r) \<Longrightarrow> system_call u r h s = Some (Inr (r\<lparr>eax := -1\<rparr>, h, s))"
  by (simp add: system_call_def word_less_nat_alt)

end
