(* ===== verification/Init_Process.thy ===== *)
theory Init_Process
  imports System_Call
begin

text \<open>
  \<open>init\<close> of init/main.c, the first process that runs as a program. All it does is make system calls, so it is modelled as a
  machine that says which call comes next and moves on by the call's result. The result of \<open>wait\<close> comes with the status
  that it stores in \<open>i\<close>.
\<close>

section \<open>Definitions\<close>

text \<open>\<open>printf\<close> formats into \<open>printbuf\<close>, which has 1024 bytes in the memory of the process, and writes it to descriptor 1.\<close>

definition printf :: "u32 \<Rightarrow> u8 list \<Rightarrow> vararg list \<Rightarrow> stub" where
  "printf printbuf fmt args u errno r h s =
     do { (txt, _) \<leftarrow> vsprintf fmt args;
          if length txt \<ge> 1024 then None
          else
            map_option (map_sum id (\<lambda>(_, rest). (int (length txt), rest)))
              (lib_write 1 printbuf (int (length txt)) u errno r h (put_user_bytes (txt @ [0]) printbuf s)) }"

datatype call =
    Setup
  | Open string int
  | Dup nat
  | Printf string "int list"
  | Fork
  | Close nat
  | Execve string "string list" "string list"
  | Exit int
  | Wait
  | Setsid
  | Sync

text \<open>The places in the code between two calls, with the local variables that are still needed.\<close>

datatype place =
    At_setup | At_open | At_dup1 | At_dup2 | At_buffers | At_memory | At_fork
  | Rc_close | Rc_open | Rc_exec | Rc_exit int
  | Rc_wait int
  | Sh_fork | Sh_failed
  | Sh_close0 | Sh_close1 | Sh_close2 | Sh_setsid | Sh_open | Sh_dup1 | Sh_dup2 | Sh_exec | Sh_exit int
  | Sh_wait int | Sh_died int int | Sh_sync
  | Gone

definition argv_rc :: "string list" where "argv_rc = [''/bin/sh'']"
definition envp_rc :: "string list" where "envp_rc = [''HOME=/'']"
definition argv :: "string list" where "argv = [''-/bin/sh'']"
definition envp :: "string list" where "envp = [''HOME=/usr/root'']"

definition O_RDONLY :: int where "O_RDONLY = 0"
definition O_RDWR :: int where "O_RDWR = 2"

text \<open>\<open>nbuf\<close> and \<open>mem\<close> are what the two messages print.\<close>

fun init_call :: "int \<Rightarrow> int \<Rightarrow> place \<Rightarrow> call" where
  "init_call nbuf mem At_setup = Setup"
| "init_call nbuf mem At_open = Open ''/dev/tty0'' O_RDWR"
| "init_call nbuf mem At_dup1 = Dup 0"
| "init_call nbuf mem At_dup2 = Dup 0"
| "init_call nbuf mem At_buffers =
     Printf (''%d buffers = %d bytes buffer space'' @ [CHR 0x0A, CHR 0x0D]) [nbuf, nbuf * 1024]"
| "init_call nbuf mem At_memory = Printf (''Free mem: %d bytes'' @ [CHR 0x0A, CHR 0x0D]) [mem]"
| "init_call nbuf mem At_fork = Fork"
| "init_call nbuf mem Rc_close = Close 0"
| "init_call nbuf mem Rc_open = Open ''/etc/rc'' O_RDONLY"
| "init_call nbuf mem Rc_exec = Execve ''/bin/sh'' argv_rc envp_rc"
| "init_call nbuf mem (Rc_exit code) = Exit code"
| "init_call nbuf mem (Rc_wait child) = Wait"
| "init_call nbuf mem Sh_fork = Fork"
| "init_call nbuf mem Sh_failed = Printf (''Fork failed in init'' @ [CHR 0x0D, CHR 0x0A]) []"
| "init_call nbuf mem Sh_close0 = Close 0"
| "init_call nbuf mem Sh_close1 = Close 1"
| "init_call nbuf mem Sh_close2 = Close 2"
| "init_call nbuf mem Sh_setsid = Setsid"
| "init_call nbuf mem Sh_open = Open ''/dev/tty0'' O_RDWR"
| "init_call nbuf mem Sh_dup1 = Dup 0"
| "init_call nbuf mem Sh_dup2 = Dup 0"
| "init_call nbuf mem Sh_exec = Execve ''/bin/sh'' argv envp"
| "init_call nbuf mem (Sh_exit code) = Exit code"
| "init_call nbuf mem (Sh_wait child) = Wait"
| "init_call nbuf mem (Sh_died child i) =
     Printf ([CHR 0x0A, CHR 0x0D] @ ''child %d died with code %04x'' @ [CHR 0x0A, CHR 0x0D]) [child, i]"
| "init_call nbuf mem Sh_sync = Sync"
| "init_call nbuf mem Gone = Exit 0"

fun init_after :: "place \<Rightarrow> int \<Rightarrow> int \<Rightarrow> place" where
  "init_after At_setup res i = At_open"
| "init_after At_open res i = At_dup1"
| "init_after At_dup1 res i = At_dup2"
| "init_after At_dup2 res i = At_buffers"
| "init_after At_buffers res i = At_memory"
| "init_after At_memory res i = At_fork"
| "init_after At_fork res i = (if res = 0 then Rc_close else if res > 0 then Rc_wait res else Sh_fork)"
| "init_after Rc_close res i = Rc_open"
| "init_after Rc_open res i = (if res \<noteq> 0 then Rc_exit 1 else Rc_exec)"
| "init_after Rc_exec res i = Rc_exit 2"
| "init_after (Rc_exit code) res i = Gone"
| "init_after (Rc_wait child) res i = (if child \<noteq> res then Rc_wait child else Sh_fork)"
| "init_after Sh_fork res i = (if res < 0 then Sh_failed else if res = 0 then Sh_close0 else Sh_wait res)"
| "init_after Sh_failed res i = Sh_fork"
| "init_after Sh_close0 res i = Sh_close1"
| "init_after Sh_close1 res i = Sh_close2"
| "init_after Sh_close2 res i = Sh_setsid"
| "init_after Sh_setsid res i = Sh_open"
| "init_after Sh_open res i = Sh_dup1"
| "init_after Sh_dup1 res i = Sh_dup2"
| "init_after Sh_dup2 res i = Sh_exec"
| "init_after Sh_exec res i = Sh_exit res"
| "init_after (Sh_exit code) res i = Gone"
| "init_after (Sh_wait child) res i = (if child = res then Sh_died child i else Sh_wait child)"
| "init_after (Sh_died child code) res i = Sh_sync"
| "init_after Sh_sync res i = Sh_fork"
| "init_after Gone res i = Gone"

text \<open>
  The runs of the machine: a list of calls with their results, from the first to the last. A successful \<open>execve\<close> does not
  come back, and \<open>_exit\<close> neither.
\<close>

inductive init_step :: "int \<Rightarrow> int \<Rightarrow> place \<Rightarrow> call \<times> int \<times> int \<Rightarrow> place \<Rightarrow> bool" for nbuf mem where
  step: "p \<noteq> Gone \<Longrightarrow> init_step nbuf mem p (init_call nbuf mem p, res, i) (init_after p res i)"

inductive init_run :: "int \<Rightarrow> int \<Rightarrow> place \<Rightarrow> (call \<times> int \<times> int) list \<Rightarrow> place \<Rightarrow> bool" for nbuf mem where
  here: "init_run nbuf mem p [] p"
| more: "init_run nbuf mem p tr q \<Longrightarrow> init_step nbuf mem q e r \<Longrightarrow> init_run nbuf mem p (tr @ [e]) r"

inductive_cases init_stepE: "init_step nbuf mem p e q"

section \<open>One shell at a time\<close>

text \<open>
  The children that a process has forked and not yet waited for, by the results of its \<open>fork\<close> and \<open>wait\<close>. Process 1 can
  have other children too: \<open>do_exit\<close> (kernel/exit.c) gives it those of a process that ends, and its \<open>wait\<close> reports them.
\<close>

fun track :: "call \<times> int \<times> int \<Rightarrow> int set \<Rightarrow> int set" where
  "track (Fork, res, i) ps = (if res > 0 then insert res ps else ps)"
| "track (Wait, res, i) ps = ps - {res}"
| "track (c, res, i) ps = ps"

definition forked :: "(call \<times> int \<times> int) list \<Rightarrow> int set" where
  "forked tr = fold track tr {}"

text \<open>The places of process 1 itself, and the child that each of them waits for.\<close>

fun waits_for :: "place \<Rightarrow> int set" where
  "waits_for (Rc_wait child) = {child}"
| "waits_for (Sh_wait child) = {child}"
| "waits_for _ = {}"

fun parent :: "place \<Rightarrow> bool" where
  "parent (Rc_wait child) \<longleftrightarrow> True"
| "parent (Sh_wait child) \<longleftrightarrow> True"
| "parent (Sh_died child i) \<longleftrightarrow> True"
| "parent (Rc_exit code) \<longleftrightarrow> False"
| "parent (Sh_exit code) \<longleftrightarrow> False"
| "parent p \<longleftrightarrow> p \<in> {At_setup, At_open, At_dup1, At_dup2, At_buffers, At_memory, At_fork, Sh_fork, Sh_failed, Sh_sync}"

lemma parent_step:
  assumes "init_step nr free p e q" "parent p" "\<And>i. e \<noteq> (Fork, 0, i)"
  shows "parent q \<and> waits_for q = track e (waits_for p) \<and> (\<forall>code. fst e \<noteq> Exit code)"
  using assms by (elim init_stepE, cases p) auto

text \<open>
  C31: Process 1 never ends, and of the children that it forks itself it has at most one at a time. In every run of \<open>init\<close> as the
  parent of all its forks it never calls \<open>_exit\<close>; the children that it has forked and not yet waited for are exactly the one it
  is waiting for now; so it starts a shell only when the one before, or the one that runs /etc/rc, is gone. The end of any other
  child, one that it inherited, leaves it waiting for the same one.
\<close>

theorem init_one_shell:
  assumes "init_run nr free At_setup tr p" "\<forall>e\<in>set tr. \<forall>i. e \<noteq> (Fork, 0, i)"
  shows "(\<forall>e\<in>set tr. \<forall>code. fst e \<noteq> Exit code) \<and> forked tr = waits_for p \<and> card (forked tr) \<le> 1 \<and>
    (init_call nr free p = Fork \<longrightarrow> forked tr = {}) \<and>
    (\<forall>other i. init_call nr free p = Wait \<and> other \<notin> forked tr \<longrightarrow> init_after p other i = p)"
proof -
  have "(\<forall>e\<in>set tr. \<forall>code. fst e \<noteq> Exit code) \<and> parent p \<and> forked tr = waits_for p"
    using assms
  proof (induction At_setup tr p rule: init_run.induct)
    case here
    then show ?case by (simp add: forked_def)
  next
    case (more tr q e r)
    then show ?case using parent_step [OF more.hyps(3)] by (auto simp: forked_def)
  qed
  then show ?thesis by (cases p) auto
qed

text \<open>The run that a list of results gives.\<close>

fun init_trace :: "int \<Rightarrow> int \<Rightarrow> place \<Rightarrow> (int \<times> int) list \<Rightarrow> (call \<times> int \<times> int) list" where
  "init_trace nbuf mem p [] = []"
| "init_trace nbuf mem p ((res, i) # rs) = (init_call nbuf mem p, res, i) # init_trace nbuf mem (init_after p res i) rs"

fun init_place :: "place \<Rightarrow> (int \<times> int) list \<Rightarrow> place" where
  "init_place p [] = p"
| "init_place p ((res, i) # rs) = init_place (init_after p res i) rs"

lemma init_trace_run:
  assumes "init_place p rs \<noteq> Gone" "init_run nbuf mem p0 tr p"
  shows "init_run nbuf mem p0 (tr @ init_trace nbuf mem p rs) (init_place p rs)"
  using assms
proof (induction rs arbitrary: p tr)
  case (Cons e rs)
  obtain res i where e: "e = (res, i)" by (cases e)
  have gone: "init_place Gone rs = Gone" for rs by (induction rs) auto
  then have "p \<noteq> Gone" using Cons.prems(1) e by auto
  then have "init_run nbuf mem p0 (tr @ [(init_call nbuf mem p, res, i)]) (init_after p res i)"
    using Cons.prems(2) by (blast intro: init_run.more init_step.step)
  then show ?case using Cons.IH [of "init_after p res i" "tr @ [(init_call nbuf mem p, res, i)]"] Cons.prems(1) e by simp
qed simp

text \<open>
  The shell that runs /etc/rc is process 2, and before its end that of the inherited process 7 is reported; the login shell is
  process 3, whose end \<open>init\<close> then sees.
\<close>

theorem init_one_shell_witness:
  "\<exists>tr. init_run 64 1000 At_setup tr (Sh_wait 4) \<and> forked tr = {4} \<and> (Wait, 3, 256) \<in> set tr"
proof -
  let ?rs = "[(0, 0), (0, 0), (1, 0), (2, 0), (40, 0), (20, 0), (2, 0), (7, 0), (2, 0), (3, 0), (3, 256), (30, 0), (0, 0), (-11, 0), (20, 0), (4, 0)]"
  have run: "init_run 64 1000 At_setup ([] @ init_trace 64 1000 At_setup ?rs) (init_place At_setup ?rs)"
    by (rule init_trace_run) (simp_all add: init_run.here)
  have "init_place At_setup ?rs = Sh_wait 4" by simp
  moreover have "\<forall>e\<in>set ([] @ init_trace 64 1000 At_setup ?rs). \<forall>i. e \<noteq> (Fork, 0, i)" by simp
  moreover have "(Wait, 3, 256) \<in> set ([] @ init_trace 64 1000 At_setup ?rs)" by simp
  ultimately show ?thesis using init_one_shell [OF run] run by (metis waits_for.simps(2))
qed

text \<open>A shell's process makes the calls that give it a terminal, then becomes the shell, and ends if it cannot.\<close>

lemma shell_calls:
  "init_trace nbuf mem Sh_fork ((0, i0) # (a, i1) # (b, i2) # (c, i3) # (d, i4) # (e, i5) # (f, i6) # (g, i7) # (res, i8) # (x, i9) # []) =
     [(Fork, 0, i0), (Close 0, a, i1), (Close 1, b, i2), (Close 2, c, i3), (Setsid, d, i4), (Open ''/dev/tty0'' O_RDWR, e, i5),
      (Dup 0, f, i6), (Dup 0, g, i7), (Execve ''/bin/sh'' argv envp, res, i8), (Exit res, x, i9)]"
  by simp

end
