(* ===== verification/Ctype.thy ===== *)
theory Ctype
  imports Tty_Io
begin

text \<open>
  include/ctype.h and lib/ctype.c: the table of character classes, from EOF at index 0, and the macros that look into it. The
  terminal code uses some of them; \<open>Tty_Io\<close> has those as ranges of bytes.
\<close>

section \<open>Definitions\<close>

abbreviation "cU \<equiv> (0x01 :: u8)"
abbreviation "cL \<equiv> (0x02 :: u8)"
abbreviation "cD \<equiv> (0x04 :: u8)"
abbreviation "cC \<equiv> (0x08 :: u8)"
abbreviation "cP \<equiv> (0x10 :: u8)"
abbreviation "cS \<equiv> (0x20 :: u8)"
abbreviation "cX \<equiv> (0x40 :: u8)"
abbreviation "cSP \<equiv> (0x80 :: u8)"

text \<open>The table, eight or sixteen classes to a line as in the code; the classes of a byte are combined with \<open>OR\<close>.\<close>

definition ctype_table :: "u8 list" where
  "ctype_table =
     0 #
     [cC, cC, cC, cC, cC, cC, cC, cC] @
     [cC, cC OR cS, cC OR cS, cC OR cS, cC OR cS, cC OR cS, cC, cC] @
     [cC, cC, cC, cC, cC, cC, cC, cC] @
     [cC, cC, cC, cC, cC, cC, cC, cC] @
     [cS OR cSP, cP, cP, cP, cP, cP, cP, cP] @
     [cP, cP, cP, cP, cP, cP, cP, cP] @
     [cD, cD, cD, cD, cD, cD, cD, cD] @
     [cD, cD, cP, cP, cP, cP, cP, cP] @
     [cP, cU OR cX, cU OR cX, cU OR cX, cU OR cX, cU OR cX, cU OR cX, cU] @
     [cU, cU, cU, cU, cU, cU, cU, cU] @
     [cU, cU, cU, cU, cU, cU, cU, cU] @
     [cU, cU, cU, cP, cP, cP, cP, cP] @
     [cP, cL OR cX, cL OR cX, cL OR cX, cL OR cX, cL OR cX, cL OR cX, cL] @
     [cL, cL, cL, cL, cL, cL, cL, cL] @
     [cL, cL, cL, cL, cL, cL, cL, cL] @
     [cL, cL, cL, cP, cP, cP, cP, cC] @
     replicate 128 0"

text \<open>\<open>(_ctype+1)[c]\<close>, for EOF, which is -1, and the bytes.\<close>

definition class_of :: "int \<Rightarrow> u8" where
  "class_of c = ctype_table ! nat (c + 1)"

definition c_isalnum :: "int \<Rightarrow> bool" where "c_isalnum c \<longleftrightarrow> class_of c AND (cU OR cL OR cD) \<noteq> 0"
definition c_isalpha :: "int \<Rightarrow> bool" where "c_isalpha c \<longleftrightarrow> class_of c AND (cU OR cL) \<noteq> 0"
definition c_iscntrl :: "int \<Rightarrow> bool" where "c_iscntrl c \<longleftrightarrow> class_of c AND cC \<noteq> 0"
definition c_isdigit :: "int \<Rightarrow> bool" where "c_isdigit c \<longleftrightarrow> class_of c AND cD \<noteq> 0"
definition c_isgraph :: "int \<Rightarrow> bool" where "c_isgraph c \<longleftrightarrow> class_of c AND (cP OR cU OR cL OR cD) \<noteq> 0"
definition c_islower :: "int \<Rightarrow> bool" where "c_islower c \<longleftrightarrow> class_of c AND cL \<noteq> 0"
definition c_isprint :: "int \<Rightarrow> bool" where "c_isprint c \<longleftrightarrow> class_of c AND (cP OR cU OR cL OR cD OR cSP) \<noteq> 0"
definition c_ispunct :: "int \<Rightarrow> bool" where "c_ispunct c \<longleftrightarrow> class_of c AND cP \<noteq> 0"
definition c_isspace :: "int \<Rightarrow> bool" where "c_isspace c \<longleftrightarrow> class_of c AND cS \<noteq> 0"
definition c_isupper :: "int \<Rightarrow> bool" where "c_isupper c \<longleftrightarrow> class_of c AND cU \<noteq> 0"
definition c_isxdigit :: "int \<Rightarrow> bool" where "c_isxdigit c \<longleftrightarrow> class_of c AND (cD OR cX) \<noteq> 0"

definition c_isascii :: "int \<Rightarrow> bool" where "c_isascii c \<longleftrightarrow> (word_of_int c :: u32) \<le> 0x7f"
definition c_toascii :: "int \<Rightarrow> int" where "c_toascii c = uint ((word_of_int c :: u32) AND 0x7f)"

text \<open>The character goes through \<open>_ctmp\<close>, a signed char.\<close>

definition c_tolower :: "int \<Rightarrow> int" where
  "c_tolower c = (let ctmp = sint (word_of_int c :: u8) in if c_isupper ctmp then ctmp - (65 - 97) else ctmp)"

definition c_toupper :: "int \<Rightarrow> int" where
  "c_toupper c = (let ctmp = sint (word_of_int c :: u8) in if c_islower ctmp then ctmp - (97 - 65) else ctmp)"

section \<open>The classes are ranges\<close>

lemma length_ctype_table: "length ctype_table = 257"
  by (simp add: ctype_table_def)

definition is_class :: "u8 \<Rightarrow> int list" where
  "is_class k = filter (\<lambda>c. class_of c AND k \<noteq> 0) [-1..255]"

lemma classes:
  "is_class cU = [65..90]" "is_class cL = [97..122]" "is_class cD = [48..57]" "is_class cS = [9..13] @ [32]" "is_class cX = [65..70] @ [97..102]"
  by code_simp+

lemma class_range: "-1 \<le> c \<Longrightarrow> c \<le> 255 \<Longrightarrow> class_of c AND k \<noteq> 0 \<longleftrightarrow> c \<in> set (is_class k)"
  by (simp add: is_class_def)

text \<open>
  On EOF and all bytes the macros are the ranges of ASCII, so on the characters that the terminal code tests they are the
  functions it is modelled with.
\<close>

lemma ctype_ranges:
  assumes "-1 \<le> c" "c \<le> 255"
  shows "c_isupper c \<longleftrightarrow> 65 \<le> c \<and> c \<le> 90" "c_islower c \<longleftrightarrow> 97 \<le> c \<and> c \<le> 122" "c_isdigit c \<longleftrightarrow> 48 \<le> c \<and> c \<le> 57"
    "c_isspace c \<longleftrightarrow> 9 \<le> c \<and> c \<le> 13 \<or> c = 32"
  using assms by (auto simp: c_isupper_def c_islower_def c_isdigit_def c_isspace_def class_range classes simp del: upto_rec_numeral)

lemma ctype_joins:
  assumes "-1 \<le> c" "c \<le> 255"
  shows "c_isalpha c \<longleftrightarrow> c_isupper c \<or> c_islower c" "c_isalnum c \<longleftrightarrow> c_isalpha c \<or> c_isdigit c"
    "c_isxdigit c \<longleftrightarrow> c_isdigit c \<or> 65 \<le> c \<and> c \<le> 70 \<or> 97 \<le> c \<and> c \<le> 102"
proof -
  have or: "x AND (j OR k) \<noteq> 0 \<longleftrightarrow> x AND j \<noteq> 0 \<or> x AND k \<noteq> 0" for x j k :: u8
    by (simp add: bit.conj_disj_distrib or_eq_0_iff)
  show "c_isalpha c \<longleftrightarrow> c_isupper c \<or> c_islower c" "c_isalnum c \<longleftrightarrow> c_isalpha c \<or> c_isdigit c"
    unfolding c_isalpha_def c_isalnum_def c_isupper_def c_islower_def c_isdigit_def or by blast+
  have "class_of c AND cX \<noteq> 0 \<longleftrightarrow> 65 \<le> c \<and> c \<le> 70 \<or> 97 \<le> c \<and> c \<le> 102" using assms by (auto simp: class_range classes simp del: upto_rec_numeral)
  then show "c_isxdigit c \<longleftrightarrow> c_isdigit c \<or> 65 \<le> c \<and> c \<le> 70 \<or> 97 \<le> c \<and> c \<le> 102"
    unfolding c_isxdigit_def c_isdigit_def or by blast
qed

lemma terminal_ctype:
  assumes "(c :: u8) < 128"
  shows "c_isupper (uint c) = isupper c" "c_islower (uint c) = islower c"
    "c_tolower (uint c) = uint (tolower c)" "c_toupper (uint c) = uint (toupper c)"
proof -
  have c: "0 \<le> uint c" "uint c < 128" using assms by (simp_all add: word_less_def)
  have "- 128 \<le> uint c" using c(1) by linarith
  then have s: "sint (word_of_int (uint c) :: u8) = uint c" using c(2) by (simp add: sint_uint signed_take_bit_int_eq_self)
  show up: "c_isupper (uint c) = isupper c" and low: "c_islower (uint c) = islower c"
    using ctype_ranges [of "uint c"] c by (simp_all only: isupper_def islower_def word_le_def) auto
  show "c_tolower (uint c) = uint (tolower c)" "c_toupper (uint c) = uint (toupper c)"
    unfolding c_tolower_def c_toupper_def tolower_def toupper_def s up low Let_def
    using c by (auto simp: isupper_def islower_def word_le_def uint_word_ariths)
qed

end
