(* ===== verification/Spec2Isabelle.thy ===== *)
theory Spec2Isabelle
  imports Buffer_Cache Fork Sys Dir_Calls Signals Mount Exec Tty_Line Malloc Strings Init_Process Ctype
begin

text \<open>
  The Linux 0.11 kernel: a model of its C code and the theorems about it.

  \<^bold>\<open>The program.\<close> \<open>main\<close> (init/main.c) sets up memory, traps, devices and the buffer cache and turns into task 0, whose
  child runs \<open>init\<close>. From then on the kernel runs only when a program makes a system call (kernel/system_call.s, table in
  include/linux/sys.h) or an interrupt comes. The calls on files go through path names (fs/namei.c) to inodes (fs/inode.c), from
  there to blocks (fs/bitmap.c, fs/truncate.c) and through the buffer cache (fs/buffer.c) to the requests of a block device
  (kernel/blk_drv/), or to a pipe (fs/pipe.c) or a terminal (kernel/chr_drv/). Whoever has to wait sleeps (kernel/sched.c) and the
  scheduler picks another task. \<open>fork\<close>, \<open>exec\<close> and \<open>exit\<close> work on the tasks and on their memory (mm/memory.c).

  \<^bold>\<open>How it is modelled.\<close> A routine is a function from its arguments and the state to its result and the new state. The state is
  the record \<open>kernel\<close> of \<open>Kernel_State\<close>, with one field for each global variable of the code; the fields that another process may
  change while one sleeps form the record \<open>tables\<close> that it extends. Static variables of one file that nothing else sees are a
  record of their own: \<open>hd_vars\<close>, \<open>fd_vars\<close>, \<open>pool\<close>. A structure is a record with the fields of the C code, a table a function from
  indices, a pointer into a table an index or \<open>None\<close>, a pointer into memory a 32-bit word. Unsigned fields and addresses keep their
  width as words; C's \<open>int\<close> is \<open>int\<close>, where the code keeps it far from overflow, with \<open>sint\<close> and \<open>word_of_int\<close> where it meets a
  register or memory. A routine that may not come back has an \<open>option\<close> result: \<open>None\<close> stands for \<open>panic\<close>, for a null pointer that is
  followed, and for a wait that nothing ends. So every theorem that says \<open>= Some\<close> also says that the routine returns.

  Sleeping is where other processes run. The field \<open>wakes\<close> is the sequence of the tables that the process will find each time it
  is resumed (\<open>resume\<close> in \<open>Sched\<close>): all interleavings are covered, since a theorem holds for every such sequence, or states what it
  needs of it. In the same way \<open>inputs\<close> are the bytes that the ports deliver, and \<open>outputs\<close> records what was written to them. The
  user's memory is \<open>user\<close>, physical memory \<open>hw32\<close> and \<open>hw8\<close>.

  Loops over a fixed range are folds (\<open>for_each\<close> in \<open>Prelude\<close> when the body may not return), loops that the data bounds are
  \<open>fun\<close> or \<open>function\<close> with a measure, and loops that need not end are \<open>partial_function\<close>, so that not returning is \<open>None\<close>. Two
  recursions have a bound: \<open>ready_loop\<close> in \<open>Hd\<close> reads the status at most 99999 times, as the code does, and \<open>run_timers\<close> in
  \<open>Sched\<close> gets one step more than there are timers, since each step takes one off the list.

  \<^bold>\<open>The theories.\<close>
  \<^item> \<open>Prelude\<close>: machine types, results, loops, accessors for structures inside disk blocks, facts about words.
  \<^item> \<open>Kernel_State\<close>: the structures and variables (include/linux/sched.h, fs.h, tty.h, mm.h, include/signal.h, termios.h,
    kernel/blk_drv/blk.h), ports, gates, the state at boot, and how the access functions commute. \<open>User_Memory\<close>: longs in the user's
    memory (include/asm/segment.h).
  \<^item> \<open>Sched\<close> (kernel/sched.c): the scheduler's loop ends and picks the runnable task with the most time left; sleeping consumes
    one wake-up; the timer list refines a list of delays, except that \<open>add_timer\<close> delays later timers.
  \<^item> \<open>Memory\<close> (mm/memory.c), \<open>Demand_Load\<close> (\<open>do_no_page\<close>), \<open>Malloc\<close> (lib/malloc.c): the page allocator with its reference counts,
    whose contract is a locale (below); page tables, copy on write, sharing at fork, pages that
    start out empty; and the pool of small objects built on the allocator, with an invariant that both operations keep.
  \<^item> \<open>Fork\<close> (kernel/fork.c), \<open>Exit\<close> (kernel/exit.c), \<open>Signals\<close> (kernel/signal.c), \<open>Sys\<close> (kernel/sys.c), \<open>Exec\<close> (fs/exec.c): the
    child that \<open>fork\<close> builds, fresh process numbers, who may signal whom, what \<open>waitpid\<close> reports, the frame of a signal handler, who
    may become whom, and the argument tables of a new program.
  \<^item> \<open>Block\<close> (ll_rw_blk.c, blk.h, ramdisk.c), \<open>Hd\<close> (hd.c), \<open>Floppy\<close> (floppy.c): requests, the elevator as sorted insertion, the
    RAM disk's round trip, and the two drivers: the place of a block on the disk, and a read carried out by the interrupts.
  \<^item> \<open>Buffer\<close>, \<open>Buffer_Cache\<close> (fs/buffer.c, with what it calls in fs/inode.c and fs/super.c): the cache and its invariant. Chains
    and the ring of free buffers stay well linked and no block has two buffers, in every interleaving; a cached block is found, and a
    missing one gets an unused, clean buffer.
  \<^item> \<open>Inode\<close> (fs/inode.c, bitmap.c, truncate.c), \<open>Namei\<close> and \<open>Dir_Calls\<close> (fs/namei.c), \<open>Read_Write\<close> (read_write.c, file_dev.c,
    block_dev.c, char_dev.c), \<open>File_Calls\<close> (open.c, fcntl.c, stat.c, ioctl.c), \<open>Mount\<close> (super.c, \<open>rd_load\<close>): the file system, with
    every error path; the search of a bitmap finds its lowest clear bit, and the search of a directory the first entry of a name.
    \<open>Pipe\<close> (fs/pipe.c): a pipe is a queue of bytes.
  \<^item> \<open>Tty_Queue\<close> (tty.h, serial.c), \<open>Console\<close> and \<open>Console_Screen\<close> (console.c), \<open>Tty_Io\<close> and \<open>Tty_Line\<close> (tty_io.c), \<open>Tty_Ioctl\<close>
    (tty_ioctl.c), \<open>Ctype\<close> (ctype.h, ctype.c): the ring queues deliver in order, whatever is printed the cursor stays on the screen and
    nothing but video memory is written, line editing is a function on lists, and the classes of characters are ranges.
  \<^item> \<open>Vsprintf\<close> (vsprintf.c), \<open>Traps\<close> (traps.c, printk.c), \<open>Strings\<close> (include/string.h): printed numbers read back; the gates of
    the interrupt table; and the string instructions, with the C meaning of each routine on strings in memory.
  \<^item> \<open>Start_Up\<close> (init/main.c, mktime.c), \<open>System_Call\<close> (system_call.s, sys.h, unistd.h, lib/, math_emulate.c, page.s),
    \<open>Init_Process\<close> (\<open>init\<close>): \<open>main\<close> gets through its set-up, the calendar, the way from a library function to the kernel and back,
    and process 1 as a machine that has at most one shell.

  \<^bold>\<open>Interfaces.\<close> The locales state what one component promises to another, and each is interpreted on the model's own
  definitions where they are provided:
  \<^item> \<open>page_allocator\<close> in \<open>Memory\<close>: what allocation and release promise about the count of each page; \<open>mm\<close> is the model's allocator,
    on which the page tables and \<open>Malloc\<close> rest.
  \<^item> \<open>observation\<close> in \<open>Sched\<close> and \<open>io_observation\<close> in \<open>Block\<close>: a view of the state that sleeping and a transfer leave alone unless
    the other processes change it; \<open>files\<close> is the table of open files, \<open>cache\<close> the shape of the buffer cache.
  \<^item> \<open>bounded_queue\<close> in \<open>Tty_Queue\<close>: a queue of limited room, first in, first out; \<open>ttyq\<close> is the ring of a terminal.

  \<^bold>\<open>What the properties need.\<close> Where a property has hypotheses, a witness next to it applies it to a concrete state. Most
  hypotheses are invariants of the code (the well-formedness of the allocator's map, of the cache's chains, of a ring) or say that the
  operation has room; the witnesses start from \<open>boot_kernel\<close>, the state before \<open>main\<close>.

  \<^bold>\<open>Not modelled.\<close> Processor state that no routine of the model reads: segment descriptors and the task register, the interrupt
  flag, the direction flag, the saving of registers by the assembly entries. The messages of the kernel, except those of the traps
  and of \<open>init\<close>. The keyboard and serial interrupts (keyboard.S, rs_io.s), which are assembly: what they put into a queue is part of the
  tables found after a sleep. The boot code (boot/) and the host tool tools/build.c. \<open>show_task\<close> and \<open>show_stat\<close>, which only print.
  \<open>ll_rw_block\<close> starts the RAM disk's request routine at once; those of the hard disk and the floppy are modelled in \<open>Hd\<close> and
  \<open>Floppy\<close> with their own variables, and where a request is queued for them (\<open>call_request_fn\<close> in \<open>Block\<close>) what they do until the
  transfer ends is part of the tables found after the next sleep. The counters of a task and \<open>jiffies\<close> are unbounded. The views
  \<open>hw32\<close> and \<open>hw8\<close> of physical memory are independent, the data of buffers and the user's memory are apart from both, and the
  descriptors of \<open>malloc\<close> are records and not words of their pages, so that stores through a pointer into one of them do not show in
  another.
  What lies in memory that the model does not have is a parameter: the bytes of a page that is not there, the padding of a structure,
  the state of the coprocessor.
\<close>

end
